(* ===== verification/Protocol.thy ===== *)
theory Protocol
  imports Rust_Prelude
begin

text \<open>
  The messages of \<open>proto/dispatch/worker/v1/worker.proto\<close> as the worker's code sees
  them: an embedded message is optional, an enum travels as its number and is decoded by
  \<open>try_from\<close>, everything else is a plain field. Field names carry the message's
  initials, because the messages share names such as \<open>authority\<close> and
  \<open>request_id\<close>.
\<close>

section \<open>Enums\<close>

datatype decision =
  Decision_Unspecified | Accepted | Fenced | StopRequested | AlreadyTerminal

datatype attempt_state =
  State_Unspecified | Assigned | Starting | Running | Finalizing
| Succeeded | Failed | Lost | Cancelled

datatype failure_reason =
  Reason_Unspecified | WorkerLost | RuntimeUnavailable | TransferFailed | ApplicationExit
| Oom | StartupTimeout | ExecutionTimeout | OutputInvalid | UserCancelled | FinalizationTimeout

datatype artifact_kind = Kind_Unspecified | Kind_Output | Kind_Log | Kind_Manifest

datatype log_stream = Stream_Unspecified | Stdout | Stderr

datatype no_work_reason =
  NoWork_Unspecified | QueueEmpty | NoResourceFit | ProjectQuota | SweepConcurrency
| PlacementMismatch | WorkerNotReady

fun decision_i32 :: "decision \<Rightarrow> i32" where
  "decision_i32 Decision_Unspecified = 0"
| "decision_i32 Accepted = 1"
| "decision_i32 Fenced = 2"
| "decision_i32 StopRequested = 3"
| "decision_i32 AlreadyTerminal = 4"

definition decision_of :: "i32 \<Rightarrow> decision option" where
  "decision_of n =
     (if n = 0 then Some Decision_Unspecified else if n = 1 then Some Accepted
      else if n = 2 then Some Fenced else if n = 3 then Some StopRequested
      else if n = 4 then Some AlreadyTerminal else None)"

fun state_i32 :: "attempt_state \<Rightarrow> i32" where
  "state_i32 State_Unspecified = 0"
| "state_i32 Assigned = 1"
| "state_i32 Starting = 2"
| "state_i32 Running = 3"
| "state_i32 Finalizing = 4"
| "state_i32 Succeeded = 5"
| "state_i32 Failed = 6"
| "state_i32 Lost = 7"
| "state_i32 Cancelled = 8"

definition state_of :: "i32 \<Rightarrow> attempt_state option" where
  "state_of n =
     (if n = 0 then Some State_Unspecified else if n = 1 then Some Assigned
      else if n = 2 then Some Starting else if n = 3 then Some Running
      else if n = 4 then Some Finalizing else if n = 5 then Some Succeeded
      else if n = 6 then Some Failed else if n = 7 then Some Lost
      else if n = 8 then Some Cancelled else None)"

fun reason_i32 :: "failure_reason \<Rightarrow> i32" where
  "reason_i32 Reason_Unspecified = 0"
| "reason_i32 WorkerLost = 1"
| "reason_i32 RuntimeUnavailable = 2"
| "reason_i32 TransferFailed = 3"
| "reason_i32 ApplicationExit = 4"
| "reason_i32 Oom = 5"
| "reason_i32 StartupTimeout = 6"
| "reason_i32 ExecutionTimeout = 7"
| "reason_i32 OutputInvalid = 8"
| "reason_i32 UserCancelled = 9"
| "reason_i32 FinalizationTimeout = 10"

definition reason_of :: "i32 \<Rightarrow> failure_reason option" where
  "reason_of n =
     (if n = 0 then Some Reason_Unspecified else if n = 1 then Some WorkerLost
      else if n = 2 then Some RuntimeUnavailable else if n = 3 then Some TransferFailed
      else if n = 4 then Some ApplicationExit else if n = 5 then Some Oom
      else if n = 6 then Some StartupTimeout else if n = 7 then Some ExecutionTimeout
      else if n = 8 then Some OutputInvalid else if n = 9 then Some UserCancelled
      else if n = 10 then Some FinalizationTimeout else None)"

fun kind_i32 :: "artifact_kind \<Rightarrow> i32" where
  "kind_i32 Kind_Unspecified = 0"
| "kind_i32 Kind_Output = 1"
| "kind_i32 Kind_Log = 2"
| "kind_i32 Kind_Manifest = 3"

definition kind_of :: "i32 \<Rightarrow> artifact_kind option" where
  "kind_of n =
     (if n = 0 then Some Kind_Unspecified else if n = 1 then Some Kind_Output
      else if n = 2 then Some Kind_Log else if n = 3 then Some Kind_Manifest else None)"

fun stream_i32 :: "log_stream \<Rightarrow> i32" where
  "stream_i32 Stream_Unspecified = 0"
| "stream_i32 Stdout = 1"
| "stream_i32 Stderr = 2"

definition stream_of :: "i32 \<Rightarrow> log_stream option" where
  "stream_of n =
     (if n = 0 then Some Stream_Unspecified else if n = 1 then Some Stdout
      else if n = 2 then Some Stderr else None)"

definition no_work_of :: "i32 \<Rightarrow> no_work_reason option" where
  "no_work_of n =
     (if n = 0 then Some NoWork_Unspecified else if n = 1 then Some QueueEmpty
      else if n = 2 then Some NoResourceFit else if n = 3 then Some ProjectQuota
      else if n = 4 then Some SweepConcurrency else if n = 5 then Some PlacementMismatch
      else if n = 6 then Some WorkerNotReady else None)"

lemma decision_of_i32 [simp]: "decision_of (decision_i32 d) = Some d"
  by (cases d) (simp_all add: decision_of_def)

lemma state_of_i32 [simp]: "state_of (state_i32 s) = Some s"
  by (cases s) (simp_all add: state_of_def)

lemma reason_of_i32 [simp]: "reason_of (reason_i32 r) = Some r"
  by (cases r) (simp_all add: reason_of_def)

lemma kind_of_i32 [simp]: "kind_of (kind_i32 k) = Some k"
  by (cases k) (simp_all add: kind_of_def)

lemma stream_of_i32 [simp]: "stream_of (stream_i32 s) = Some s"
  by (cases s) (simp_all add: stream_of_def)

lemma decision_of_Some_iff: "decision_of n = Some d \<longleftrightarrow> n = decision_i32 d"
  by (cases d) (auto simp: decision_of_def split: if_splits)

lemma state_of_Some_iff: "state_of n = Some s \<longleftrightarrow> n = state_i32 s"
  by (cases s) (auto simp: state_of_def split: if_splits)

lemma reason_of_Some_iff: "reason_of n = Some r \<longleftrightarrow> n = reason_i32 r"
  by (cases r) (auto simp: reason_of_def split: if_splits)

lemma stream_of_Some_iff: "stream_of n = Some s \<longleftrightarrow> n = stream_i32 s"
  by (cases s) (auto simp: stream_of_def split: if_splits)

lemma decision_i32_inject [simp]: "decision_i32 d = decision_i32 e \<longleftrightarrow> d = e"
  by (metis decision_of_i32 option.inject)

lemma state_i32_inject [simp]: "state_i32 s = state_i32 t \<longleftrightarrow> s = t"
  by (metis state_of_i32 option.inject)

lemma reason_i32_inject [simp]: "reason_i32 r = reason_i32 q \<longleftrightarrow> r = q"
  by (metis reason_of_i32 option.inject)

lemma stream_i32_inject [simp]: "stream_i32 s = stream_i32 t \<longleftrightarrow> s = t"
  by (metis stream_of_i32 option.inject)

section \<open>Messages\<close>

record worker_session =
  ws_worker_id :: string
  ws_session_id :: string

record attempt_authority =
  aa_job_id :: string
  aa_attempt_id :: string
  aa_generation :: u64
  aa_worker_id :: string
  aa_session_id :: string

record wire_resources =
  wr_cpu_millis :: u32
  wr_memory_bytes :: u64
  wr_scratch_bytes :: u64

record object_version =
  ov_key :: string
  ov_version_id :: string
  ov_size_bytes :: u64
  ov_sha256 :: string

record input_manifest =
  im_dataset_id :: string
  im_mount_path :: string
  im_archive :: "object_version option"
  im_file_manifest_json :: "u8 list"
  im_download_url :: string
  im_expires_unix_ms :: i64
  im_dataset_name :: string

record assignment =
  as_authority :: "attempt_authority option"
  as_image_digest :: string
  as_argv :: "string list"
  as_resources :: "wire_resources option"
  as_canonical_job_spec_json :: "u8 list"
  as_spec_sha256 :: string
  as_lease_duration_ms :: u64
  as_server_time_unix_ms :: i64
  as_phase_remaining_ms :: u64
  as_inputs :: "input_manifest list"

record mutation_response =
  mr_decision :: i32
  mr_state :: i32

record register_worker_request =
  rw_worker_id :: string
  rw_request_id :: string
  rw_requested_session_id :: string
  rw_protocol_version :: u32
  rw_allocatable :: "wire_resources option"
  rw_execution_slots :: u32
  rw_labels :: "(string \<times> string) list" \<comment> \<open>a map: distinct keys\<close>
  rw_capabilities :: "string list"

record register_worker_response =
  rwr_session :: "worker_session option"
  rwr_session_generation :: u64
  rwr_protocol_version :: u32
  rwr_cleanup_required :: bool

record report_phase_request =
  rp_authority :: "attempt_authority option"
  rp_event_id :: string
  rp_phase :: i32
  rp_container_id :: string
  rp_exit_code :: "i32 option"

record renew_leases_request =
  rl_session :: "worker_session option"
  rl_request_id :: string
  rl_attempts :: "attempt_authority list"

record lease_result =
  lr_authority :: "attempt_authority option"
  lr_decision :: i32
  lr_remaining_ms :: u64
  lr_server_time_unix_ms :: i64
  lr_phase_remaining_ms :: u64

record create_upload_request =
  cu_authority :: "attempt_authority option"
  cu_request_id :: string
  cu_name :: string
  cu_kind :: i32
  cu_size_bytes :: u64
  cu_sha256 :: string
  cu_part_count :: u32
  cu_part_size_bytes :: u64

record upload_part =
  up_number :: u32
  up_url :: string
  up_required_headers :: "(string \<times> string) list"
  up_expires_unix_ms :: i64

record create_upload_response =
  cr_upload_id :: string
  cr_object_key :: string
  cr_upload_url :: string
  cr_required_headers :: "(string \<times> string) list"
  cr_expires_unix_ms :: i64
  cr_parts :: "upload_part list"
  cr_part_size_bytes :: u64
  cr_part_count :: u32

record grant_upload_part_request =
  gp_authority :: "attempt_authority option"
  gp_upload_id :: string
  gp_number :: u32
  gp_sha256 :: string

record completed_part =
  cp_number :: u32
  cp_etag :: string
  cp_sha256 :: string

record finalize_upload_request =
  fu_authority :: "attempt_authority option"
  fu_request_id :: string
  fu_upload_id :: string
  fu_object :: "object_version option"
  fu_parts :: "completed_part list"

record finalize_upload_response =
  fr_artifact_id :: string
  fr_object :: "object_version option"

record log_gap =
  lg_stream :: i32
  lg_first_sequence :: u64
  lg_last_sequence :: u64

record register_log_segment_request =
  rs_authority :: "attempt_authority option"
  rs_request_id :: string
  rs_artifact_id :: string
  rs_stream :: i32
  rs_first_sequence :: u64
  rs_last_sequence :: u64
  rs_gaps :: "log_gap list"

record output_reference =
  or_name :: string
  or_artifact_id :: string

record complete_attempt_request =
  ca_authority :: "attempt_authority option"
  ca_completion_id :: string
  ca_payload_sha256 :: string
  ca_exit_code :: "i32 option"
  ca_reason :: i32
  ca_stopped :: bool
  ca_outputs :: "output_reference list"
  ca_logs_complete :: bool
  ca_gaps :: "log_gap list"
  ca_metrics_json :: "u8 list"

record complete_attempt_response =
  cc_decision :: i32
  cc_state :: i32
  cc_accepted_manifest_json :: "u8 list"

record execution_inventory =
  ei_authority :: "attempt_authority option"
  ei_container_id :: string
  ei_running :: bool

record heartbeat_request =
  hb_session :: "worker_session option"
  hb_request_id :: string
  hb_runtime_healthy :: bool
  hb_disk_pressure :: bool
  hb_reconciliation_complete :: bool
  hb_inventory :: "execution_inventory list"
  hb_report_sequence :: u64

record heartbeat_response =
  hr_drain :: bool
  hr_reconcile :: bool
  hr_stop :: "attempt_authority list"

record acquire_work_request =
  aw_session :: "worker_session option"
  aw_request_id :: string

datatype acquire_outcome =
  Outcome_Assignment assignment
| Outcome_NoWork i32
| Outcome_Rejected i32

record acquire_work_response =
  ar_outcome :: "acquire_outcome option"

record list_assignments_request =
  li_session :: "worker_session option"
  li_page_size :: u32
  li_after_job_id :: string

record list_assignments_response =
  ls_assignments :: "assignment list"
  ls_next_after_job_id :: string


text \<open>The sequence numbers a gap reports.\<close>

definition wire_points :: "log_gap \<Rightarrow> nat set" where
  "wire_points g = {unat (lg_first_sequence g)..unat (lg_last_sequence g)}"

end
