(* ===== verification/Identity.thy ===== *)
theory Identity
  imports Protocol
begin

unbundle bit_operations_syntax

text \<open>
  Identifiers: \<open>canonical_uuid\<close> and \<open>lower_hash\<close> of \<open>control/work.rs\<close>, the
  hexadecimal rendering used for digests, \<open>new_uuid\<close> of \<open>journal.rs\<close>, and the
  checks of authorities, object keys and entity tags of \<open>control/uploads.rs\<close>. The
  random generator is the argument of \<open>new_uuid\<close>: the sixteen bytes it filled in, or
  \<open>None\<close> when it failed.
\<close>

section \<open>The code\<close>

datatype journal_error =
  J_Invalid | J_Identity | J_Conflict | J_Corrupt | J_UnsafePath | J_Busy | J_Limit
| J_Poisoned | J_Random | J_Io string

datatype client_error =
  C_Configuration | C_Connection | C_Deadline | C_Response | C_Clock | C_Random
| C_Rpc nat string

definition lower_hash :: "string \<Rightarrow> bool" where
  "lower_hash value \<longleftrightarrow> length value = 64 \<and> list_all is_lower_hex value"

definition nil_uuid :: string where
  "nil_uuid = ''00000000-0000-0000-0000-000000000000''"

definition uuid_byte :: "nat \<Rightarrow> char \<Rightarrow> bool" where
  "uuid_byte n b = (if n \<in> set [8, 13, 18, 23] then b = CHR ''-'' else is_lower_hex b)"

definition canonical_uuid :: "string \<Rightarrow> bool" where
  "canonical_uuid value \<longleftrightarrow>
     length value = 36 \<and> value \<noteq> nil_uuid
     \<and> list_all (\<lambda>(n, b). uuid_byte n b) (enumerate 0 value)"

definition hex_digit :: "nat \<Rightarrow> char" where
  "hex_digit n = ''0123456789abcdef'' ! n"

definition hex_byte :: "u8 \<Rightarrow> string" where
  "hex_byte b = [hex_digit (unat b div 16), hex_digit (unat b mod 16)]"

definition hex :: "u8 list \<Rightarrow> string" where
  "hex bs = concat (map hex_byte bs)"

text \<open>Decimal numerals: \<open>Display\<close> of an unsigned integer, and reading them back.\<close>

fun decimal :: "nat \<Rightarrow> string" where
  "decimal n = (if n < 10 then [hex_digit n] else decimal (n div 10) @ [hex_digit (n mod 10)])"

declare decimal.simps [simp del]

definition digits_value :: "string \<Rightarrow> nat" where
  "digits_value s = foldl (\<lambda>acc c. acc * 10 + (of_char c - 48)) 0 s"

definition new_uuid :: "u8 list option \<Rightarrow> journal_error + string" where
  "new_uuid fill =
     and_then (ok_or J_Random fill) (\<lambda>raw.
       let bytes = raw[6 := (raw ! 6 AND 0x0f) OR 0x40];
           bytes = bytes[8 := (bytes ! 8 AND 0x3f) OR 0x80];
           h = hex bytes
       in Inr (take 8 h @ ''-'' @ take 4 (drop 8 h) @ ''-'' @ take 4 (drop 12 h) @ ''-''
               @ take 4 (drop 16 h) @ ''-'' @ drop 20 h))"

definition valid_generation :: "u64 \<Rightarrow> bool" where
  "valid_generation g \<longleftrightarrow> g \<noteq> 0 \<and> g \<le> i64_max"

definition valid_authority :: "attempt_authority \<Rightarrow> bool" where
  "valid_authority a \<longleftrightarrow>
     list_all canonical_uuid [aa_job_id a, aa_attempt_id a, aa_worker_id a, aa_session_id a]
     \<and> 0 < aa_generation a \<and> aa_generation a \<le> i64_max"

definition valid_etag :: "string \<Rightarrow> bool" where
  "valid_etag value \<longleftrightarrow>
     value \<noteq> [] \<and> length value \<le> 1024
     \<and> list_all (\<lambda>b. 33 \<le> (of_char b :: nat) \<and> (of_char b :: nat) \<le> 126) value"

definition valid_version :: "string \<Rightarrow> bool" where
  "valid_version version \<longleftrightarrow> version \<noteq> ''null'' \<and> valid_etag version"

definition scoped_key :: "string \<Rightarrow> attempt_authority \<Rightarrow> string \<Rightarrow> bool" where
  "scoped_key key a upload =
     (let parts = split_on (CHR ''/'') key
      in length parts = 8
         \<and> parts ! 0 = ''projects'' \<and> canonical_uuid (parts ! 1)
         \<and> parts ! 2 = ''jobs'' \<and> parts ! 3 = aa_job_id a
         \<and> parts ! 4 = ''attempts'' \<and> parts ! 5 = aa_attempt_id a
         \<and> parts ! 6 = ''uploads'' \<and> parts ! 7 = upload)"

section \<open>Generated identifiers are canonical\<close>

lemma hex_digit_lower: "n < 16 \<Longrightarrow> is_lower_hex (hex_digit n)"
proof -
  have "\<forall>n \<in> {..<16}. is_lower_hex (hex_digit n)"
    by (simp add: lessThan_nat_numeral lessThan_Suc hex_digit_def is_lower_hex_def
        is_ascii_digit_def less_eq_char_def)
  then show "n < 16 \<Longrightarrow> is_lower_hex (hex_digit n)" by simp
qed

lemma hex_Cons [simp]: "hex (b # bs) = hex_byte b @ hex bs"
  by (simp add: hex_def)

lemma hex_Nil [simp]: "hex [] = []"
  by (simp add: hex_def)

lemma length_hex [simp]: "length (hex bs) = 2 * length bs"
  by (induction bs) (simp_all add: hex_byte_def)

lemma unat_byte_bound: "unat (b :: u8) < 256"
  using unat_bound [of b] by simp

lemma hex_byte_lower: "list_all is_lower_hex (hex_byte b)"
  using unat_byte_bound [of b] by (simp add: hex_byte_def hex_digit_lower less_mult_imp_div_less)

lemma hex_lower: "list_all is_lower_hex (hex bs)"
  by (induction bs) (simp_all add: hex_byte_lower)

lemma lower_hash_hex: "length bs = 32 \<Longrightarrow> lower_hash (hex bs)"
  by (simp add: lower_hash_def hex_lower)

lemma canonical_uuid_of_parts:
  assumes "length a = 8" "length b = 4" "length c = 4" "length d = 4" "length e = 12"
    and "list_all is_lower_hex (a @ b @ c @ d @ e)"
    and "c ! 0 \<noteq> CHR ''0''"
  shows "canonical_uuid (a @ ''-'' @ b @ ''-'' @ c @ ''-'' @ d @ ''-'' @ e)" (is "canonical_uuid ?s")
proof -
  have "?s ! 14 = c ! 0"
    using assms(1-3) by (simp add: nth_append)
  moreover have "nil_uuid ! 14 = CHR ''0''"
    by (simp add: nil_uuid_def)
  ultimately have "?s \<noteq> nil_uuid"
    using assms(7) by metis
  moreover have "list_all (\<lambda>(n, b). uuid_byte n b) (enumerate 0 ?s)"
    unfolding list_all_length
  proof (intro allI impI)
    fix n
    assume "n < length (enumerate 0 ?s)"
    then have n: "n < 36"
      using assms(1-5) by simp
    have hex: "x \<in> set (a @ b @ c @ d @ e) \<Longrightarrow> is_lower_hex x" for x
      using assms(6) by (simp add: list_all_iff)
    have "uuid_byte n (?s ! n)"
      using n assms(1-5) hex
      by (auto simp: uuid_byte_def nth_append nth_Cons' intro!: hex nth_mem)
    then show "case enumerate 0 ?s ! n of (n, b) \<Rightarrow> uuid_byte n b"
      using n assms(1-5) by (simp add: nth_enumerate_eq)
  qed
  ultimately show ?thesis
    using assms(1-5) by (simp add: canonical_uuid_def)
qed

lemma version_nibble: "unat ((b AND 0x0f) OR 0x40 :: u8) div 16 = 4"
proof -
  let ?x = "(b AND 0x0f) OR 0x40 :: u8"
  have "drop_bit 4 ?x = 4"
    by simp
  then have "unat (drop_bit 4 ?x) = 4"
    by (simp only: unat_numeral) simp
  then have "drop_bit 4 (unat ?x) = 4"
    by (simp only: unat_drop_bit_eq)
  then show ?thesis
    by (simp only: drop_bit_eq_div [where 'a = nat]) simp
qed

lemma hex_nth_even:
  "i < length bs \<Longrightarrow> hex bs ! (2 * i) = hex_digit (unat (bs ! i) div 16)"
proof (induction bs arbitrary: i)
  case Nil
  then show ?case by simp
next
  case (Cons b bs)
  then show ?case
    by (cases i) (simp_all add: hex_byte_def)
qed

lemma list_all_take_drop: "list_all P xs \<Longrightarrow> list_all P (take n (drop m xs))"
  by (auto simp: list_all_iff dest: in_set_takeD in_set_dropD)

theorem new_uuid_canonical:
  assumes "length raw = 16" and "new_uuid (Some raw) = Inr uid"
  shows "canonical_uuid uid"
proof -
  define bytes where "bytes = raw[6 := (raw ! 6 AND 0x0f) OR 0x40]"
  define final where "final = bytes[8 := (bytes ! 8 AND 0x3f) OR 0x80]"
  let ?h = "hex final"
  have len: "length final = 16"
    by (simp add: final_def bytes_def assms(1))
  have "final ! 6 = (raw ! 6 AND 0x0f) OR 0x40"
    using assms(1) by (simp add: final_def bytes_def)
  then have "?h ! 12 = hex_digit 4"
    using hex_nth_even [of 6 final] len version_nibble by simp
  then have ne: "take 4 (drop 12 ?h) ! 0 \<noteq> CHR ''0''"
    using len by (simp add: hex_digit_def)
  have "uid = take 8 ?h @ ''-'' @ take 4 (drop 8 ?h) @ ''-'' @ take 4 (drop 12 ?h) @ ''-''
             @ take 4 (drop 16 ?h) @ ''-'' @ drop 20 ?h"
    using assms(2) by (simp add: new_uuid_def Let_def final_def bytes_def)
  moreover have "list_all is_lower_hex
      (take 8 ?h @ take 4 (drop 8 ?h) @ take 4 (drop 12 ?h) @ take 4 (drop 16 ?h) @ drop 20 ?h)"
    using hex_lower [of final]
    by (auto simp: list_all_iff dest!: in_set_takeD in_set_dropD)
  ultimately show ?thesis
    using canonical_uuid_of_parts [of "take 8 ?h" "take 4 (drop 8 ?h)" "take 4 (drop 12 ?h)"
        "take 4 (drop 16 ?h)" "drop 20 ?h"] len ne
    by simp
qed

section \<open>Numerals are read back\<close>

lemma hex_digit_value: "n < 10 \<Longrightarrow> (of_char (hex_digit n) :: nat) = 48 + n"
proof -
  have "\<forall>n \<in> {..<10}. (of_char (hex_digit n) :: nat) = 48 + n"
    by (simp add: lessThan_nat_numeral lessThan_Suc hex_digit_def)
  then show "n < 10 \<Longrightarrow> (of_char (hex_digit n) :: nat) = 48 + n" by simp
qed

lemma digits_value_snoc: "digits_value (s @ [c]) = digits_value s * 10 + (of_char c - 48)"
  by (simp add: digits_value_def)

lemma digits_value_decimal [simp]: "digits_value (decimal n) = n"
proof (induction n rule: decimal.induct)
  case (1 n)
  show ?case
  proof (cases "n < 10")
    case True
    then show ?thesis by (simp add: decimal.simps [of n] digits_value_def hex_digit_value)
  next
    case False
    then show ?thesis
      using 1 by (simp add: decimal.simps [of n] digits_value_snoc hex_digit_value)
  qed
qed

lemma decimal_inject [simp]: "decimal m = decimal n \<longleftrightarrow> m = n"
  by (metis digits_value_decimal)

lemma decimal_digits: "c \<in> set (decimal n) \<Longrightarrow> is_ascii_digit c"
proof (induction n rule: decimal.induct)
  case (1 n)
  have digit: "m < 10 \<Longrightarrow> is_ascii_digit (hex_digit m)" for m
    by (simp add: is_ascii_digit_def less_eq_char_def hex_digit_value)
  show ?case
    using 1 digit by (cases "n < 10") (auto simp: decimal.simps [of n])
qed

lemma decimal_not_Nil [simp]: "decimal n \<noteq> []"
  by (subst decimal.simps) simp

section \<open>Concrete identifiers\<close>

text \<open>The identifiers of the repository's own tests, used by the evaluated examples.\<close>

definition fixture_uuid :: "char \<Rightarrow> string" where
  "fixture_uuid c = ''00000000-0000-0000-0000-00000000000'' @ [c]"

lemma fixture_uuid_canonical [simp]:
  "is_lower_hex c \<Longrightarrow> c \<noteq> CHR ''0'' \<Longrightarrow> canonical_uuid (fixture_uuid c)"
  by (simp add: canonical_uuid_def fixture_uuid_def nil_uuid_def uuid_byte_def)
     (simp add: is_lower_hex_def is_ascii_digit_def less_eq_char_def)

lemma fixture_uuid_inject [simp]: "fixture_uuid c = fixture_uuid d \<longleftrightarrow> c = d"
  by (simp add: fixture_uuid_def)

lemma lower_hex_digits [simp]:
  "is_lower_hex CHR ''1''" "is_lower_hex CHR ''2''" "is_lower_hex CHR ''3''"
  "is_lower_hex CHR ''4''" "is_lower_hex CHR ''5''" "is_lower_hex CHR ''6''"
  "is_lower_hex CHR ''7''" "is_lower_hex CHR ''8''" "is_lower_hex CHR ''9''"
  "is_lower_hex CHR ''a''" "is_lower_hex CHR ''b''" "is_lower_hex CHR ''c''"
  by (simp_all add: is_lower_hex_def is_ascii_digit_def less_eq_char_def)

definition fixture_hash :: "char \<Rightarrow> string" where
  "fixture_hash c = replicate 64 c"

lemma fixture_hash_lower [simp]: "is_lower_hex c \<Longrightarrow> lower_hash (fixture_hash c)"
  by (simp add: lower_hash_def fixture_hash_def list_all_iff)

lemma fixture_hash_not_Nil [simp]: "fixture_hash c \<noteq> []"
  by (simp add: fixture_hash_def)

definition fixture_authority :: attempt_authority where
  "fixture_authority =
     \<lparr>aa_job_id = fixture_uuid CHR ''3'', aa_attempt_id = fixture_uuid CHR ''4'',
      aa_generation = 1, aa_worker_id = fixture_uuid CHR ''1'',
      aa_session_id = fixture_uuid CHR ''2''\<rparr>"

lemma fixture_authority_valid [simp]: "valid_authority fixture_authority"
  by (simp add: valid_authority_def fixture_authority_def i64_max_def)

end
