(* ===== verification/Lease.thy ===== *)
theory Lease
  imports Rust_Prelude
begin

text \<open>
  \<open>rust/worker/src/lease.rs\<close>: the worker's local view of its execution authority. A
  grant becomes a window that starts at the moment the request was sent, never at the
  moment the reply arrived, and ends five seconds before the server's lease.

  A \<open>Duration\<close> (seconds and nanoseconds) is its number of nanoseconds; \<open>checked_add\<close>
  on durations fails above \<open>Duration::MAX\<close>. Every function that reads the clock takes
  the reading as an argument.
\<close>

section \<open>The code\<close>

type_synonym duration = nat

definition duration_max :: duration where
  "duration_max = (2 ^ 64 - 1) * 1000000000 + 999999999"

definition from_secs :: "u64 \<Rightarrow> duration" where
  "from_secs s = unat s * 1000000000"

definition from_millis :: "u64 \<Rightarrow> duration" where
  "from_millis ms = unat ms * 1000000"

definition duration_checked_add :: "duration \<Rightarrow> duration \<Rightarrow> duration option" where
  "duration_checked_add a b = (if a + b \<le> duration_max then Some (a + b) else None)"

datatype lease_error = Lease_Invalid | Lease_Clock | Lease_Expired

type_synonym mono_time = duration

text \<open>\<open>MonoTime::now\<close> on Linux, from the result of \<open>clock_gettime\<close>.\<close>

definition MonoTime_now :: "int \<Rightarrow> int \<Rightarrow> int \<Rightarrow> lease_error + mono_time" where
  "MonoTime_now result tv_sec tv_nsec =
     (if result \<noteq> 0 \<or> tv_sec < 0 \<or> \<not> (0 \<le> tv_nsec \<and> tv_nsec < 1000000000)
      then Inl Lease_Clock
      else Inr (nat tv_sec * 1000000000 + nat tv_nsec))"

record authority_window =
  sent :: mono_time
  deadline :: mono_time

definition remaining_at :: "authority_window \<Rightarrow> mono_time \<Rightarrow> lease_error + duration" where
  "remaining_at w now =
     (if now < sent w then Inl Lease_Clock
      else if deadline w \<le> now then Inl Lease_Expired
      else Inr (deadline w - now))"

definition from_grant ::
  "mono_time \<Rightarrow> mono_time \<Rightarrow> u64 \<Rightarrow> u64 \<Rightarrow> lease_error + authority_window" where
  "from_grant sent_at received lease_ms phase_ms =
     (if received < sent_at then Inl Lease_Clock
      else if lease_ms = 0 \<or> lease_ms > 30000 \<or> phase_ms = 0 \<or> phase_ms > 604800000
      then Inl Lease_Invalid
      else and_then (ok_or Lease_Expired (checked_sub lease_ms 5000)) (\<lambda>usable_lease.
           and_then (ok_or Lease_Invalid
             (duration_checked_add sent_at (from_millis (min usable_lease phase_ms)))) (\<lambda>dl.
             let window = \<lparr>sent = sent_at, deadline = dl\<rparr>
             in and_then (remaining_at window received) (\<lambda>_. Inr window))))"

text \<open>\<open>PhaseDeadline\<close>: an extra bound on a phase, never a grant.\<close>

definition PhaseDeadline_at :: "mono_time \<Rightarrow> u64 \<Rightarrow> lease_error + authority_window" where
  "PhaseDeadline_at sent_at seconds =
     (if \<not> (1 \<le> seconds \<and> seconds \<le> 604800) then Inl Lease_Invalid
      else and_then (ok_or Lease_Invalid (duration_checked_add sent_at (from_secs seconds)))
             (\<lambda>dl. Inr \<lparr>sent = sent_at, deadline = dl\<rparr>))"

text \<open>\<open>AuthorityWindow::remaining\<close> and \<open>PhaseDeadline::remaining\<close>, on a clock reading.\<close>

definition remaining :: "authority_window \<Rightarrow> lease_error + mono_time \<Rightarrow> lease_error + duration" where
  "remaining w clock = and_then clock (remaining_at w)"

section \<open>Windows and time\<close>

lemma remaining_at_Inr_iff:
  "remaining_at w now = Inr d \<longleftrightarrow> sent w \<le> now \<and> now < deadline w \<and> d = deadline w - now"
  by (auto simp: remaining_at_def)

lemma remaining_Inr_iff:
  "remaining w clock = Inr d \<longleftrightarrow>
     (\<exists>now. clock = Inr now \<and> sent w \<le> now \<and> now < deadline w \<and> d = deadline w - now)"
  by (auto simp: remaining_def remaining_at_Inr_iff)

lemma duration_checked_add_Some_iff:
  "duration_checked_add a b = Some c \<longleftrightarrow> a + b \<le> duration_max \<and> c = a + b"
  by (auto simp: duration_checked_add_def)

lemma unat_min: "unat (min a b) = min (unat a) (unat b)" for a b :: "'a::len word"
  by (simp add: min_def word_le_nat_alt)

lemma from_grant_Inr_iff:
  "from_grant s r lease phase = Inr w \<longleftrightarrow>
     s \<le> r \<and> 5000 \<le> lease \<and> lease \<le> 30000 \<and> 0 < phase \<and> phase \<le> 604800000
     \<and> w = \<lparr>sent = s, deadline = s + min (unat lease - 5000) (unat phase) * 1000000\<rparr>
     \<and> deadline w \<le> duration_max \<and> r < deadline w"
proof -
  have usable: "from_millis (min (lease - 5000) phase) = min (unat lease - 5000) (unat phase) * 1000000"
    if "5000 \<le> lease"
    using that by (simp add: from_millis_def unat_min unat_sub_le)
  have pos: "lease \<noteq> 0" if "5000 \<le> lease"
    using that by auto
  show ?thesis
    by (auto simp: from_grant_def checked_sub_Some_iff duration_checked_add_Some_iff
        remaining_at_Inr_iff usable word_gt_0 Let_def dest: pos)
qed

text \<open>C4. Safety of the local lease. A window made from a grant gives authority at an
  instant \<open>now\<close> only if \<open>now\<close>, plus the time it says is left, is at most the send time
  plus the granted lease minus the five-second margin, and at most the send time plus the
  phase allowance; the time left is positive. So the worker stops at least five seconds
  before a server that counts the lease from any moment after the request was sent.\<close>

theorem authority_ends_before_lease:
  assumes "from_grant s r lease phase = Inr w" and "remaining_at w now = Inr d"
  shows "0 < d \<and> s \<le> now
    \<and> now + d + 5000 * 1000000 \<le> s + unat lease * 1000000
    \<and> now + d \<le> s + unat phase * 1000000"
proof -
  from assms(1) have w: "w = \<lparr>sent = s, deadline = s + min (unat lease - 5000) (unat phase) * 1000000\<rparr>"
    and l: "5000 \<le> lease"
    by (simp_all add: from_grant_Inr_iff)
  from l have l': "5000 \<le> unat lease"
    by (simp add: word_le_nat_alt)
  from assms(2) have d: "s \<le> now" "now < deadline w" "d = deadline w - now"
    by (simp_all add: remaining_at_Inr_iff w)
  then have "now + d = s + min (unat lease - 5000) (unat phase) * 1000000"
    by (simp add: w)
  then show ?thesis
    using l' d by (simp add: min_def split: if_splits)
qed

theorem authority_ends_before_lease_witness:
  "from_grant 100000000000 104000000000 30000 300000
     = Inr \<lparr>sent = 100000000000, deadline = 125000000000\<rparr>
   \<and> 0 < (21000000000::nat)
   \<and> (104000000000::nat) + 21000000000 + 5000 * 1000000 \<le> 100000000000 + unat (30000::u64) * 1000000"
proof -
  have g: "from_grant 100000000000 104000000000 30000 300000
      = Inr \<lparr>sent = 100000000000, deadline = 125000000000\<rparr>"
    by (simp add: from_grant_Inr_iff duration_max_def)
  have r: "remaining_at \<lparr>sent = 100000000000, deadline = 125000000000\<rparr> 104000000000 = Inr 21000000000"
    by (simp add: remaining_at_def)
  show ?thesis
    using authority_ends_before_lease [OF g r] g by simp
qed

text \<open>Receipt never starts a fresh lease. If a reply decodes to a window when it is
  received at \<open>late\<close>, then it decodes to the very same window at every earlier receipt
  time after the send: a delayed, retried or queued reply can only shorten what is left of
  one fixed window.\<close>

theorem receipt_time_never_extends:
  assumes "from_grant s late lease phase = Inr w" and "s \<le> early" and "early \<le> late"
  shows "from_grant s early lease phase = Inr w"
  using assms by (auto simp: from_grant_Inr_iff)

theorem receipt_time_never_extends_witness:
  "from_grant 100000000000 101000000000 30000 300000
     = Inr \<lparr>sent = 100000000000, deadline = 125000000000\<rparr>"
proof -
  have g: "from_grant 100000000000 104000000000 30000 300000
      = Inr \<lparr>sent = 100000000000, deadline = 125000000000\<rparr>"
    by (simp add: from_grant_Inr_iff duration_max_def)
  show ?thesis
    by (rule receipt_time_never_extends [OF g]) simp_all
qed

lemma PhaseDeadline_at_Inr_iff:
  "PhaseDeadline_at s seconds = Inr w \<longleftrightarrow>
     1 \<le> seconds \<and> seconds \<le> 604800 \<and> w = \<lparr>sent = s, deadline = s + unat seconds * 1000000000\<rparr>
     \<and> deadline w \<le> duration_max"
  by (auto simp: PhaseDeadline_at_def duration_checked_add_Some_iff from_secs_def)

end
