(* ===== verification/Renew.thy ===== *)
theory Renew
  imports Identity Lease
begin

text \<open>
  \<open>rust/worker/src/control/renew.rs\<close> and the session check of \<open>control/work.rs\<close>: the
  batch renewal of leases. A reply is decoded against the request that caused it, member
  by member, before any of it is used. The server's reply and the clock readings are
  arguments; the transport itself is not modelled.
\<close>

section \<open>The code\<close>

definition valid_session :: "worker_session option \<Rightarrow> client_error + worker_session" where
  "valid_session session =
     ok_or C_Configuration
       (case session of
          None \<Rightarrow> None
        | Some s \<Rightarrow> if canonical_uuid (ws_worker_id s) \<and> canonical_uuid (ws_session_id s)
                    then Some s else None)"

record renewed_lease =
  rn_identity :: attempt_authority
  rn_authority :: authority_window

datatype renewal_outcome =
  Renewed renewed_lease
| Renewal_Rejected attempt_authority decision
| Renewal_Expired attempt_authority

fun outcome_identity :: "renewal_outcome \<Rightarrow> attempt_authority" where
  "outcome_identity (Renewed grant) = rn_identity grant"
| "outcome_identity (Renewal_Rejected identity decision) = identity"
| "outcome_identity (Renewal_Expired identity) = identity"

fun check_attempts :: "worker_session \<Rightarrow> string list \<Rightarrow> attempt_authority list \<Rightarrow> client_error + unit" where
  "check_attempts session seen [] = Inr ()"
| "check_attempts session seen (a # as) =
     (if aa_worker_id a \<noteq> ws_worker_id session \<or> aa_session_id a \<noteq> ws_session_id session
         \<or> \<not> canonical_uuid (aa_job_id a) \<or> \<not> canonical_uuid (aa_attempt_id a)
         \<or> aa_generation a = 0 \<or> aa_generation a > i64_max
         \<or> aa_attempt_id a \<in> set seen
      then Inl C_Configuration
      else check_attempts session (aa_attempt_id a # seen) as)"

definition validate_renewal_request :: "renew_leases_request \<Rightarrow> client_error + unit" where
  "validate_renewal_request request =
     and_then (valid_session (rl_session request)) (\<lambda>session.
       if \<not> canonical_uuid (rl_request_id request) \<or> rl_attempts request = []
          \<or> 64 < length (rl_attempts request)
       then Inl C_Configuration
       else check_attempts session [] (rl_attempts request))"

definition decode_renewal ::
  "mono_time \<Rightarrow> mono_time \<Rightarrow> lease_result \<Rightarrow> attempt_authority \<Rightarrow> client_error + renewal_outcome" where
  "decode_renewal sent_at received g expected =
     and_then (ok_or C_Response (lr_authority g)) (\<lambda>identity.
       if identity \<noteq> expected then Inl C_Response
       else case decision_of (lr_decision g) of
         Some Accepted \<Rightarrow>
           (case from_grant sent_at received (lr_remaining_ms g) (lr_phase_remaining_ms g) of
              Inr authority \<Rightarrow> Inr (Renewed \<lparr>rn_identity = identity, rn_authority = authority\<rparr>)
            | Inl Lease_Expired \<Rightarrow> Inr (Renewal_Expired identity)
            | Inl Lease_Clock \<Rightarrow> Inl C_Clock
            | Inl Lease_Invalid \<Rightarrow> Inl C_Response)
       | Some d \<Rightarrow>
           if d \<in> set [Fenced, StopRequested, AlreadyTerminal]
              \<and> lr_remaining_ms g = 0 \<and> lr_phase_remaining_ms g = 0
           then Inr (Renewal_Rejected identity d)
           else Inl C_Response
       | None \<Rightarrow> Inl C_Response)"

text \<open>\<open>collect\<close> into a \<open>Result\<close>: the first error wins.\<close>

fun collect_results :: "('e + 'a) list \<Rightarrow> 'e + 'a list" where
  "collect_results [] = Inr []"
| "collect_results (r # rs) =
     and_then r (\<lambda>x. and_then (collect_results rs) (\<lambda>xs. Inr (x # xs)))"

definition decode_renewals ::
  "renew_leases_request \<Rightarrow> lease_result list \<Rightarrow> mono_time \<Rightarrow> mono_time
     \<Rightarrow> client_error + renewal_outcome list" where
  "decode_renewals request results sent_at received =
     (if length results \<noteq> length (rl_attempts request) then Inl C_Response
      else collect_results
        (map (\<lambda>(g, expected). decode_renewal sent_at received g expected)
             (zip results (rl_attempts request))))"

text \<open>The last pass of \<open>renew\<close>: time spent decoding consumes authority too.\<close>

definition recheck_outcome ::
  "lease_error + mono_time \<Rightarrow> renewal_outcome \<Rightarrow> client_error + renewal_outcome" where
  "recheck_outcome clock outcome =
     (case outcome of
        Renewed grant \<Rightarrow>
          (case remaining (rn_authority grant) clock of
             Inr _ \<Rightarrow> Inr outcome
           | Inl Lease_Expired \<Rightarrow> Inr (Renewal_Expired (rn_identity grant))
           | Inl Lease_Clock \<Rightarrow> Inl C_Clock
           | Inl Lease_Invalid \<Rightarrow> Inl C_Response)
      | _ \<Rightarrow> Inr outcome)"

definition renew ::
  "renew_leases_request \<Rightarrow> lease_error + mono_time \<Rightarrow> client_error + lease_result list
     \<Rightarrow> lease_error + mono_time \<Rightarrow> (nat \<Rightarrow> lease_error + mono_time)
     \<Rightarrow> client_error + renewal_outcome list" where
  "renew request sent_clock rpc received_clock recheck_clock =
     and_then (validate_renewal_request request) (\<lambda>_.
     and_then (map_err (\<lambda>_. C_Clock) sent_clock) (\<lambda>sent_at.
     and_then rpc (\<lambda>results.
     and_then (map_err (\<lambda>_. C_Clock) received_clock) (\<lambda>received.
     and_then (decode_renewals request results sent_at received) (\<lambda>outcomes.
       collect_results (map (\<lambda>(i, outcome). recheck_outcome (recheck_clock i) outcome)
                            (enumerate 0 outcomes)))))))"

section \<open>What a decoded batch says\<close>

lemma collect_results_Inr_iff:
  "collect_results rs = Inr xs \<longleftrightarrow> rs = map Inr xs"
proof (induction rs arbitrary: xs)
  case Nil
  then show ?case by auto
next
  case (Cons r rs)
  then show ?case by (cases r; cases xs) auto
qed

lemma decode_renewal_cases:
  assumes "decode_renewal s r g expected = Inr out"
  shows "(\<exists>w. decision_of (lr_decision g) = Some Accepted
           \<and> from_grant s r (lr_remaining_ms g) (lr_phase_remaining_ms g) = Inr w
           \<and> out = Renewed \<lparr>rn_identity = expected, rn_authority = w\<rparr>)
    \<or> out = Renewal_Expired expected
    \<or> (\<exists>d. d \<in> {Fenced, StopRequested, AlreadyTerminal} \<and> out = Renewal_Rejected expected d)"
proof (cases "decision_of (lr_decision g)")
  case None
  with assms show ?thesis
    by (auto simp: decode_renewal_def split: if_splits)
next
  case (Some d)
  show ?thesis
  proof (cases "from_grant s r (lr_remaining_ms g) (lr_phase_remaining_ms g)")
    case (Inl e)
    with Some assms show ?thesis
      by (cases d; cases e) (auto simp: decode_renewal_def split: if_splits)
  next
    case (Inr w)
    with Some assms show ?thesis
      by (cases d) (auto simp: decode_renewal_def split: if_splits)
  qed
qed

lemma decode_renewal_identity:
  "decode_renewal s r g expected = Inr out \<Longrightarrow> outcome_identity out = expected"
  by (auto dest: decode_renewal_cases)

lemma decode_renewal_Renewed:
  "decode_renewal s r g expected = Inr (Renewed grant) \<Longrightarrow>
     from_grant s r (lr_remaining_ms g) (lr_phase_remaining_ms g) = Inr (rn_authority grant)
     \<and> decision_of (lr_decision g) = Some Accepted \<and> rn_identity grant = expected"
  by (auto dest: decode_renewal_cases)

lemma decode_renewal_Rejected:
  "decode_renewal s r g expected = Inr (Renewal_Rejected a d) \<Longrightarrow>
     d \<in> {Fenced, StopRequested, AlreadyTerminal}"
  by (auto dest: decode_renewal_cases)

lemma recheck_outcome_identity:
  "recheck_outcome clock out = Inr out' \<Longrightarrow> outcome_identity out' = outcome_identity out"
  by (auto simp: recheck_outcome_def split: renewal_outcome.splits sum.splits lease_error.splits)

lemma recheck_outcome_Renewed:
  "recheck_outcome clock out = Inr (Renewed grant) \<Longrightarrow> out = Renewed grant"
  by (auto simp: recheck_outcome_def split: renewal_outcome.splits sum.splits lease_error.splits)

lemma decode_renewals_Inr_iff:
  "decode_renewals request results s r = Inr outs \<longleftrightarrow>
     length results = length (rl_attempts request) \<and> length outs = length results
     \<and> (\<forall>i < length outs. decode_renewal s r (results ! i) (rl_attempts request ! i) = Inr (outs ! i))"
  by (auto simp: decode_renewals_def collect_results_Inr_iff list_eq_iff_nth_eq)

lemma renew_rechecks:
  assumes "renew request (Inr s) (Inr results) (Inr r) recheck = Inr outs"
  shows "\<exists>mid. decode_renewals request results s r = Inr mid \<and> length mid = length outs
    \<and> (\<forall>i < length outs. recheck_outcome (recheck i) (mid ! i) = Inr (outs ! i))"
proof -
  from assms obtain mid where mid: "decode_renewals request results s r = Inr mid"
    and re: "map (\<lambda>(i, out). recheck_outcome (recheck i) out) (enumerate 0 mid) = map Inr outs"
    by (auto simp: renew_def collect_results_Inr_iff)
  have len: "length mid = length outs"
    using arg_cong [OF re, of length] by simp
  moreover have "recheck_outcome (recheck i) (mid ! i) = Inr (outs ! i)" if "i < length outs" for i
    using arg_cong [OF re, of "\<lambda>xs. xs ! i"] that len by (simp add: nth_enumerate_eq)
  ultimately show ?thesis
    using mid by blast
qed

text \<open>C21. A renewal batch is all or nothing and bound to its request. When \<open>renew\<close>
  returns outcomes, there is exactly one per requested attempt, in the request's order and
  with the request's full authority tuple; and every renewed window was made by
  \<open>from_grant\<close> from the send and receipt times of this very call and from a result the
  server marked accepted.\<close>

theorem renew_binds_request:
  assumes "renew request (Inr s) (Inr results) (Inr r) recheck = Inr outs"
  shows "map outcome_identity outs = rl_attempts request
    \<and> (\<forall>i < length outs. \<forall>grant. outs ! i = Renewed grant \<longrightarrow>
        from_grant s r (lr_remaining_ms (results ! i)) (lr_phase_remaining_ms (results ! i))
          = Inr (rn_authority grant)
        \<and> decision_of (lr_decision (results ! i)) = Some Accepted)"
proof -
  obtain mid where mid: "decode_renewals request results s r = Inr mid"
    and len: "length mid = length outs"
    and rechecked: "\<forall>i < length outs. recheck_outcome (recheck i) (mid ! i) = Inr (outs ! i)"
    using renew_rechecks [OF assms] by blast
  note re = rechecked [rule_format]
  have dec: "decode_renewal s r (results ! i) (rl_attempts request ! i) = Inr (mid ! i)"
    if "i < length outs" for i
    using mid len that by (simp add: decode_renewals_Inr_iff)
  have "outcome_identity (outs ! i) = rl_attempts request ! i" if "i < length outs" for i
    using recheck_outcome_identity [OF re [OF that]] decode_renewal_identity [OF dec [OF that]]
    by simp
  moreover have "length outs = length (rl_attempts request)"
    using mid len by (simp add: decode_renewals_Inr_iff)
  ultimately have "map outcome_identity outs = rl_attempts request"
    by (simp add: list_eq_iff_nth_eq)
  moreover have "from_grant s r (lr_remaining_ms (results ! i)) (lr_phase_remaining_ms (results ! i))
          = Inr (rn_authority grant) \<and> decision_of (lr_decision (results ! i)) = Some Accepted"
    if i: "i < length outs" and "outs ! i = Renewed grant" for i grant
  proof -
    have "mid ! i = Renewed grant"
      using recheck_outcome_Renewed re [OF i] that(2) by simp
    then show ?thesis
      using decode_renewal_Renewed dec [OF i] by simp
  qed
  ultimately show ?thesis by blast
qed

text \<open>A request, its accepting reply and the outcome, for the witness.\<close>

definition sample_renewal :: renew_leases_request where
  "sample_renewal =
     \<lparr>rl_session = Some \<lparr>ws_worker_id = fixture_uuid CHR ''1'', ws_session_id = fixture_uuid CHR ''2''\<rparr>,
      rl_request_id = fixture_uuid CHR ''5'', rl_attempts = [fixture_authority]\<rparr>"

definition sample_result :: lease_result where
  "sample_result =
     \<lparr>lr_authority = Some fixture_authority, lr_decision = 1, lr_remaining_ms = 30000,
      lr_server_time_unix_ms = 1, lr_phase_remaining_ms = 300000\<rparr>"

definition sample_window :: authority_window where
  "sample_window = \<lparr>sent = 100000000000, deadline = 125000000000\<rparr>"

lemma sample_window_granted:
  "from_grant 100000000000 101000000000 30000 300000 = Inr sample_window"
  by (simp add: from_grant_Inr_iff duration_max_def sample_window_def)

lemma sample_renewal_valid: "validate_renewal_request sample_renewal = Inr ()"
  by (simp add: validate_renewal_request_def sample_renewal_def valid_session_def fixture_authority_def
      i64_max_def)

lemma sample_renewal_decodes:
  "decode_renewal 100000000000 101000000000 sample_result fixture_authority
     = Inr (Renewed \<lparr>rn_identity = fixture_authority, rn_authority = sample_window\<rparr>)"
  using sample_window_granted by (simp add: decode_renewal_def sample_result_def decision_of_def)

theorem renew_binds_request_witness:
  "map outcome_identity [Renewed \<lparr>rn_identity = fixture_authority, rn_authority = sample_window\<rparr>]
     = rl_attempts sample_renewal"
proof -
  have attempts: "rl_attempts sample_renewal = [fixture_authority]"
    by (simp add: sample_renewal_def)
  have "renew sample_renewal (Inr 100000000000) (Inr [sample_result]) (Inr 101000000000)
          (\<lambda>_. Inr 102000000000)
        = Inr [Renewed \<lparr>rn_identity = fixture_authority, rn_authority = sample_window\<rparr>]"
    by (simp add: renew_def sample_renewal_valid decode_renewals_def attempts
        sample_renewal_decodes recheck_outcome_def remaining_def remaining_at_def)
       (simp add: sample_window_def)
  from renew_binds_request [OF this] show ?thesis by blast
qed

end
