(* ===== verification/Runs.thy ===== *)
theory Runs
  imports Main
begin

text \<open>
  The interface every stateful component of the worker offers to proofs about histories:
  a step function, the events its environment may deliver, and a predicate that each
  admissible step keeps. A history is a list of events folded over the step function.
  The components interpret this locale once per invariant.
\<close>

locale kept_by_steps =
  fixes step :: "'s \<Rightarrow> 'e \<Rightarrow> 's"
    and admissible :: "'e \<Rightarrow> bool"
    and inv :: "'s \<Rightarrow> bool"
  assumes step_keeps: "inv s \<Longrightarrow> admissible e \<Longrightarrow> inv (step s e)"
begin

lemma run_keeps:
  assumes "inv s" and "\<forall>e \<in> set es. admissible e"
  shows "inv (foldl step s es)"
  using assms
proof (induction es arbitrary: s)
  case Nil
  then show ?case by simp
next
  case (Cons e es)
  then show ?case by (simp add: step_keeps)
qed

lemma every_prefix_keeps:
  assumes "inv s" and "\<forall>e \<in> set es. admissible e" and "es = pre @ post"
  shows "inv (foldl step s pre)"
  using assms by (simp add: run_keeps)

end

end
