(* ===== verification/Supervisor.thy ===== *)
theory Supervisor
  imports Renew Runs
begin

text \<open>
  \<open>rust/worker/src/supervisor.rs\<close>: enforcement of execution authority over a running
  container. One \<open>watch\<close> channel carries the authority from the renewal task (the
  \<open>AuthorityController\<close>) to the watchdog (the \<open>SupervisedAuthority\<close>); a pair of
  counters orders refresh requests against the grants that answer them.

  The channel with its counters is one record. \<open>ch_senders\<close> and \<open>ch_receivers\<close> say
  whether any controller, respectively any supervisor, still holds its end, which is all
  that \<open>has_changed\<close> and \<open>is_closed\<close> report. Every clock reading is an argument of the
  operation that takes it: \<open>send_if_modified\<close> runs its closure under the channel's
  lock, so an update is one step. Outcomes of the container runtime are arguments too.
\<close>

section \<open>The code\<close>

datatype stop_reason =
  AuthorityExpired | Rejected decision | ControllerLost | RenewalFailed | RuntimeUnavailable

datatype authority_state = Live authority_window | Stop stop_reason

type_synonym clock = "lease_error + mono_time"

record authority_channel =
  ch_identity :: attempt_authority
  ch_state :: authority_state
  ch_requested :: u64
  ch_acknowledged :: u64
  ch_senders :: bool
  ch_receivers :: bool

datatype authority_update_error = Upd_Identity | Upd_InvalidDecision | Upd_Expired

fun live :: "clock \<Rightarrow> authority_state \<Rightarrow> stop_reason + duration" where
  "live clock (Stop reason) = Inl reason"
| "live clock (Live window) = map_err (\<lambda>_. AuthorityExpired) (remaining window clock)"

definition open_channel ::
  "attempt_authority \<Rightarrow> authority_window \<Rightarrow> clock \<Rightarrow> authority_update_error + authority_channel" where
  "open_channel identity window clock =
     (if \<not> list_all canonical_uuid [aa_worker_id identity, aa_session_id identity,
                                   aa_job_id identity, aa_attempt_id identity]
         \<or> aa_generation identity = 0 \<or> aa_generation identity > i64_max
      then Inl Upd_Identity
      else and_then (map_err (\<lambda>_. Upd_Expired) (remaining window clock)) (\<lambda>_.
        Inr \<lparr>ch_identity = identity, ch_state = Live window, ch_requested = 0,
             ch_acknowledged = 0, ch_senders = True, ch_receivers = True\<rparr>))"

subsection \<open>\<open>AuthorityController\<close>\<close>

definition refresh_revision :: "authority_channel \<Rightarrow> u64" where
  "refresh_revision ch = ch_requested ch"

definition active :: "clock \<Rightarrow> authority_channel \<Rightarrow> bool" where
  "active clock ch = (ch_receivers ch \<and> is_ok (live clock (ch_state ch)))"

definition needs_refresh :: "clock \<Rightarrow> authority_channel \<Rightarrow> bool" where
  "needs_refresh clock ch = (active clock ch \<and> refresh_revision ch > ch_acknowledged ch)"

definition acknowledge_refresh :: "u64 \<Rightarrow> authority_channel \<Rightarrow> authority_channel" where
  "acknowledge_refresh revision ch = ch\<lparr>ch_acknowledged := max (ch_acknowledged ch) revision\<rparr>"

definition next_state :: "clock \<Rightarrow> clock \<Rightarrow> authority_state \<Rightarrow> authority_state \<Rightarrow> authority_state" where
  "next_state clock1 clock2 current next =
     (case current of
        Stop _ \<Rightarrow> current
      | Live _ \<Rightarrow>
          if \<not> is_ok (live clock1 current)
             \<or> (\<not> is_ok (live clock2 next) \<and> (case next of Live _ \<Rightarrow> True | Stop _ \<Rightarrow> False))
          then Stop AuthorityExpired
          else next)"

definition update ::
  "clock \<Rightarrow> clock \<Rightarrow> attempt_authority \<Rightarrow> authority_state \<Rightarrow> authority_channel
     \<Rightarrow> (authority_update_error + unit) \<times> authority_channel" where
  "update clock1 clock2 identity next ch =
     (if identity \<noteq> ch_identity ch then (Inl Upd_Identity, ch)
      else (Inr (), ch\<lparr>ch_state := next_state clock1 clock2 (ch_state ch) next\<rparr>))"

definition stop_authority :: "clock \<Rightarrow> clock \<Rightarrow> stop_reason \<Rightarrow> authority_channel \<Rightarrow> authority_channel" where
  "stop_authority clock1 clock2 reason ch =
     snd (update clock1 clock2 (ch_identity ch) (Stop reason) ch)"

fun apply_outcome ::
  "clock \<Rightarrow> clock \<Rightarrow> renewal_outcome \<Rightarrow> authority_channel
     \<Rightarrow> (authority_update_error + unit) \<times> authority_channel" where
  "apply_outcome clock1 clock2 (Renewed grant) ch =
     update clock1 clock2 (rn_identity grant) (Live (rn_authority grant)) ch"
| "apply_outcome clock1 clock2 (Renewal_Expired identity) ch =
     update clock1 clock2 identity (Stop AuthorityExpired) ch"
| "apply_outcome clock1 clock2 (Renewal_Rejected identity d) ch =
     (if d \<in> set [Fenced, StopRequested, AlreadyTerminal]
      then update clock1 clock2 identity (Stop (Rejected d)) ch
      else (Inl Upd_InvalidDecision, ch))"

subsection \<open>\<open>SupervisedAuthority\<close>\<close>

text \<open>The receiver's own field \<open>last_window\<close> is passed and returned.\<close>

definition check_authority ::
  "clock \<Rightarrow> authority_channel \<Rightarrow> authority_window \<Rightarrow> (stop_reason + duration) \<times> authority_window" where
  "check_authority clock ch last_window =
     (case ch_state ch of
        Stop reason \<Rightarrow> (Inl reason, last_window)
      | Live window \<Rightarrow>
          (if \<not> ch_senders ch then Inl ControllerLost else live clock (ch_state ch), window))"

definition window_of ::
  "clock \<Rightarrow> clock \<Rightarrow> authority_channel \<Rightarrow> authority_window
     \<Rightarrow> (stop_reason + authority_window) \<times> authority_window" where
  "window_of clock1 clock2 ch last_window =
     (case check_authority clock1 ch last_window of
        (Inl reason, last_window') \<Rightarrow> (Inl reason, last_window')
      | (Inr _, last_window') \<Rightarrow>
          (case ch_state ch of
             Live window \<Rightarrow>
               (and_then (map_err (\<lambda>_. AuthorityExpired) (remaining window clock2)) (\<lambda>_. Inr window),
                last_window')
           | Stop reason \<Rightarrow> (Inl reason, last_window')))"

definition remaining_for_cleanup :: "clock \<Rightarrow> authority_window \<Rightarrow> duration" where
  "remaining_for_cleanup clock last_window =
     (case remaining last_window clock of Inr d \<Rightarrow> d | Inl _ \<Rightarrow> 0)"

text \<open>
  \<open>refresh\<close> first checks the authority and takes a new revision; it then returns the
  window once that revision has been acknowledged, checking the authority on each turn. The
  check, the acknowledged revision and the window are read one after the other, while the
  renewal task may write: each reading has a channel of its own.
\<close>

definition request_refresh ::
  "clock \<Rightarrow> authority_channel \<Rightarrow> authority_window
     \<Rightarrow> (stop_reason + u64) \<times> authority_channel \<times> authority_window" where
  "request_refresh clock ch last_window =
     (case check_authority clock ch last_window of
        (Inl reason, lw) \<Rightarrow> (Inl reason, ch, lw)
      | (Inr _, lw) \<Rightarrow>
          (case checked_add (ch_requested ch) 1 of
             None \<Rightarrow> (Inl RenewalFailed, ch, lw)
           | Some revision \<Rightarrow> (Inr revision, ch\<lparr>ch_requested := revision\<rparr>, lw)))"

definition refresh_turn ::
  "clock \<Rightarrow> clock \<Rightarrow> clock \<Rightarrow> u64 \<Rightarrow> authority_channel \<Rightarrow> authority_channel \<Rightarrow> authority_channel \<Rightarrow> authority_window
     \<Rightarrow> (stop_reason + authority_window) option \<times> authority_window" where
  "refresh_turn clock1 clock2 clock3 revision ch1 ch2 ch3 last_window =
     (case check_authority clock1 ch1 last_window of
        (Inl reason, lw) \<Rightarrow> (Some (Inl reason), lw)
      | (Inr _, lw) \<Rightarrow>
          if ch_acknowledged ch2 \<ge> revision
          then (let (r, lw') = window_of clock2 clock3 ch3 lw in (Some r, lw'))
          else (None, lw))"

subsection \<open>The watchdog\<close>

definition observation_tick :: duration where
  "observation_tick = 100 * 1000000"

definition cleanup_budget :: duration where
  "cleanup_budget = 5 * 1000000000"

text \<open>
  \<open>while_live\<close>: each turn checks the authority on the channel it finds, then either the
  operation finished (and the authority is checked once more, on the channel as it is
  then), or the loop turned because the channel changed or the sleep of
  \<open>until_check\<close> ended. \<open>None\<close> is a loop that has not returned after these turns.
\<close>

datatype 'a turn = Turn clock authority_channel "('a \<times> clock \<times> authority_channel) option"

definition until_check :: "duration \<Rightarrow> duration" where
  "until_check remaining_time = min remaining_time observation_tick"

fun while_live ::
  "'a turn list \<Rightarrow> authority_window \<Rightarrow> ((stop_reason + 'a) \<times> authority_window) option" where
  "while_live [] last_window = None"
| "while_live (Turn clock ch event # turns) last_window =
     (case check_authority clock ch last_window of
        (Inl reason, lw) \<Rightarrow> Some (Inl reason, lw)
      | (Inr _, lw) \<Rightarrow>
          (case event of
             None \<Rightarrow> while_live turns lw
           | Some (result, clock', ch') \<Rightarrow>
               (case check_authority clock' ch' lw of
                  (Inl reason, lw') \<Rightarrow> Some (Inl reason, lw')
                | (Inr _, lw') \<Rightarrow> Some (Inr result, lw'))))"

datatype container_state =
  Cs_Created | Cs_Running | Cs_Paused | Cs_Restarting | Cs_Removing | Cs_Stopping
| Cs_Exited | Cs_Dead

record container_status =
  cs_running :: bool
  cs_exit_code :: "int option"
  cs_oom_killed :: bool
  cs_state :: container_state

datatype runtime_error =
  Rt_Configuration | Rt_Unsupported | Rt_Identity | Rt_Authority | Rt_Deadline
| Rt_Transport | Rt_Daemon nat | Rt_Terminal | Rt_InventoryLimit

datatype supervision_outcome =
  Exited container_status
| Stopped stop_reason bool

definition exit_guard :: "container_status \<Rightarrow> bool" where
  "exit_guard status \<longleftrightarrow>
     cs_state status \<in> set [Cs_Exited, Cs_Dead] \<and> \<not> cs_running status
     \<and> is_some_and (\<lambda>code. 0 \<le> code \<and> code \<le> 255) (cs_exit_code status)"

text \<open>One round of the loop of \<open>supervise_running\<close>: the turns of the guarded inspection,
  and those of the guarded sleep that follows when the container still runs.\<close>

type_synonym round = "(runtime_error + container_status) turn list \<times> unit turn list"

fun observe ::
  "round list \<Rightarrow> authority_window \<Rightarrow> ((stop_reason + container_status) \<times> authority_window) option" where
  "observe [] last_window = None"
| "observe ((inspection, sleep) # rounds) last_window =
     (case while_live inspection last_window of
        None \<Rightarrow> None
      | Some (Inl reason, lw) \<Rightarrow> Some (Inl reason, lw)
      | Some (Inr (Inl _), lw) \<Rightarrow> Some (Inl RuntimeUnavailable, lw)
      | Some (Inr (Inr status), lw) \<Rightarrow>
          if exit_guard status then Some (Inr status, lw)
          else if cs_running status
          then (case while_live sleep lw of
                  None \<Rightarrow> None
                | Some (Inl reason, lw') \<Rightarrow> Some (Inl reason, lw')
                | Some (Inr _, lw') \<Rightarrow> observe rounds lw')
          else Some (Inl RuntimeUnavailable, lw))"

text \<open>\<open>terminate\<close>: the result of the kill is ignored; \<open>None\<close> is an inspection that
  did not answer within the cleanup budget.\<close>

definition terminate :: "(runtime_error + container_status) option \<Rightarrow> bool" where
  "terminate inspected =
     (case inspected of
        Some (Inr status) \<Rightarrow> \<not> cs_running status \<and> cs_state status \<in> set [Cs_Exited, Cs_Dead]
      | Some (Inl (Rt_Daemon code)) \<Rightarrow> code = 404
      | _ \<Rightarrow> False)"

definition stop_grace :: "u32 \<Rightarrow> duration \<Rightarrow> u32" where
  "stop_grace requested_grace remaining_time =
     (let available = remaining_time - cleanup_budget * 3 \<comment> \<open>\<open>saturating_sub\<close>\<close>
      in min requested_grace (word_of_nat (min (available div 1000000000) 300)))"

definition terminate_requested ::
  "u32 \<Rightarrow> duration \<Rightarrow> (runtime_error + unit) option
     \<Rightarrow> (runtime_error + container_status) option \<Rightarrow> bool" where
  "terminate_requested requested_grace remaining_time stopped inspected =
     (if stop_grace requested_grace remaining_time > 0 \<and> stopped = Some (Inr ())
      then True
      else terminate inspected)"

definition supervise_running ::
  "round list \<Rightarrow> authority_window \<Rightarrow> clock \<Rightarrow> (runtime_error + unit) option
     \<Rightarrow> (runtime_error + container_status) option \<Rightarrow> supervision_outcome option" where
  "supervise_running rounds last_window cleanup_clock stopped inspected =
     (case observe rounds last_window of
        None \<Rightarrow> None
      | Some (Inr status, _) \<Rightarrow> Some (Exited status)
      | Some (Inl reason, lw) \<Rightarrow>
          Some (Stopped reason
            (if reason = Rejected StopRequested
             then terminate_requested 10 (remaining_for_cleanup cleanup_clock lw) stopped inspected
             else terminate inspected)))"

section \<open>Histories of the channel\<close>

text \<open>
  What the tasks that share the channel do to it: the renewal task applies outcomes,
  stops the authority and acknowledges refreshes, the watchdog asks for a refresh, and
  either side may drop its last handle.
\<close>

datatype channel_event =
  Apply clock clock renewal_outcome
| Stop_With clock clock stop_reason
| Acknowledge u64
| Request_Refresh clock
| Drop_Senders
| Drop_Receivers

fun channel_step :: "authority_channel \<Rightarrow> channel_event \<Rightarrow> authority_channel" where
  "channel_step ch (Apply c1 c2 outcome) = snd (apply_outcome c1 c2 outcome ch)"
| "channel_step ch (Stop_With c1 c2 reason) = stop_authority c1 c2 reason ch"
| "channel_step ch (Acknowledge revision) = acknowledge_refresh revision ch"
| "channel_step ch (Request_Refresh clock) =
     fst (snd (request_refresh clock ch \<lparr>sent = 0, deadline = 0\<rparr>))"
| "channel_step ch Drop_Senders = ch\<lparr>ch_senders := False\<rparr>"
| "channel_step ch Drop_Receivers = ch\<lparr>ch_receivers := False\<rparr>"

text \<open>A reading that a clock can give at or after instant \<open>t\<close>, and an event whose
  readings are all such.\<close>

definition not_before :: "mono_time \<Rightarrow> clock \<Rightarrow> bool" where
  "not_before t clock = (case clock of Inl _ \<Rightarrow> True | Inr now \<Rightarrow> t \<le> now)"

fun event_not_before :: "mono_time \<Rightarrow> channel_event \<Rightarrow> bool" where
  "event_not_before t (Apply c1 c2 outcome) = (not_before t c1 \<and> not_before t c2)"
| "event_not_before t (Stop_With c1 c2 reason) = (not_before t c1 \<and> not_before t c2)"
| "event_not_before t (Request_Refresh clock) = not_before t clock"
| "event_not_before t e = True"

definition lapsed :: "mono_time \<Rightarrow> authority_state \<Rightarrow> bool" where
  "lapsed t state = (case state of Stop _ \<Rightarrow> True | Live w \<Rightarrow> deadline w \<le> t)"

text \<open>The only events that change the state are \<open>Apply\<close> and \<open>Stop_With\<close>.\<close>

fun proposed :: "attempt_authority \<Rightarrow> channel_event \<Rightarrow> (clock \<times> clock \<times> authority_state) option" where
  "proposed identity (Apply c1 c2 (Renewed grant)) =
     (if rn_identity grant = identity then Some (c1, c2, Live (rn_authority grant)) else None)"
| "proposed identity (Apply c1 c2 (Renewal_Expired a)) =
     (if a = identity then Some (c1, c2, Stop AuthorityExpired) else None)"
| "proposed identity (Apply c1 c2 (Renewal_Rejected a d)) =
     (if a = identity \<and> d \<in> {Fenced, StopRequested, AlreadyTerminal}
      then Some (c1, c2, Stop (Rejected d)) else None)"
| "proposed identity (Stop_With c1 c2 reason) = Some (c1, c2, Stop reason)"
| "proposed identity e = None"

lemma channel_step_state:
  "ch_state (channel_step ch e) =
     (case proposed (ch_identity ch) e of
        None \<Rightarrow> ch_state ch
      | Some (c1, c2, next) \<Rightarrow> next_state c1 c2 (ch_state ch) next)"
proof (cases e)
  case (Apply c1 c2 outcome)
  then show ?thesis
    by (cases outcome) (auto simp: update_def)
next
  case (Request_Refresh clock)
  then show ?thesis
    by (auto simp: request_refresh_def split: prod.splits sum.splits option.splits)
qed (auto simp: stop_authority_def update_def acknowledge_refresh_def)

lemma channel_step_identity [simp]: "ch_identity (channel_step ch e) = ch_identity ch"
proof (cases e)
  case (Apply c1 c2 outcome)
  then show ?thesis by (cases outcome) (auto simp: update_def)
next
  case (Request_Refresh clock)
  then show ?thesis
    by (auto simp: request_refresh_def split: prod.splits sum.splits option.splits)
qed (auto simp: stop_authority_def update_def acknowledge_refresh_def)

lemma next_state_Stop [simp]: "next_state c1 c2 (Stop r) next = Stop r"
  by (simp add: next_state_def)

lemma next_state_Live:
  assumes "next_state c1 c2 current next = Live w"
  shows "next = Live w \<and> is_ok (live c1 current) \<and> is_ok (live c2 (Live w))"
  using assms by (auto simp: next_state_def split: authority_state.splits if_splits)

lemma lapsed_not_live: "lapsed t state \<Longrightarrow> not_before t clock \<Longrightarrow> \<not> is_ok (live clock state)"
  by (cases state; cases clock)
     (auto simp: lapsed_def not_before_def is_ok_iff remaining_Inr_iff)

lemma event_not_before_proposed:
  "event_not_before t e \<Longrightarrow> proposed i e = Some (c1, c2, next) \<Longrightarrow> not_before t c1"
  by (cases "(i, e)" rule: proposed.cases) (auto split: if_splits)

lemma lapsed_step:
  assumes "lapsed t (ch_state ch)" and "event_not_before t e"
  shows "lapsed t (ch_state (channel_step ch e))"
proof (cases "proposed (ch_identity ch) e")
  case None
  with assms show ?thesis by (simp add: channel_step_state)
next
  case (Some p)
  obtain c1 c2 nxt where p: "p = (c1, c2, nxt)"
    by (metis prod_cases3)
  with Some have "not_before t c1"
    using event_not_before_proposed [OF assms(2)] by simp
  then have "\<not> is_ok (live c1 (ch_state ch))"
    using lapsed_not_live [OF assms(1)] by simp
  then have "next_state c1 c2 (ch_state ch) nxt \<noteq> Live w" for w
    using next_state_Live by blast
  with Some p show ?thesis
    by (auto simp: channel_step_state lapsed_def split: authority_state.splits)
qed

interpretation lapse: kept_by_steps channel_step "event_not_before t" "\<lambda>ch. lapsed t (ch_state ch)" for t
  by unfold_locales (rule lapsed_step)

interpretation sticky: kept_by_steps channel_step "\<lambda>_. True" "\<lambda>ch. ch_state ch = Stop r" for r
  by unfold_locales (simp add: channel_step_state split: option.splits prod.splits)

lemma check_authority_Inr:
  "check_authority clock ch lw = (Inr d, lw') \<longleftrightarrow>
     (\<exists>w. ch_state ch = Live w \<and> ch_senders ch \<and> remaining w clock = Inr d \<and> lw' = w)"
  by (auto simp: check_authority_def split: authority_state.splits)

lemma check_authority_not_live:
  "\<not> is_ok (live clock (ch_state ch)) \<Longrightarrow> \<not> is_ok (fst (check_authority clock ch lw))"
  by (auto simp: check_authority_def split: authority_state.splits)

text \<open>C5. A lapsed authority is never resurrected. Once the channel's window has ended at
  instant \<open>t\<close> (or it was stopped), then after every history of renewals, stops,
  acknowledgements and refresh requests whose clock readings are not before \<open>t\<close>, the
  supervisor's check refuses at every reading not before \<open>t\<close>: a grant that arrives late
  cannot revive the execution.\<close>

theorem lapsed_never_resurrected:
  assumes "lapsed t (ch_state ch)" and "\<forall>e \<in> set es. event_not_before t e" and "not_before t clock"
  shows "\<not> is_ok (fst (check_authority clock (foldl channel_step ch es) lw))"
  by (rule check_authority_not_live [OF lapsed_not_live [OF lapse.run_keeps [OF assms(1,2)] assms(3)]])

definition sample_channel :: authority_channel where
  "sample_channel =
     \<lparr>ch_identity = fixture_authority, ch_state = Live sample_window, ch_requested = 0,
      ch_acknowledged = 0, ch_senders = True, ch_receivers = True\<rparr>"

definition later_grant :: renewal_outcome where
  "later_grant = Renewed \<lparr>rn_identity = fixture_authority,
     rn_authority = \<lparr>sent = 124000000000, deadline = 149000000000\<rparr>\<rparr>"

theorem lapsed_never_resurrected_witness:
  "\<not> is_ok (fst (check_authority (Inr 127000000000)
     (foldl channel_step sample_channel [Apply (Inr 125000000000) (Inr 126000000000) later_grant])
     sample_window))"
  by (rule lapsed_never_resurrected [of 125000000000])
     (simp_all add: lapsed_def sample_channel_def sample_window_def not_before_def)

text \<open>C22. The first stop wins. Once the channel holds a stop reason, every check after
  every further history, whatever the clock says, reports that same reason.\<close>

theorem first_stop_wins:
  assumes "ch_state ch = Stop reason"
  shows "fst (check_authority clock (foldl channel_step ch es) lw) = Inl reason"
  using sticky.run_keeps [of ch reason es] assms by (simp add: check_authority_def)

theorem first_stop_wins_witness:
  "fst (check_authority (Inr 110000000000)
     (foldl channel_step (sample_channel\<lparr>ch_state := Stop (Rejected Fenced)\<rparr>)
        [Apply (Inr 109000000000) (Inr 109000000000) later_grant, Stop_With (Inr 0) (Inr 0) RenewalFailed])
     sample_window) = Inl (Rejected Fenced)"
  by (rule first_stop_wins) simp

text \<open>Provenance: a live window is the initial one or one that an applied outcome carried.\<close>

definition granted_windows :: "attempt_authority \<Rightarrow> channel_event list \<Rightarrow> authority_window set" where
  "granted_windows identity es =
     {rn_authority grant | grant c1 c2. Apply c1 c2 (Renewed grant) \<in> set es \<and> rn_identity grant = identity}"

lemma proposed_Live:
  "proposed i e = Some (c1, c2, Live w) \<Longrightarrow>
     \<exists>grant. e = Apply c1 c2 (Renewed grant) \<and> rn_identity grant = i \<and> rn_authority grant = w"
  by (cases "(i, e)" rule: proposed.cases) (auto split: if_splits)

lemma channel_step_Live:
  assumes "ch_state (channel_step ch e) = Live w"
  shows "ch_state ch = Live w
    \<or> (\<exists>grant c1 c2. e = Apply c1 c2 (Renewed grant) \<and> rn_identity grant = ch_identity ch
          \<and> rn_authority grant = w \<and> is_ok (live c1 (ch_state ch)))"
  using assms by (auto simp: channel_step_state dest!: proposed_Live next_state_Live
      split: option.splits prod.splits)

lemma live_window_provenance:
  "ch_state (foldl channel_step ch es) = Live w \<Longrightarrow>
     ch_state ch = Live w \<or> w \<in> granted_windows (ch_identity ch) es"
proof (induction es arbitrary: ch)
  case Nil
  then show ?case by simp
next
  case (Cons e es)
  have mono: "granted_windows i es \<subseteq> granted_windows i (e # es)" for i
    by (auto simp: granted_windows_def)
  from Cons have "ch_state (channel_step ch e) = Live w \<or> w \<in> granted_windows (ch_identity ch) es"
    by fastforce
  then show ?case
  proof
    assume "ch_state (channel_step ch e) = Live w"
    then show ?thesis
      by (auto simp: granted_windows_def dest: channel_step_Live)
  qed (use mono in blast)
qed

section \<open>Refresh requests\<close>

definition counters_ok :: "authority_channel \<Rightarrow> bool" where
  "counters_ok ch = (ch_acknowledged ch \<le> ch_requested ch)"

lemma request_refresh_Inr:
  "request_refresh clock ch lw = (Inr revision, ch', lw') \<Longrightarrow>
     unat revision = unat (ch_requested ch) + 1 \<and> ch' = ch\<lparr>ch_requested := revision\<rparr>"
  by (auto simp: request_refresh_def checked_add_unat split: prod.splits sum.splits option.splits)

text \<open>C23. The refresh barrier. A new refresh request is not satisfied by anything
  acknowledged so far: it takes a revision above the acknowledged one, so the waiting loop
  cannot return a window while it reads the acknowledgements as they are; and when it does
  return, the acknowledged revision it read has reached the request and the window is the
  live one it read last, still open at the last clock reading.\<close>

theorem refresh_barrier:
  assumes "counters_ok ch" and "request_refresh clock ch lw = (Inr revision, ch', lw')"
  shows "(\<forall>c1 c2 c3 ch1 ch3 l w. fst (refresh_turn c1 c2 c3 revision ch1 ch' ch3 l) \<noteq> Some (Inr w))
    \<and> (\<forall>c1 c2 c3 ch1 ch2 ch3 l w. fst (refresh_turn c1 c2 c3 revision ch1 ch2 ch3 l) = Some (Inr w)
         \<longrightarrow> revision \<le> ch_acknowledged ch2 \<and> ch_state ch3 = Live w
             \<and> (\<exists>d. remaining w c3 = Inr d))"
proof -
  from request_refresh_Inr [OF assms(2)]
  have rev: "unat revision = unat (ch_requested ch) + 1" and ch': "ch' = ch\<lparr>ch_requested := revision\<rparr>"
    by simp_all
  then have "ch_acknowledged ch' < revision"
    using assms(1) by (simp add: counters_ok_def word_le_nat_alt word_less_nat_alt)
  then have first: "fst (refresh_turn c1 c2 c3 revision ch1 ch' ch3 l) \<noteq> Some (Inr w)" for c1 c2 c3 ch1 ch3 l w
    by (auto simp: refresh_turn_def not_le [symmetric] split: prod.splits sum.splits)
  have "revision \<le> ch_acknowledged ch2 \<and> ch_state ch3 = Live w \<and> (\<exists>d. remaining w c3 = Inr d)"
    if "fst (refresh_turn c1 c2 c3 revision ch1 ch2 ch3 l) = Some (Inr w)" for c1 c2 c3 ch1 ch2 ch3 l w
    using that by (auto simp: refresh_turn_def window_of_def Let_def
        split: prod.splits sum.splits if_splits authority_state.splits)
  with first show ?thesis by blast
qed

theorem refresh_barrier_witness:
  "fst (refresh_turn (Inr 110000000000) (Inr 110000000000) (Inr 110000000000) 1
     sample_channel (sample_channel\<lparr>ch_requested := 1\<rparr>) sample_channel sample_window) \<noteq> Some (Inr sample_window)"
proof -
  have "request_refresh (Inr 110000000000) sample_channel sample_window
      = (Inr 1, sample_channel\<lparr>ch_requested := 1\<rparr>, sample_window)"
    by (simp add: request_refresh_def check_authority_def sample_channel_def sample_window_def
        remaining_def remaining_at_def checked_add_def)
  moreover have "counters_ok sample_channel"
    by (simp add: counters_ok_def sample_channel_def)
  ultimately show ?thesis
    using refresh_barrier by blast
qed

section \<open>Termination of the container\<close>

lemma unat_stop_grace:
  "unat (stop_grace g r) = min (unat g) (min ((r - cleanup_budget * 3) div 1000000000) 300)"
proof -
  have "min ((r - cleanup_budget * 3) div 1000000000) 300 < 2 ^ LENGTH(32)"
    by (simp add: min_def)
  then have "unat (word_of_nat (min ((r - cleanup_budget * 3) div 1000000000) 300) :: u32)
      = min ((r - cleanup_budget * 3) div 1000000000) 300"
    by (simp add: unat_of_nat)
  then show ?thesis
    by (simp add: stop_grace_def unat_min Let_def)
qed

text \<open>User grace never eats into the authority. The grace given to a stopped container
  is at most the one requested and at most 300 seconds, and when it is positive, the whole
  grace plus three cleanup budgets (the stop call, the kill and the inspection) fits into
  the time the last observed window has left.\<close>

theorem grace_within_authority:
  "unat (stop_grace requested r) \<le> min (unat requested) 300
   \<and> (0 < stop_grace requested r \<longrightarrow>
        unat (stop_grace requested r) * 1000000000 + 3 * cleanup_budget \<le> r)"
proof -
  have "unat (stop_grace requested r) \<le> (r - cleanup_budget * 3) div 1000000000"
    by (simp add: unat_stop_grace)
  then have "unat (stop_grace requested r) * 1000000000 \<le> r - cleanup_budget * 3"
    using div_times_less_eq_dividend [of "r - cleanup_budget * 3" 1000000000]
      mult_le_mono1 le_trans by blast
  then have "unat (stop_grace requested r) * 1000000000 + 3 * cleanup_budget \<le> r"
    if "0 < unat (stop_grace requested r)"
    using that by linarith
  then show ?thesis
    by (simp add: word_less_nat_alt) (simp add: unat_stop_grace)
qed

theorem grace_within_authority_witness:
  "0 < stop_grace 10 21000000000
   \<and> unat (stop_grace 10 21000000000) * 1000000000 + 3 * cleanup_budget \<le> 21000000000"
proof -
  have "0 < stop_grace 10 21000000000"
    by (simp add: word_less_nat_alt unat_stop_grace cleanup_budget_def)
  with grace_within_authority [of 10 21000000000] show ?thesis by blast
qed

lemma while_live_Inr:
  "while_live turns lw = Some (Inr x, lw') \<Longrightarrow>
     \<exists>clock ch clock' ch'. Turn clock ch (Some (x, clock', ch')) \<in> set turns
       \<and> is_ok (fst (check_authority clock' ch' lw'))"
proof (induction turns lw rule: while_live.induct)
  case (2 clock ch event turns lw)
  obtain r l where r: "check_authority clock ch lw = (r, l)"
    by fastforce
  from 2 r obtain d where d: "r = Inr d"
    by (cases r) simp_all
  show ?case
  proof (cases event)
    case None
    with 2 r d show ?thesis by fastforce
  next
    case (Some e)
    obtain y c' ch' where e: "e = (y, c', ch')"
      by (metis prod_cases3)
    obtain r' l' where r': "check_authority c' ch' l = (r', l')"
      by fastforce
    with 2 r d Some e obtain d' where d': "r' = Inr d'" "y = x" "lw' = l'"
      by (cases r') auto
    then have "check_authority c' ch' lw' = (Inr d', lw')"
      using r' by (auto simp: check_authority_Inr)
    then show ?thesis
      using Some e d'(2)
      by (intro exI [of _ clock] exI [of _ ch] exI [of _ c'] exI [of _ ch']) simp
  qed
qed simp

lemma observe_Inr:
  "observe rounds lw = Some (Inr status, lw') \<Longrightarrow> exit_guard status
     \<and> (\<exists>inspection \<in> set (map fst rounds). \<exists>lw0. while_live inspection lw0 = Some (Inr (Inr status), lw'))"
proof (induction rounds lw rule: observe.induct)
  case (2 inspection sleep rounds lw)
  from 2 obtain st l where st: "while_live inspection lw = Some (Inr (Inr st), l)"
    by (auto split: option.splits prod.splits sum.splits)
  show ?case
  proof (cases "exit_guard st")
    case True
    with 2 st show ?thesis by auto
  next
    case False
    with 2 st obtain l' where "while_live sleep l = Some (Inr (), l')" "observe rounds l' = Some (Inr status, lw')"
      "cs_running st"
      by (auto split: option.splits prod.splits sum.splits if_splits)
    with 2(1) [OF st refl refl refl False] show ?thesis by fastforce
  qed
qed simp

lemma stop_grace_positive:
  assumes "0 < stop_grace requested r"
  shows "1000000000 + 3 * cleanup_budget \<le> r"
proof -
  have "0 < (r - cleanup_budget * 3) div 1000000000"
    using assms by (simp add: word_less_nat_alt unat_stop_grace)
  then show ?thesis
    by (simp add: div_greater_zero_iff)
qed

text \<open>C24. Supervision reports only what was observed. An exit is reported only with exit
  evidence (an exited or dead container that is not running, with an exit code from 0 to
  255) returned by an inspection that finished while the authority was live. A stop is
  reported with the reason that ended the observation, and as confirmed only if the daemon
  answered the final inspection with a stopped container or that it does not exist, or, for a
  stop the server requested, if the runtime's stop succeeded and the last window seen left at
  least one second of grace besides the three cleanup budgets.\<close>

theorem supervision_reports_evidence:
  assumes "supervise_running rounds lw clock stopped inspected = Some outcome"
  shows "(\<forall>status. outcome = Exited status \<longrightarrow> exit_guard status
           \<and> (\<exists>inspection \<in> set (map fst rounds). \<exists>clock ch clock' ch' lw'.
                Turn clock ch (Some (Inr status, clock', ch')) \<in> set inspection
                \<and> is_ok (fst (check_authority clock' ch' lw'))))
    \<and> (\<forall>reason confirmed. outcome = Stopped reason confirmed \<longrightarrow>
         (\<exists>lw'. observe rounds lw = Some (Inl reason, lw')
            \<and> (confirmed \<longrightarrow>
                 (reason = Rejected StopRequested \<and> stopped = Some (Inr ())
                  \<and> 1000000000 + 3 * cleanup_budget \<le> remaining_for_cleanup clock lw')
                 \<or> inspected = Some (Inl (Rt_Daemon 404))
                 \<or> (\<exists>status. inspected = Some (Inr status) \<and> \<not> cs_running status
                      \<and> cs_state status \<in> {Cs_Exited, Cs_Dead}))))"
proof -
  have confirmed: "terminate inspected \<Longrightarrow> inspected = Some (Inl (Rt_Daemon 404))
         \<or> (\<exists>status. inspected = Some (Inr status) \<and> \<not> cs_running status
              \<and> cs_state status \<in> {Cs_Exited, Cs_Dead})"
    by (auto simp: terminate_def split: option.splits sum.splits runtime_error.splits)
  have exited: "exit_guard status \<and> (\<exists>inspection \<in> set (map fst rounds). \<exists>clock ch clock' ch' lw'.
                Turn clock ch (Some (Inr status, clock', ch')) \<in> set inspection
                \<and> is_ok (fst (check_authority clock' ch' lw')))"
    if "observe rounds lw = Some (Inr status, lw1)" for status lw1
    using observe_Inr [OF that] while_live_Inr by meson
  from assms obtain r l where r: "observe rounds lw = Some (r, l)"
    by (auto simp: supervise_running_def split: option.splits)
  show ?thesis
  proof (cases r)
    case (Inl reason)
    with assms r show ?thesis
      using confirmed stop_grace_positive by (auto simp: supervise_running_def terminate_requested_def split: if_splits)
  next
    case (Inr status)
    with assms r have out: "outcome = Exited status"
      by (simp add: supervise_running_def)
    show ?thesis
      using exited [of status l] r Inr unfolding out by blast
  qed
qed

text \<open>An inspection that finds the container exited, for the witness.\<close>

definition exited_status :: container_status where
  "exited_status = \<lparr>cs_running = False, cs_exit_code = Some 0, cs_oom_killed = False, cs_state = Cs_Exited\<rparr>"

theorem supervision_reports_evidence_witness:
  "supervise_running
     [([Turn (Inr 110000000000) sample_channel (Some (Inr exited_status, Inr 111000000000, sample_channel))], [])]
     sample_window (Inr 111000000000) None None = Some (Exited exited_status)
   \<and> exit_guard exited_status"
proof -
  have run: "supervise_running
     [([Turn (Inr 110000000000) sample_channel (Some (Inr exited_status, Inr 111000000000, sample_channel))], [])]
     sample_window (Inr 111000000000) None None = Some (Exited exited_status)"
    by (simp add: supervise_running_def check_authority_def sample_channel_def sample_window_def
        remaining_def remaining_at_def exit_guard_def exited_status_def)
  show ?thesis
    using supervision_reports_evidence [OF run] run by blast
qed

end
