(* ===== verification/Maintain.thy ===== *)
theory Maintain
  imports Supervisor
begin

text \<open>
  \<open>rust/worker/src/control/renew/maintain.rs\<close>: the task that renews one batch of leases
  until every consumer has finished or lost its authority. Its loop is a state machine
  over the batch of authority channels: \<open>maintain_send\<close> is the part from the head of the
  loop to the RPC, \<open>maintain_receive\<close> the part from the RPC's result to the wait. Other
  tasks act on the channels between the two and during the wait; those events are the
  channel events of \<open>Supervisor\<close>. The readings of the clock are functions of the member's
  or outcome's index, one per place in the code that reads it.
\<close>

section \<open>The code\<close>

text \<open>gRPC codes: \<open>DeadlineExceeded\<close> is 4, \<open>FailedPrecondition\<close> 9, \<open>Unavailable\<close> 14.\<close>

fun retryable :: "client_error \<Rightarrow> bool" where
  "retryable C_Connection = True"
| "retryable C_Deadline = True"
| "retryable (C_Rpc code message) = (code = 14 \<or> code = 4)"
| "retryable _ = False"

fun upload_stop_requested :: "client_error \<Rightarrow> bool" where
  "upload_stop_requested (C_Rpc code message) = (code = 9 \<and> message = ''UPLOAD_STOP_REQUESTED'')"
| "upload_stop_requested _ = False"

record readings =
  rd_head :: "nat \<Rightarrow> clock" \<comment> \<open>\<open>any(active)\<close> at the head of the loop\<close>
  rd_filter :: "nat \<Rightarrow> clock" \<comment> \<open>\<open>filter\<close> of the active members\<close>
  rd_current :: "nat \<Rightarrow> clock" \<comment> \<open>\<open>live(current)\<close> in \<open>update\<close>\<close>
  rd_next :: "nat \<Rightarrow> clock" \<comment> \<open>\<open>live(next)\<close> in \<open>update\<close>\<close>
  rd_acknowledge :: "nat \<Rightarrow> clock" \<comment> \<open>\<open>active\<close> before the acknowledgement\<close>
  rd_tail :: "nat \<Rightarrow> clock" \<comment> \<open>\<open>any(active)\<close> after the result\<close>
  rd_stop :: "nat \<Rightarrow> clock" \<comment> \<open>\<open>live(current)\<close> in \<open>stop\<close>\<close>

record pending =
  pd_request :: renew_leases_request
  pd_revisions :: "u64 list"

datatype task_end = Returned "client_error + unit" | Cancelled

record maintain_state =
  mt_batch :: "authority_channel list"
  mt_pending :: "pending option"
  mt_end :: "task_end option"

text \<open>The second reading of \<open>update\<close> does not matter for a stop, so one function serves both.\<close>

definition batch_stop :: "(nat \<Rightarrow> clock) \<Rightarrow> stop_reason \<Rightarrow> authority_channel list \<Rightarrow> authority_channel list" where
  "batch_stop clocks reason batch =
     map (\<lambda>(i, ch). stop_authority (clocks i) (clocks i) reason ch) (enumerate 0 batch)"

definition any_active :: "(nat \<Rightarrow> clock) \<Rightarrow> authority_channel list \<Rightarrow> bool" where
  "any_active clocks batch = list_ex (\<lambda>(i, ch). active (clocks i) ch) (enumerate 0 batch)"

definition batch_request ::
  "bool \<Rightarrow> (nat \<Rightarrow> clock) \<Rightarrow> u8 list option \<Rightarrow> authority_channel list \<Rightarrow> client_error + renew_leases_request" where
  "batch_request active_only clocks fill batch =
     (case batch of
        [] \<Rightarrow> Inl C_Configuration
      | first # _ \<Rightarrow>
          and_then (map_err (\<lambda>_. C_Random) (new_uuid fill)) (\<lambda>uuid.
            Inr \<lparr>rl_session = Some \<lparr>ws_worker_id = aa_worker_id (ch_identity first),
                                    ws_session_id = aa_session_id (ch_identity first)\<rparr>,
                 rl_request_id = uuid,
                 rl_attempts = map (ch_identity \<circ> snd)
                   (filter (\<lambda>(i, ch). \<not> active_only \<or> active (clocks i) ch) (enumerate 0 batch))\<rparr>))"

text \<open>Every return, and cancelling the future, drops the \<open>Batch\<close>, whose destructor stops
  what is still live.\<close>

definition drop_batch :: "readings \<Rightarrow> task_end \<Rightarrow> maintain_state \<Rightarrow> maintain_state" where
  "drop_batch rd how s =
     s\<lparr>mt_batch := batch_stop (rd_stop rd) ControllerLost (mt_batch s), mt_end := Some how\<rparr>"

definition finish :: "readings \<Rightarrow> client_error + unit \<Rightarrow> maintain_state \<Rightarrow> maintain_state" where
  "finish rd result = drop_batch rd (Returned result)"

definition maintain_start :: "readings \<Rightarrow> u8 list option \<Rightarrow> authority_channel list \<Rightarrow> maintain_state" where
  "maintain_start rd fill batch =
     (let s = \<lparr>mt_batch = batch, mt_pending = None, mt_end = None\<rparr>
      in if batch = [] \<or> 64 < length batch then finish rd (Inl C_Configuration) s
         else case and_then (batch_request False (rd_filter rd) fill batch) validate_renewal_request of
                Inl e \<Rightarrow> finish rd (Inl e) s
              | Inr _ \<Rightarrow> s)"

definition maintain_send :: "readings \<Rightarrow> u8 list option \<Rightarrow> maintain_state \<Rightarrow> maintain_state" where
  "maintain_send rd fill s =
     (if \<not> any_active (rd_head rd) (mt_batch s) then finish rd (Inr ()) s
      else
        case (case mt_pending s of
                Some p \<Rightarrow> Inr p
              | None \<Rightarrow>
                  and_then (batch_request True (rd_filter rd) fill (mt_batch s)) (\<lambda>request.
                    Inr \<lparr>pd_request = request, pd_revisions = map refresh_revision (mt_batch s)\<rparr>))
        of
          Inl e \<Rightarrow> finish rd (Inl e) s
        | Inr p \<Rightarrow>
            if rl_attempts (pd_request p) = []
            then finish rd (Inr ()) (s\<lparr>mt_pending := Some p\<rparr>)
            else s\<lparr>mt_pending := Some p\<rparr>)"

fun find_index :: "('a \<Rightarrow> bool) \<Rightarrow> 'a list \<Rightarrow> nat option" where
  "find_index P [] = None"
| "find_index P (x # xs) = (if P x then Some 0 else map_option Suc (find_index P xs))"

definition is_renewed :: "renewal_outcome \<Rightarrow> bool" where
  "is_renewed outcome = (case outcome of Renewed _ \<Rightarrow> True | _ \<Rightarrow> False)"

text \<open>The loop over the outcomes; \<open>k\<close> counts them. An outcome of no member returns at once,
  a refused one first stops the batch.\<close>

fun apply_outcomes ::
  "readings \<Rightarrow> u64 list \<Rightarrow> nat \<Rightarrow> renewal_outcome list \<Rightarrow> authority_channel list
     \<Rightarrow> (client_error + unit) \<times> authority_channel list" where
  "apply_outcomes rd revisions k [] batch = (Inr (), batch)"
| "apply_outcomes rd revisions k (outcome # outcomes) batch =
     (case find_index (\<lambda>ch. ch_identity ch = outcome_identity outcome) batch of
        None \<Rightarrow> (Inl C_Response, batch)
      | Some i \<Rightarrow>
          (case apply_outcome (rd_current rd k) (rd_next rd k) outcome (batch ! i) of
             (Inl _, ch) \<Rightarrow> (Inl C_Response, batch_stop (rd_stop rd) RenewalFailed (batch[i := ch]))
           | (Inr _, ch) \<Rightarrow>
               apply_outcomes rd revisions (Suc k) outcomes
                 (batch[i := if is_renewed outcome \<and> active (rd_acknowledge rd k) ch
                             then acknowledge_refresh (revisions ! i) ch else ch])))"

definition maintain_receive ::
  "readings \<Rightarrow> client_error + renewal_outcome list \<Rightarrow> maintain_state \<Rightarrow> maintain_state" where
  "maintain_receive rd result s =
     (case mt_pending s of
        None \<Rightarrow> s
      | Some p \<Rightarrow>
          (case
             (case result of
                Inr outcomes \<Rightarrow>
                  if map outcome_identity outcomes \<noteq> rl_attempts (pd_request p)
                  then Inl (C_Response, batch_stop (rd_stop rd) RenewalFailed (mt_batch s))
                  else (case apply_outcomes rd (pd_revisions p) 0 outcomes (mt_batch s) of
                          (Inl e, batch) \<Rightarrow> Inl (e, batch)
                        | (Inr _, batch) \<Rightarrow> Inr (s\<lparr>mt_batch := batch, mt_pending := None\<rparr>))
              | Inl e \<Rightarrow>
                  if retryable e then Inr s
                  else Inl (e, batch_stop (rd_stop rd) RenewalFailed (mt_batch s)))
           of
             Inl (e, batch) \<Rightarrow> finish rd (Inl e) (s\<lparr>mt_batch := batch\<rparr>)
           | Inr s' \<Rightarrow>
               if any_active (rd_tail rd) (mt_batch s') then s' else finish rd (Inr ()) s'))"

section \<open>Histories of the task\<close>

datatype maintain_event =
  Send readings "u8 list option"
| Receive readings "client_error + renewal_outcome list"
| Member nat channel_event
| Cancel readings

fun maintain_step :: "maintain_state \<Rightarrow> maintain_event \<Rightarrow> maintain_state" where
  "maintain_step s (Send rd fill) = (if mt_end s = None then maintain_send rd fill s else s)"
| "maintain_step s (Receive rd result) = (if mt_end s = None then maintain_receive rd result s else s)"
| "maintain_step s (Member i e) =
     (if i < length (mt_batch s)
      then s\<lparr>mt_batch := (mt_batch s)[i := channel_step (mt_batch s ! i) e]\<rparr> else s)"
| "maintain_step s (Cancel rd) = (if mt_end s = None then drop_batch rd Cancelled s else s)"

section \<open>What each part changes\<close>

lemma stop_authority_fields [simp]:
  "ch_identity (stop_authority c1 c2 r ch) = ch_identity ch"
  "ch_requested (stop_authority c1 c2 r ch) = ch_requested ch"
  "ch_acknowledged (stop_authority c1 c2 r ch) = ch_acknowledged ch"
  by (simp_all add: stop_authority_def update_def)

lemma apply_outcome_fields:
  assumes "apply_outcome c1 c2 outcome ch = (r, ch')"
  shows "ch_identity ch' = ch_identity ch \<and> ch_requested ch' = ch_requested ch
    \<and> ch_acknowledged ch' = ch_acknowledged ch"
  using assms by (cases outcome) (auto simp: update_def split: if_splits)

lemma stop_authority_stops: "\<exists>r'. ch_state (stop_authority c1 c2 r ch) = Stop r'"
  by (auto simp: stop_authority_def update_def next_state_def split: authority_state.splits)

lemma length_batch_stop [simp]: "length (batch_stop clocks r batch) = length batch"
  by (simp add: batch_stop_def)

lemma batch_stop_nth [simp]:
  "i < length batch \<Longrightarrow> batch_stop clocks r batch ! i = stop_authority (clocks i) (clocks i) r (batch ! i)"
  by (simp add: batch_stop_def nth_enumerate_eq)

definition stopped :: "authority_channel \<Rightarrow> bool" where
  "stopped ch = (case ch_state ch of Stop _ \<Rightarrow> True | Live _ \<Rightarrow> False)"

lemma stopped_iff: "stopped ch \<longleftrightarrow> (\<exists>r. ch_state ch = Stop r)"
  by (auto simp: stopped_def split: authority_state.splits)

lemma batch_stop_stopped: "list_all stopped (batch_stop clocks r batch)"
  by (simp add: list_all_length stopped_iff stop_authority_stops)

text \<open>How a member may change while its batch is handled: same identity and requests, and
  an acknowledgement of at most \<open>revision\<close>.\<close>

definition member_ok :: "u64 \<Rightarrow> authority_channel \<Rightarrow> authority_channel \<Rightarrow> bool" where
  "member_ok revision ch ch' \<longleftrightarrow>
     ch_identity ch' = ch_identity ch \<and> ch_requested ch' = ch_requested ch
     \<and> ch_acknowledged ch' \<le> max (ch_acknowledged ch) revision"

lemma member_ok_refl [simp]: "member_ok revision ch ch"
  by (simp add: member_ok_def)

lemma member_ok_trans: "member_ok v a b \<Longrightarrow> member_ok v b c \<Longrightarrow> member_ok v a c"
  by (auto simp: member_ok_def max_def split: if_splits)

lemma member_ok_stop [simp]: "member_ok v ch (stop_authority c1 c2 r ch)"
  by (simp add: member_ok_def)

lemma find_index_Some: "find_index P xs = Some i \<Longrightarrow> i < length xs \<and> P (xs ! i)"
  by (induction xs arbitrary: i) (auto split: if_splits)

definition members_ok :: "u64 list \<Rightarrow> authority_channel list \<Rightarrow> authority_channel list \<Rightarrow> bool" where
  "members_ok revisions batch batch' \<longleftrightarrow>
     length batch' = length batch \<and> (\<forall>i < length batch. member_ok (revisions ! i) (batch ! i) (batch' ! i))"

lemma members_ok_refl [simp]: "members_ok revisions batch batch"
  by (simp add: members_ok_def)

lemma members_ok_trans:
  "members_ok revisions a b \<Longrightarrow> members_ok revisions b c \<Longrightarrow> members_ok revisions a c"
  by (auto simp: members_ok_def intro: member_ok_trans)

lemma members_ok_stop [simp]: "members_ok revisions batch (batch_stop clocks r batch)"
  by (simp add: members_ok_def)

lemma members_ok_update:
  "member_ok (revisions ! i) (batch ! i) ch \<Longrightarrow> members_ok revisions batch (batch[i := ch])"
  by (clarsimp simp: members_ok_def, rename_tac j, case_tac "i = j") simp_all

lemma apply_outcomes_members:
  "apply_outcomes rd revisions k outcomes batch = (r, batch') \<Longrightarrow> members_ok revisions batch batch'"
proof (induction rd revisions k outcomes batch rule: apply_outcomes.induct)
  case (2 rd revisions k outcome outcomes batch)
  show ?case
  proof (cases "find_index (\<lambda>ch. ch_identity ch = outcome_identity outcome) batch")
    case None
    with 2 show ?thesis by simp
  next
    case (Some i)
    obtain a ch where a: "apply_outcome (rd_current rd k) (rd_next rd k) outcome (batch ! i) = (a, ch)"
      by fastforce
    let ?ch = "if is_renewed outcome \<and> active (rd_acknowledge rd k) ch
                 then acknowledge_refresh (revisions ! i) ch else ch"
    have "member_ok (revisions ! i) (batch ! i) ch" "member_ok (revisions ! i) (batch ! i) ?ch"
      using apply_outcome_fields [OF a] by (simp_all add: member_ok_def acknowledge_refresh_def)
    then have up: "members_ok revisions batch (batch[i := ch])" "members_ok revisions batch (batch[i := ?ch])"
      by (simp_all only: members_ok_update)
    show ?thesis
    proof (cases a)
      case (Inl e)
      then show ?thesis
        using 2(2) Some a members_ok_trans [OF up(1) members_ok_stop] by auto
    next
      case (Inr u)
      then show ?thesis
        using 2 Some a members_ok_trans [OF up(2)] by simp
    qed
  qed
qed simp

lemma drop_batch_members [simp]: "members_ok revisions (mt_batch s) (mt_batch (drop_batch rd how s))"
  by (simp add: drop_batch_def)

lemma drop_batch_pending [simp]: "mt_pending (drop_batch rd how s) = mt_pending s"
  by (simp add: drop_batch_def)

lemma finish_pending [simp]: "mt_pending (finish rd result s) = mt_pending s"
  by (simp add: finish_def)

lemma maintain_send_members: "members_ok revisions (mt_batch s) (mt_batch (maintain_send rd fill s))"
  by (auto simp: maintain_send_def finish_def drop_batch_def split: option.splits sum.splits)

lemma maintain_send_pending:
  "mt_pending (maintain_send rd fill s) = mt_pending s
   \<or> (mt_pending s = None
      \<and> (\<exists>request. mt_pending (maintain_send rd fill s)
            = Some \<lparr>pd_request = request, pd_revisions = map refresh_revision (mt_batch s)\<rparr>))"
  by (auto simp: maintain_send_def finish_def split: option.splits sum.splits)

lemma maintain_receive_effect:
  assumes "mt_pending s = Some p"
  shows "members_ok (pd_revisions p) (mt_batch s) (mt_batch (maintain_receive rd result s))
    \<and> mt_pending (maintain_receive rd result s) \<in> {None, Some p}"
proof -
  have tail: "members_ok (pd_revisions p) (mt_batch s)
        (mt_batch (if any_active c (mt_batch s') then s' else finish rd (Inr ()) s'))
      \<and> mt_pending (if any_active c (mt_batch s') then s' else finish rd (Inr ()) s') = mt_pending s'"
    if "members_ok (pd_revisions p) (mt_batch s) (mt_batch s')" for c s'
    using members_ok_trans [OF that drop_batch_members] that by (simp add: finish_def)
  have fin: "members_ok (pd_revisions p) (mt_batch s) (mt_batch (finish rd e (s\<lparr>mt_batch := b\<rparr>)))"
    if "members_ok (pd_revisions p) (mt_batch s) b" for e b
    by (rule members_ok_trans [OF that]) (simp add: finish_def drop_batch_def)
  show ?thesis
  proof (cases result)
    case (Inl e)
    with assms tail [of s] show ?thesis
      by (auto simp: maintain_receive_def fin)
  next
    case (Inr outcomes)
    obtain r batch where r: "apply_outcomes rd (pd_revisions p) 0 outcomes (mt_batch s) = (r, batch)"
      by fastforce
    note m = apply_outcomes_members [OF r]
    show ?thesis
      using assms Inr r m tail [of "s\<lparr>mt_batch := batch, mt_pending := None\<rparr>"]
      by (cases r) (auto simp: maintain_receive_def fin)
  qed
qed

section \<open>The task closes the authorities it held\<close>

definition closed_at_end :: "maintain_state \<Rightarrow> bool" where
  "closed_at_end s = (mt_end s \<noteq> None \<longrightarrow> list_all stopped (mt_batch s))"

lemma drop_batch_closed [simp]: "closed_at_end (drop_batch rd how s)"
  by (simp add: closed_at_end_def drop_batch_def batch_stop_stopped)

lemma stopped_channel_step: "stopped ch \<Longrightarrow> stopped (channel_step ch e)"
  using sticky.step_keeps [of ch _ e] by (auto simp: stopped_iff)

lemma maintain_receive_closed:
  "mt_end s = None \<Longrightarrow> closed_at_end (maintain_receive rd result s)"
  by (simp add: maintain_receive_def finish_def split: option.split sum.split prod.split)
     (simp add: closed_at_end_def)

lemma maintain_send_closed:
  "mt_end s = None \<Longrightarrow> closed_at_end (maintain_send rd fill s)"
  by (simp add: maintain_send_def finish_def split: option.split sum.split)
     (simp add: closed_at_end_def)

lemma closed_step: "closed_at_end s \<Longrightarrow> closed_at_end (maintain_step s e)"
proof (cases e)
  case (Member i ev)
  moreover assume "closed_at_end s"
  ultimately show ?thesis
    by (auto simp: closed_at_end_def list_all_length nth_list_update stopped_channel_step)
qed (auto simp: maintain_receive_closed maintain_send_closed)

interpretation closing: kept_by_steps maintain_step "\<lambda>_. True" closed_at_end
  by unfold_locales (rule closed_step)

text \<open>C8. Ending the renewal task closes every authority it maintained. However the task
  ends, by an error, because nothing is active, or because its future is dropped, and
  whatever other tasks did before and do afterwards, each channel of its batch then holds
  a stop reason, so no supervisor check succeeds on it.\<close>

theorem renewal_end_closes_authority:
  assumes "mt_end (foldl maintain_step (maintain_start rd fill batch) es) \<noteq> None"
    and "ch \<in> set (mt_batch (foldl maintain_step (maintain_start rd fill batch) es))"
  shows "\<not> is_ok (fst (check_authority clock ch lw))"
proof -
  have "closed_at_end (maintain_start rd fill batch)"
    by (simp add: maintain_start_def finish_def Let_def split: sum.splits)
       (simp add: closed_at_end_def)
  then have "closed_at_end (foldl maintain_step (maintain_start rd fill batch) es)"
    by (simp add: closing.run_keeps)
  then have "stopped ch"
    using assms by (simp add: closed_at_end_def list_all_iff)
  then show ?thesis
    by (auto simp: stopped_iff check_authority_def)
qed

definition still_clock :: "nat \<Rightarrow> clock" where
  "still_clock i = Inr 110000000000"

definition still_readings :: readings where
  "still_readings = \<lparr>rd_head = still_clock, rd_filter = still_clock, rd_current = still_clock,
     rd_next = still_clock, rd_acknowledge = still_clock, rd_tail = still_clock, rd_stop = still_clock\<rparr>"

lemma unstarted_batch:
  "foldl maintain_step (maintain_start still_readings None [sample_channel]) [Cancel still_readings]
     = \<lparr>mt_batch = [sample_channel\<lparr>ch_state := Stop ControllerLost\<rparr>], mt_pending = None,
        mt_end = Some (Returned (Inl C_Random))\<rparr>"
  by (simp add: maintain_start_def batch_request_def new_uuid_def Let_def finish_def drop_batch_def
      batch_stop_def stop_authority_def update_def next_state_def sample_channel_def
      still_readings_def still_clock_def sample_window_def remaining_def remaining_at_def)

theorem renewal_end_closes_authority_witness:
  "\<not> is_ok (fst (check_authority (Inr 110000000000)
     (sample_channel\<lparr>ch_state := Stop ControllerLost\<rparr>) sample_window))"
  by (rule renewal_end_closes_authority
      [of still_readings None "[sample_channel]" "[Cancel still_readings]"])
     (simp_all only: unstarted_batch, simp_all)

section \<open>Refreshes are answered by new batches only\<close>

text \<open>Only the renewal task acknowledges refreshes.\<close>

fun foreign :: "maintain_event \<Rightarrow> bool" where
  "foreign (Member i (Acknowledge revision)) = False"
| "foreign _ = True"

lemma channel_step_counters:
  assumes "foreign (Member i e)"
  shows "ch_acknowledged (channel_step ch e) = ch_acknowledged ch
    \<and> ch_requested ch \<le> ch_requested (channel_step ch e)"
proof (cases e)
  case (Apply c1 c2 outcome)
  then show ?thesis
    using apply_outcome_fields [of c1 c2 outcome ch] by (cases "apply_outcome c1 c2 outcome ch") simp
next
  case (Request_Refresh clock)
  obtain r ch' lw where r: "request_refresh clock ch \<lparr>sent = 0, deadline = 0\<rparr> = (r, ch', lw)"
    by (metis prod_cases3)
  then have "ch_acknowledged ch' = ch_acknowledged ch"
    by (auto simp: request_refresh_def split: prod.splits sum.splits option.splits)
  moreover have "ch_requested ch \<le> ch_requested ch'"
  proof (cases r)
    case (Inl e)
    with r show ?thesis
      by (auto simp: request_refresh_def split: prod.splits sum.splits option.splits)
  next
    case (Inr revision)
    with r have "request_refresh clock ch \<lparr>sent = 0, deadline = 0\<rparr> = (Inr revision, ch', lw)"
      by simp
    from request_refresh_Inr [OF this] show ?thesis
      by (auto simp: word_le_nat_alt)
  qed
  ultimately show ?thesis
    using Request_Refresh r by simp
qed (use assms in auto)

text \<open>Member \<open>i\<close> has no acknowledgement of revision \<open>n\<close>, and no batch in flight can
  give one.\<close>

definition unanswered :: "nat \<Rightarrow> u64 \<Rightarrow> maintain_state \<Rightarrow> bool" where
  "unanswered i n s \<longleftrightarrow>
     i < length (mt_batch s) \<and> ch_acknowledged (mt_batch s ! i) < n
     \<and> (\<forall>p. mt_pending s = Some p \<longrightarrow> pd_revisions p ! i < n)"

definition new_batch :: "maintain_state \<Rightarrow> maintain_event \<Rightarrow> bool" where
  "new_batch s e = (mt_pending s = None \<and> (case e of Send _ _ \<Rightarrow> True | _ \<Rightarrow> False))"

lemma members_ok_nth:
  "members_ok revisions a b \<Longrightarrow> i < length a \<Longrightarrow>
     length b = length a \<and> member_ok (revisions ! i) (a ! i) (b ! i)"
  by (simp add: members_ok_def)

lemma unanswered_step:
  assumes "unanswered i n s" and "foreign e" and "\<not> new_batch s e"
  shows "unanswered i n (maintain_step s e)"
proof (cases e)
  case (Send rd fill)
  then obtain p where p: "mt_pending s = Some p"
    using assms(3) by (auto simp: new_batch_def)
  have "mt_pending (maintain_send rd fill s) = mt_pending s"
    using maintain_send_pending [of rd fill s] p by auto
  moreover have "member_ok (pd_revisions p ! i) (mt_batch s ! i) (mt_batch (maintain_send rd fill s) ! i)"
    "length (mt_batch (maintain_send rd fill s)) = length (mt_batch s)"
    using members_ok_nth [OF maintain_send_members [of "pd_revisions p" s rd fill]] assms(1)
    by (auto simp: unanswered_def)
  ultimately show ?thesis
    using assms(1) Send p by (auto simp: unanswered_def member_ok_def max_def split: if_splits)
next
  case (Receive rd result)
  show ?thesis
  proof (cases "mt_pending s")
    case None
    with assms(1) Receive show ?thesis by (simp add: maintain_receive_def)
  next
    case (Some p)
    note eff = maintain_receive_effect [OF Some, of rd result]
    have "member_ok (pd_revisions p ! i) (mt_batch s ! i) (mt_batch (maintain_receive rd result s) ! i)"
      "length (mt_batch (maintain_receive rd result s)) = length (mt_batch s)"
      using members_ok_nth [OF conjunct1 [OF eff], of i] assms(1) by (auto simp: unanswered_def)
    then show ?thesis
      using assms(1) Receive Some conjunct2 [OF eff]
      by (auto simp: unanswered_def member_ok_def max_def split: if_splits)
  qed
next
  case (Member j ev)
  then show ?thesis
    using assms(1,2) channel_step_counters [of j ev "mt_batch s ! i"]
    by (auto simp: unanswered_def nth_list_update)
next
  case (Cancel rd)
  with assms(1) show ?thesis
    by (auto simp: unanswered_def drop_batch_def)
qed

lemma answer_needs_new_batch:
  assumes "unanswered i n s" and "\<forall>e \<in> set es. foreign e"
    and "n \<le> ch_acknowledged (mt_batch (foldl maintain_step s es) ! i)"
  shows "\<exists>pre e post. es = pre @ e # post \<and> new_batch (foldl maintain_step s pre) e"
  using assms
proof (induction es arbitrary: s)
  case Nil
  then show ?case by (auto simp: unanswered_def)
next
  case (Cons e es)
  show ?case
  proof (cases "new_batch s e")
    case True
    then show ?thesis by (intro exI [of _ "[]"]) simp
  next
    case False
    with Cons.prems have "unanswered i n (maintain_step s e)"
      by (simp add: unanswered_step)
    with Cons obtain pre f post where "es = pre @ f # post" "new_batch (foldl maintain_step (maintain_step s e) pre) f"
      by fastforce
    then show ?thesis
      by (intro exI [of _ "e # pre"] exI [of _ f] exI [of _ post]) simp
  qed
qed

text \<open>No member is acknowledged, or about to be acknowledged, beyond what it requested.\<close>

definition revisions_ok :: "maintain_state \<Rightarrow> bool" where
  "revisions_ok s \<longleftrightarrow> (\<forall>i < length (mt_batch s). counters_ok (mt_batch s ! i)
     \<and> (\<forall>p. mt_pending s = Some p \<longrightarrow> pd_revisions p ! i \<le> ch_requested (mt_batch s ! i)))"

lemma member_ok_counters:
  "member_ok v ch ch' \<Longrightarrow> counters_ok ch \<Longrightarrow> v \<le> ch_requested ch \<Longrightarrow>
     counters_ok ch' \<and> ch_requested ch' = ch_requested ch"
  by (auto simp: member_ok_def counters_ok_def max_def split: if_splits)

lemma revisions_ok_members:
  assumes "revisions_ok s" and "members_ok revisions (mt_batch s) (mt_batch s')"
    and "\<forall>i < length (mt_batch s). revisions ! i \<le> ch_requested (mt_batch s ! i)"
    and "\<forall>p i. mt_pending s' = Some p \<longrightarrow> i < length (mt_batch s) \<longrightarrow>
           pd_revisions p ! i \<le> ch_requested (mt_batch s ! i)"
  shows "revisions_ok s'"
proof -
  have "counters_ok (mt_batch s' ! i) \<and> ch_requested (mt_batch s' ! i) = ch_requested (mt_batch s ! i)"
    if "i < length (mt_batch s)" for i
    using member_ok_counters members_ok_nth [OF assms(2) that] assms(1,3) that
    by (auto simp: revisions_ok_def)
  then show ?thesis
    using assms(2,4) by (auto simp: revisions_ok_def members_ok_def)
qed

lemma revisions_ok_step:
  assumes "revisions_ok s" and "foreign e"
  shows "revisions_ok (maintain_step s e)"
proof (cases e)
  case (Send rd fill)
  have "revisions_ok (maintain_send rd fill s)"
  proof (rule revisions_ok_members [OF assms(1) maintain_send_members [of "map refresh_revision (mt_batch s)"]])
    show "\<forall>p i. mt_pending (maintain_send rd fill s) = Some p \<longrightarrow> i < length (mt_batch s) \<longrightarrow>
        pd_revisions p ! i \<le> ch_requested (mt_batch s ! i)"
      using maintain_send_pending [of rd fill s] assms(1)
      by (auto simp: refresh_revision_def revisions_ok_def)
  qed (simp add: refresh_revision_def)
  with assms(1) Send show ?thesis by simp
next
  case (Receive rd result)
  show ?thesis
  proof (cases "mt_pending s")
    case None
    with assms(1) Receive show ?thesis by (simp add: maintain_receive_def)
  next
    case (Some p)
    have "revisions_ok (maintain_receive rd result s)"
      using maintain_receive_effect [OF Some, of rd result] assms(1) Some
      by (intro revisions_ok_members [OF assms(1), of "pd_revisions p"]) (auto simp: revisions_ok_def)
    with assms(1) Receive show ?thesis by simp
  qed
next
  case (Member j ev)
  show ?thesis
  proof (cases "j < length (mt_batch s)")
    case True
    have ev: "ch_acknowledged (channel_step (mt_batch s ! j) ev) = ch_acknowledged (mt_batch s ! j)"
      "ch_requested (mt_batch s ! j) \<le> ch_requested (channel_step (mt_batch s ! j) ev)"
      using channel_step_counters [of j ev] assms(2) Member by simp_all
    then show ?thesis
      using assms(1) Member
      by (auto simp: revisions_ok_def counters_ok_def nth_list_update intro: order_trans)
  qed (use assms(1) Member in simp)
next
  case (Cancel rd)
  with assms(1) show ?thesis
    by (auto simp: revisions_ok_def drop_batch_def counters_ok_def)
qed

interpretation revisions: kept_by_steps maintain_step foreign revisions_ok
  by unfold_locales (rule revisions_ok_step)

lemma maintain_start_revisions: "list_all counters_ok batch \<Longrightarrow> revisions_ok (maintain_start rd fill batch)"
  by (auto simp: maintain_start_def Let_def revisions_ok_def finish_def drop_batch_def
      counters_ok_def list_all_length split: sum.splits)

text \<open>C11. A refresh is answered only by a renewal batch built after it. Let a member of the
  batch ask for a refresh at any point of the task's history and receive revision
  \<open>n\<close>. If later the acknowledged revision has reached \<open>n\<close>, then in between the task
  passed the head of its loop with no batch pending and built a new one: neither a reply
  that was already in flight nor the retry of an ambiguous batch answers the request.\<close>

theorem refresh_needs_new_batch:
  assumes "list_all counters_ok batch"
    and "s = foldl maintain_step (maintain_start rd fill batch) es" and "\<forall>e \<in> set es. foreign e"
    and "i < length (mt_batch s)"
    and "request_refresh clock (mt_batch s ! i) lw = (Inr n, ch, lw')"
    and "s' = s\<lparr>mt_batch := (mt_batch s)[i := ch]\<rparr>" and "\<forall>e \<in> set es'. foreign e"
    and "n \<le> ch_acknowledged (mt_batch (foldl maintain_step s' es') ! i)"
  shows "\<exists>pre rd' fill' post. es' = pre @ Send rd' fill' # post
    \<and> mt_pending (foldl maintain_step s' pre) = None"
proof -
  have "revisions_ok s"
    using revisions.run_keeps [OF maintain_start_revisions [OF assms(1)] assms(3)] assms(2) by simp
  then have r: "ch_acknowledged (mt_batch s ! i) \<le> ch_requested (mt_batch s ! i)"
    "\<forall>p. mt_pending s = Some p \<longrightarrow> pd_revisions p ! i \<le> ch_requested (mt_batch s ! i)"
    using assms(4) by (auto simp: revisions_ok_def counters_ok_def)
  from request_refresh_Inr [OF assms(5)]
  have n: "ch_requested (mt_batch s ! i) < n" "ch_acknowledged ch = ch_acknowledged (mt_batch s ! i)"
    by (auto simp: word_less_nat_alt)
  have "unanswered i n s'"
    using r n assms(4,6) by (auto simp: unanswered_def)
  from answer_needs_new_batch [OF this assms(7,8)] show ?thesis
    by (fastforce simp: new_batch_def split: maintain_event.splits)
qed

text \<open>An ambiguous failure repeats the same request. After a retryable error the batch in
  flight and every channel are as before (unless nothing is active any more, which ends
  the task), and the next pass of the loop sends the very same request, with its UUID and
  its members, whatever the clock and the random generator say.\<close>

theorem retry_repeats_request:
  assumes "mt_pending s = Some p" and "retryable e"
    and "mt_end (maintain_receive rd (Inl e) s) = None" and "mt_end s = None"
  shows "maintain_receive rd (Inl e) s = s
    \<and> mt_pending (maintain_send rd' fill s) = Some p
    \<and> (mt_end (maintain_send rd' fill s) = None \<longrightarrow> maintain_send rd' fill s = s)"
  using assms by (auto simp: maintain_receive_def maintain_send_def finish_def drop_batch_def split: if_splits)

text \<open>One member asks for a refresh; the next batch renews it and acknowledges the request.\<close>

definition sample_uuid :: string where
  "sample_uuid = ''00000000-0000-4000-8000-000000000000''"

definition zero_fill :: "u8 list option" where
  "zero_fill = Some (replicate 16 0)"

lemma sample_new_uuid: "new_uuid zero_fill = Inr sample_uuid"
  by code_simp

lemma sample_uuid_canonical: "canonical_uuid sample_uuid"
  by code_simp

definition refreshing_channel :: authority_channel where
  "refreshing_channel = sample_channel\<lparr>ch_requested := 1\<rparr>"

definition sample_pending :: pending where
  "sample_pending = \<lparr>pd_request = sample_renewal\<lparr>rl_request_id := sample_uuid\<rparr>, pd_revisions = [1]\<rparr>"

lemma sample_active [simp]:
  "active (still_clock i) sample_channel" "active (still_clock i) refreshing_channel"
  by (simp_all add: active_def sample_channel_def refreshing_channel_def still_clock_def
      sample_window_def remaining_def remaining_at_def)

lemma still_readings_simps [simp]:
  "rd_head still_readings = still_clock" "rd_filter still_readings = still_clock"
  "rd_current still_readings = still_clock" "rd_next still_readings = still_clock"
  "rd_acknowledge still_readings = still_clock" "rd_tail still_readings = still_clock"
  by (simp_all add: still_readings_def)

lemma sample_batch_request:
  "batch_request active_only still_clock zero_fill [sample_channel]
     = Inr (sample_renewal\<lparr>rl_request_id := sample_uuid\<rparr>)"
  "batch_request active_only still_clock zero_fill [refreshing_channel]
     = Inr (sample_renewal\<lparr>rl_request_id := sample_uuid\<rparr>)"
  by (simp_all add: batch_request_def sample_new_uuid)
     (simp_all add: sample_channel_def refreshing_channel_def fixture_authority_def sample_renewal_def)

lemma sample_start:
  "maintain_start still_readings zero_fill [sample_channel]
     = \<lparr>mt_batch = [sample_channel], mt_pending = None, mt_end = None\<rparr>"
  by (simp add: maintain_start_def sample_batch_request Let_def)
     (simp add: validate_renewal_request_def sample_renewal_def valid_session_def fixture_authority_def
      i64_max_def sample_uuid_canonical)

lemma sample_send:
  "maintain_send still_readings zero_fill
     \<lparr>mt_batch = [refreshing_channel], mt_pending = None, mt_end = None\<rparr>
   = \<lparr>mt_batch = [refreshing_channel], mt_pending = Some sample_pending, mt_end = None\<rparr>"
  by (simp add: maintain_send_def any_active_def sample_batch_request)
     (simp add: sample_pending_def sample_renewal_def refreshing_channel_def refresh_revision_def)

lemma sample_receive:
  "maintain_receive still_readings
     (Inr [Renewed \<lparr>rn_identity = fixture_authority, rn_authority = sample_window\<rparr>])
     \<lparr>mt_batch = [refreshing_channel], mt_pending = Some sample_pending, mt_end = None\<rparr>
   = \<lparr>mt_batch = [refreshing_channel\<lparr>ch_acknowledged := 1\<rparr>], mt_pending = None, mt_end = None\<rparr>"
  by (simp add: maintain_receive_def sample_pending_def sample_renewal_def any_active_def)
     (simp add: refreshing_channel_def sample_channel_def update_def next_state_def is_renewed_def
      active_def still_clock_def sample_window_def remaining_def remaining_at_def acknowledge_refresh_def
      any_active_def)

theorem refresh_needs_new_batch_witness:
  "\<exists>pre rd' fill' post.
     [Send still_readings zero_fill,
      Receive still_readings (Inr [Renewed \<lparr>rn_identity = fixture_authority, rn_authority = sample_window\<rparr>])]
       = pre @ Send rd' fill' # post
     \<and> mt_pending (foldl maintain_step
          \<lparr>mt_batch = [refreshing_channel], mt_pending = None, mt_end = None\<rparr> pre) = None"
proof -
  have "request_refresh (Inr 110000000000) sample_channel sample_window
      = (Inr 1, refreshing_channel, sample_window)"
    by (simp add: request_refresh_def check_authority_def sample_channel_def sample_window_def
        refreshing_channel_def remaining_def remaining_at_def checked_add_def)
  then show ?thesis
    by (intro refresh_needs_new_batch [of "[sample_channel]"
          "\<lparr>mt_batch = [sample_channel], mt_pending = None, mt_end = None\<rparr>"
          still_readings zero_fill "[]" 0 "Inr 110000000000" sample_window 1])
       (simp_all add: sample_start sample_send sample_receive,
        simp_all add: counters_ok_def sample_channel_def)
qed

theorem retry_repeats_request_witness:
  "maintain_receive still_readings (Inl C_Deadline)
     \<lparr>mt_batch = [refreshing_channel], mt_pending = Some sample_pending, mt_end = None\<rparr>
   = \<lparr>mt_batch = [refreshing_channel], mt_pending = Some sample_pending, mt_end = None\<rparr>"
proof -
  let ?s = "\<lparr>mt_batch = [refreshing_channel], mt_pending = Some sample_pending, mt_end = None\<rparr>"
  have "mt_end (maintain_receive still_readings (Inl C_Deadline) ?s) = None"
    by (simp add: maintain_receive_def any_active_def)
  then show ?thesis
    using retry_repeats_request [of ?s sample_pending C_Deadline still_readings] by simp
qed

end
