(* ===== verification/Log_Format.thy ===== *)
theory Log_Format
  imports Identity
begin

text \<open>
  \<open>rust/worker/src/log_format.rs\<close>: the binary encoding of one log segment, and
  \<open>internal/logformat/logformat.go\<close>: the decoder the server's side uses on it. The writer
  is a record that \<open>append\<close> returns updated; a refused \<open>append\<close> changes nothing, as in the
  source, where every check precedes the first mutation. The UUID parser the decoder
  calls (\<open>github.com/google/uuid\<close>) is a parameter.
\<close>

section \<open>The code\<close>

subsection \<open>The writer\<close>

definition max_segment_bytes :: nat where
  "max_segment_bytes = 1048576"

definition header_bytes :: nat where
  "header_bytes = 48"

definition record_header_bytes :: nat where
  "record_header_bytes = 20"

definition max_gaps :: nat where
  "max_gaps = 1024"

datatype log_format_error = Format_Invalid | Format_Sequence | Format_Full | Format_GapLimit

record sequence_gap =
  gap_first :: u64
  gap_last :: u64

record log_segment =
  sg_bytes :: "u8 list"
  sg_attempt_id :: string
  sg_stream :: log_stream
  sg_first_sequence :: u64
  sg_last_sequence :: u64
  sg_gaps :: "sequence_gap list"

record log_segment_writer =
  lw_bytes :: "u8 list"
  lw_attempt_id :: string
  lw_stream :: log_stream
  lw_first_sequence :: u64
  lw_last_sequence :: "u64 option"
  lw_gaps :: "sequence_gap list"

fun stream_byte :: "log_stream \<Rightarrow> u8 option" where
  "stream_byte Stdout = Some 1"
| "stream_byte Stderr = Some 2"
| "stream_byte Stream_Unspecified = None"

definition LogSegmentWriter_new ::
  "string \<Rightarrow> log_stream \<Rightarrow> u64 \<Rightarrow> log_format_error + log_segment_writer" where
  "LogSegmentWriter_new attempt_id stream first_sequence =
     (case stream_byte stream of
        None \<Rightarrow> Inl Format_Invalid
      | Some b \<Rightarrow>
          if \<not> canonical_uuid attempt_id \<or> first_sequence = 0 \<or> first_sequence > i64_max
          then Inl Format_Invalid
          else Inr \<lparr>lw_bytes = as_bytes ''DSPLOG01'' @ as_bytes attempt_id @ [b, 0, 0, 0],
                    lw_attempt_id = attempt_id, lw_stream = stream,
                    lw_first_sequence = first_sequence, lw_last_sequence = None, lw_gaps = []\<rparr>)"

definition expected_sequence :: "log_segment_writer \<Rightarrow> u64" where
  "expected_sequence w =
     (case lw_last_sequence w of None \<Rightarrow> lw_first_sequence w | Some previous \<Rightarrow> previous + 1)"

definition append_record ::
  "log_segment_writer \<Rightarrow> u64 \<Rightarrow> i64 \<Rightarrow> u8 list \<Rightarrow> log_format_error + log_segment_writer" where
  "append_record w sequence capture payload =
     (if sequence = 0 \<or> sequence > i64_max \<or> sint capture < 0 \<or> payload = []
      then Inl Format_Invalid
      else let expected = expected_sequence w in
        if sequence < expected then Inl Format_Sequence
        else if sequence > expected \<and> length (lw_gaps w) = max_gaps then Inl Format_GapLimit
        else let available = max_segment_bytes - length (lw_bytes w) in
          if available < record_header_bytes \<or> length payload > available - record_header_bytes
          then Inl Format_Full
          else Inr (w\<lparr>
            lw_gaps := (if sequence > expected
                        then lw_gaps w @ [\<lparr>gap_first = expected, gap_last = sequence - 1\<rparr>]
                        else lw_gaps w),
            lw_bytes := lw_bytes w @ u64_be sequence @ u64_be capture
                          @ u32_be (word_of_nat (length payload)) @ payload,
            lw_last_sequence := Some sequence\<rparr>))"

definition finish_segment :: "log_segment_writer \<Rightarrow> log_format_error + log_segment" where
  "finish_segment w =
     and_then (ok_or Format_Invalid (lw_last_sequence w)) (\<lambda>last_sequence.
       Inr \<lparr>sg_bytes = lw_bytes w, sg_attempt_id = lw_attempt_id w, sg_stream = lw_stream w,
            sg_first_sequence = lw_first_sequence w, sg_last_sequence = last_sequence,
            sg_gaps = lw_gaps w\<rparr>)"

subsection \<open>The decoder\<close>

record log_record =
  rc_sequence :: u64
  rc_capture :: i64
  rc_payload :: "u8 list"

record decoded_segment =
  dc_attempt_id :: string
  dc_stream :: string
  dc_records :: "log_record list"

text \<open>The loop of \<open>Decode\<close> on the bytes that are left; \<open>None\<close> is \<open>ErrInvalid\<close>.\<close>

function decode_loop :: "u64 \<Rightarrow> u8 list \<Rightarrow> log_record list option" where
  "decode_loop previous body =
     (if body = [] then Some []
      else if length body < record_header_bytes then None
      else
        let sequence = be_u64 (take 8 body);
            capture = be_u64 (take 8 (drop 8 body));
            size = from_be (take 4 (drop 16 body));
            rest = drop record_header_bytes body
        in if sequence = 0 \<or> sequence > i64_max \<or> sequence \<le> previous \<or> sint capture < 0
              \<or> size = 0 \<or> size > length rest
           then None
           else map_option
             (Cons \<lparr>rc_sequence = sequence, rc_capture = capture, rc_payload = take size rest\<rparr>)
             (decode_loop sequence (drop size rest)))"
  by pat_completeness auto
termination
  by (relation "measure (\<lambda>(previous, body). length body)") (auto simp: record_header_bytes_def)

declare decode_loop.simps [simp del]

definition Decode :: "(string \<Rightarrow> string option) \<Rightarrow> u8 list \<Rightarrow> decoded_segment option" where
  "Decode uuid_parse body =
     (if length body < header_bytes + record_header_bytes + 1 \<or> length body > max_segment_bytes
         \<or> take 8 body \<noteq> as_bytes ''DSPLOG01'' \<or> take 3 (drop 45 body) \<noteq> [0, 0, 0]
      then None
      else let uid = from_bytes (take 36 (drop 8 body)) in
        if uuid_parse uid \<noteq> Some uid then None
        else case (if body ! 44 = 1 then Some ''stdout''
                   else if body ! 44 = 2 then Some ''stderr'' else None)
          of None \<Rightarrow> None
           | Some stream \<Rightarrow>
               map_option (\<lambda>records. \<lparr>dc_attempt_id = uid, dc_stream = stream, dc_records = records\<rparr>)
                 (decode_loop 0 (drop header_bytes body)))"

section \<open>What the writer holds\<close>

definition append_records :: "log_segment_writer \<Rightarrow> log_record list \<Rightarrow> log_format_error + log_segment_writer" where
  "append_records w rs =
     foldl (\<lambda>acc r. and_then acc (\<lambda>w. append_record w (rc_sequence r) (rc_capture r) (rc_payload r)))
       (Inr w) rs"

definition encode_record :: "log_record \<Rightarrow> u8 list" where
  "encode_record r = u64_be (rc_sequence r) @ u64_be (rc_capture r)
     @ u32_be (word_of_nat (length (rc_payload r))) @ rc_payload r"

definition segment_header :: "string \<Rightarrow> log_stream \<Rightarrow> u8 list" where
  "segment_header attempt_id stream =
     as_bytes ''DSPLOG01'' @ as_bytes attempt_id @ [the (stream_byte stream), 0, 0, 0]"

definition gap_points :: "sequence_gap \<Rightarrow> nat set" where
  "gap_points g = {unat (gap_first g)..unat (gap_last g)}"

definition gaps_within :: "nat \<Rightarrow> nat \<Rightarrow> sequence_gap list \<Rightarrow> bool" where
  "gaps_within f e gs \<longleftrightarrow>
     sorted_wrt (\<lambda>a b. unat (gap_last a) < unat (gap_first b)) gs
     \<and> (\<forall>g \<in> set gs. f \<le> unat (gap_first g) \<and> unat (gap_first g) \<le> unat (gap_last g)
          \<and> unat (gap_last g) < e)"

definition record_ok :: "log_record \<Rightarrow> bool" where
  "record_ok r \<longleftrightarrow> 0 < rc_sequence r \<and> rc_sequence r \<le> i64_max \<and> 0 \<le> sint (rc_capture r)
     \<and> rc_payload r \<noteq> [] \<and> length (rc_payload r) < 2 ^ 32"

text \<open>The abstraction: the writer for \<open>attempt_id\<close> and \<open>stream\<close> that started at
  \<open>first\<close> and holds the records \<open>rs\<close>.\<close>

definition holds :: "string \<Rightarrow> log_stream \<Rightarrow> u64 \<Rightarrow> log_record list \<Rightarrow> log_segment_writer \<Rightarrow> bool" where
  "holds attempt_id stream first rs w \<longleftrightarrow>
     canonical_uuid attempt_id \<and> stream \<noteq> Stream_Unspecified \<and> 0 < first \<and> first \<le> i64_max
     \<and> lw_attempt_id w = attempt_id \<and> lw_stream w = stream \<and> lw_first_sequence w = first
     \<and> lw_bytes w = segment_header attempt_id stream @ concat (map encode_record rs)
     \<and> length (lw_bytes w) \<le> max_segment_bytes
     \<and> list_all record_ok rs \<and> sorted_wrt (<) (map rc_sequence rs)
     \<and> (\<forall>r \<in> set rs. first \<le> rc_sequence r)
     \<and> lw_last_sequence w = (if rs = [] then None else Some (rc_sequence (last rs)))
     \<and> length (lw_gaps w) \<le> max_gaps
     \<and> gaps_within (unat first) (unat (expected_sequence w)) (lw_gaps w)
     \<and> (\<Union>g \<in> set (lw_gaps w). gap_points g)
         = {unat first..<unat (expected_sequence w)} - (unat \<circ> rc_sequence) ` set rs"

lemma stream_byte_Some: "stream_byte s = Some b \<longleftrightarrow> s \<noteq> Stream_Unspecified \<and> b = the (stream_byte s)"
  by (cases s) auto

lemma LogSegmentWriter_new_holds:
  assumes "LogSegmentWriter_new attempt_id stream first = Inr w"
  shows "holds attempt_id stream first [] w"
proof -
  have "length attempt_id = 36" if "canonical_uuid attempt_id"
    using that by (simp add: canonical_uuid_def)
  with assms show ?thesis
    by (auto simp: LogSegmentWriter_new_def holds_def segment_header_def stream_byte_Some word_gt_0 gaps_within_def
        expected_sequence_def max_segment_bytes_def not_less split: option.splits if_splits)
qed

lemma append_record_Inr_iff:
  "append_record w s c p = Inr w' \<longleftrightarrow>
     s \<noteq> 0 \<and> s \<le> i64_max \<and> 0 \<le> sint c \<and> p \<noteq> [] \<and> expected_sequence w \<le> s
     \<and> (s = expected_sequence w \<or> length (lw_gaps w) \<noteq> max_gaps)
     \<and> record_header_bytes \<le> max_segment_bytes - length (lw_bytes w)
     \<and> length p \<le> max_segment_bytes - length (lw_bytes w) - record_header_bytes
     \<and> w' = w\<lparr>
        lw_gaps := (if expected_sequence w < s
                    then lw_gaps w @ [\<lparr>gap_first = expected_sequence w, gap_last = s - 1\<rparr>]
                    else lw_gaps w),
        lw_bytes := lw_bytes w @ encode_record \<lparr>rc_sequence = s, rc_capture = c, rc_payload = p\<rparr>,
        lw_last_sequence := Some s\<rparr>"
  by (auto simp: append_record_def Let_def encode_record_def)

lemma holds_expected_unat:
  assumes "holds a st f rs w"
  shows "unat (expected_sequence w) = (if rs = [] then unat f else Suc (unat (rc_sequence (last rs))))"
proof (cases rs rule: rev_cases)
  case Nil
  with assms show ?thesis by (simp add: holds_def expected_sequence_def)
next
  case (snoc ys y)
  then have "rc_sequence y \<le> i64_max"
    using assms by (simp add: holds_def record_ok_def)
  with assms snoc show ?thesis
    by (simp add: holds_def expected_sequence_def unat_succ)
qed

lemma holds_below_expected:
  assumes "holds a st f rs w" and "r \<in> set rs"
  shows "unat (rc_sequence r) < unat (expected_sequence w)"
proof (cases rs rule: rev_cases)
  case Nil
  with assms show ?thesis by simp
next
  case (snoc ys y)
  then have "r = y \<or> rc_sequence r < rc_sequence y"
    using assms by (auto simp: holds_def sorted_wrt_append)
  with snoc holds_expected_unat [OF assms(1)] show ?thesis
    by (auto simp: word_less_nat_alt)
qed

lemma holds_first_expected:
  assumes "holds a st f rs w"
  shows "f \<le> expected_sequence w"
proof (cases rs rule: rev_cases)
  case Nil
  with holds_expected_unat [OF assms] show ?thesis by (simp add: word_le_nat_alt)
next
  case (snoc ys y)
  then have "unat f \<le> unat (rc_sequence y)"
    using assms by (simp add: holds_def word_le_nat_alt)
  with snoc holds_expected_unat [OF assms] show ?thesis by (simp add: word_le_nat_alt)
qed

lemma length_encode_record [simp]: "length (encode_record r) = 20 + length (rc_payload r)"
  by (simp add: encode_record_def)

lemma append_gap_points:
  fixes e s :: u64
  assumes "e < s"
  shows "gap_points \<lparr>gap_first = e, gap_last = s - 1\<rparr> = {unat e..<unat s}"
proof -
  have "1 \<le> s"
    using assms by (simp add: word_le_nat_alt word_less_nat_alt)
  then have "unat (s - 1) = unat s - 1"
    using unat_sub_le [of 1 s] by simp
  then show ?thesis
    using assms by (auto simp: gap_points_def word_less_nat_alt)
qed

lemma gaps_extend:
  fixes f e s :: nat
  assumes "S \<subseteq> {..<e}" and "f \<le> e" and "e \<le> s"
  shows "({f..<e} - S) \<union> {e..<s} = {f..<Suc s} - insert s S"
  using assms by auto

lemma gaps_within_snoc:
  assumes "gaps_within f (unat e) gs" and "f \<le> unat e" and "e < s"
  shows "gaps_within f (Suc (unat s)) (gs @ [\<lparr>gap_first = e, gap_last = s - 1\<rparr>])"
proof -
  have "1 \<le> s"
    using assms(3) by (simp add: word_le_nat_alt word_less_nat_alt)
  then have "unat (s - 1) = unat s - 1"
    using unat_sub_le [of 1 s] by simp
  then show ?thesis
    using assms by (auto simp: gaps_within_def sorted_wrt_append word_less_nat_alt)
qed

lemma gaps_within_mono: "gaps_within f e gs \<Longrightarrow> e \<le> e' \<Longrightarrow> gaps_within f e' gs"
  by (auto simp: gaps_within_def)

lemma append_record_holds:
  assumes h: "holds a st f rs w" and ap: "append_record w s c p = Inr w'"
  shows "holds a st f (rs @ [\<lparr>rc_sequence = s, rc_capture = c, rc_payload = p\<rparr>]) w'"
proof -
  let ?r = "\<lparr>rc_sequence = s, rc_capture = c, rc_payload = p\<rparr>"
  let ?e = "expected_sequence w"
  from ap have s: "s \<noteq> 0" "s \<le> i64_max" "0 \<le> sint c" "p \<noteq> []" "?e \<le> s"
    and gapfree: "s = ?e \<or> length (lw_gaps w) \<noteq> max_gaps"
    and room: "length p + 20 + length (lw_bytes w) \<le> max_segment_bytes"
    and w': "w' = w\<lparr>lw_gaps := (if ?e < s then lw_gaps w @ [\<lparr>gap_first = ?e, gap_last = s - 1\<rparr>] else lw_gaps w),
        lw_bytes := lw_bytes w @ encode_record ?r, lw_last_sequence := Some s\<rparr>"
    by (auto simp: append_record_Inr_iff record_header_bytes_def)
  have exp': "unat (expected_sequence w') = Suc (unat s)"
    using s(2) by (simp add: w' expected_sequence_def unat_succ)
  have below: "(unat \<circ> rc_sequence) ` set rs \<subseteq> {..<unat ?e}"
    using holds_below_expected [OF h] by auto
  have f: "unat f \<le> unat ?e" and e: "unat ?e \<le> unat s"
    using holds_first_expected [OF h] s(5) by (simp_all add: word_le_nat_alt)
  have "(\<Union>g \<in> set (lw_gaps w'). gap_points g) = (\<Union>g \<in> set (lw_gaps w). gap_points g) \<union> {unat ?e..<unat s}"
    using e by (auto simp: w' append_gap_points word_less_nat_alt)
  also have "\<dots> = {unat f..<Suc (unat s)} - insert (unat s) ((unat \<circ> rc_sequence) ` set rs)"
    using h gaps_extend [OF below f e] by (simp add: holds_def)
  finally have gaps: "(\<Union>g \<in> set (lw_gaps w'). gap_points g)
      = {unat f..<unat (expected_sequence w')} - (unat \<circ> rc_sequence) ` set (rs @ [?r])"
    by (simp add: exp')
  have "\<forall>r \<in> set rs. rc_sequence r < s"
    using below e by (auto simp: word_less_nat_alt)
  moreover have "f \<le> s"
    using f e by (simp add: word_le_nat_alt)
  moreover have "length (lw_gaps w') \<le> max_gaps"
    using h gapfree by (auto simp: w' holds_def)
  moreover have "record_ok ?r"
    using s room by (simp add: record_ok_def word_gt_0 max_segment_bytes_def)
  moreover have "gaps_within (unat f) (unat (expected_sequence w')) (lw_gaps w')"
  proof -
    have "gaps_within (unat f) (unat ?e) (lw_gaps w)"
      using h by (simp add: holds_def)
    then show ?thesis
      using f e gaps_within_snoc [of "unat f" ?e "lw_gaps w" s] gaps_within_mono [of "unat f" "unat ?e"]
      by (simp add: exp') (simp add: w')
  qed
  ultimately show ?thesis
    using h room gaps unfolding holds_def
    by (auto simp: w' sorted_wrt_append)
qed

lemma append_records_snoc:
  "append_records w (rs @ [r]) =
     and_then (append_records w rs) (\<lambda>w. append_record w (rc_sequence r) (rc_capture r) (rc_payload r))"
  by (simp add: append_records_def)

lemma append_records_holds:
  assumes "LogSegmentWriter_new a st f = Inr w"
  shows "append_records w rs = Inr w' \<Longrightarrow> holds a st f rs w'"
proof (induction rs arbitrary: w' rule: rev_induct)
  case Nil
  with LogSegmentWriter_new_holds [OF assms] show ?case by (simp add: append_records_def)
next
  case (snoc r rs)
  then obtain w1 where w1: "append_records w rs = Inr w1"
    and w': "append_record w1 (rc_sequence r) (rc_capture r) (rc_payload r) = Inr w'"
    by (auto simp: append_records_snoc)
  show ?case
    using append_record_holds [OF snoc.IH [OF w1] w'] by (cases r) simp
qed

section \<open>Decoding what was written\<close>

lemma u64_be_not_Nil [simp]: "u64_be v \<noteq> []"
  using length_u64_be [of v] by (auto simp del: length_u64_be)

lemma decode_loop_encode:
  assumes "record_ok r" and "previous < rc_sequence r"
  shows "decode_loop previous (encode_record r @ rest) = map_option (Cons r) (decode_loop (rc_sequence r) rest)"
proof -
  let ?b = "encode_record r @ rest"
  have take: "take 8 ?b = u64_be (rc_sequence r)" "take 8 (drop 8 ?b) = u64_be (rc_capture r)"
    "take 4 (drop 16 ?b) = u32_be (word_of_nat (length (rc_payload r)))"
    "drop record_header_bytes ?b = rc_payload r @ rest"
    by (simp_all add: encode_record_def record_header_bytes_def)
  have size: "unat (word_of_nat (length (rc_payload r)) :: u32) = length (rc_payload r)"
    using assms(1) by (simp add: record_ok_def unat_of_nat)
  have "decode_loop previous ?b =
    (let sequence = be_u64 (take 8 ?b); capture = be_u64 (take 8 (drop 8 ?b));
         size = from_be (take 4 (drop 16 ?b)); rest = drop record_header_bytes ?b
     in if sequence = 0 \<or> sequence > i64_max \<or> sequence \<le> previous \<or> sint capture < 0
           \<or> size = 0 \<or> size > length rest
        then None
        else map_option (Cons \<lparr>rc_sequence = sequence, rc_capture = capture, rc_payload = take size rest\<rparr>)
          (decode_loop sequence (drop size rest)))"
    by (subst decode_loop.simps) (simp add: encode_record_def record_header_bytes_def)
  also have "\<dots> = map_option (Cons r) (decode_loop (rc_sequence r) rest)"
    using assms size unfolding take by (cases r) (auto simp: Let_def record_ok_def)
  finally show ?thesis .
qed

lemma decode_loop_encode_all:
  "list_all record_ok rs \<Longrightarrow> sorted_wrt (<) (map rc_sequence rs) \<Longrightarrow>
   (\<forall>r \<in> set rs. previous < rc_sequence r) \<Longrightarrow>
   decode_loop previous (concat (map encode_record rs)) = Some rs"
proof (induction rs arbitrary: previous)
  case Nil
  show ?case by (simp add: decode_loop.simps)
next
  case (Cons r rs)
  then show ?case by (simp add: decode_loop_encode)
qed

fun stream_name :: "log_stream \<Rightarrow> string" where
  "stream_name Stdout = ''stdout''"
| "stream_name Stderr = ''stderr''"
| "stream_name Stream_Unspecified = []"

lemma holds_finish:
  assumes "holds a st f rs w" and "rs \<noteq> []"
  shows "\<exists>sg. finish_segment w = Inr sg \<and> sg_bytes sg = lw_bytes w \<and> sg_gaps sg = lw_gaps w
    \<and> sg_first_sequence sg = f \<and> sg_last_sequence sg = rc_sequence (last rs)
    \<and> sg_attempt_id sg = a \<and> sg_stream sg = st"
  using assms by (auto simp: finish_segment_def holds_def)

lemma Decode_holds:
  assumes h: "holds a st f rs w" and "rs \<noteq> []" and "uuid_parse a = Some a"
  shows "Decode uuid_parse (lw_bytes w) = Some \<lparr>dc_attempt_id = a, dc_stream = stream_name st, dc_records = rs\<rparr>"
proof -
  let ?body = "segment_header a st @ concat (map encode_record rs)"
  have a: "length a = 36" and b: "lw_bytes w = ?body" and st: "st \<noteq> Stream_Unspecified"
    and ok: "list_all record_ok rs" "sorted_wrt (<) (map rc_sequence rs)" "length ?body \<le> max_segment_bytes"
    using h by (auto simp: holds_def canonical_uuid_def)
  have len: "length (segment_header a st) = 48"
    by (simp add: segment_header_def a)
  obtain r rs' where rs: "rs = r # rs'"
    using assms(2) by (cases rs) auto
  have "rc_payload r \<noteq> []"
    using ok(1) rs by (simp add: record_ok_def)
  then have long: "\<not> length ?body < header_bytes + record_header_bytes + 1"
    by (simp add: len rs header_bytes_def record_header_bytes_def Suc_le_eq)
  have parts: "take 8 ?body = as_bytes ''DSPLOG01''" "take 36 (drop 8 ?body) = as_bytes a"
    "take 3 (drop 45 ?body) = [0, 0, 0]" "?body ! 44 = the (stream_byte st)"
    "drop header_bytes ?body = concat (map encode_record rs)"
    by (simp_all add: segment_header_def a header_bytes_def nth_append)
  have loop: "decode_loop 0 (concat (map encode_record rs)) = Some rs"
    using ok by (intro decode_loop_encode_all) (auto simp: record_ok_def list_all_iff)
  show ?thesis
    using st ok(3) long assms(3) unfolding b Decode_def parts loop Let_def
    by (cases st) simp_all
qed

text \<open>C17. Round trip between the worker's encoder and the server's decoder. Whatever records
  a fresh writer accepts, the segment it finishes with decodes, with the decoder of the
  Go side, to the same attempt, the same stream and exactly the same records, for every
  UUID parser that maps a canonical UUID to itself.\<close>

theorem segment_roundtrip:
  assumes "\<forall>u. canonical_uuid u \<longrightarrow> uuid_parse u = Some u"
    and "LogSegmentWriter_new attempt_id stream first = Inr w0"
    and "append_records w0 rs = Inr w" and "finish_segment w = Inr sg"
  shows "Decode uuid_parse (sg_bytes sg)
    = Some \<lparr>dc_attempt_id = attempt_id, dc_stream = stream_name stream, dc_records = rs\<rparr>"
proof -
  note h = append_records_holds [OF assms(2,3)]
  have "rs \<noteq> []" "sg_bytes sg = lw_bytes w"
    using assms(4) h by (auto simp: finish_segment_def holds_def)
  moreover have "uuid_parse attempt_id = Some attempt_id"
    using h assms(1) by (simp add: holds_def)
  ultimately show ?thesis
    using Decode_holds [OF h] by simp
qed

text \<open>The gaps of a segment are exactly its losses. For every finished segment the
  sequence numbers covered by its gaps are the numbers from its first to its last
  sequence that no record carries; it has at most 1024 gaps and at most one mebibyte.\<close>

theorem segment_gaps_exact:
  assumes "LogSegmentWriter_new attempt_id stream first = Inr w0"
    and "append_records w0 rs = Inr w" and "finish_segment w = Inr sg"
  shows "(\<Union>g \<in> set (sg_gaps sg). gap_points g)
      = {unat (sg_first_sequence sg)..unat (sg_last_sequence sg)} - (unat \<circ> rc_sequence) ` set rs
    \<and> length (sg_gaps sg) \<le> max_gaps \<and> length (sg_bytes sg) \<le> max_segment_bytes"
proof -
  note h = append_records_holds [OF assms(1,2)]
  have ne: "rs \<noteq> []"
    using assms(3) h by (auto simp: finish_segment_def holds_def)
  have sg: "sg_gaps sg = lw_gaps w" "sg_first_sequence sg = first" "sg_last_sequence sg = rc_sequence (last rs)"
    "sg_bytes sg = lw_bytes w"
    using holds_finish [OF h ne] assms(3) by auto
  have "{unat first..<unat (expected_sequence w)} = {unat first..unat (rc_sequence (last rs))}"
    using holds_expected_unat [OF h] ne by auto
  then show ?thesis
    using h unfolding sg holds_def by auto
qed

text \<open>A segment with the records 1 and 3, for the witnesses.\<close>

definition sample_writer :: log_segment_writer where
  "sample_writer =
     \<lparr>lw_bytes = segment_header (fixture_uuid CHR ''4'') Stdout, lw_attempt_id = fixture_uuid CHR ''4'',
      lw_stream = Stdout, lw_first_sequence = 1, lw_last_sequence = None, lw_gaps = []\<rparr>"

definition sample_records :: "log_record list" where
  "sample_records = [\<lparr>rc_sequence = 1, rc_capture = 7, rc_payload = [104, 105]\<rparr>,
     \<lparr>rc_sequence = 3, rc_capture = 9, rc_payload = [10]\<rparr>]"

definition sample_written :: log_segment_writer where
  "sample_written = sample_writer\<lparr>
     lw_bytes := segment_header (fixture_uuid CHR ''4'') Stdout @ concat (map encode_record sample_records),
     lw_last_sequence := Some 3, lw_gaps := [\<lparr>gap_first = 2, gap_last = 2\<rparr>]\<rparr>"

definition sample_segment :: log_segment where
  "sample_segment =
     \<lparr>sg_bytes = lw_bytes sample_written, sg_attempt_id = fixture_uuid CHR ''4'', sg_stream = Stdout,
      sg_first_sequence = 1, sg_last_sequence = 3, sg_gaps = [\<lparr>gap_first = 2, gap_last = 2\<rparr>]\<rparr>"

lemma sample_new: "LogSegmentWriter_new (fixture_uuid CHR ''4'') Stdout 1 = Inr sample_writer"
  by (simp add: LogSegmentWriter_new_def sample_writer_def segment_header_def i64_max_def)

lemma length_fixture_uuid [simp]: "length (fixture_uuid c) = 36"
  by (simp add: fixture_uuid_def)

lemma sample_append: "append_records sample_writer sample_records = Inr sample_written"
  by (simp add: append_records_def sample_records_def append_record_Inr_iff sample_writer_def
      sample_written_def expected_sequence_def i64_max_def max_gaps_def max_segment_bytes_def
      record_header_bytes_def segment_header_def)

lemma sample_finish: "finish_segment sample_written = Inr sample_segment"
  by (simp add: finish_segment_def sample_written_def sample_segment_def sample_writer_def)

theorem segment_roundtrip_witness:
  "Decode (\<lambda>u. if canonical_uuid u then Some u else None) (sg_bytes sample_segment)
     = Some \<lparr>dc_attempt_id = fixture_uuid CHR ''4'', dc_stream = ''stdout'', dc_records = sample_records\<rparr>"
  using segment_roundtrip [OF _ sample_new sample_append sample_finish,
      of "\<lambda>u. if canonical_uuid u then Some u else None"] by simp

theorem segment_gaps_exact_witness:
  "(\<Union>g \<in> set (sg_gaps sample_segment). gap_points g) = {1..3} - {1, 3}"
  using segment_gaps_exact [OF sample_new sample_append sample_finish]
  by (simp add: sample_segment_def sample_records_def)

end
