(* ===== verification/Log_Capture.thy ===== *)
theory Log_Capture
  imports Log_Format Runs
begin

text \<open>
  \<open>rust/worker/src/log_capture.rs\<close>: the bounded queue between the container's output and
  the log assembler. A full queue drops the chunk but still advances the sequence counter,
  which is how a loss becomes visible downstream. The queue with its two atomic counters
  is one record; the system clock's reading for the \<open>k\<close>-th chunk of a frame is
  \<open>clocks k\<close>, in nanoseconds since the epoch, or \<open>None\<close> when it is before the epoch.
\<close>

section \<open>The code\<close>

definition max_chunk_bytes :: nat where
  "max_chunk_bytes = 65536"

definition queue_chunks :: nat where
  "queue_chunks = 256"

datatype capture_error = Capture_Invalid | Capture_Clock | Capture_Closed | Capture_Sequence

record captured_chunk =
  ck_stream :: log_stream
  ck_sequence :: u64
  ck_capture :: i64
  ck_payload :: "u8 list"

record log_queue =
  lq_counts :: "u64 list" \<comment> \<open>the two counters, stdout first\<close>
  lq_items :: "captured_chunk list"
  lq_capacity :: nat
  lq_closed :: bool

fun stream_index :: "log_stream \<Rightarrow> nat option" where
  "stream_index Stdout = Some 0"
| "stream_index Stderr = Some 1"
| "stream_index Stream_Unspecified = None"

definition LogQueue_bounded :: "nat \<Rightarrow> capture_error + log_queue" where
  "LogQueue_bounded capacity =
     (if capacity = 0 \<or> capacity > queue_chunks then Inl Capture_Invalid
      else Inr \<lparr>lq_counts = [0, 0], lq_items = [], lq_capacity = capacity, lq_closed = False\<rparr>)"

definition captured_last_sequence :: "log_queue \<Rightarrow> log_stream \<Rightarrow> capture_error + u64" where
  "captured_last_sequence q stream =
     and_then (ok_or Capture_Invalid (stream_index stream)) (\<lambda>i. Inr (lq_counts q ! i))"

definition push_chunk ::
  "nat option \<Rightarrow> log_stream \<Rightarrow> nat \<Rightarrow> u8 list \<Rightarrow> log_queue \<Rightarrow> (capture_error + unit) \<times> log_queue" where
  "push_chunk clock stream i payload q =
     (case clock of
        None \<Rightarrow> (Inl Capture_Clock, q)
      | Some nanos \<Rightarrow>
          if nanos > 2 ^ 63 - 1 then (Inl Capture_Clock, q)
          else
            case (case checked_add (lq_counts q ! i) 1 of
                    Some n \<Rightarrow> if n \<le> i64_max then Some n else None
                  | None \<Rightarrow> None)
            of
              None \<Rightarrow> (Inl Capture_Sequence, q)
            | Some sequence \<Rightarrow>
                let q' = q\<lparr>lq_counts := (lq_counts q)[i := sequence]\<rparr>;
                    item = \<lparr>ck_stream = stream, ck_sequence = sequence,
                            ck_capture = word_of_nat nanos, ck_payload = payload\<rparr>
                in if lq_closed q' then (Inl Capture_Closed, q')
                   else if length (lq_items q') = lq_capacity q' then (Inr (), q')
                   else (Inr (), q'\<lparr>lq_items := lq_items q' @ [item]\<rparr>))"

fun push_payloads ::
  "(nat \<Rightarrow> nat option) \<Rightarrow> log_stream \<Rightarrow> nat \<Rightarrow> nat \<Rightarrow> u8 list list \<Rightarrow> log_queue
     \<Rightarrow> (capture_error + unit) \<times> log_queue" where
  "push_payloads clocks stream i k [] q = (Inr (), q)"
| "push_payloads clocks stream i k (payload # payloads) q =
     (case push_chunk (clocks k) stream i payload q of
        (Inl e, q') \<Rightarrow> (Inl e, q')
      | (Inr _, q') \<Rightarrow> push_payloads clocks stream i (Suc k) payloads q')"

definition push_frame ::
  "(nat \<Rightarrow> nat option) \<Rightarrow> log_stream \<Rightarrow> u8 list \<Rightarrow> log_queue \<Rightarrow> (capture_error + unit) \<times> log_queue" where
  "push_frame clocks stream bytes q =
     (case stream_index stream of
        None \<Rightarrow> (Inl Capture_Invalid, q)
      | Some i \<Rightarrow> push_payloads clocks stream i 0 (chunks max_chunk_bytes bytes) q)"

section \<open>Histories of the queue\<close>

text \<open>The receiver takes chunks from the front; dropping it closes the channel. The second
  component of the state is everything received so far.\<close>

datatype queue_event =
  Push "nat \<Rightarrow> nat option" log_stream "u8 list"
| Receive_Chunk
| Close_Receiver

fun queue_step :: "log_queue \<times> captured_chunk list \<Rightarrow> queue_event \<Rightarrow> log_queue \<times> captured_chunk list" where
  "queue_step (q, got) (Push clocks stream bytes) = (snd (push_frame clocks stream bytes q), got)"
| "queue_step (q, got) Receive_Chunk =
     (case lq_items q of [] \<Rightarrow> (q, got) | c # cs \<Rightarrow> (q\<lparr>lq_items := cs\<rparr>, got @ [c]))"
| "queue_step (q, got) Close_Receiver = (q\<lparr>lq_closed := True\<rparr>, got)"

definition of_stream :: "log_stream \<Rightarrow> captured_chunk list \<Rightarrow> captured_chunk list" where
  "of_stream stream cs = filter (\<lambda>c. ck_stream c = stream) cs"

text \<open>Every chunk that ever entered the queue: received or still queued.\<close>

definition entered :: "log_queue \<times> captured_chunk list \<Rightarrow> captured_chunk list" where
  "entered s = snd s @ lq_items (fst s)"

definition chunk_ok :: "captured_chunk \<Rightarrow> bool" where
  "chunk_ok c \<longleftrightarrow> ck_stream c \<noteq> Stream_Unspecified \<and> ck_payload c \<noteq> [] \<and> length (ck_payload c) \<le> max_chunk_bytes
     \<and> 0 < ck_sequence c \<and> ck_sequence c \<le> i64_max \<and> 0 \<le> sint (ck_capture c)"

definition queue_inv :: "log_queue \<times> captured_chunk list \<Rightarrow> bool" where
  "queue_inv s \<longleftrightarrow>
     length (lq_counts (fst s)) = 2 \<and> length (lq_items (fst s)) \<le> lq_capacity (fst s)
     \<and> list_all chunk_ok (entered s)
     \<and> (\<forall>stream i. stream_index stream = Some i \<longrightarrow>
          sorted_wrt (<) (map ck_sequence (of_stream stream (entered s)))
          \<and> (\<forall>c \<in> set (of_stream stream (entered s)). ck_sequence c \<le> lq_counts (fst s) ! i))"

lemma stream_index_bound: "stream_index stream = Some i \<Longrightarrow> i < 2"
  by (cases stream) auto

lemma stream_index_inject:
  "stream_index a = Some i \<Longrightarrow> stream_index b = Some i \<Longrightarrow> a = b"
  by (cases a; cases b) auto

lemma sint_of_nanos: "nanos \<le> 2 ^ 63 - 1 \<Longrightarrow> 0 \<le> sint (word_of_nat nanos :: 64 word)"
  by (simp add: signed_of_nat signed_take_bit_eq_take_bit_minus bit_iff_odd take_bit_eq_mod)

text \<open>What one chunk does to the queue: nothing (with an error), or the counter advances by
  one and the chunk either is dropped or enters the queue under the new number.\<close>

lemma push_chunk_cases:
  assumes "push_chunk clock stream i payload q = (r, q')"
  shows "q' = q \<or> (\<exists>sequence nanos. unat sequence = unat (lq_counts q ! i) + 1 \<and> sequence \<le> i64_max
      \<and> nanos \<le> 2 ^ 63 - 1
      \<and> (q' = q\<lparr>lq_counts := (lq_counts q)[i := sequence]\<rparr>
         \<or> q' = q\<lparr>lq_counts := (lq_counts q)[i := sequence],
                  lq_items := lq_items q @ [\<lparr>ck_stream = stream, ck_sequence = sequence,
                    ck_capture = word_of_nat nanos, ck_payload = payload\<rparr>]\<rparr>
            \<and> length (lq_items q) \<noteq> lq_capacity q))"
proof (cases clock)
  case None
  with assms show ?thesis by (simp add: push_chunk_def)
next
  case (Some nanos)
  show ?thesis
  proof (cases "checked_add (lq_counts q ! i) 1")
    case None
    with assms Some show ?thesis by (simp add: push_chunk_def split: if_splits)
  next
    case (Some sequence)
    then have n: "unat sequence = unat (lq_counts q ! i) + 1"
      using checked_add_unat [OF Some] by simp
    show ?thesis
    proof (cases "nanos \<le> 2 ^ 63 - 1 \<and> sequence \<le> i64_max")
      case True
      with assms n \<open>clock = Some nanos\<close> Some show ?thesis
        by (intro disjI2 exI [of _ sequence] exI [of _ nanos])
           (auto simp: push_chunk_def Let_def split: if_splits)
    next
      case False
      with assms \<open>clock = Some nanos\<close> Some show ?thesis
        by (auto simp: push_chunk_def split: if_splits)
    qed
  qed
qed

lemma entered_push:
  "entered (q\<lparr>lq_counts := n, lq_items := lq_items q @ [c]\<rparr>, got) = entered (q, got) @ [c]"
  by (simp add: entered_def)

lemma counters_advance:
  assumes "queue_inv (q, got)" and i: "stream_index stream = Some i"
    and n: "unat sequence = unat (lq_counts q ! i) + 1"
    and j: "stream_index s = Some j" and c: "c \<in> set (of_stream s (entered (q, got)))"
  shows "ck_sequence c \<le> (lq_counts q)[i := sequence] ! j"
proof -
  have "ck_sequence c \<le> lq_counts q ! j" "j < length (lq_counts q)"
    using assms stream_index_bound [OF j] by (auto simp: queue_inv_def)
  then show ?thesis
    using n by (cases "i = j") (simp_all add: word_le_nat_alt)
qed

lemma push_chunk_inv:
  assumes inv: "queue_inv (q, got)" and i: "stream_index stream = Some i"
    and payload: "payload \<noteq> []" "length payload \<le> max_chunk_bytes"
    and push: "push_chunk clock stream i payload q = (r, q')"
  shows "queue_inv (q', got)"
  using push_chunk_cases [OF push]
proof (elim disjE exE conjE)
  assume "q' = q"
  with inv show ?thesis by simp
next
  fix sequence nanos
  assume n: "unat sequence = unat (lq_counts q ! i) + 1"
    and q': "q' = q\<lparr>lq_counts := (lq_counts q)[i := sequence]\<rparr>"
  have "entered (q', got) = entered (q, got)"
    by (simp add: q' entered_def)
  with inv counters_advance [OF inv i n] show ?thesis
    by (simp add: queue_inv_def q')
next
  fix sequence nanos
  assume n: "unat sequence = unat (lq_counts q ! i) + 1" and s: "sequence \<le> i64_max"
    and nanos: "nanos \<le> 2 ^ 63 - 1" and room: "length (lq_items q) \<noteq> lq_capacity q"
    and q': "q' = q\<lparr>lq_counts := (lq_counts q)[i := sequence],
                  lq_items := lq_items q @ [\<lparr>ck_stream = stream, ck_sequence = sequence,
                    ck_capture = word_of_nat nanos, ck_payload = payload\<rparr>]\<rparr>"
  let ?c = "\<lparr>ck_stream = stream, ck_sequence = sequence, ck_capture = word_of_nat nanos, ck_payload = payload\<rparr>"
  have e: "entered (q', got) = entered (q, got) @ [?c]"
    unfolding q' by (rule entered_push)
  have ok: "chunk_ok ?c"
    using payload i n s nanos sint_of_nanos by (auto simp: chunk_ok_def word_less_nat_alt)
  have below: "ck_sequence c < sequence" if "c \<in> set (of_stream stream (entered (q, got)))" for c
    using inv i that n by (force simp: queue_inv_def word_le_nat_alt word_less_nat_alt)
  have cnt: "(lq_counts q)[i := sequence] ! i = sequence"
    using inv stream_index_bound [OF i] by (simp add: queue_inv_def)
  have "sorted_wrt (<) (map ck_sequence (of_stream st (entered (q', got))))
      \<and> (\<forall>c \<in> set (of_stream st (entered (q', got))). ck_sequence c \<le> lq_counts q' ! j)"
    if j: "stream_index st = Some j" for st j
  proof (cases "st = stream")
    case True
    then have "j = i" using i j by simp
    have st: "of_stream st (entered (q', got)) = of_stream st (entered (q, got)) @ [?c]"
      by (simp add: e of_stream_def True)
    have "sorted_wrt (<) (map ck_sequence (of_stream st (entered (q, got))))"
      using inv j by (simp add: queue_inv_def)
    then show ?thesis
      using below True cnt \<open>j = i\<close> unfolding st
      by (auto simp: sorted_wrt_append q' intro: less_imp_le)
  next
    case False
    then have "of_stream st (entered (q', got)) = of_stream st (entered (q, got))"
      by (simp add: e of_stream_def)
    then show ?thesis
      using inv j counters_advance [OF inv i n j] by (simp add: queue_inv_def q')
  qed
  moreover have "list_all chunk_ok (entered (q', got))"
    using inv ok by (simp add: e queue_inv_def)
  moreover have "length (lq_items q') \<le> lq_capacity q'" "length (lq_counts q') = 2"
    using inv room by (auto simp: q' queue_inv_def)
  ultimately show ?thesis
    by (simp add: queue_inv_def)
qed

lemma push_payloads_inv:
  assumes "stream_index stream = Some i"
  shows "queue_inv (q, got) \<Longrightarrow> (\<forall>p \<in> set ps. p \<noteq> [] \<and> length p \<le> max_chunk_bytes) \<Longrightarrow>
    queue_inv (snd (push_payloads clocks stream i k ps q), got)"
proof (induction ps arbitrary: q k)
  case (Cons p ps)
  obtain r q' where p: "push_chunk (clocks k) stream i p q = (r, q')"
    by fastforce
  with Cons assms have "queue_inv (q', got)"
    by (meson list.set_intros(1) push_chunk_inv)
  with Cons p show ?case by (cases r) simp_all
qed simp

lemma queue_step_inv: "queue_inv s \<Longrightarrow> queue_inv (queue_step s e)"
proof (cases "(s, e)" rule: queue_step.cases)
  case (1 q got clocks stream bytes)
  moreover assume "queue_inv s"
  ultimately show ?thesis
    by (auto simp: push_frame_def push_payloads_inv chunks_bound split: option.splits)
next
  case (2 q got)
  moreover assume "queue_inv s"
  ultimately show ?thesis
    by (auto simp: queue_inv_def entered_def split: list.splits)
next
  case (3 q got)
  moreover assume "queue_inv s"
  ultimately show ?thesis
    by (simp add: queue_inv_def entered_def)
qed

interpretation capture: kept_by_steps queue_step "\<lambda>_. True" queue_inv
  by unfold_locales (rule queue_step_inv)

lemma LogQueue_bounded_inv: "LogQueue_bounded capacity = Inr q \<Longrightarrow> queue_inv (q, [])"
  by (auto simp: LogQueue_bounded_def queue_inv_def entered_def of_stream_def split: if_splits)

text \<open>The chunks of a stream that are numbered in a history, in order: of every frame the chunks up to
  the first failing clock reading, and after the receiver is gone only the first one, at
  which the capture ends.\<close>

definition clock_ok :: "nat option \<Rightarrow> bool" where
  "clock_ok clock \<longleftrightarrow> is_some_and (\<lambda>nanos. nanos \<le> 2 ^ 63 - 1) clock"

fun numbered :: "(nat \<Rightarrow> nat option) \<Rightarrow> nat \<Rightarrow> u8 list list \<Rightarrow> u8 list list" where
  "numbered clocks k [] = []"
| "numbered clocks k (payload # payloads) =
     (if clock_ok (clocks k) then payload # numbered clocks (Suc k) payloads else [])"

fun offer_step :: "log_stream \<Rightarrow> bool \<times> u8 list list \<Rightarrow> queue_event \<Rightarrow> bool \<times> u8 list list" where
  "offer_step stream (closed, offered) (Push clocks st bytes) =
     (closed, offered @
       (if st \<noteq> stream then []
        else (if closed then take 1 else id) (numbered clocks 0 (chunks max_chunk_bytes bytes))))"
| "offer_step stream (closed, offered) Receive_Chunk = (closed, offered)"
| "offer_step stream (closed, offered) Close_Receiver = (True, offered)"

definition offered :: "log_stream \<Rightarrow> queue_event list \<Rightarrow> u8 list list" where
  "offered stream es = snd (foldl (offer_step stream) (False, []) es)"

text \<open>The counter has counted the chunks offered, up to the largest number there is, and a number
  is the place of its chunk among them.\<close>

definition tracks :: "log_stream \<Rightarrow> nat \<Rightarrow> u8 list list \<Rightarrow> log_queue \<times> captured_chunk list \<Rightarrow> bool" where
  "tracks stream i all s \<longleftrightarrow>
     i < length (lq_counts (fst s)) \<and> unat (lq_counts (fst s) ! i) = min (length all) (unat i64_max)
     \<and> (\<forall>c \<in> set (of_stream stream (entered s)).
          0 < ck_sequence c \<and> ck_sequence c \<le> lq_counts (fst s) ! i \<and> ck_payload c = all ! (unat (ck_sequence c) - 1))"

lemma tracks_longer:
  assumes "tracks stream i all (q, got)" and "lq_counts q ! i = i64_max"
  shows "tracks stream i (all @ rest) (q, got)"
proof -
  have "unat i64_max \<le> length all"
    using assms by (auto simp: tracks_def min_def split: if_splits)
  then show ?thesis
    using assms by (fastforce simp: tracks_def nth_append word_le_nat_alt word_less_nat_alt)
qed

lemma push_chunk_outcome:
  assumes "clock_ok clock"
  shows "\<exists>nanos. clock = Some nanos \<and> push_chunk clock stream i payload q =
     (if lq_counts q ! i \<ge> i64_max then (Inl Capture_Sequence, q)
      else let q' = q\<lparr>lq_counts := (lq_counts q)[i := lq_counts q ! i + 1]\<rparr> in
        if lq_closed q then (Inl Capture_Closed, q')
        else if length (lq_items q) = lq_capacity q then (Inr (), q')
        else (Inr (), q'\<lparr>lq_items := lq_items q @ [\<lparr>ck_stream = stream, ck_sequence = lq_counts q ! i + 1,
                           ck_capture = word_of_nat nanos, ck_payload = payload\<rparr>]\<rparr>))"
proof -
  obtain nanos where nanos: "clock = Some nanos" "nanos \<le> 2 ^ 63 - 1"
    using assms by (cases clock) (auto simp: clock_ok_def)
  let ?n = "lq_counts q ! i"
  have succ: "(case checked_add ?n 1 of Some n \<Rightarrow> if n \<le> i64_max then Some n else None | None \<Rightarrow> None)
      = (if ?n \<ge> i64_max then None else Some (?n + 1))"
  proof (cases "checked_add ?n 1")
    case None
    then show ?thesis
      by (auto simp: checked_add_def word_le_nat_alt unat_i64_max split: if_splits)
  next
    case (Some n)
    then have "n = ?n + 1" "unat n = unat ?n + 1"
      using checked_add_unat [OF Some] by (auto simp: checked_add_def split: if_splits)
    then show ?thesis
      using Some by (auto simp: word_le_nat_alt)
  qed
  show ?thesis
    using nanos by (intro exI [of _ nanos]) (auto simp: push_chunk_def succ Let_def)
qed

lemma push_chunk_tracks:
  assumes "tracks stream i all (q, got)" and "clock_ok clock" and "push_chunk clock stream i payload q = (r, q')"
  shows "tracks stream i (all @ [payload]) (q', got) \<and> lq_closed q' = lq_closed q
    \<and> (is_ok r \<longleftrightarrow> \<not> lq_closed q \<and> lq_counts q ! i \<noteq> i64_max)"
proof -
  have top: "lq_counts q ! i \<le> i64_max"
    using assms(1) by (simp add: tracks_def word_le_nat_alt)
  obtain nanos where push: "push_chunk clock stream i payload q =
     (if lq_counts q ! i \<ge> i64_max then (Inl Capture_Sequence, q)
      else let q' = q\<lparr>lq_counts := (lq_counts q)[i := lq_counts q ! i + 1]\<rparr> in
        if lq_closed q then (Inl Capture_Closed, q')
        else if length (lq_items q) = lq_capacity q then (Inr (), q')
        else (Inr (), q'\<lparr>lq_items := lq_items q @ [\<lparr>ck_stream = stream, ck_sequence = lq_counts q ! i + 1,
                           ck_capture = word_of_nat nanos, ck_payload = payload\<rparr>]\<rparr>))"
    using push_chunk_outcome [OF assms(2)] by blast
  show ?thesis
  proof (cases "lq_counts q ! i = i64_max")
    case True
    then show ?thesis
      using tracks_longer [OF assms(1) True] push assms(3) by auto
  next
    case False
    then have below: "lq_counts q ! i < i64_max"
      using top by simp
    then have succ: "unat (lq_counts q ! i + 1) = unat (lq_counts q ! i) + 1"
      by (intro trans [OF unat_add_bounded]) (auto simp: word_less_nat_alt unat_i64_max)
    let ?q = "q\<lparr>lq_counts := (lq_counts q)[i := lq_counts q ! i + 1]\<rparr>"
    have len: "unat (lq_counts q ! i) = length all"
      using assms(1) below by (simp add: tracks_def word_less_nat_alt min_def split: if_splits)
    have dropped: "tracks stream i (all @ [payload]) (?q, got)"
      using assms(1) succ len below
      by (fastforce simp: tracks_def entered_def nth_append word_le_nat_alt word_less_nat_alt)
    have kept: "tracks stream i (all @ [payload]) (?q\<lparr>lq_items := lq_items q @ [\<lparr>ck_stream = stream,
        ck_sequence = lq_counts q ! i + 1, ck_capture = word_of_nat nanos, ck_payload = payload\<rparr>]\<rparr>, got)"
      using dropped succ len by (auto simp: tracks_def entered_def of_stream_def word_less_nat_alt nth_append)
    show ?thesis
      using push assms(3) below dropped kept False by (auto simp: Let_def not_le split: if_splits)
  qed
qed

lemma push_payloads_tracks:
  assumes "tracks stream i all (q, got)"
  shows "tracks stream i (all @ (if lq_closed q then take 1 else id) (numbered clocks k ps)) (snd (push_payloads clocks stream i k ps q), got)
    \<and> lq_closed (snd (push_payloads clocks stream i k ps q)) = lq_closed q"
  using assms
proof (induction ps arbitrary: all q k)
  case (Cons p ps)
  obtain r q' where p: "push_chunk (clocks k) stream i p q = (r, q')"
    by fastforce
  show ?case
  proof (cases "clock_ok (clocks k)")
    case False
    then have "push_chunk (clocks k) stream i p q = (Inl Capture_Clock, q)"
      by (auto simp: clock_ok_def push_chunk_def not_le split: option.splits)
    then show ?thesis
      using False Cons.prems by simp
  next
    case True
    note t = push_chunk_tracks [OF Cons.prems True p]
    show ?thesis
    proof (cases r)
      case (Inl e)
      then have "lq_closed q \<or> lq_counts q' ! i = i64_max"
        using t push_chunk_outcome [OF True, of stream i p q] p by (auto simp: Let_def split: if_splits)
      then show ?thesis
        using Inl p t True tracks_longer [of stream i "all @ [p]" q' got "numbered clocks (Suc k) ps"] by auto
    next
      case (Inr u)
      then show ?thesis
        using p t True Cons.IH [of "all @ [p]" q' "Suc k"] by simp
    qed
  qed
qed simp

lemma push_payloads_other:
  assumes "tracks stream i all (q, got)" and "st \<noteq> stream" and "j \<noteq> i"
  shows "tracks stream i all (snd (push_payloads clocks st j k ps q), got)
    \<and> lq_closed (snd (push_payloads clocks st j k ps q)) = lq_closed q"
  using assms(1)
proof (induction ps arbitrary: q k)
  case (Cons p ps)
  obtain r q' where p: "push_chunk (clocks k) st j p q = (r, q')"
    by fastforce
  have "tracks stream i all (q', got) \<and> lq_closed q' = lq_closed q"
    using push_chunk_cases [OF p] Cons.prems assms(2,3) by (auto simp: tracks_def entered_def of_stream_def)
  then show ?case
    using p Cons.IH [of q' "Suc k"] by (cases r) auto
qed simp

lemma queue_step_tracks:
  assumes "tracks stream i all (q, got)" and "stream_index stream = Some i"
    and "queue_step (q, got) e = (q', got')" and "offer_step stream (lq_closed q, all) e = (closed, all')"
  shows "tracks stream i all' (q', got') \<and> lq_closed q' = closed"
proof (cases e)
  case (Push clocks st bytes)
  show ?thesis
  proof (cases "st = stream")
    case True
    then show ?thesis
      using push_payloads_tracks [OF assms(1), of clocks 0 "chunks max_chunk_bytes bytes"] assms(2-4) Push
      by (auto simp: push_frame_def)
  next
    case False
    then have "stream_index st \<noteq> Some i"
      using stream_index_inject assms(2) by blast
    then show ?thesis
      using push_payloads_other [OF assms(1) False] assms(1,3,4) Push False
      by (auto simp: push_frame_def split: option.splits)
  qed
next
  case Receive_Chunk
  then show ?thesis
    using assms(1,3,4) by (auto simp: tracks_def entered_def of_stream_def split: list.splits)
next
  case Close_Receiver
  then show ?thesis
    using assms(1,3,4) by (auto simp: tracks_def entered_def)
qed

lemma history_tracks:
  assumes "LogQueue_bounded capacity = Inr q0" and "stream_index stream = Some i"
  shows "(q, got) = foldl queue_step (q0, []) es \<Longrightarrow>
    tracks stream i (offered stream es) (q, got) \<and> lq_closed q = fst (foldl (offer_step stream) (False, []) es)"
proof (induction es arbitrary: q got rule: rev_induct)
  case Nil
  then show ?case
    using assms stream_index_bound [OF assms(2)]
    by (cases stream) (auto simp: LogQueue_bounded_def offered_def tracks_def entered_def of_stream_def split: if_splits)
next
  case (snoc e es)
  obtain q1 got1 where run: "(q1, got1) = foldl queue_step (q0, []) es"
    by (metis surj_pair)
  note IH = snoc.IH [OF run]
  have "foldl (offer_step stream) (False, []) es = (lq_closed q1, offered stream es)"
    using IH by (simp add: offered_def prod_eq_iff)
  moreover have "queue_step (q1, got1) e = (q, got)"
    using snoc.prems by (simp add: run [symmetric])
  ultimately show ?case
    using queue_step_tracks [OF conjunct1 [OF IH] assms(2)]
    by (cases "offer_step stream (lq_closed q1, offered stream es) e") (auto simp: offered_def)
qed

text \<open>C25. Loss in the capture queue is always visible. After any interleaving of frames,
  receipts and a closed receiver, the queue never holds more than its capacity, and every
  chunk that entered is non-empty, of at most 64 KiB and carries a valid number and time. The
  counter of a stream is the number of chunks its frames offered, dropped ones included, up to
  the largest number there is; within each stream the numbers of the chunks received and queued
  are strictly increasing, and a number is exactly the place of its payload among the chunks
  offered. So every dropped chunk leaves a hole in the numbering up to the counter, and no
  later chunk fills it.\<close>

theorem capture_loss_visible:
  assumes "LogQueue_bounded capacity = Inr q0" and "(q, got) = foldl queue_step (q0, []) es"
    and "stream_index stream = Some i"
  shows "length (lq_items q) \<le> lq_capacity q
    \<and> list_all chunk_ok (got @ lq_items q)
    \<and> sorted_wrt (<) (map ck_sequence (of_stream stream (got @ lq_items q)))
    \<and> unat (lq_counts q ! i) = min (length (offered stream es)) (2 ^ 63 - 1)
    \<and> (\<forall>c \<in> set (of_stream stream (got @ lq_items q)).
         0 < ck_sequence c \<and> ck_sequence c \<le> lq_counts q ! i
         \<and> ck_payload c = offered stream es ! (unat (ck_sequence c) - 1))"
proof -
  have "queue_inv (q, got)"
    unfolding assms(2) by (rule capture.run_keeps [OF LogQueue_bounded_inv [OF assms(1)]]) simp
  moreover have "tracks stream i (offered stream es) (q, got)"
    using history_tracks [OF assms(1,3,2)] by simp
  ultimately show ?thesis
    using assms(3) by (auto simp: queue_inv_def tracks_def entered_def unat_i64_max)
qed

lemma chunks_short: "xs \<noteq> [] \<Longrightarrow> length xs \<le> n \<Longrightarrow> chunks n xs = [xs]"
  by (cases xs) (auto simp: chunks.simps)

lemma capture_sample:
  "foldl queue_step (\<lparr>lq_counts = [0, 0], lq_items = [], lq_capacity = 1, lq_closed = False\<rparr>, [])
     [Push (\<lambda>_. Some 7) Stdout [104], Push (\<lambda>_. Some 8) Stdout [105], Receive_Chunk,
      Push (\<lambda>_. Some 9) Stdout [10]]
   = (\<lparr>lq_counts = [3, 0],
       lq_items = [\<lparr>ck_stream = Stdout, ck_sequence = 3, ck_capture = 9, ck_payload = [10]\<rparr>],
       lq_capacity = 1, lq_closed = False\<rparr>,
      [\<lparr>ck_stream = Stdout, ck_sequence = 1, ck_capture = 7, ck_payload = [104]\<rparr>])"
  by (simp add: push_frame_def chunks_short max_chunk_bytes_def push_chunk_def checked_add_def
      i64_max_def)

theorem capture_loss_visible_witness:
  "offered Stdout [Push (\<lambda>_. Some 7) Stdout [104], Push (\<lambda>_. Some 8) Stdout [105], Receive_Chunk, Push (\<lambda>_. Some 9) Stdout [10]]
     = [[104], [105], [10]]
   \<and> sorted_wrt (<) (map ck_sequence
     [\<lparr>ck_stream = Stdout, ck_sequence = 1, ck_capture = 7, ck_payload = [104]\<rparr>,
      \<lparr>ck_stream = Stdout, ck_sequence = 3, ck_capture = 9, ck_payload = [10]\<rparr>])
   \<and> unat (3 :: u64) = min (length [[104], [105], [10 :: u8]]) (2 ^ 63 - 1)"
proof -
  have "LogQueue_bounded 1 = Inr \<lparr>lq_counts = [0, 0], lq_items = [], lq_capacity = 1, lq_closed = False\<rparr>"
    by (simp add: LogQueue_bounded_def queue_chunks_def)
  note visible = capture_loss_visible [OF this capture_sample [symmetric], of Stdout 0]
  have "offered Stdout [Push (\<lambda>_. Some 7) Stdout [104], Push (\<lambda>_. Some 8) Stdout [105], Receive_Chunk, Push (\<lambda>_. Some 9) Stdout [10]]
     = [[104], [105], [10]]"
    by (simp add: offered_def chunks_short max_chunk_bytes_def clock_ok_def)
  with visible show ?thesis
    by (simp add: of_stream_def)
qed

section \<open>A queue with room loses nothing\<close>

lemma push_chunk_room:
  assumes "nanos \<le> 2 ^ 63 - 1" and "\<not> lq_closed q" and "length (lq_items q) < lq_capacity q"
    and "unat (lq_counts q ! i) + 1 \<le> 2 ^ 63 - 1"
  shows "push_chunk (Some nanos) stream i payload q
    = (Inr (), q\<lparr>lq_counts := (lq_counts q)[i := lq_counts q ! i + 1],
          lq_items := lq_items q @ [\<lparr>ck_stream = stream, ck_sequence = lq_counts q ! i + 1,
            ck_capture = word_of_nat nanos, ck_payload = payload\<rparr>]\<rparr>)"
proof -
  have add: "checked_add (lq_counts q ! i) 1 = Some (lq_counts q ! i + 1)"
    using assms(4) by (simp add: checked_add_def)
  have "unat (lq_counts q ! i + 1) = unat (lq_counts q ! i) + 1"
    using checked_add_unat [OF add] by simp
  then have "lq_counts q ! i + 1 \<le> i64_max"
    using assms(4) by (simp add: word_le_nat_alt unat_i64_max)
  with assms add show ?thesis
    by (simp add: push_chunk_def Let_def)
qed

lemma push_payloads_room:
  assumes "\<forall>k. \<exists>nanos. clocks k = Some nanos \<and> nanos \<le> 2 ^ 63 - 1" and "i < length (lq_counts q)"
  shows "\<not> lq_closed q \<Longrightarrow> length (lq_items q) + length ps \<le> lq_capacity q \<Longrightarrow>
    unat (lq_counts q ! i) + length ps \<le> 2 ^ 63 - 1 \<Longrightarrow>
    \<exists>new. push_payloads clocks stream i k ps q
        = (Inr (), q\<lparr>lq_counts := (lq_counts q)[i := lq_counts q ! i + word_of_nat (length ps)],
                     lq_items := lq_items q @ new\<rparr>)
      \<and> map ck_payload new = ps \<and> list_all (\<lambda>c. ck_stream c = stream) new
      \<and> map (unat \<circ> ck_sequence) new = [unat (lq_counts q ! i) + 1..<unat (lq_counts q ! i) + 1 + length ps]"
  using assms(2)
proof (induction ps arbitrary: q k)
  case Nil
  then show ?case by simp
next
  case (Cons p ps)
  obtain nanos where nanos: "clocks k = Some nanos" "nanos \<le> 2 ^ 63 - 1"
    using assms(1) by blast
  let ?n = "lq_counts q ! i + 1"
  let ?c = "\<lparr>ck_stream = stream, ck_sequence = ?n, ck_capture = word_of_nat nanos, ck_payload = p\<rparr>"
  let ?q = "q\<lparr>lq_counts := (lq_counts q)[i := ?n], lq_items := lq_items q @ [?c]\<rparr>"
  have push: "push_chunk (clocks k) stream i p q = (Inr (), ?q)"
    unfolding nanos(1) using Cons.prems by (intro push_chunk_room [OF nanos(2)]) auto
  have n: "unat ?n = unat (lq_counts q ! i) + 1"
    using Cons.prems by (intro trans [OF unat_add_bounded]) simp_all
  have cnt: "lq_counts ?q ! i = ?n"
    using Cons.prems by simp
  have "\<exists>new. push_payloads clocks stream i (Suc k) ps ?q
        = (Inr (), ?q\<lparr>lq_counts := (lq_counts ?q)[i := lq_counts ?q ! i + word_of_nat (length ps)],
                     lq_items := lq_items ?q @ new\<rparr>)
      \<and> map ck_payload new = ps \<and> list_all (\<lambda>c. ck_stream c = stream) new
      \<and> map (unat \<circ> ck_sequence) new = [unat (lq_counts ?q ! i) + 1..<unat (lq_counts ?q ! i) + 1 + length ps]"
    by (rule Cons.IH) (use Cons.prems n cnt in auto)
  then obtain new where new: "push_payloads clocks stream i (Suc k) ps ?q
        = (Inr (), ?q\<lparr>lq_counts := (lq_counts ?q)[i := ?n + word_of_nat (length ps)],
                     lq_items := lq_items ?q @ new\<rparr>)"
      "map ck_payload new = ps" "list_all (\<lambda>c. ck_stream c = stream) new"
      "map (unat \<circ> ck_sequence) new = [unat ?n + 1..<unat ?n + 1 + length ps]"
    unfolding cnt by blast
  have word: "?n + word_of_nat (length ps) = lq_counts q ! i + word_of_nat (length (p # ps))"
    by (simp add: algebra_simps)
  have "map (unat \<circ> ck_sequence) (?c # new) = unat ?n # [unat ?n + 1..<unat ?n + 1 + length ps]"
    using new(4) by simp
  also have "\<dots> = [unat ?n..<unat ?n + 1 + length ps]"
    by (subst upt_conv_Cons [of "unat ?n" "unat ?n + 1 + length ps"]) (simp_all del: upt_Suc)
  finally have numbers: "map (unat \<circ> ck_sequence) (?c # new)
      = [unat (lq_counts q ! i) + 1..<unat (lq_counts q ! i) + 1 + length (p # ps)]"
    by (simp only: n) simp
  show ?case
  proof (intro exI [of _ "?c # new"] conjI)
    show "push_payloads clocks stream i k (p # ps) q
      = (Inr (), q\<lparr>lq_counts := (lq_counts q)[i := lq_counts q ! i + word_of_nat (length (p # ps))],
                   lq_items := lq_items q @ ?c # new\<rparr>)"
      using push new(1) word by simp
    show "map (unat \<circ> ck_sequence) (?c # new)
      = [unat (lq_counts q ! i) + 1..<unat (lq_counts q ! i) + 1 + length (p # ps)]"
      by (rule numbers)
  qed (use new(2,3) in simp_all)
qed

text \<open>A queue with room transfers a frame unchanged. When the clock works, the
  receiver is open, the queue has room for the frame's chunks and the counter is not
  exhausted, \<open>push_frame\<close> succeeds, the payloads it queued concatenate to exactly the
  frame's bytes, and their numbers are the next consecutive ones of the stream.\<close>

theorem push_frame_lossless:
  assumes "stream_index stream = Some i" and "length (lq_counts q) = 2"
    and "\<forall>k. \<exists>nanos. clocks k = Some nanos \<and> nanos \<le> 2 ^ 63 - 1" and "\<not> lq_closed q"
    and "n = length (chunks max_chunk_bytes bytes)" and "length (lq_items q) + n \<le> lq_capacity q"
    and "unat (lq_counts q ! i) + n \<le> 2 ^ 63 - 1"
  shows "\<exists>new q'. push_frame clocks stream bytes q = (Inr (), q') \<and> lq_items q' = lq_items q @ new
    \<and> concat (map ck_payload new) = bytes
    \<and> map (unat \<circ> ck_sequence) new = [unat (lq_counts q ! i) + 1..<unat (lq_counts q ! i) + 1 + n]"
proof -
  have i: "i < length (lq_counts q)"
    using assms(2) stream_index_bound [OF assms(1)] by simp
  from push_payloads_room [OF assms(3) i assms(4), of "chunks max_chunk_bytes bytes" stream 0] assms(5-7)
  obtain new where new: "push_payloads clocks stream i 0 (chunks max_chunk_bytes bytes) q
        = (Inr (), q\<lparr>lq_counts := (lq_counts q)[i := lq_counts q ! i + word_of_nat n],
                     lq_items := lq_items q @ new\<rparr>)"
      "map ck_payload new = chunks max_chunk_bytes bytes"
      "map (unat \<circ> ck_sequence) new = [unat (lq_counts q ! i) + 1..<unat (lq_counts q ! i) + 1 + n]"
    by blast
  show ?thesis
    using new assms(1) concat_chunks [of max_chunk_bytes bytes]
    by (intro exI [of _ new]) (simp add: push_frame_def max_chunk_bytes_def)
qed

theorem push_frame_lossless_witness:
  "\<exists>new q'. push_frame (\<lambda>_. Some 7) Stdout [104, 105]
      \<lparr>lq_counts = [0, 0], lq_items = [], lq_capacity = 1, lq_closed = False\<rparr> = (Inr (), q')
    \<and> concat (map ck_payload new) = [104, 105] \<and> lq_items q' = new"
proof -
  have "chunks max_chunk_bytes [104, 105 :: u8] = [ [104, 105] ]"
    by (simp add: chunks_short max_chunk_bytes_def)
  then show ?thesis
    using push_frame_lossless [of Stdout 0
        "\<lparr>lq_counts = [0, 0], lq_items = [], lq_capacity = 1, lq_closed = False\<rparr>"
        "\<lambda>_. Some 7" 1 "[104, 105]"] by auto
qed

end
