(* ===== verification/Assoc_Lists.thy ===== *)
theory Assoc_Lists
  imports "HOL-Library.AList"
begin

text \<open>
  Association lists with distinct keys stand for the worker's maps. The facts here say how
  updating and deleting a key changes a total over the entries.
\<close>

lemma AList_update_new: "map_of xs k = None \<Longrightarrow> AList.update k v xs = xs @ [(k, v)]"
  by (induction xs) (auto split: if_splits)

lemma AList_update_same_value:
  "map_of xs k = Some v \<Longrightarrow> f v' = f v \<Longrightarrow> map (f \<circ> snd) (AList.update k v' xs) = map (f \<circ> snd) xs"
  by (induction xs) (auto split: if_splits)

lemma AList_update_keys: "map_of xs k = Some v \<Longrightarrow> map fst (AList.update k v' xs) = map fst xs"
  by (induction xs) (auto split: if_splits)

lemma sum_delete:
  "distinct (map fst xs) \<Longrightarrow> map_of xs k = Some v \<Longrightarrow>
     sum_list (map (f \<circ> snd) xs) = f v + sum_list (map (f \<circ> snd) (AList.delete k xs))"
  for f :: "'b \<Rightarrow> nat"
proof (induction xs)
  case (Cons x xs)
  show ?case
  proof (cases "fst x = k")
    case True
    then have "k \<notin> fst ` set xs"
      using Cons.prems by auto
    then have "AList.delete k (x # xs) = xs"
      using True by (simp add: AList.delete_eq filter_id_conv) force
    then show ?thesis
      using True Cons.prems by (cases x) simp
  next
    case False
    then show ?thesis
      using Cons by (cases x) (simp add: AList.delete_eq)
  qed
qed simp

end
