(* ===== verification/Log_Spool.thy ===== *)
theory Log_Spool
  imports Log_Format Runs Assoc_Lists
begin

text \<open>
  \<open>rust/worker/src/log_spool.rs\<close>: the private, bounded disk queue of sealed segments.
  The spool's directory is an explicit store of names and inodes, so that publication by
  hard link, the link count that \<open>safe_file\<close> checks, and a failure at any of the
  file-system calls are all visible. Which calls fail is the argument \<open>faults\<close>. The
  \<open>BTreeMap\<close> of entries is an association list with distinct keys.
\<close>

section \<open>The code\<close>

definition max_spool_bytes :: u64 where
  "max_spool_bytes = 268435456"

definition max_spool_segments :: nat where
  "max_spool_segments = 1024"

datatype spool_error =
  Spool_Invalid | Spool_Identity | Spool_UnsafePath | Spool_Conflict | Spool_Poisoned | Spool_Io string

record stored_segment =
  st_path :: string
  st_name :: string
  st_size :: u64

datatype spool_outcome = Stored stored_segment | Saturated

subsection \<open>The directory\<close>

record inode =
  in_is_file :: bool
  in_uid :: nat
  in_mode :: nat
  in_nlink :: nat
  in_bytes :: "u8 list"

record spool_dir =
  sd_names :: "string \<rightharpoonup> nat"
  sd_inodes :: "nat \<Rightarrow> inode"
  sd_next :: nat
  sd_owner :: nat \<comment> \<open>\<open>geteuid\<close>\<close>

datatype spool_io =
  Open_Pending | Write_Pending | Sync_Pending | Link_Final | Unlink_Pending | Sync_Directory
| Cleanup_Pending | Cleanup_Final | Open_Entry | Stat_Entry | Unlink_Entry

record io_faults =
  fails :: "spool_io \<Rightarrow> string option"
  short_write :: nat

definition io_check :: "io_faults \<Rightarrow> spool_io \<Rightarrow> spool_error + unit" where
  "io_check faults op = (case fails faults op of None \<Rightarrow> Inr () | Some e \<Rightarrow> Inl (Spool_Io e))"

definition io_create :: "io_faults \<Rightarrow> string \<Rightarrow> spool_dir \<Rightarrow> (spool_error + unit) \<times> spool_dir" where
  "io_create faults name d =
     (case io_check faults Open_Pending of
        Inl e \<Rightarrow> (Inl e, d)
      | Inr _ \<Rightarrow>
          if sd_names d name \<noteq> None then (Inl (Spool_Io ''AlreadyExists''), d)
          else (Inr (), d\<lparr>sd_names := (sd_names d)(name \<mapsto> sd_next d),
                          sd_inodes := (sd_inodes d)(sd_next d :=
                            \<lparr>in_is_file = True, in_uid = sd_owner d, in_mode = 0x180, in_nlink = 1, in_bytes = []\<rparr>),
                          sd_next := Suc (sd_next d)\<rparr>))"

definition io_write :: "io_faults \<Rightarrow> string \<Rightarrow> u8 list \<Rightarrow> spool_dir \<Rightarrow> (spool_error + unit) \<times> spool_dir" where
  "io_write faults name bytes d =
     (case sd_names d name of
        None \<Rightarrow> (Inl (Spool_Io ''NotFound''), d)
      | Some i \<Rightarrow>
          let put = (\<lambda>bs. d\<lparr>sd_inodes := (sd_inodes d)(i := (sd_inodes d i)\<lparr>in_bytes := bs\<rparr>)\<rparr>)
          in (case io_check faults Write_Pending of
                Inl e \<Rightarrow> (Inl e, put (take (short_write faults) bytes))
              | Inr _ \<Rightarrow> (Inr (), put bytes)))"

definition io_link :: "io_faults \<Rightarrow> string \<Rightarrow> string \<Rightarrow> spool_dir \<Rightarrow> (spool_error + unit) \<times> spool_dir" where
  "io_link faults old new d =
     (case io_check faults Link_Final of
        Inl e \<Rightarrow> (Inl e, d)
      | Inr _ \<Rightarrow>
          (case sd_names d old of
             None \<Rightarrow> (Inl (Spool_Io ''NotFound''), d)
           | Some i \<Rightarrow>
               if sd_names d new \<noteq> None then (Inl (Spool_Io ''AlreadyExists''), d)
               else (Inr (), d\<lparr>sd_names := (sd_names d)(new \<mapsto> i),
                               sd_inodes := (sd_inodes d)(i := (sd_inodes d i)\<lparr>in_nlink := in_nlink (sd_inodes d i) + 1\<rparr>)\<rparr>)))"

definition io_unlink :: "io_faults \<Rightarrow> spool_io \<Rightarrow> string \<Rightarrow> spool_dir \<Rightarrow> (spool_error + unit) \<times> spool_dir" where
  "io_unlink faults op name d =
     (case io_check faults op of
        Inl e \<Rightarrow> (Inl e, d)
      | Inr _ \<Rightarrow>
          (case sd_names d name of
             None \<Rightarrow> (Inl (Spool_Io ''NotFound''), d)
           | Some i \<Rightarrow>
               (Inr (), d\<lparr>sd_names := (sd_names d)(name := None),
                          sd_inodes := (sd_inodes d)(i := (sd_inodes d i)\<lparr>in_nlink := in_nlink (sd_inodes d i) - 1\<rparr>)\<rparr>)))"

definition safe_file :: "nat \<Rightarrow> inode \<Rightarrow> u64 \<Rightarrow> bool" where
  "safe_file owner meta sz \<longleftrightarrow>
     in_is_file meta \<and> in_uid meta = owner \<and> in_mode meta mod 0x200 = 0x180 \<and> in_nlink meta = 1
     \<and> length (in_bytes meta) = unat sz"

subsection \<open>The spool\<close>

record log_spool =
  sp_root :: string
  sp_dir :: spool_dir
  sp_attempt_id :: string
  sp_cap :: u64
  sp_used :: u64
  sp_entries :: "(string \<times> u64) list"
  sp_poisoned :: bool

text \<open>Modes: \<open>0o600\<close> is \<open>0x180\<close>, \<open>0o700\<close> is \<open>0x1C0\<close>, \<open>0o777\<close> is a mask of nine bits.

  \<open>create\<close>, on the name of the workspace's root and an empty directory that the
  exclusive creation gave; \<open>existed\<close> says that \<open>logs\<close> was already there, \<open>mkdir\<close> is
  the result of creating and opening it with its metadata (mode and owner).\<close>

definition LogSpool_create ::
  "string \<Rightarrow> string option \<Rightarrow> u64 \<Rightarrow> bool \<Rightarrow> spool_error + (bool \<times> nat \<times> nat) \<Rightarrow> spool_error + unit \<Rightarrow> nat
     \<Rightarrow> spool_error + log_spool" where
  "LogSpool_create root file_name cap existed mkdir synced owner =
     and_then (ok_or Spool_UnsafePath file_name) (\<lambda>attempt_id.
       if \<not> canonical_uuid attempt_id \<or> cap = 0 \<or> cap > max_spool_bytes then Inl Spool_Invalid
       else if existed then Inl Spool_UnsafePath
       else and_then mkdir (\<lambda>(is_dir, mode, uid).
         if \<not> is_dir \<or> mode mod 0x200 \<noteq> 0x1C0 \<or> uid \<noteq> owner then Inl Spool_UnsafePath
         else and_then synced (\<lambda>_.
           Inr \<lparr>sp_root = root @ ''/logs'',
                sp_dir = \<lparr>sd_names = Map.empty,
                          sd_inodes = (\<lambda>_. \<lparr>in_is_file = False, in_uid = 0, in_mode = 0, in_nlink = 0, in_bytes = []\<rparr>),
                          sd_next = 0, sd_owner = owner\<rparr>,
                sp_attempt_id = attempt_id, sp_cap = cap, sp_used = 0, sp_entries = [], sp_poisoned = False\<rparr>)))"

text \<open>\<open>{:019}\<close>.\<close>

definition pad19 :: "nat \<Rightarrow> string" where
  "pad19 n = replicate (19 - length (decimal n)) CHR ''0'' @ decimal n"

definition segment_name :: "string \<Rightarrow> u64 \<Rightarrow> u64 \<Rightarrow> string" where
  "segment_name prefix first final =
     prefix @ ''-'' @ pad19 (unat first) @ ''-'' @ pad19 (unat final) @ ''.seg''"

definition spool_prefix :: "log_stream \<Rightarrow> string option" where
  "spool_prefix stream =
     (case stream of Stdout \<Rightarrow> Some ''stdout'' | Stderr \<Rightarrow> Some ''stderr'' | Stream_Unspecified \<Rightarrow> None)"

text \<open>The file-system part of \<open>store\<close>: the result, whether the pending file was created
  and the final name linked, and the directory afterwards.\<close>

definition publish ::
  "io_faults \<Rightarrow> u8 list \<Rightarrow> string \<Rightarrow> spool_dir \<Rightarrow> (spool_error + unit) \<times> bool \<times> bool \<times> spool_dir" where
  "publish faults bytes name d0 =
     (case io_create faults ''.pending'' d0 of
        (Inl e, d1) \<Rightarrow> (Inl e, False, False, d1)
      | (Inr _, d1) \<Rightarrow>
     (case io_write faults ''.pending'' bytes d1 of
        (Inl e, d2) \<Rightarrow> (Inl e, True, False, d2)
      | (Inr _, d2) \<Rightarrow>
     (case io_check faults Sync_Pending of
        Inl e \<Rightarrow> (Inl e, True, False, d2)
      | Inr _ \<Rightarrow>
     (case io_link faults ''.pending'' name d2 of
        (Inl e, d3) \<Rightarrow> (Inl e, True, False, d3)
      | (Inr _, d3) \<Rightarrow>
     (case io_unlink faults Unlink_Pending ''.pending'' d3 of
        (Inl e, d4) \<Rightarrow> (Inl e, True, True, d4)
      | (Inr _, d4) \<Rightarrow>
     (case io_check faults Sync_Directory of
        Inl e \<Rightarrow> (Inl e, True, True, d4)
      | Inr _ \<Rightarrow> (Inr (), True, True, d4)))))))"

definition spool_store ::
  "io_faults \<Rightarrow> log_stream \<Rightarrow> log_segment \<Rightarrow> log_spool \<Rightarrow> (spool_error + spool_outcome) \<times> log_spool" where
  "spool_store faults stream segment s =
     (if sp_poisoned s then (Inl Spool_Poisoned, s)
      else if sg_attempt_id segment \<noteq> sp_attempt_id s \<or> sg_stream segment \<noteq> stream then (Inl Spool_Identity, s)
      else case spool_prefix stream of
        None \<Rightarrow> (Inl Spool_Invalid, s)
      | Some prefix \<Rightarrow>
        let sz = word_of_nat (length (sg_bytes segment)) :: u64 in
        if sz = 0 \<or> sz > word_of_nat max_segment_bytes then (Inl Spool_Invalid, s)
        else let name = segment_name prefix (sg_first_sequence segment) (sg_last_sequence segment) in
        if map_of (sp_entries s) name \<noteq> None then (Inl Spool_Conflict, s)
        else if length (sp_entries s) \<ge> max_spool_segments then (Inr Saturated, s)
        else if sz > sp_cap s - sp_used s then (Inr Saturated, s)
        else (case publish faults (sg_bytes segment) name (sp_dir s) of
          (Inl e, created_pending, linked_final, d) \<Rightarrow>
            let d = if created_pending then snd (io_unlink faults Cleanup_Pending ''.pending'' d) else d;
                d = if linked_final then snd (io_unlink faults Cleanup_Final name d) else d
            in (Inl e, s\<lparr>sp_dir := d, sp_poisoned := True\<rparr>)
        | (Inr _, _, _, d) \<Rightarrow>
            (Inr (Stored \<lparr>st_path = sp_root s @ ''/'' @ name, st_name = name, st_size = sz\<rparr>),
             s\<lparr>sp_dir := d, sp_used := sp_used s + sz,
               sp_entries := AList.update name sz (sp_entries s)\<rparr>)))"

text \<open>\<open>read\<close> returns the open file; its content is what reading it gives.\<close>

definition spool_read :: "io_faults \<Rightarrow> log_spool \<Rightarrow> stored_segment \<Rightarrow> spool_error + u8 list" where
  "spool_read faults s entry =
     (if sp_poisoned s then Inl Spool_Poisoned
      else if map_of (sp_entries s) (st_name entry) \<noteq> Some (st_size entry)
              \<or> st_path entry \<noteq> sp_root s @ ''/'' @ st_name entry
      then Inl Spool_Identity
      else and_then (io_check faults Open_Entry) (\<lambda>_.
           and_then (ok_or (Spool_Io ''NotFound'') (sd_names (sp_dir s) (st_name entry))) (\<lambda>i.
           and_then (io_check faults Stat_Entry) (\<lambda>_.
             if safe_file (sd_owner (sp_dir s)) (sd_inodes (sp_dir s) i) (st_size entry)
             then Inr (in_bytes (sd_inodes (sp_dir s) i)) else Inl Spool_UnsafePath))))"

definition spool_remove ::
  "io_faults \<Rightarrow> stored_segment \<Rightarrow> log_spool \<Rightarrow> (spool_error + unit) \<times> log_spool" where
  "spool_remove faults entry s =
     (case spool_read faults s entry of
        Inl e \<Rightarrow> (Inl e, s)
      | Inr _ \<Rightarrow>
          (case io_unlink faults Unlink_Entry (st_name entry) (sp_dir s) of
             (Inl e, d) \<Rightarrow> (Inl e, s\<lparr>sp_dir := d, sp_poisoned := True\<rparr>)
           | (Inr _, d) \<Rightarrow>
               (case io_check faults Sync_Directory of
                  Inl e \<Rightarrow> (Inl e, s\<lparr>sp_dir := d, sp_poisoned := True\<rparr>)
                | Inr _ \<Rightarrow>
                    (Inr (), s\<lparr>sp_dir := d, sp_used := sp_used s - st_size entry,
                               sp_entries := AList.delete (st_name entry) (sp_entries s)\<rparr>))))"

section \<open>The interface the assembler relies on\<close>

text \<open>
  A store of sealed segments: what it holds under an entry stays there, unchanged by other
  entries, until that entry is removed; a failed call either changes nothing or leaves a
  store that refuses to give out anything.
\<close>

locale segment_store =
  fixes store :: "'f \<Rightarrow> log_stream \<Rightarrow> log_segment \<Rightarrow> 's \<Rightarrow> (spool_error + spool_outcome) \<times> 's"
    and remove :: "'f \<Rightarrow> stored_segment \<Rightarrow> 's \<Rightarrow> (spool_error + unit) \<times> 's"
    and content :: "'s \<Rightarrow> stored_segment \<Rightarrow> u8 list option"
    and usable :: "'s \<Rightarrow> bool"
  assumes store_usable: "usable s \<Longrightarrow> length (sg_bytes sg) \<le> max_segment_bytes \<Longrightarrow> usable (snd (store f st sg s))"
    and store_Stored: "usable s \<Longrightarrow> length (sg_bytes sg) \<le> max_segment_bytes \<Longrightarrow>
      store f st sg s = (Inr (Stored e), s') \<Longrightarrow>
      content s e = None \<and> content s' e = Some (sg_bytes sg)
      \<and> (\<forall>e'. e' \<noteq> e \<longrightarrow> content s' e' = content s e')"
    and store_Saturated: "store f st sg s = (Inr Saturated, s') \<Longrightarrow> s' = s"
    and store_failed: "store f st sg s = (Inl err, s') \<Longrightarrow> s' = s \<or> (\<forall>e. content s' e = None)"
    and remove_usable: "usable s \<Longrightarrow> usable (snd (remove f e s))"
    and remove_done: "usable s \<Longrightarrow> remove f e s = (Inr (), s') \<Longrightarrow>
      content s' e = None \<and> (\<forall>e'. e' \<noteq> e \<longrightarrow> content s' e' = content s e')"
    and remove_failed: "remove f e s = (Inl err, s') \<Longrightarrow> s' = s \<or> (\<forall>e. content s' e = None)"
begin

text \<open>A queue of entries with the bytes each was stored with, as long as the store works.\<close>

lemma queue_store:
  assumes "usable s" and "length (sg_bytes sg) \<le> max_segment_bytes"
    and "store f st sg s = (Inr (Stored e), s')"
    and "\<forall>(e, b) \<in> set q. content s e = Some b" and "distinct (map fst q)"
  shows "(\<forall>(e, b) \<in> set (q @ [(e, sg_bytes sg)]). content s' e = Some b)
    \<and> distinct (map fst (q @ [(e, sg_bytes sg)]))"
proof -
  note st = store_Stored [OF assms(1-3)]
  have "e \<notin> fst ` set q"
    using st assms(4) by fastforce
  then show ?thesis
    using st assms(4,5) by (force split: prod.splits)
qed

lemma queue_remove:
  assumes "usable s" and "remove f e s = (Inr (), s')"
    and "\<forall>(e, b) \<in> set ((e, b0) # q). content s e = Some b" and "distinct (map fst ((e, b0) # q))"
  shows "(\<forall>(e, b) \<in> set q. content s' e = Some b) \<and> distinct (map fst q)"
proof -
  note rm = remove_done [OF assms(1,2)]
  have "e' \<noteq> e" if "(e', b) \<in> set q" for e' b
    using assms(4) that by force
  then show ?thesis
    using rm assms(3,4) by (fastforce split: prod.splits)
qed

lemma queue_failed_store:
  assumes "store f st sg s = (Inl err, s')" and "content s' e \<noteq> None"
  shows "s' = s"
  using store_failed [OF assms(1)] assms(2) by auto

lemma queue_failed_remove:
  assumes "remove f e0 s = (Inl err, s')" and "content s' e \<noteq> None"
  shows "s' = s"
  using remove_failed [OF assms(1)] assms(2) by auto

end

section \<open>The spool implements it\<close>

definition no_faults :: io_faults where
  "no_faults = \<lparr>fails = (\<lambda>_. None), short_write = 0\<rparr>"

definition spool_content :: "log_spool \<Rightarrow> stored_segment \<Rightarrow> u8 list option" where
  "spool_content s e = (case spool_read no_faults s e of Inl _ \<Rightarrow> None | Inr bytes \<Rightarrow> Some bytes)"

definition dir_ok :: "log_spool \<Rightarrow> bool" where
  "dir_ok s \<longleftrightarrow>
     sd_names (sp_dir s) ''.pending'' = None
     \<and> (\<forall>n i. sd_names (sp_dir s) n = Some i \<longrightarrow> i < sd_next (sp_dir s))
     \<and> (\<forall>n m i. sd_names (sp_dir s) n = Some i \<longrightarrow> sd_names (sp_dir s) m = Some i \<longrightarrow> n = m)
     \<and> (\<forall>n sz. map_of (sp_entries s) n = Some sz \<longrightarrow>
          (\<exists>i. sd_names (sp_dir s) n = Some i \<and> safe_file (sd_owner (sp_dir s)) (sd_inodes (sp_dir s) i) sz))"

definition spool_inv :: "log_spool \<Rightarrow> bool" where
  "spool_inv s \<longleftrightarrow>
     distinct (map fst (sp_entries s)) \<and> length (sp_entries s) \<le> max_spool_segments
     \<and> unat (sp_used s) = sum_list (map (unat \<circ> snd) (sp_entries s)) \<and> sp_used s \<le> sp_cap s
     \<and> (\<not> sp_poisoned s \<longrightarrow> dir_ok s)"

lemma io_check_no_faults [simp]: "io_check no_faults op = Inr ()"
  by (simp add: io_check_def no_faults_def)

lemma segment_name_not_pending:
  "spool_prefix st = Some p \<Longrightarrow> segment_name p a b \<noteq> ''.pending''"
  by (cases st) (auto simp: spool_prefix_def segment_name_def)

text \<open>A publication that succeeds adds one name, for a new private file with the bytes.\<close>

lemma publish_Inr:
  assumes "publish faults bytes name d = (Inr u, c, l, d')" and "name \<noteq> ''.pending''"
  shows "sd_names d ''.pending'' = None \<and> sd_names d name = None
    \<and> sd_names d' = (sd_names d)(name \<mapsto> sd_next d) \<and> sd_next d' = Suc (sd_next d)
    \<and> sd_owner d' = sd_owner d
    \<and> sd_inodes d' = (sd_inodes d)(sd_next d :=
        \<lparr>in_is_file = True, in_uid = sd_owner d, in_mode = 0x180, in_nlink = 1, in_bytes = bytes\<rparr>)"
proof -
  have twist: "m(''.pending'' := None) = m" if "m ''.pending'' = None" for m :: "string \<rightharpoonup> nat"
    using that by auto
  show ?thesis
    using assms
    by (auto simp: publish_def io_create_def io_write_def io_link_def io_unlink_def twist fun_upd_twist
        split: sum.splits prod.splits option.splits if_splits)
qed

lemma spool_content_Some_iff:
  "spool_content s e = Some b \<longleftrightarrow>
     \<not> sp_poisoned s \<and> map_of (sp_entries s) (st_name e) = Some (st_size e)
     \<and> st_path e = sp_root s @ ''/'' @ st_name e
     \<and> (\<exists>i. sd_names (sp_dir s) (st_name e) = Some i
          \<and> safe_file (sd_owner (sp_dir s)) (sd_inodes (sp_dir s) i) (st_size e)
          \<and> b = in_bytes (sd_inodes (sp_dir s) i))"
  by (auto simp: spool_content_def spool_read_def split: sum.splits if_splits)

lemma spool_content_poisoned: "sp_poisoned s \<Longrightarrow> spool_content s e = None"
  by (simp add: spool_content_def spool_read_def)

lemma spool_store_cases:
  assumes "spool_store f st sg s = (r, s')"
  shows "(s' = s \<and> (\<forall>e. r \<noteq> Inr (Stored e)))
    \<or> ((\<exists>err. r = Inl err) \<and> \<not> sp_poisoned s \<and> (\<exists>d. s' = s\<lparr>sp_dir := d, sp_poisoned := True\<rparr>))
    \<or> (\<exists>p name sz u c l d. \<not> sp_poisoned s \<and> spool_prefix st = Some p
        \<and> name = segment_name p (sg_first_sequence sg) (sg_last_sequence sg)
        \<and> sz = word_of_nat (length (sg_bytes sg)) \<and> sz \<noteq> 0
        \<and> map_of (sp_entries s) name = None \<and> length (sp_entries s) < max_spool_segments
        \<and> sz \<le> sp_cap s - sp_used s
        \<and> publish f (sg_bytes sg) name (sp_dir s) = (Inr u, c, l, d)
        \<and> r = Inr (Stored \<lparr>st_path = sp_root s @ ''/'' @ name, st_name = name, st_size = sz\<rparr>)
        \<and> s' = s\<lparr>sp_dir := d, sp_used := sp_used s + sz, sp_entries := AList.update name sz (sp_entries s)\<rparr>)"
proof (cases "spool_prefix st")
  case None
  with assms show ?thesis by (auto simp: spool_store_def split: if_splits)
next
  case (Some p)
  let ?name = "segment_name p (sg_first_sequence sg) (sg_last_sequence sg)"
  obtain q c l d where pub: "publish f (sg_bytes sg) ?name (sp_dir s) = (q, c, l, d)"
    by (metis prod_cases4)
  show ?thesis
  proof (cases q)
    case (Inl err)
    then show ?thesis
      using assms Some pub by (auto simp: spool_store_def Let_def split: if_splits)
  next
    case (Inr u)
    then show ?thesis
      using assms Some pub by (auto simp: spool_store_def Let_def split: if_splits)
  qed
qed

lemma dir_ok_entry:
  "dir_ok s \<Longrightarrow> map_of (sp_entries s) n = Some sz \<Longrightarrow>
     \<exists>i. sd_names (sp_dir s) n = Some i \<and> safe_file (sd_owner (sp_dir s)) (sd_inodes (sp_dir s) i) sz"
  by (simp add: dir_ok_def)

lemma spool_store_Stored:
  assumes inv: "spool_inv s" and len: "length (sg_bytes sg) \<le> max_segment_bytes"
    and st: "spool_store f st sg s = (Inr (Stored e), s')"
  shows "spool_inv s' \<and> spool_content s e = None \<and> spool_content s' e = Some (sg_bytes sg)
    \<and> (\<forall>e'. e' \<noteq> e \<longrightarrow> spool_content s' e' = spool_content s e')"
proof -
  let ?sz = "word_of_nat (length (sg_bytes sg)) :: u64"
  from spool_store_cases [OF st] obtain p name u c l d where
    np: "\<not> sp_poisoned s" and p: "spool_prefix st = Some p"
    and name: "name = segment_name p (sg_first_sequence sg) (sg_last_sequence sg)"
    and new: "map_of (sp_entries s) name = None" and few: "length (sp_entries s) < max_spool_segments"
    and room: "?sz \<le> sp_cap s - sp_used s"
    and pub: "publish f (sg_bytes sg) name (sp_dir s) = (Inr u, c, l, d)"
    and e: "e = \<lparr>st_path = sp_root s @ ''/'' @ name, st_name = name, st_size = ?sz\<rparr>"
    and s': "s' = s\<lparr>sp_dir := d, sp_used := sp_used s + ?sz, sp_entries := sp_entries s @ [(name, ?sz)]\<rparr>"
    by (auto simp: AList_update_new)
  have dir: "dir_ok s"
    using inv np by (simp add: spool_inv_def)
  have size: "unat ?sz = length (sg_bytes sg)"
    using len by (simp add: max_segment_bytes_def unat_of_nat)
  have np': "name \<noteq> ''.pending''"
    using segment_name_not_pending [OF p] name by simp
  note d = publish_Inr [OF pub np']
  have old: "i \<noteq> sd_next (sp_dir s)" if "sd_names (sp_dir s) n = Some i" for n i
    using dir that by (auto simp: dir_ok_def)
  have used: "unat (sp_used s + ?sz) = unat (sp_used s) + unat ?sz" "sp_used s + ?sz \<le> sp_cap s"
    using room inv unat_bound [of "sp_cap s"]
    by (auto simp: spool_inv_def word_le_nat_alt unat_sub_le unat_word_ariths)
  have "dir_ok s'"
    unfolding dir_ok_def
  proof (intro conjI allI impI)
    show "sd_names (sp_dir s') ''.pending'' = None"
      using np' d by (simp add: s')
    show "i < sd_next (sp_dir s')" if "sd_names (sp_dir s') n = Some i" for n i
      using that d dir by (auto simp: s' dir_ok_def less_Suc_eq split: if_splits)
    show "n = m" if "sd_names (sp_dir s') n = Some i" "sd_names (sp_dir s') m = Some i" for n m i
      using that d dir unfolding s' dir_ok_def by (auto split: if_splits)
    show "\<exists>i. sd_names (sp_dir s') n = Some i \<and> safe_file (sd_owner (sp_dir s')) (sd_inodes (sp_dir s') i) sz"
      if "map_of (sp_entries s') n = Some sz" for n sz
    proof (cases "n = name")
      case True
      with that d size new show ?thesis
        by (auto simp: s' safe_file_def map_add_def)
    next
      case False
      with that have "map_of (sp_entries s) n = Some sz"
        by (auto simp: s' map_add_def split: option.splits)
      then obtain i where i: "sd_names (sp_dir s) n = Some i"
        "safe_file (sd_owner (sp_dir s)) (sd_inodes (sp_dir s) i) sz"
        using dir_ok_entry [OF dir] by blast
      with False d old [OF i(1)] show ?thesis
        by (intro exI [of _ i]) (simp add: s')
    qed
  qed
  then have "spool_inv s'"
    using inv few new used size np
    by (auto simp: spool_inv_def s' map_of_eq_None_iff)
  moreover have "spool_content s' e = Some (sg_bytes sg)"
    using np d size new by (simp add: spool_content_Some_iff s' e safe_file_def map_add_def)
  moreover have "spool_content s e = None"
    using new by (auto simp: e spool_content_def spool_read_def)
  moreover have "spool_content s' e' = spool_content s e'" if "e' \<noteq> e" for e'
  proof (cases "st_name e' = name")
    case True
    then have "spool_content s e' = None"
      using new by (auto simp: spool_content_def spool_read_def)
    moreover have "spool_content s' e' = None"
      using that True new by (cases e') (auto simp: spool_content_def spool_read_def s' e map_add_def)
    ultimately show ?thesis by simp
  next
    case False
    have "spool_content s' e' = Some b \<longleftrightarrow> spool_content s e' = Some b" for b
      using False d old np by (auto simp: spool_content_Some_iff s' map_add_def split: option.splits)
    then show ?thesis by (metis not_None_eq)
  qed
  ultimately show ?thesis by blast
qed

lemma spool_store_inv:
  assumes "spool_inv s" and "length (sg_bytes sg) \<le> max_segment_bytes"
  shows "spool_inv (snd (spool_store f st sg s))"
proof -
  obtain r s' where r: "spool_store f st sg s = (r, s')"
    by fastforce
  show ?thesis
  proof (cases "\<exists>e. r = Inr (Stored e)")
    case True
    with r spool_store_Stored [OF assms] show ?thesis by auto
  next
    case False
    with spool_store_cases [OF r] assms(1) show ?thesis
      by (auto simp: r spool_inv_def)
  qed
qed

lemma spool_read_Inr:
  "spool_read f s e = Inr b \<Longrightarrow> spool_content s e = Some b"
  by (auto simp: spool_read_def spool_content_Some_iff split: if_splits)

lemma spool_remove_done:
  assumes inv: "spool_inv s" and rm: "spool_remove f e s = (Inr (), s')"
  shows "spool_inv s' \<and> spool_content s' e = None
    \<and> (\<forall>e'. e' \<noteq> e \<longrightarrow> spool_content s' e' = spool_content s e')"
proof -
  from rm obtain b where "spool_read f s e = Inr b"
    by (auto simp: spool_remove_def split: sum.splits)
  then have held: "spool_content s e = Some b"
    by (rule spool_read_Inr)
  then obtain i where np: "\<not> sp_poisoned s" and entry: "map_of (sp_entries s) (st_name e) = Some (st_size e)"
    and path: "st_path e = sp_root s @ ''/'' @ st_name e" and i: "sd_names (sp_dir s) (st_name e) = Some i"
    by (auto simp: spool_content_Some_iff)
  have dir: "dir_ok s"
    using inv np by (simp add: spool_inv_def)
  let ?d = "(sp_dir s)\<lparr>sd_names := (sd_names (sp_dir s))(st_name e := None),
    sd_inodes := (sd_inodes (sp_dir s))(i := (sd_inodes (sp_dir s) i)\<lparr>in_nlink := in_nlink (sd_inodes (sp_dir s) i) - 1\<rparr>)\<rparr>"
  from rm i have s': "s' = s\<lparr>sp_dir := ?d, sp_used := sp_used s - st_size e,
      sp_entries := AList.delete (st_name e) (sp_entries s)\<rparr>"
    by (auto simp: spool_remove_def io_unlink_def split: sum.splits prod.splits)
  have other: "j \<noteq> i" if "sd_names (sp_dir s) n = Some j" "n \<noteq> st_name e" for n j
    using dir i that by (auto simp: dir_ok_def)
  have look: "map_of (sp_entries s') n = (if n = st_name e then None else map_of (sp_entries s) n)" for n
    by (simp add: s' AList.delete_conv)
  have sum: "sum_list (map (unat \<circ> snd) (sp_entries s))
      = unat (st_size e) + sum_list (map (unat \<circ> snd) (sp_entries s'))"
    using sum_delete [OF _ entry, of unat] inv by (simp add: s' spool_inv_def)
  then have le: "st_size e \<le> sp_used s"
    using inv by (simp add: spool_inv_def word_le_nat_alt)
  have used: "unat (sp_used s') = sum_list (map (unat \<circ> snd) (sp_entries s'))" "sp_used s' \<le> sp_cap s'"
    using inv sum le by (auto simp: s' spool_inv_def unat_sub_le word_le_nat_alt)
  have kept: "\<exists>j. sd_names (sp_dir s') n = Some j \<and> safe_file (sd_owner (sp_dir s')) (sd_inodes (sp_dir s') j) sz"
    if "map_of (sp_entries s') n = Some sz" for n sz
  proof -
    have n: "n \<noteq> st_name e" "map_of (sp_entries s) n = Some sz"
      using that look [of n] by (auto split: if_splits)
    then obtain j where j: "sd_names (sp_dir s) n = Some j"
      "safe_file (sd_owner (sp_dir s)) (sd_inodes (sp_dir s) j) sz"
      using dir_ok_entry [OF dir] by blast
    with n other [OF j(1)] show ?thesis
      by (intro exI [of _ j]) (simp add: s')
  qed
  have "dir_ok s'"
    using dir kept by (auto simp: dir_ok_def s' split: if_splits)
  then have "spool_inv s'"
    using inv used length_delete_le [of "st_name e" "sp_entries s"]
    by (auto simp: spool_inv_def s' AList.distinct_delete)
  moreover have "spool_content s' e = None"
    using look [of "st_name e"] by (simp add: spool_content_def spool_read_def)
  moreover have "spool_content s' e' = spool_content s e'" if "e' \<noteq> e" for e'
  proof (cases "st_name e' = st_name e")
    case True
    then have "spool_content s e' = None"
      using that entry path by (cases e'; cases e) (auto simp: spool_content_def spool_read_def)
    moreover have "spool_content s' e' = None"
      using True look by (auto simp: spool_content_def spool_read_def)
    ultimately show ?thesis by simp
  next
    case False
    have "spool_content s' e' = Some b \<longleftrightarrow> spool_content s e' = Some b" for b
      using False other look np by (auto simp: spool_content_Some_iff s')
    then show ?thesis by (metis not_None_eq)
  qed
  ultimately show ?thesis by blast
qed

lemma spool_remove_failed:
  "spool_remove f e s = (Inl err, s') \<Longrightarrow> s' = s \<or> (\<exists>d. s' = s\<lparr>sp_dir := d, sp_poisoned := True\<rparr>)"
  by (auto simp: spool_remove_def split: sum.splits prod.splits)

lemma spool_remove_inv: "spool_inv s \<Longrightarrow> spool_inv (snd (spool_remove f e s))"
proof -
  assume inv: "spool_inv s"
  obtain r s' where r: "spool_remove f e s = (r, s')"
    by fastforce
  show ?thesis
  proof (cases r)
    case (Inl err)
    with r spool_remove_failed [of f e s err s'] inv show ?thesis
      by (auto simp: spool_inv_def)
  next
    case (Inr u)
    with r spool_remove_done [OF inv] show ?thesis by auto
  qed
qed

interpretation spool: segment_store spool_store spool_remove spool_content spool_inv
proof unfold_locales
  fix s s' f st sg e err
  show "spool_inv s \<Longrightarrow> length (sg_bytes sg) \<le> max_segment_bytes \<Longrightarrow> spool_inv (snd (spool_store f st sg s))"
    by (rule spool_store_inv)
  show "spool_inv s \<Longrightarrow> length (sg_bytes sg) \<le> max_segment_bytes \<Longrightarrow>
      spool_store f st sg s = (Inr (Stored e), s') \<Longrightarrow>
      spool_content s e = None \<and> spool_content s' e = Some (sg_bytes sg)
      \<and> (\<forall>e'. e' \<noteq> e \<longrightarrow> spool_content s' e' = spool_content s e')"
    using spool_store_Stored by blast
  show "spool_store f st sg s = (Inr Saturated, s') \<Longrightarrow> s' = s"
    using spool_store_cases by fastforce
  show "spool_store f st sg s = (Inl err, s') \<Longrightarrow> s' = s \<or> (\<forall>e. spool_content s' e = None)"
    using spool_store_cases [of f st sg s "Inl err" s'] by (auto simp: spool_content_poisoned)
  show "spool_inv s \<Longrightarrow> spool_inv (snd (spool_remove f e s))"
    by (rule spool_remove_inv)
  show "spool_inv s \<Longrightarrow> spool_remove f e s = (Inr (), s') \<Longrightarrow>
      spool_content s' e = None \<and> (\<forall>e'. e' \<noteq> e \<longrightarrow> spool_content s' e' = spool_content s e')"
    using spool_remove_done by blast
  show "spool_remove f e s = (Inl err, s') \<Longrightarrow> s' = s \<or> (\<forall>e. spool_content s' e = None)"
    using spool_remove_failed [of f e s err s'] by (auto simp: spool_content_poisoned)
qed

section \<open>Histories of the spool\<close>

datatype spool_event =
  Store_Segment io_faults log_stream log_segment
| Remove_Entry io_faults stored_segment

fun spool_step :: "log_spool \<Rightarrow> spool_event \<Rightarrow> log_spool" where
  "spool_step s (Store_Segment f st sg) = snd (spool_store f st sg s)"
| "spool_step s (Remove_Entry f e) = snd (spool_remove f e s)"

fun sealed_event :: "spool_event \<Rightarrow> bool" where
  "sealed_event (Store_Segment f st sg) = (length (sg_bytes sg) \<le> max_segment_bytes)"
| "sealed_event (Remove_Entry f e) = True"

fun touches :: "stored_segment \<Rightarrow> spool_event \<Rightarrow> bool" where
  "touches e (Remove_Entry f e') = (e' = e)"
| "touches e (Store_Segment f st sg) = False"

lemma spool_step_inv: "spool_inv s \<Longrightarrow> sealed_event ev \<Longrightarrow> spool_inv (spool_step s ev)"
  by (cases ev) (simp_all add: spool_store_inv spool_remove_inv)

text \<open>An entry with its bytes stays, or the spool is poisoned.\<close>

definition keeps_entry :: "stored_segment \<Rightarrow> u8 list \<Rightarrow> log_spool \<Rightarrow> bool" where
  "keeps_entry e b s \<longleftrightarrow> spool_inv s \<and> (sp_poisoned s \<or> spool_content s e = Some b)"

lemma poisoned_step: "sp_poisoned s \<Longrightarrow> spool_step s ev = s"
  by (cases ev) (simp_all add: spool_store_def spool_remove_def spool_read_def)

lemma keeps_entry_step:
  assumes "keeps_entry e b s" and "sealed_event ev" and "\<not> touches e ev"
  shows "keeps_entry e b (spool_step s ev)"
proof (cases "sp_poisoned s")
  case True
  with assms(1) show ?thesis by (simp add: poisoned_step)
next
  case False
  then have c: "spool_content s e = Some b" and inv: "spool_inv s"
    using assms(1) by (auto simp: keeps_entry_def)
  have "sp_poisoned (spool_step s ev) \<or> spool_content (spool_step s ev) e = Some b"
  proof (cases ev)
    case (Store_Segment f st sg)
    obtain r s' where r: "spool_store f st sg s = (r, s')"
      by fastforce
    show ?thesis
    proof (cases "\<exists>e'. r = Inr (Stored e')")
      case True
      with r Store_Segment assms(2) spool_store_Stored [OF inv] c show ?thesis
        by (metis option.distinct(1) sealed_event.simps(1) snd_conv spool_step.simps(1))
    next
      case False
      with spool_store_cases [OF r] r Store_Segment c show ?thesis by auto
    qed
  next
    case (Remove_Entry f e')
    obtain r s' where r: "spool_remove f e' s = (r, s')"
      by fastforce
    show ?thesis
    proof (cases r)
      case (Inl err)
      with r spool_remove_failed [of f e' s err s'] Remove_Entry c show ?thesis by auto
    next
      case (Inr u)
      with r spool_remove_done [OF inv] Remove_Entry assms(3) c show ?thesis by auto
    qed
  qed
  then show ?thesis
    using spool_step_inv [OF inv assms(2)] by (simp add: keeps_entry_def)
qed

interpretation spool_accounts: kept_by_steps spool_step sealed_event spool_inv
  by unfold_locales (rule spool_step_inv)

interpretation spool_entry: kept_by_steps spool_step "\<lambda>ev. sealed_event ev \<and> \<not> touches e ev" "keeps_entry e b" for e b
  by unfold_locales (simp add: keeps_entry_step)

lemma LogSpool_create_inv: "LogSpool_create root fn cap ex mk sy owner = Inr s \<Longrightarrow> spool_inv s"
  by (auto simp: LogSpool_create_def spool_inv_def dir_ok_def max_spool_segments_def split: if_splits prod.splits)

text \<open>C26. The spool's accounting is exact and bounded. After any history of stores and
  removals of sealed segments on a new spool, with any pattern of file-system failures,
  the bytes counted as used are exactly the sum of the sizes of the entries, without
  wrap-around, never more than the cap, and there are at most 1024 entries.\<close>

theorem spool_accounting:
  assumes "LogSpool_create root file_name cap existed mkdir synced owner = Inr s0"
    and "\<forall>ev \<in> set es. sealed_event ev" and "s = foldl spool_step s0 es"
  shows "unat (sp_used s) = sum_list (map (unat \<circ> snd) (sp_entries s))
    \<and> sp_used s \<le> sp_cap s \<and> length (sp_entries s) \<le> max_spool_segments"
  using spool_accounts.run_keeps [OF LogSpool_create_inv [OF assms(1)] assms(2)] assms(3)
  by (simp add: spool_inv_def)

text \<open>C27. A stored segment stays readable and unchanged. Once \<open>store\<close> has returned an
  entry, then after any further stores and any removals of other entries, with any
  file-system failures, reading the entry gives exactly the segment's bytes, unless a
  failure has poisoned the spool, which then refuses every read.\<close>

theorem stored_segment_kept:
  assumes "spool_inv s" and "length (sg_bytes sg) \<le> max_segment_bytes"
    and "spool_store f st sg s = (Inr (Stored e), s')"
    and "\<forall>ev \<in> set es. sealed_event ev \<and> \<not> touches e ev"
  shows "spool_content (foldl spool_step s' es) e = Some (sg_bytes sg)
    \<or> (\<forall>g e'. spool_read g (foldl spool_step s' es) e' = Inl Spool_Poisoned)"
proof -
  have "keeps_entry e (sg_bytes sg) s'"
    using spool_store_Stored [OF assms(1-3)] by (simp add: keeps_entry_def)
  then have "keeps_entry e (sg_bytes sg) (foldl spool_step s' es)"
    using spool_entry.run_keeps [of e "sg_bytes sg" s' es] assms(4) by blast
  then show ?thesis
    by (auto simp: keeps_entry_def spool_read_def)
qed

definition sample_spool :: log_spool where
  "sample_spool =
     \<lparr>sp_root = ''/w/logs'',
      sp_dir = \<lparr>sd_names = Map.empty,
        sd_inodes = (\<lambda>_. \<lparr>in_is_file = False, in_uid = 0, in_mode = 0, in_nlink = 0, in_bytes = []\<rparr>),
        sd_next = 0, sd_owner = 1000\<rparr>,
      sp_attempt_id = fixture_uuid CHR ''4'', sp_cap = 4096, sp_used = 0, sp_entries = [], sp_poisoned = False\<rparr>"

lemma sample_create:
  "LogSpool_create ''/w'' (Some (fixture_uuid CHR ''4'')) 4096 False (Inr (True, 0x1C0, 1000)) (Inr ()) 1000
     = Inr sample_spool"
  by (simp add: LogSpool_create_def sample_spool_def max_spool_bytes_def)

theorem spool_accounting_witness:
  "sp_used (foldl spool_step sample_spool [Store_Segment no_faults Stdout sample_segment]) \<le> 4096"
proof -
  have "\<forall>ev \<in> set [Store_Segment no_faults Stdout sample_segment]. sealed_event ev"
    by (simp add: sample_segment_def sample_written_def sample_records_def segment_header_def max_segment_bytes_def)
  from spool_accounting [OF sample_create this refl]
  have "sp_used (foldl spool_step sample_spool [Store_Segment no_faults Stdout sample_segment])
      \<le> sp_cap (foldl spool_step sample_spool [Store_Segment no_faults Stdout sample_segment])"
    by blast
  also have "\<dots> = 4096"
    by (simp add: spool_store_def sample_spool_def Let_def split: option.splits prod.splits sum.splits)
  finally show ?thesis .
qed

lemma publish_no_faults:
  assumes "sd_names d ''.pending'' = None" and "sd_names d name = None" and "name \<noteq> ''.pending''"
  shows "\<exists>c l d'. publish no_faults bytes name d = (Inr (), c, l, d')"
  using assms by (auto simp: publish_def io_create_def io_write_def io_link_def io_unlink_def)

lemma sample_store:
  "\<exists>e s'. spool_store no_faults Stdout sample_segment sample_spool = (Inr (Stored e), s')"
proof -
  have len: "length (sg_bytes sample_segment) = 91"
    by (simp add: sample_segment_def sample_written_def sample_records_def segment_header_def)
  obtain c l d' where "publish no_faults (sg_bytes sample_segment)
      (segment_name ''stdout'' (sg_first_sequence sample_segment) (sg_last_sequence sample_segment))
      (sp_dir sample_spool) = (Inr (), c, l, d')"
    using publish_no_faults [of "sp_dir sample_spool"
        "segment_name ''stdout'' (sg_first_sequence sample_segment) (sg_last_sequence sample_segment)"
        "sg_bytes sample_segment"]
      segment_name_not_pending [of Stdout "''stdout''"]
    by (auto simp: sample_spool_def spool_prefix_def)
  then show ?thesis
    by (simp add: spool_store_def len Let_def spool_prefix_def max_segment_bytes_def max_spool_segments_def)
       (simp add: sample_segment_def sample_spool_def)
qed

theorem stored_segment_kept_witness:
  "\<exists>e s'. spool_store no_faults Stdout sample_segment sample_spool = (Inr (Stored e), s')
     \<and> (spool_content s' e = Some (sg_bytes sample_segment) \<or> (\<forall>g e'. spool_read g s' e' = Inl Spool_Poisoned))"
proof -
  obtain e s' where st: "spool_store no_faults Stdout sample_segment sample_spool = (Inr (Stored e), s')"
    using sample_store by blast
  have "length (sg_bytes sample_segment) \<le> max_segment_bytes"
    by (simp add: sample_segment_def sample_written_def sample_records_def segment_header_def max_segment_bytes_def)
  from stored_segment_kept [OF LogSpool_create_inv [OF sample_create] this st, of "[]"] st show ?thesis
    by auto
qed

end
