(* ===== verification/Log_Assembler.thy ===== *)
theory Log_Assembler
  imports Log_Capture Log_Spool
begin

text \<open>
  \<open>rust/worker/src/log_assembler.rs\<close>: captured chunks become sealed segments in the spool,
  which wait in a queue to be uploaded. The digest function (\<open>ring\<close>'s SHA-256) is the
  argument \<open>sha\<close>, the readings of the monotonic clock are the arguments \<open>now\<close>, and the
  file-system failures of the spool are passed through as \<open>faults\<close>, for the loops over both
  streams one pattern per stream. Arrays of two are
  lists of length two.
\<close>

section \<open>The code\<close>

definition flush_interval :: nat where
  "flush_interval = 2 * 1000000000"

datatype assemble_error =
  Assemble_Invalid
| Assemble_Format log_format_error
| Assemble_Spool spool_error

record pending_segment =
  ps_entry :: stored_segment
  ps_stream :: log_stream
  ps_first_sequence :: u64
  ps_last_sequence :: u64
  ps_gaps :: "log_gap list"
  ps_sha256 :: string

record open_segment =
  os_writer :: log_segment_writer
  os_opened :: nat

record log_assembler =
  la_attempt_id :: string
  la_spool :: log_spool
  la_open :: "open_segment option list"
  la_last_seen :: "u64 list"
  la_last_stored :: "u64 list"
  la_pending :: "pending_segment list"

type_synonym digest = "u8 list \<Rightarrow> u8 list"

definition LogAssembler_new :: "string option \<Rightarrow> spool_error + log_spool \<Rightarrow> assemble_error + log_assembler" where
  "LogAssembler_new file_name created =
     and_then (ok_or Assemble_Invalid file_name) (\<lambda>attempt_id.
     and_then (map_err Assemble_Spool created) (\<lambda>spool.
       Inr \<lparr>la_attempt_id = attempt_id, la_spool = spool, la_open = [None, None],
            la_last_seen = [0, 0], la_last_stored = [0, 0], la_pending = []\<rparr>))"

definition fresh_segment :: "nat \<Rightarrow> log_stream \<Rightarrow> nat \<Rightarrow> log_assembler \<Rightarrow> assemble_error + open_segment" where
  "fresh_segment now stream i a =
     and_then (map_err Assemble_Format
       (LogSegmentWriter_new (la_attempt_id a) stream (la_last_stored a ! i + 1))) (\<lambda>writer.
         Inr \<lparr>os_writer = writer, os_opened = now\<rparr>)"

definition wire_gap :: "log_stream \<Rightarrow> sequence_gap \<Rightarrow> log_gap" where
  "wire_gap stream gap =
     \<lparr>lg_stream = stream_i32 stream, lg_first_sequence = gap_first gap, lg_last_sequence = gap_last gap\<rparr>"

definition flush_stream ::
  "digest \<Rightarrow> io_faults \<Rightarrow> log_stream \<Rightarrow> log_assembler \<Rightarrow> (assemble_error + unit) \<times> log_assembler" where
  "flush_stream sha faults stream a =
     (case stream_index stream of
        None \<Rightarrow> (Inl Assemble_Invalid, a)
      | Some i \<Rightarrow>
     (case la_open a ! i of
        None \<Rightarrow> (Inr (), a)
      | Some opened \<Rightarrow>
          let taken = a\<lparr>la_open := (la_open a)[i := None]\<rparr> in
     (case finish_segment (os_writer opened) of
        Inl e \<Rightarrow> (Inl (Assemble_Format e), taken)
      | Inr segment \<Rightarrow>
     (case spool_store faults stream segment (la_spool a) of
        (Inl e, spool) \<Rightarrow> (Inl (Assemble_Spool e), taken\<lparr>la_spool := spool\<rparr>)
      | (Inr Saturated, spool) \<Rightarrow> (Inr (), taken\<lparr>la_spool := spool\<rparr>)
      | (Inr (Stored entry), spool) \<Rightarrow>
          (Inr (), taken\<lparr>la_spool := spool,
             la_last_stored := (la_last_stored a)[i := sg_last_sequence segment],
             la_pending := la_pending a @
               [\<lparr>ps_entry = entry, ps_stream = stream, ps_first_sequence = sg_first_sequence segment,
                 ps_last_sequence = sg_last_sequence segment,
                 ps_gaps = map (wire_gap stream) (sg_gaps segment),
                 ps_sha256 = hex (sha (sg_bytes segment))\<rparr>]\<rparr>)))))"

text \<open>\<open>writer.append\<close> on the open segment of a stream.\<close>

definition append_open ::
  "nat \<Rightarrow> captured_chunk \<Rightarrow> log_assembler \<Rightarrow> (log_format_error + unit) \<times> log_assembler" where
  "append_open i chunk a =
     (case la_open a ! i of
        None \<Rightarrow> (Inl Format_Invalid, a)
      | Some opened \<Rightarrow>
          (case append_record (os_writer opened) (ck_sequence chunk) (ck_capture chunk) (ck_payload chunk) of
             Inl e \<Rightarrow> (Inl e, a)
           | Inr writer \<Rightarrow> (Inr (), a\<lparr>la_open := (la_open a)[i := Some (opened\<lparr>os_writer := writer\<rparr>)]\<rparr>)))"

definition open_fresh :: "nat \<Rightarrow> log_stream \<Rightarrow> nat \<Rightarrow> log_assembler \<Rightarrow> (assemble_error + unit) \<times> log_assembler" where
  "open_fresh now stream i a =
     (case fresh_segment now stream i a of
        Inl e \<Rightarrow> (Inl e, a)
      | Inr opened \<Rightarrow> (Inr (), a\<lparr>la_open := (la_open a)[i := Some opened]\<rparr>))"

definition mark_seen :: "nat \<Rightarrow> u64 \<Rightarrow> log_assembler \<Rightarrow> log_assembler" where
  "mark_seen i sequence a = a\<lparr>la_last_seen := (la_last_seen a)[i := sequence]\<rparr>"

definition ingest ::
  "digest \<Rightarrow> io_faults \<Rightarrow> nat \<Rightarrow> nat \<Rightarrow> captured_chunk \<Rightarrow> log_assembler
     \<Rightarrow> (assemble_error + unit) \<times> log_assembler" where
  "ingest sha faults now1 now2 chunk a =
     (case stream_index (ck_stream chunk) of
        None \<Rightarrow> (Inl Assemble_Invalid, a)
      | Some i \<Rightarrow>
     if ck_sequence chunk \<le> la_last_seen a ! i \<or> ck_payload chunk = [] then (Inl Assemble_Invalid, a)
     else
     (case (if la_open a ! i = None then open_fresh now1 (ck_stream chunk) i a else (Inr (), a)) of
        (Inl e, a1) \<Rightarrow> (Inl e, a1)
      | (Inr _, a1) \<Rightarrow>
     (case append_open i chunk a1 of
        (Inr _, a2) \<Rightarrow> (Inr (), mark_seen i (ck_sequence chunk) a2)
      | (Inl e, a2) \<Rightarrow>
          if e \<in> set [Format_Full, Format_GapLimit] then
            (case flush_stream sha faults (ck_stream chunk) a2 of
               (Inl e, a3) \<Rightarrow> (Inl e, a3)
             | (Inr _, a3) \<Rightarrow>
            (case open_fresh now2 (ck_stream chunk) i a3 of
               (Inl e, a4) \<Rightarrow> (Inl e, a4)
             | (Inr _, a4) \<Rightarrow>
            (case append_open i chunk a4 of
               (Inl e, a5) \<Rightarrow> (Inl (Assemble_Format e), a5)
             | (Inr _, a5) \<Rightarrow> (Inr (), mark_seen i (ck_sequence chunk) a5))))
          else (Inl (Assemble_Format e), a2))))"

text \<open>The two loops over the streams stop at the first error.\<close>

fun for_streams ::
  "(log_stream \<Rightarrow> log_assembler \<Rightarrow> (assemble_error + unit) \<times> log_assembler) \<Rightarrow> log_stream list
     \<Rightarrow> log_assembler \<Rightarrow> (assemble_error + unit) \<times> log_assembler" where
  "for_streams body [] a = (Inr (), a)"
| "for_streams body (stream # streams) a =
     (case body stream a of
        (Inl e, a') \<Rightarrow> (Inl e, a')
      | (Inr _, a') \<Rightarrow> for_streams body streams a')"

definition flush_due ::
  "digest \<Rightarrow> (log_stream \<Rightarrow> io_faults) \<Rightarrow> nat \<Rightarrow> log_assembler \<Rightarrow> (assemble_error + unit) \<times> log_assembler" where
  "flush_due sha faults now =
     for_streams (\<lambda>stream a.
       case stream_index stream of
         None \<Rightarrow> (Inl Assemble_Invalid, a)
       | Some i \<Rightarrow>
           if is_some_and (\<lambda>opened. now - os_opened opened \<ge> flush_interval) (la_open a ! i)
           then flush_stream sha (faults stream) stream a else (Inr (), a)) [Stdout, Stderr]"

definition flush_all ::
  "digest \<Rightarrow> (log_stream \<Rightarrow> io_faults) \<Rightarrow> log_assembler \<Rightarrow> (assemble_error + unit) \<times> log_assembler" where
  "flush_all sha faults = for_streams (\<lambda>stream. flush_stream sha (faults stream) stream) [Stdout, Stderr]"

definition front :: "log_assembler \<Rightarrow> pending_segment option" where
  "front a = (case la_pending a of [] \<Rightarrow> None | p # _ \<Rightarrow> Some p)"

definition read_front :: "io_faults \<Rightarrow> log_assembler \<Rightarrow> assemble_error + u8 list option" where
  "read_front faults a =
     (case front a of
        None \<Rightarrow> Inr None
      | Some p \<Rightarrow> and_then (map_err Assemble_Spool (spool_read faults (la_spool a) (ps_entry p))) (\<lambda>b. Inr (Some b)))"

definition acknowledge_front ::
  "io_faults \<Rightarrow> log_assembler \<Rightarrow> (assemble_error + unit) \<times> log_assembler" where
  "acknowledge_front faults a =
     (case front a of
        None \<Rightarrow> (Inl Assemble_Invalid, a)
      | Some p \<Rightarrow>
          (case spool_remove faults (ps_entry p) (la_spool a) of
             (Inl e, spool) \<Rightarrow> (Inl (Assemble_Spool e), a\<lparr>la_spool := spool\<rparr>)
           | (Inr _, spool) \<Rightarrow> (Inr (), a\<lparr>la_spool := spool, la_pending := tl (la_pending a)\<rparr>)))"

definition last_stored :: "log_stream \<Rightarrow> log_assembler \<Rightarrow> assemble_error + u64" where
  "last_stored stream a =
     and_then (ok_or Assemble_Invalid (stream_index stream)) (\<lambda>i. Inr (la_last_stored a ! i))"

section \<open>What the assembler keeps\<close>

text \<open>Ranges that follow each other without holes or overlaps, from \<open>n\<close> up to but not
  including \<open>m\<close>.\<close>

fun consecutive :: "nat \<Rightarrow> pending_segment list \<Rightarrow> nat \<Rightarrow> bool" where
  "consecutive n [] m = (n = m)"
| "consecutive n (p # ps) m =
     (unat (ps_first_sequence p) = n \<and> ps_first_sequence p \<le> ps_last_sequence p
      \<and> consecutive (unat (ps_last_sequence p) + 1) ps m)"

text \<open>The record a chunk becomes. What the assembler holds comes from the chunks in \<open>K\<close>, those of
  the history.\<close>

definition chunk_record :: "captured_chunk \<Rightarrow> log_record" where
  "chunk_record c = \<lparr>rc_sequence = ck_sequence c, rc_capture = ck_capture c, rc_payload = ck_payload c\<rparr>"

definition records_of :: "captured_chunk set \<Rightarrow> log_stream \<Rightarrow> log_record set" where
  "records_of K stream = chunk_record ` {c \<in> K. ck_stream c = stream}"

text \<open>A queued segment says of its bytes what is true of them.\<close>

definition seals :: "captured_chunk set \<Rightarrow> digest \<Rightarrow> string \<Rightarrow> pending_segment \<Rightarrow> u8 list \<Rightarrow> bool" where
  "seals K sha attempt_id p bytes \<longleftrightarrow>
     (\<exists>rs w. rs \<noteq> [] \<and> set rs \<subseteq> records_of K (ps_stream p) \<and> holds attempt_id (ps_stream p) (ps_first_sequence p) rs w \<and> bytes = lw_bytes w
       \<and> ps_last_sequence p = rc_sequence (last rs) \<and> ps_gaps p = map (wire_gap (ps_stream p)) (lw_gaps w)
       \<and> ps_sha256 p = hex (sha bytes))"

definition segments_of :: "log_stream \<Rightarrow> pending_segment list \<Rightarrow> pending_segment list" where
  "segments_of stream ps = filter (\<lambda>p. ps_stream p = stream) ps"

definition stream_inv :: "captured_chunk set \<Rightarrow> log_stream \<Rightarrow> nat \<Rightarrow> pending_segment list \<Rightarrow> log_assembler \<Rightarrow> bool" where
  "stream_inv K stream i ps a \<longleftrightarrow>
     consecutive 1 (segments_of stream ps) (unat (la_last_stored a ! i) + 1)
     \<and> la_last_stored a ! i \<le> la_last_seen a ! i \<and> la_last_seen a ! i \<le> i64_max
     \<and> (\<forall>opened. la_open a ! i = Some opened \<longrightarrow>
          (\<exists>rs. holds (la_attempt_id a) stream (la_last_stored a ! i + 1) rs (os_writer opened)
            \<and> set rs \<subseteq> records_of K stream
            \<and> (rs \<noteq> [] \<longrightarrow> rc_sequence (last rs) \<le> la_last_seen a ! i)))"

definition queue_ok :: "captured_chunk set \<Rightarrow> digest \<Rightarrow> log_assembler \<Rightarrow> bool" where
  "queue_ok K sha a \<longleftrightarrow>
     sp_poisoned (la_spool a)
     \<or> (\<exists>bs. length bs = length (la_pending a)
          \<and> list_all (\<lambda>(p, b). seals K sha (la_attempt_id a) p b) (zip (la_pending a) bs)
          \<and> (\<forall>(e, b) \<in> set (zip (map ps_entry (la_pending a)) bs). spool_content (la_spool a) e = Some b)
          \<and> distinct (map ps_entry (la_pending a)))"

text \<open>The state with the segments acknowledged so far.\<close>

definition assembler_inv :: "captured_chunk set \<Rightarrow> digest \<Rightarrow> log_assembler \<times> pending_segment list \<Rightarrow> bool" where
  "assembler_inv K sha s \<longleftrightarrow>
     (case s of (a, acked) \<Rightarrow>
        spool_inv (la_spool a) \<and> length (la_open a) = 2 \<and> length (la_last_seen a) = 2
        \<and> length (la_last_stored a) = 2
        \<and> (\<forall>stream i. stream_index stream = Some i \<longrightarrow> stream_inv K stream i (acked @ la_pending a) a)
        \<and> queue_ok K sha a)"

datatype assembler_event =
  Ingest io_faults nat nat captured_chunk
| Flush_Due "log_stream \<Rightarrow> io_faults" nat
| Flush_All "log_stream \<Rightarrow> io_faults"
| Acknowledge_Front io_faults

fun assembler_step ::
  "digest \<Rightarrow> log_assembler \<times> pending_segment list \<Rightarrow> assembler_event \<Rightarrow> log_assembler \<times> pending_segment list" where
  "assembler_step sha (a, acked) (Ingest f n1 n2 chunk) = (snd (ingest sha f n1 n2 chunk a), acked)"
| "assembler_step sha (a, acked) (Flush_Due f now) = (snd (flush_due sha f now a), acked)"
| "assembler_step sha (a, acked) (Flush_All f) = (snd (flush_all sha f a), acked)"
| "assembler_step sha (a, acked) (Acknowledge_Front f) =
     (case acknowledge_front f a of
        (Inl _, a') \<Rightarrow> (a', acked)
      | (Inr _, a') \<Rightarrow> (a', acked @ take 1 (la_pending a)))"

section \<open>Every operation keeps the invariant\<close>

lemma consecutive_snoc:
  "consecutive n ps m \<Longrightarrow> unat (ps_first_sequence p) = m \<Longrightarrow> ps_first_sequence p \<le> ps_last_sequence p \<Longrightarrow>
     consecutive n (ps @ [p]) (unat (ps_last_sequence p) + 1)"
  by (induction n ps m rule: consecutive.induct) simp_all

lemma assembler_invD:
  assumes "assembler_inv K sha (a, acked)" and "stream_index stream = Some i"
  shows "stream_inv K stream i (acked @ la_pending a) a" and "spool_inv (la_spool a)" and "queue_ok K sha a"
    and "i < length (la_open a)" and "i < length (la_last_seen a)" and "i < length (la_last_stored a)"
  using assms stream_index_bound [OF assms(2)] by (auto simp: assembler_inv_def)

text \<open>Changing what belongs to one stream leaves the other stream's part alone.\<close>

definition agree_except :: "nat \<Rightarrow> 'a list \<Rightarrow> 'a list \<Rightarrow> bool" where
  "agree_except i xs ys \<longleftrightarrow> length ys = length xs \<and> (\<forall>j. j \<noteq> i \<longrightarrow> ys ! j = xs ! j)"

lemma agree_except_simps [simp]: "agree_except i xs xs" "agree_except i xs (xs[i := x])"
  by (simp_all add: agree_except_def)

lemma assembler_inv_update:
  assumes inv: "assembler_inv K sha (a, acked)" and i: "stream_index stream = Some i"
    and part: "agree_except i (la_open a) (la_open a')" "agree_except i (la_last_seen a) (la_last_seen a')"
      "agree_except i (la_last_stored a) (la_last_stored a')"
    and same: "la_attempt_id a' = la_attempt_id a"
    and others: "\<forall>st. st \<noteq> stream \<longrightarrow> segments_of st (acked @ la_pending a') = segments_of st (acked @ la_pending a)"
    and this_stream: "stream_inv K stream i (acked @ la_pending a') a'"
    and "spool_inv (la_spool a')" and "queue_ok K sha a'"
  shows "assembler_inv K sha (a', acked)"
proof -
  have "stream_inv K st j (acked @ la_pending a') a'" if j: "stream_index st = Some j" for st j
  proof (cases "st = stream")
    case True
    with this_stream i j show ?thesis by simp
  next
    case False
    then have "j \<noteq> i"
      using stream_index_inject [OF j, of stream] i by auto
    with assembler_invD(1) [OF inv j] others False part show ?thesis
      by (simp add: stream_inv_def agree_except_def same)
  qed
  then show ?thesis
    using inv part assms(9,10) by (simp add: assembler_inv_def agree_except_def)
qed

lemma queue_ok_failed:
  assumes "queue_ok K sha a" and "sp \<noteq> la_spool a \<longrightarrow> sp_poisoned sp"
    and "la_pending a' = la_pending a" and "la_attempt_id a' = la_attempt_id a" and "la_spool a' = sp"
  shows "queue_ok K sha a'"
  using assms by (cases "sp = la_spool a") (auto simp: queue_ok_def)

lemma queue_ok_store:
  assumes "queue_ok K sha a" and "spool_inv (la_spool a)" and "length (sg_bytes sg) \<le> max_segment_bytes"
    and "spool_store f st sg (la_spool a) = (Inr (Stored e), sp)"
    and "la_pending a' = la_pending a @ [p]" and "ps_entry p = e" and "la_attempt_id a' = la_attempt_id a"
    and "la_spool a' = sp" and "seals K sha (la_attempt_id a) p (sg_bytes sg)"
  shows "queue_ok K sha a'"
proof (cases "sp_poisoned (la_spool a)")
  case True
  with assms(4) show ?thesis by (simp add: spool_store_def)
next
  case False
  then obtain bs where bs: "length bs = length (la_pending a)"
    "list_all (\<lambda>(p, b). seals K sha (la_attempt_id a) p b) (zip (la_pending a) bs)"
    "\<forall>(e, b) \<in> set (zip (map ps_entry (la_pending a)) bs). spool_content (la_spool a) e = Some b"
    "distinct (map ps_entry (la_pending a))"
    using assms(1) by (auto simp: queue_ok_def)
  have q: "map fst (zip (map ps_entry (la_pending a)) bs) = map ps_entry (la_pending a)"
    using bs(1) by simp
  have "distinct (map fst (zip (map ps_entry (la_pending a)) bs))"
    using bs(4) q by simp
  note kept = spool.queue_store [OF assms(2-4) bs(3) this]
  have "map fst (zip (map ps_entry (la_pending a)) bs @ [(e, sg_bytes sg)]) = map ps_entry (la_pending a) @ [e]"
    using q by simp
  with kept have "(\<forall>(e, b) \<in> set (zip (map ps_entry (la_pending a)) bs @ [(e, sg_bytes sg)]). spool_content sp e = Some b)
    \<and> distinct (map ps_entry (la_pending a) @ [e])"
    by metis
  then show ?thesis
    using bs(1,2) assms(5-9) unfolding queue_ok_def
    by (intro disjI2 exI [of _ "bs @ [sg_bytes sg]"]) simp
qed

lemma holds_length: "holds a st f rs w \<Longrightarrow> length (lw_bytes w) \<le> max_segment_bytes"
  unfolding holds_def by blast

lemma flush_stream_inv:
  assumes inv: "assembler_inv K sha (a, acked)"
  shows "assembler_inv K sha (snd (flush_stream sha f stream a), acked)"
proof (cases "stream_index stream")
  case None
  with inv show ?thesis by (simp add: flush_stream_def)
next
  case (Some i)
  note D = assembler_invD [OF inv Some]
  show ?thesis
  proof (cases "la_open a ! i")
    case None
    with inv Some show ?thesis by (simp add: flush_stream_def)
  next
    case (Some opened)
    let ?taken = "a\<lparr>la_open := (la_open a)[i := None]\<rparr>"
    obtain rs where rs: "holds (la_attempt_id a) stream (la_last_stored a ! i + 1) rs (os_writer opened)"
      "rs \<noteq> [] \<longrightarrow> rc_sequence (last rs) \<le> la_last_seen a ! i" "set rs \<subseteq> records_of K stream"
      using D(1) Some by (auto simp: stream_inv_def)
    have taken: "assembler_inv K sha (?taken\<lparr>la_spool := sp\<rparr>, acked)"
      if "sp \<noteq> la_spool a \<longrightarrow> sp_poisoned sp" "spool_inv sp" for sp
      using D \<open>stream_index stream = Some i\<close> that
      by (intro assembler_inv_update [OF inv]) (auto simp: stream_inv_def intro: queue_ok_failed)
    have same_spool: "?taken\<lparr>la_spool := la_spool a\<rparr> = ?taken"
      by simp
    show ?thesis
    proof (cases "finish_segment (os_writer opened)")
      case (Inl e)
      with taken [of "la_spool a"] D(2) Some \<open>stream_index stream = Some i\<close> show ?thesis
        by (simp add: flush_stream_def)
    next
      case (Inr sg)
      have ne: "rs \<noteq> []"
        using Inr rs(1) by (auto simp: finish_segment_def holds_def)
      have sg: "sg_bytes sg = lw_bytes (os_writer opened)" "sg_gaps sg = lw_gaps (os_writer opened)"
        "sg_first_sequence sg = la_last_stored a ! i + 1" "sg_last_sequence sg = rc_sequence (last rs)"
        using holds_finish [OF rs(1) ne] Inr by auto
      have len: "length (sg_bytes sg) \<le> max_segment_bytes"
        using holds_length [OF rs(1)] by (simp only: sg)
      obtain r sp where st: "spool_store f stream sg (la_spool a) = (r, sp)"
        by fastforce
      show ?thesis
      proof (cases "\<exists>e. r = Inr (Stored e)")
        case False
        have "sp \<noteq> la_spool a \<longrightarrow> sp_poisoned sp"
          using spool_store_cases [OF st] False by auto
        moreover have "spool_inv sp"
          using spool_store_inv [OF D(2) len, of f stream] st by simp
        ultimately show ?thesis
          using taken False Inr st Some \<open>stream_index stream = Some i\<close>
          by (cases r rule: sum.exhaust) (auto simp: flush_stream_def Let_def split: spool_outcome.splits)
      next
        case True
        then obtain e where e: "r = Inr (Stored e)" by blast
        let ?p = "\<lparr>ps_entry = e, ps_stream = stream, ps_first_sequence = sg_first_sequence sg,
                 ps_last_sequence = sg_last_sequence sg, ps_gaps = map (wire_gap stream) (sg_gaps sg),
                 ps_sha256 = hex (sha (sg_bytes sg))\<rparr>"
        let ?a' = "?taken\<lparr>la_spool := sp, la_last_stored := (la_last_stored a)[i := sg_last_sequence sg],
             la_pending := la_pending a @ [?p]\<rparr>"
        have flush: "snd (flush_stream sha f stream a) = ?a'"
          using \<open>stream_index stream = Some i\<close> Some Inr st e by (simp add: flush_stream_def)
        have seal: "seals K sha (la_attempt_id a) ?p (sg_bytes sg)"
          using rs(1,3) ne sg by (auto simp: seals_def)
        have q: "queue_ok K sha ?a'"
          using queue_ok_store [OF D(3,2) len st [unfolded e], of ?a' ?p] seal by simp
        have stored: "la_last_stored a ! i \<le> i64_max"
          using D(1) by (auto simp: stream_inv_def)
        have c: "consecutive 1 (segments_of stream (acked @ la_pending a)) (unat (la_last_stored a ! i) + 1)"
          using D(1) by (simp add: stream_inv_def)
        have "unat (ps_first_sequence ?p) = unat (la_last_stored a ! i) + 1" "ps_first_sequence ?p \<le> ps_last_sequence ?p"
          using rs(1) ne unat_succ [OF stored] by (simp_all add: sg holds_def)
        from consecutive_snoc [OF c this]
        have "consecutive 1 (segments_of stream (acked @ la_pending a) @ [?p]) (unat (sg_last_sequence sg) + 1)"
          by simp
        then have "stream_inv K stream i (acked @ la_pending ?a') ?a'"
          using D rs(2) ne sg(4) by (simp add: stream_inv_def segments_of_def)
        then have "assembler_inv K sha (?a', acked)"
          using q spool_store_inv [OF D(2) len, of f stream] st \<open>stream_index stream = Some i\<close>
          by (intro assembler_inv_update [OF inv])
             (auto simp: segments_of_def)
        with flush show ?thesis by simp
      qed
    qed
  qed
qed

lemma flush_stream_seen: "flush_stream sha f stream a = (r, a') \<Longrightarrow> la_last_seen a' = la_last_seen a"
  by (auto simp: flush_stream_def Let_def split: option.splits sum.splits prod.splits spool_outcome.splits)

lemma open_fresh_seen: "open_fresh now stream i a = (r, a') \<Longrightarrow> la_last_seen a' = la_last_seen a"
  by (auto simp: open_fresh_def split: sum.splits)

lemma open_fresh_inv:
  assumes inv: "assembler_inv K sha (a, acked)" and i: "stream_index stream = Some i"
  shows "assembler_inv K sha (snd (open_fresh now stream i a), acked)"
proof (cases "LogSegmentWriter_new (la_attempt_id a) stream (la_last_stored a ! i + 1)")
  case (Inl e)
  with inv show ?thesis by (simp add: open_fresh_def fresh_segment_def)
next
  case (Inr w)
  note D = assembler_invD [OF inv i]
  let ?a' = "a\<lparr>la_open := (la_open a)[i := Some \<lparr>os_writer = w, os_opened = now\<rparr>]\<rparr>"
  have "stream_inv K stream i (acked @ la_pending ?a') ?a'"
    using D(1,4) LogSegmentWriter_new_holds [OF Inr] by (auto simp: stream_inv_def)
  moreover have "queue_ok K sha ?a'"
    using D(3) by (simp add: queue_ok_def)
  ultimately have "assembler_inv K sha (?a', acked)"
    using D(2) by (intro assembler_inv_update [OF inv i]) simp_all
  with Inr show ?thesis by (simp add: open_fresh_def fresh_segment_def)
qed

lemma append_open_Inl: "append_open i chunk a = (Inl e, a') \<Longrightarrow> a' = a"
  by (auto simp: append_open_def split: option.splits sum.splits)

lemma append_open_inv:
  assumes inv: "assembler_inv K sha (a, acked)" and i: "stream_index stream = Some i"
    and later: "la_last_seen a ! i < ck_sequence chunk" and chunk: "chunk \<in> K" "ck_stream chunk = stream" and ap: "append_open i chunk a = (Inr u, a')"
  shows "assembler_inv K sha (mark_seen i (ck_sequence chunk) a', acked)"
proof -
  note D = assembler_invD [OF inv i]
  from ap obtain opened w where op: "la_open a ! i = Some opened"
    and w: "append_record (os_writer opened) (ck_sequence chunk) (ck_capture chunk) (ck_payload chunk) = Inr w"
    and a': "a' = a\<lparr>la_open := (la_open a)[i := Some (opened\<lparr>os_writer := w\<rparr>)]\<rparr>"
    by (auto simp: append_open_def split: option.splits sum.splits)
  obtain rs where rs: "holds (la_attempt_id a) stream (la_last_stored a ! i + 1) rs (os_writer opened)" "set rs \<subseteq> records_of K stream"
    using D(1) op by (auto simp: stream_inv_def)
  note h = append_record_holds [OF rs(1) w]
  have "ck_sequence chunk \<le> i64_max"
    using w by (simp add: append_record_Inr_iff)
  moreover have "la_last_stored a ! i \<le> ck_sequence chunk"
    using D(1) later by (auto simp: stream_inv_def)
  moreover have "\<exists>rs'. holds (la_attempt_id a) stream (la_last_stored a ! i + 1) rs' w
      \<and> set rs' \<subseteq> records_of K stream \<and> (rs' \<noteq> [] \<longrightarrow> rc_sequence (last rs') \<le> ck_sequence chunk)"
    using h rs(2) chunk
    by (intro exI [of _ "rs @ [\<lparr>rc_sequence = ck_sequence chunk, rc_capture = ck_capture chunk, rc_payload = ck_payload chunk\<rparr>]"])
      (auto simp: records_of_def chunk_record_def)
  ultimately have "stream_inv K stream i (acked @ la_pending a') (mark_seen i (ck_sequence chunk) a')"
    using D by (simp add: stream_inv_def a' mark_seen_def)
  moreover have "queue_ok K sha (mark_seen i (ck_sequence chunk) a')"
    using D(3) by (simp add: queue_ok_def a' mark_seen_def)
  ultimately show ?thesis
    using D(2) by (intro assembler_inv_update [OF inv i]) (simp_all add: a' mark_seen_def)
qed

lemma ingest_inv:
  assumes inv: "assembler_inv K sha (a, acked)" and chunk: "chunk \<in> K"
  shows "assembler_inv K sha (snd (ingest sha f n1 n2 chunk a), acked)"
proof (cases "stream_index (ck_stream chunk)")
  case None
  with inv show ?thesis by (simp add: ingest_def)
next
  case (Some i)
  show ?thesis
  proof (cases "ck_sequence chunk \<le> la_last_seen a ! i \<or> ck_payload chunk = []")
    case True
    with inv Some show ?thesis by (simp add: ingest_def)
  next
    case False
    then have later: "la_last_seen a ! i < ck_sequence chunk" by (simp add: not_le)
    obtain r1 a1 where r1: "(if la_open a ! i = None then open_fresh n1 (ck_stream chunk) i a else (Inr (), a)) = (r1, a1)"
      by fastforce
    have inv1: "assembler_inv K sha (a1, acked)" and seen1: "la_last_seen a1 = la_last_seen a"
      using r1 inv open_fresh_inv [OF inv Some, of n1]
      by (auto dest: open_fresh_seen split: if_splits)
    obtain r2 a2 where r2: "append_open i chunk a1 = (r2, a2)" by fastforce
    obtain r3 a3 where r3: "flush_stream sha f (ck_stream chunk) a1 = (r3, a3)" by fastforce
    have inv3: "assembler_inv K sha (a3, acked)" and seen3: "la_last_seen a3 = la_last_seen a"
      using flush_stream_inv [OF inv1, of f "ck_stream chunk"] flush_stream_seen [OF r3] r3 seen1 by simp_all
    obtain r4 a4 where r4: "open_fresh n2 (ck_stream chunk) i a3 = (r4, a4)" by fastforce
    have inv4: "assembler_inv K sha (a4, acked)" and seen4: "la_last_seen a4 = la_last_seen a"
      using open_fresh_inv [OF inv3 Some, of n2] open_fresh_seen [OF r4] r4 seen3 by simp_all
    obtain r5 a5 where r5: "append_open i chunk a4 = (r5, a5)" by fastforce
    note eq = ingest_def Some False r1 r2 r3 r4 r5
    show ?thesis
    proof (cases r1; cases r2)
      fix u v assume "r1 = Inr u" "r2 = Inr v"
      then show ?thesis
        using append_open_inv [OF inv1 Some _ chunk refl r2 [unfolded \<open>r2 = Inr v\<close>]] later seen1 by (simp add: eq)
    next
      fix u e assume r: "r1 = Inr u" "r2 = Inl e"
      then have a2: "a2 = a1" using append_open_Inl r2 by blast
      show ?thesis
      proof (cases "e \<in> {Format_Full, Format_GapLimit}")
        case True
        have "assembler_inv K sha (mark_seen i (ck_sequence chunk) a5, acked)" if "r5 = Inr v" for v
          using append_open_inv [OF inv4 Some _ chunk refl r5 [unfolded that]] later seen4 by simp
        then show ?thesis
          using True r a2 inv3 inv4 append_open_Inl [of i chunk a4 _ a5] r5
          by (cases r3; cases r4; cases r5) (simp_all add: eq)
      next
        case False
        with r a2 inv1 show ?thesis by (simp add: eq)
      qed
    qed (use inv1 in \<open>simp_all add: eq\<close>)
  qed
qed

lemma for_streams_inv:
  assumes "\<And>st a. assembler_inv K sha (a, acked) \<Longrightarrow> assembler_inv K sha (snd (body st a), acked)"
  shows "assembler_inv K sha (a, acked) \<Longrightarrow> assembler_inv K sha (snd (for_streams body sts a), acked)"
proof (induction sts arbitrary: a)
  case (Cons st sts)
  obtain r a' where "body st a = (r, a')" by fastforce
  with Cons assms [of a st] show ?case by (cases r) simp_all
qed simp

lemma acknowledge_front_inv:
  assumes inv: "assembler_inv K sha (a, acked)"
  shows "assembler_inv K sha (assembler_step sha (a, acked) (Acknowledge_Front f))"
proof (cases "la_pending a")
  case Nil
  with inv show ?thesis by (simp add: acknowledge_front_def front_def)
next
  case (Cons p ps)
  have sp: "spool_inv (la_spool a)" and q: "queue_ok K sha a"
    using inv by (simp_all add: assembler_inv_def)
  obtain r sp' where r: "spool_remove f (ps_entry p) (la_spool a) = (r, sp')"
    by fastforce
  have sp': "spool_inv sp'"
    using spool_remove_inv [OF sp, of f "ps_entry p"] r by simp
  show ?thesis
  proof (cases r)
    case (Inl e)
    have "queue_ok K sha (a\<lparr>la_spool := sp'\<rparr>)"
      using spool_remove_failed [of f "ps_entry p" "la_spool a" e sp'] r Inl
      by (intro queue_ok_failed [OF q, of sp']) auto
    with inv Cons r Inl sp' show ?thesis
      by (auto simp: acknowledge_front_def front_def assembler_inv_def stream_inv_def)
  next
    case (Inr u)
    then have removed: "spool_remove f (ps_entry p) (la_spool a) = (Inr (), sp')"
      using r by simp
    have np: "\<not> sp_poisoned (la_spool a)"
      using r Inr by (auto simp: spool_remove_def spool_read_def)
    with q Cons obtain b bs where bs: "length bs = length ps"
      "list_all (\<lambda>(p, b). seals K sha (la_attempt_id a) p b) (zip ps bs)"
      "\<forall>(e, b) \<in> set ((ps_entry p, b) # zip (map ps_entry ps) bs). spool_content (la_spool a) e = Some b"
      "distinct (ps_entry p # map ps_entry ps)"
      by (auto simp: queue_ok_def length_Suc_conv)
    have m: "map fst (zip (map ps_entry ps) bs) = map ps_entry ps"
      using bs(1) by simp
    have "distinct (map fst ((ps_entry p, b) # zip (map ps_entry ps) bs))"
      using bs(4) m by simp
    from spool.queue_remove [OF sp removed bs(3) this]
    have "queue_ok K sha (a\<lparr>la_spool := sp', la_pending := ps\<rparr>)"
      using bs m unfolding queue_ok_def by (intro disjI2 exI [of _ bs]) simp
    with inv Cons r Inr sp' show ?thesis
      by (simp add: acknowledge_front_def front_def assembler_inv_def stream_inv_def)
  qed
qed

fun from_chunks :: "captured_chunk set \<Rightarrow> assembler_event \<Rightarrow> bool" where
  "from_chunks K (Ingest f n1 n2 chunk) \<longleftrightarrow> chunk \<in> K"
| "from_chunks K _ \<longleftrightarrow> True"

lemma assembler_step_inv: "assembler_inv K sha s \<Longrightarrow> from_chunks K e \<Longrightarrow> assembler_inv K sha (assembler_step sha s e)"
proof (cases s)
  case (Pair a acked)
  moreover assume "assembler_inv K sha s" and chunk: "from_chunks K e"
  ultimately have inv: "assembler_inv K sha (a, acked)" by simp
  show ?thesis
  proof (cases e)
    case (Ingest f n1 n2 chunk)
    with Pair chunk ingest_inv [OF inv] show ?thesis by simp
  next
    case (Flush_Due f now)
    have "assembler_inv K sha (snd (flush_due sha f now a), acked)"
      unfolding flush_due_def
      by (rule for_streams_inv [OF _ inv]) (auto simp: flush_stream_inv split: option.splits)
    with Pair Flush_Due show ?thesis by simp
  next
    case (Flush_All f)
    have "assembler_inv K sha (snd (flush_all sha f a), acked)"
      unfolding flush_all_def by (rule for_streams_inv [OF _ inv]) (rule flush_stream_inv)
    with Pair Flush_All show ?thesis by simp
  next
    case (Acknowledge_Front f)
    with Pair acknowledge_front_inv [OF inv] show ?thesis by simp
  qed
qed

interpretation assembling: kept_by_steps "assembler_step sha" "from_chunks K" "assembler_inv K sha" for sha K
  by unfold_locales (rule assembler_step_inv)

lemma from_all_chunks: "from_chunks UNIV e"
  by (cases e) simp_all

lemma LogAssembler_new_inv:
  assumes "LogSpool_create root file_name cap existed mkdir synced owner = Inr spool"
    and "LogAssembler_new file_name (Inr spool) = Inr a"
  shows "assembler_inv K sha (a, [])"
proof -
  have "spool_inv spool"
    by (rule LogSpool_create_inv [OF assms(1)])
  moreover have "stream_inv K st i [] a" if "stream_index st = Some i" for st i
    using assms(2) that by (cases st) (auto simp: LogAssembler_new_def stream_inv_def segments_of_def)
  ultimately show ?thesis
    using assms(2) by (auto simp: LogAssembler_new_def assembler_inv_def queue_ok_def)
qed

text \<open>C16. Stored log ranges follow each other without a hole. Start from a new assembler on a
  new spool and take any history of chunks, timed and final flushes and acknowledgements,
  with any file-system failures. Then for each stream the ranges of the segments ever
  stored, acknowledged or still queued, in order, begin at 1, follow each other without
  hole or overlap, and end at the last stored number: a dropped segment's numbers fall
  into the range of the next stored one.\<close>

theorem stored_ranges_consecutive:
  assumes "LogSpool_create root file_name cap existed mkdir synced owner = Inr spool"
    and "LogAssembler_new file_name (Inr spool) = Inr a0"
    and "(a, acked) = foldl (assembler_step sha) (a0, []) es" and "stream_index stream = Some i"
  shows "consecutive 1 (segments_of stream (acked @ la_pending a)) (unat (la_last_stored a ! i) + 1)"
proof -
  have "assembler_inv UNIV sha (a, acked)"
    unfolding assms(3) by (rule assembling.run_keeps [OF LogAssembler_new_inv [OF assms(1,2)]]) (simp add: from_all_chunks)
  then show ?thesis
    using assembler_invD(1) [OF _ assms(4)] by (auto simp: stream_inv_def)
qed


lemma wire_points_gap [simp]: "wire_points (wire_gap stream g) = gap_points g"
  by (simp add: wire_points_def wire_gap_def gap_points_def)

lemma seals_decodes:
  assumes "seals K sha attempt_id p bytes" and "\<forall>u. canonical_uuid u \<longrightarrow> uuid_parse u = Some u"
  shows "\<exists>records. Decode uuid_parse bytes = Some \<lparr>dc_attempt_id = attempt_id,
        dc_stream = stream_name (ps_stream p), dc_records = records\<rparr>
    \<and> records \<noteq> [] \<and> set records \<subseteq> records_of K (ps_stream p)
    \<and> (\<Union>g \<in> set (ps_gaps p). wire_points g)
        = {unat (ps_first_sequence p)..unat (ps_last_sequence p)} - (unat \<circ> rc_sequence) ` set records
    \<and> ps_sha256 p = hex (sha bytes)"
proof -
  obtain rs w where rs: "rs \<noteq> []" and source: "set rs \<subseteq> records_of K (ps_stream p)" and h: "holds attempt_id (ps_stream p) (ps_first_sequence p) rs w"
    and p: "bytes = lw_bytes w" "ps_last_sequence p = rc_sequence (last rs)"
      "ps_gaps p = map (wire_gap (ps_stream p)) (lw_gaps w)" "ps_sha256 p = hex (sha bytes)"
    using assms(1) by (auto simp: seals_def)
  have u: "uuid_parse attempt_id = Some attempt_id"
    using h assms(2) by (simp add: holds_def)
  have "{unat (ps_first_sequence p)..<unat (expected_sequence w)}
      = {unat (ps_first_sequence p)..unat (rc_sequence (last rs))}"
    using holds_expected_unat [OF h] rs by auto
  then have "(\<Union>g \<in> set (ps_gaps p). wire_points g)
      = {unat (ps_first_sequence p)..unat (rc_sequence (last rs))} - (unat \<circ> rc_sequence) ` set rs"
    using h by (simp add: p(3) holds_def)
  then show ?thesis
    using Decode_holds [where uuid_parse = uuid_parse, OF h rs u] p rs source by auto
qed

text \<open>C28. What waits for upload is what was captured. For every queued segment in every
  state a new assembler can reach, unless a file-system failure poisoned the spool, the
  bytes in the spool hash to the recorded digest and decode with the server's decoder to the
  segment's attempt and stream and to records each of which is a chunk of that stream that was
  handed to the assembler, with its number, its capture time and its payload unchanged; the
  recorded gaps are exactly the numbers of the segment's range that no decoded record carries.\<close>

theorem queued_segment_faithful:
  assumes "LogSpool_create root file_name cap existed mkdir synced owner = Inr spool"
    and "LogAssembler_new file_name (Inr spool) = Inr a0"
    and "(a, acked) = foldl (assembler_step sha) (a0, []) es" and "p \<in> set (la_pending a)"
    and "\<not> sp_poisoned (la_spool a)" and "\<forall>u. canonical_uuid u \<longrightarrow> uuid_parse u = Some u"
  shows "\<exists>bytes records. spool_content (la_spool a) (ps_entry p) = Some bytes \<and> ps_sha256 p = hex (sha bytes)
    \<and> Decode uuid_parse bytes = Some \<lparr>dc_attempt_id = la_attempt_id a,
        dc_stream = stream_name (ps_stream p), dc_records = records\<rparr>
    \<and> records \<noteq> []
    \<and> (\<forall>r \<in> set records. \<exists>f n1 n2 c. Ingest f n1 n2 c \<in> set es \<and> ck_stream c = ps_stream p
         \<and> rc_sequence r = ck_sequence c \<and> rc_capture r = ck_capture c \<and> rc_payload r = ck_payload c)
    \<and> (\<Union>g \<in> set (ps_gaps p). wire_points g)
        = {unat (ps_first_sequence p)..unat (ps_last_sequence p)} - (unat \<circ> rc_sequence) ` set records"
proof -
  define K where "K = {c. \<exists>f n1 n2. Ingest f n1 n2 c \<in> set es}"
  have "from_chunks K e" if "e \<in> set es" for e
    by (cases e) (use that in \<open>auto simp: K_def\<close>)
  then have "assembler_inv K sha (a, acked)"
    unfolding assms(3) by (intro assembling.run_keeps LogAssembler_new_inv [OF assms(1,2)]) blast
  then obtain bs where bs: "length bs = length (la_pending a)"
    "list_all (\<lambda>(p, b). seals K sha (la_attempt_id a) p b) (zip (la_pending a) bs)"
    "\<forall>(e, b) \<in> set (zip (map ps_entry (la_pending a)) bs). spool_content (la_spool a) e = Some b"
    using assms(5) by (auto simp: assembler_inv_def queue_ok_def)
  obtain k where k: "k < length (la_pending a)" "p = la_pending a ! k"
    using assms(4) by (auto simp: in_set_conv_nth)
  have sealed: "seals K sha (la_attempt_id a) p (bs ! k)"
    using bs(1,2) k by (simp add: list_all_length)
  have "(ps_entry p, bs ! k) \<in> set (zip (map ps_entry (la_pending a)) bs)"
    using bs(1) k by (auto simp: in_set_zip intro: exI [of _ k])
  then have content: "spool_content (la_spool a) (ps_entry p) = Some (bs ! k)"
    using bs(3) by blast
  have source: "\<exists>f n1 n2 c. Ingest f n1 n2 c \<in> set es \<and> ck_stream c = ps_stream p
         \<and> rc_sequence r = ck_sequence c \<and> rc_capture r = ck_capture c \<and> rc_payload r = ck_payload c"
    if r: "r \<in> records_of K (ps_stream p)" for r
  proof -
    obtain f n1 n2 c where "Ingest f n1 n2 c \<in> set es" "ck_stream c = ps_stream p" "r = chunk_record c"
      using r unfolding records_of_def K_def by blast
    then show ?thesis
      by (intro exI [of _ f] exI [of _ n1] exI [of _ n2] exI [of _ c]) (simp add: chunk_record_def)
  qed
  obtain records where d: "Decode uuid_parse (bs ! k) = Some \<lparr>dc_attempt_id = la_attempt_id a,
        dc_stream = stream_name (ps_stream p), dc_records = records\<rparr>" "records \<noteq> []"
    "set records \<subseteq> records_of K (ps_stream p)" "ps_sha256 p = hex (sha (bs ! k))"
    "(\<Union>g \<in> set (ps_gaps p). wire_points g)
        = {unat (ps_first_sequence p)..unat (ps_last_sequence p)} - (unat \<circ> rc_sequence) ` set records"
    using seals_decodes [OF sealed assms(6)] by blast
  show ?thesis
    by (intro exI [of _ "bs ! k"] exI [of _ records] conjI ballI content d(1,2,4,5)) (erule source [OF subsetD [OF d(3)]])
qed

text \<open>Two chunks with a lost one between them, then the final flush.\<close>

definition sample_assembler :: log_assembler where
  "sample_assembler = \<lparr>la_attempt_id = fixture_uuid CHR ''4'', la_spool = sample_spool, la_open = [None, None],
     la_last_seen = [0, 0], la_last_stored = [0, 0], la_pending = []\<rparr>"

lemma sample_assembler_new:
  "LogAssembler_new (Some (fixture_uuid CHR ''4'')) (Inr sample_spool) = Inr sample_assembler"
  by (simp add: LogAssembler_new_def sample_assembler_def)

definition sample_events :: "assembler_event list" where
  "sample_events =
     [Ingest no_faults 0 0 \<lparr>ck_stream = Stdout, ck_sequence = 1, ck_capture = 7, ck_payload = [104, 105]\<rparr>,
      Ingest no_faults 0 0 \<lparr>ck_stream = Stdout, ck_sequence = 3, ck_capture = 9, ck_payload = [10]\<rparr>,
      Flush_All (\<lambda>_. no_faults)]"

lemma sample_first_append:
  "append_record sample_writer 1 7 [104, 105] = Inr (sample_writer\<lparr>
     lw_bytes := lw_bytes sample_writer @ encode_record \<lparr>rc_sequence = 1, rc_capture = 7, rc_payload = [104, 105]\<rparr>,
     lw_last_sequence := Some 1\<rparr>)"
  by (simp add: append_record_Inr_iff sample_writer_def expected_sequence_def i64_max_def max_gaps_def
      max_segment_bytes_def record_header_bytes_def segment_header_def)

lemma sample_second_append:
  "append_record (sample_writer\<lparr>
     lw_bytes := lw_bytes sample_writer @ encode_record \<lparr>rc_sequence = 1, rc_capture = 7, rc_payload = [104, 105]\<rparr>,
     lw_last_sequence := Some 1\<rparr>) 3 9 [10] = Inr sample_written"
  using sample_append sample_first_append by (simp add: append_records_def sample_records_def)

lemma sample_ingested:
  "foldl (assembler_step sha) (sample_assembler, []) (take 2 sample_events)
     = (sample_assembler\<lparr>la_open := [Some \<lparr>os_writer = sample_written, os_opened = 0\<rparr>, None],
          la_last_seen := [3, 0]\<rparr>, [])"
  by (simp add: sample_events_def ingest_def sample_assembler_def open_fresh_def fresh_segment_def
      sample_new append_open_def sample_first_append sample_second_append mark_seen_def word_le_nat_alt)

lemma sample_flushed:
  "\<exists>a p. foldl (assembler_step sha) (sample_assembler, []) sample_events = (a, []) \<and> la_pending a = [p]
     \<and> \<not> sp_poisoned (la_spool a) \<and> la_attempt_id a = fixture_uuid CHR ''4'' \<and> la_last_stored a = [3, 0]"
proof -
  obtain e s' where st: "spool_store no_faults Stdout sample_segment sample_spool = (Inr (Stored e), s')"
    using sample_store by blast
  then have np: "\<not> sp_poisoned s'"
    using spool_store_cases [OF st] by auto
  have "foldl (assembler_step sha) (sample_assembler, []) sample_events
      = assembler_step sha (foldl (assembler_step sha) (sample_assembler, []) (take 2 sample_events)) (Flush_All (\<lambda>_. no_faults))"
    by (simp add: sample_events_def)
  also have "\<dots> = (snd (flush_all sha (\<lambda>_. no_faults) (sample_assembler\<lparr>
      la_open := [Some \<lparr>os_writer = sample_written, os_opened = 0\<rparr>, None], la_last_seen := [3, 0]\<rparr>)), [])"
    by (simp only: sample_ingested assembler_step.simps)
  finally show ?thesis
    using st np by (simp add: flush_all_def flush_stream_def sample_assembler_def sample_finish sample_segment_def)
qed

theorem stored_ranges_consecutive_witness:
  "\<exists>a p. foldl (assembler_step (\<lambda>_. replicate 32 0)) (sample_assembler, []) sample_events = (a, [])
     \<and> la_pending a = [p] \<and> consecutive 1 (segments_of Stdout [p]) (unat (3 :: u64) + 1)"
proof -
  obtain a p where run: "foldl (assembler_step (\<lambda>_. replicate 32 0)) (sample_assembler, []) sample_events = (a, [])"
    and p: "la_pending a = [p]" "la_last_stored a = [3, 0]"
    using sample_flushed by blast
  from stored_ranges_consecutive [OF sample_create sample_assembler_new run [symmetric], of Stdout 0] p run
  show ?thesis by simp
qed

theorem queued_segment_faithful_witness:
  "\<exists>a p. foldl (assembler_step (\<lambda>_. replicate 32 0)) (sample_assembler, []) sample_events = (a, []) \<and> la_pending a = [p]
     \<and> (\<exists>bytes records. spool_content (la_spool a) (ps_entry p) = Some bytes \<and> ps_sha256 p = hex (replicate 32 0)
          \<and> Decode (\<lambda>u. if canonical_uuid u then Some u else None) bytes = Some \<lparr>dc_attempt_id = la_attempt_id a,
              dc_stream = stream_name (ps_stream p), dc_records = records\<rparr>
          \<and> records \<noteq> []
          \<and> (\<forall>r \<in> set records. \<exists>f n1 n2 c. Ingest f n1 n2 c \<in> set sample_events \<and> ck_stream c = ps_stream p
               \<and> rc_sequence r = ck_sequence c \<and> rc_capture r = ck_capture c \<and> rc_payload r = ck_payload c)
          \<and> (\<Union>g \<in> set (ps_gaps p). wire_points g)
              = {unat (ps_first_sequence p)..unat (ps_last_sequence p)} - (unat \<circ> rc_sequence) ` set records)"
proof -
  obtain a p where run: "foldl (assembler_step (\<lambda>_. replicate 32 0)) (sample_assembler, []) sample_events = (a, [])"
    and p: "la_pending a = [p]" "\<not> sp_poisoned (la_spool a)"
    using sample_flushed by blast
  have "p \<in> set (la_pending a)" and "\<forall>u. canonical_uuid u \<longrightarrow> (if canonical_uuid u then Some u else None) = Some u"
    by (simp_all add: p)
  note queued_segment_faithful [OF sample_create sample_assembler_new run [symmetric] this(1) p(2) this(2)]
  then show ?thesis
    using run p(1) by (intro exI [of _ a] exI [of _ p] conjI)
qed

end
