(* ===== verification/Log_Summary.thy ===== *)
theory Log_Summary
  imports Log_Assembler "HOL-Library.Product_Lexorder"
begin

text \<open>
  \<open>rust/worker/src/log_summary.rs\<close>: the claim about the attempt's logs that goes into its
  completion, made from the registered segments and the counters of the capture queue.
  The stable \<open>sort_by_key\<close> is \<open>sort_key\<close>.
\<close>

section \<open>The code\<close>

datatype summary_error = Summary_Invalid | Summary_Limit

record log_summary =
  sm_complete :: bool
  sm_gaps :: "log_gap list"

record summary_range =
  rg_stream :: log_stream
  rg_first :: u64
  rg_last :: u64
  rg_gaps :: "log_gap list"
  rg_registered :: bool

fun scan_ranges ::
  "summary_range list \<Rightarrow> u64 list \<Rightarrow> bool list \<Rightarrow> log_gap list
     \<Rightarrow> summary_error + (u64 list \<times> bool list \<times> log_gap list)" where
  "scan_ranges [] registered unregistered gaps = Inr (registered, unregistered, gaps)"
| "scan_ranges (rng # ranges) registered unregistered gaps =
     (case stream_index (rg_stream rng) of
        None \<Rightarrow> Inl Summary_Invalid
      | Some i \<Rightarrow>
          if rg_first rng = 0 \<or> rg_last rng < rg_first rng \<or> rg_last rng > i64_max
             \<or> (rg_registered rng \<and> (unregistered ! i \<or> rg_first rng \<noteq> registered ! i + 1))
          then Inl Summary_Invalid
          else if rg_registered rng
          then scan_ranges ranges (registered[i := rg_last rng]) unregistered (gaps @ rg_gaps rng)
          else scan_ranges ranges registered (unregistered[i := True]) gaps)"

fun tail_gaps :: "nat \<Rightarrow> u64 list \<Rightarrow> u64 list \<Rightarrow> log_gap list \<Rightarrow> summary_error + log_gap list" where
  "tail_gaps i [] registered gaps = Inr gaps"
| "tail_gaps i (count # counts) registered gaps =
     (if count > i64_max \<or> count < registered ! i then Inl Summary_Invalid
      else tail_gaps (Suc i) counts registered
        (if count > registered ! i
         then gaps @ [\<lparr>lg_stream = stream_i32 (if i = 0 then Stdout else Stderr),
                       lg_first_sequence = registered ! i + 1, lg_last_sequence = count\<rparr>]
         else gaps))"

definition extends_last :: "log_gap list \<Rightarrow> log_gap \<Rightarrow> bool" where
  "extends_last merged gap \<longleftrightarrow>
     merged \<noteq> [] \<and> lg_stream (last merged) = lg_stream gap
     \<and> lg_first_sequence gap \<le> saturating_add (lg_last_sequence (last merged)) 1"

fun merge_gaps :: "log_gap list \<Rightarrow> log_gap list \<Rightarrow> summary_error + log_gap list" where
  "merge_gaps merged [] = Inr merged"
| "merge_gaps merged (gap # gaps) =
     (if lg_first_sequence gap = 0 \<or> lg_last_sequence gap < lg_first_sequence gap then Inl Summary_Invalid
      else if extends_last merged gap
      then merge_gaps (butlast merged @ [(last merged)\<lparr>lg_last_sequence :=
             max (lg_last_sequence (last merged)) (lg_last_sequence gap)\<rparr>]) gaps
      else if length (merged @ [gap]) > 1024 then Inl Summary_Limit
      else merge_gaps (merged @ [gap]) gaps)"

definition gap_key :: "log_gap \<Rightarrow> i32 \<times> u64" where
  "gap_key gap = (lg_stream gap, lg_first_sequence gap)"

definition summarize_ranges ::
  "summary_range list \<Rightarrow> u64 list \<Rightarrow> bool \<Rightarrow> summary_error + log_summary" where
  "summarize_ranges ranges captured capture_finished =
     and_then (scan_ranges ranges [0, 0] [False, False] []) (\<lambda>(registered, unregistered, gaps).
     and_then (tail_gaps 0 captured registered gaps) (\<lambda>gaps.
     and_then (merge_gaps [] (sort_key gap_key gaps)) (\<lambda>merged.
       Inr \<lparr>sm_complete = (capture_finished \<and> \<not> unregistered ! 0 \<and> \<not> unregistered ! 1 \<and> merged = []),
            sm_gaps = merged\<rparr>)))"

section \<open>Merging keeps the set of lost numbers\<close>

definition gap_set :: "log_gap list \<Rightarrow> (i32 \<times> nat) set" where
  "gap_set gs = (\<Union>g \<in> set gs. {lg_stream g} \<times> wire_points g)"

lemma gap_set_simps [simp]:
  "gap_set [] = {}"
  "gap_set (g # gs) = {lg_stream g} \<times> wire_points g \<union> gap_set gs"
  "gap_set (gs @ hs) = gap_set gs \<union> gap_set hs"
  by (auto simp: gap_set_def)

lemma gap_set_sort [simp]: "gap_set (sort_key f gs) = gap_set gs"
  by (simp add: gap_set_def)

text \<open>Gaps in order, with at least one delivered number between two of the same stream.\<close>

definition apart :: "log_gap \<Rightarrow> log_gap \<Rightarrow> bool" where
  "apart a b \<longleftrightarrow> lg_stream a < lg_stream b
     \<or> (lg_stream a = lg_stream b \<and> unat (lg_last_sequence a) + 1 < unat (lg_first_sequence b))"

lemma saturating_bound:
  "first \<le> saturating_add x 1 \<longleftrightarrow> unat first \<le> unat x + 1" for first x :: u64
proof -
  have "unat first \<le> 2 ^ 64 - 1"
    using unat_bound [of first] by simp
  then show ?thesis
    by (auto simp: word_le_nat_alt unat_saturating_add)
qed

lemma union_interval:
  fixes a b c d :: nat
  assumes "a \<le> c" and "c \<le> b + 1"
  shows "{a..b} \<union> {c..d} = {a..max b d}"
  using assms by auto

lemma merge_gaps_points:
  assumes "merge_gaps merged gaps = Inr out" and "sorted (map gap_key gaps)"
    and "merged \<noteq> [] \<longrightarrow> (\<forall>g \<in> set gaps. gap_key (last merged) \<le> gap_key g)"
  shows "gap_set out = gap_set merged \<union> gap_set gaps"
  using assms
proof (induction merged gaps rule: merge_gaps.induct)
  case (1 merged)
  then show ?case by simp
next
  case (2 merged gap gaps)
  have ok: "\<not> (lg_first_sequence gap = 0 \<or> lg_last_sequence gap < lg_first_sequence gap)"
    using "2.prems"(1) by (auto split: if_splits)
  show ?case
  proof (cases "extends_last merged gap")
    case True
    let ?p = "last merged"
    let ?q = "?p\<lparr>lg_last_sequence := max (lg_last_sequence ?p) (lg_last_sequence gap)\<rparr>"
    have ne: "merged \<noteq> []" and st: "lg_stream ?p = lg_stream gap"
      and le: "unat (lg_first_sequence gap) \<le> unat (lg_last_sequence ?p) + 1"
      using True by (auto simp: extends_last_def saturating_bound)
    have "gap_key ?p \<le> gap_key gap"
      using "2.prems"(3) ne by simp
    then have "unat (lg_first_sequence ?p) \<le> unat (lg_first_sequence gap)"
      using st by (simp add: gap_key_def word_le_nat_alt)
    from union_interval [OF this le] have "wire_points ?q = wire_points ?p \<union> wire_points gap"
      by (simp add: wire_points_def max_def word_le_nat_alt)
    moreover have "gap_set merged = gap_set (butlast merged @ [?p])"
      by (simp only: append_butlast_last_id [OF ne])
    ultimately have "gap_set (butlast merged @ [?q]) = gap_set merged \<union> gap_set [gap]"
      using st by auto
    moreover have "merge_gaps (butlast merged @ [?q]) gaps = Inr out" "sorted (map gap_key gaps)"
      using "2.prems" ok True by simp_all
    moreover have "gap_key (last (butlast merged @ [?q])) = gap_key ?p"
      by (simp add: gap_key_def)
    moreover have "\<forall>g \<in> set gaps. gap_key ?p \<le> gap_key g"
      using "2.prems"(3) ne by simp
    ultimately show ?thesis
      using "2.IH"(1) [OF ok True] by auto
  next
    case False
    then have "gap_set out = gap_set (merged @ [gap]) \<union> gap_set gaps"
      using "2.IH"(2) [OF ok False] "2.prems" ok by (auto split: if_splits)
    then show ?thesis by auto
  qed
qed

lemma merge_gaps_apart:
  assumes "merge_gaps merged gaps = Inr out" and "sorted (map gap_key gaps)"
    and "merged \<noteq> [] \<longrightarrow> (\<forall>g \<in> set gaps. gap_key (last merged) \<le> gap_key g)"
    and "sorted_wrt apart merged" and "length merged \<le> 1024"
    and "\<forall>g \<in> set merged. unat (lg_first_sequence g) \<le> unat (lg_last_sequence g)"
  shows "sorted_wrt apart out \<and> length out \<le> 1024"
  using assms
proof (induction merged gaps rule: merge_gaps.induct)
  case (1 merged)
  then show ?case by simp
next
  case (2 merged gap gaps)
  have ok: "\<not> (lg_first_sequence gap = 0 \<or> lg_last_sequence gap < lg_first_sequence gap)"
    using "2.prems"(1) by (auto split: if_splits)
  then have pos: "unat (lg_first_sequence gap) \<le> unat (lg_last_sequence gap)"
    by (simp add: word_less_nat_alt)
  show ?case
  proof (cases "extends_last merged gap")
    case True
    let ?p = "last merged"
    let ?q = "?p\<lparr>lg_last_sequence := max (lg_last_sequence ?p) (lg_last_sequence gap)\<rparr>"
    have ne: "merged \<noteq> []"
      using True by (simp add: extends_last_def)
    have key: "gap_key (last (butlast merged @ [?q])) = gap_key ?p"
      by (simp add: gap_key_def)
    have ord: "\<forall>g \<in> set gaps. gap_key ?p \<le> gap_key g"
      using "2.prems"(3) ne by simp
    have "sorted_wrt apart (butlast merged @ [?p])"
      using "2.prems"(4) by (simp only: append_butlast_last_id [OF ne])
    then have "sorted_wrt apart (butlast merged @ [?q])"
      by (auto simp: sorted_wrt_append apart_def)
    moreover have "\<forall>g \<in> set (butlast merged @ [?q]). unat (lg_first_sequence g) \<le> unat (lg_last_sequence g)"
      using "2.prems"(6) bspec [OF "2.prems"(6) last_in_set [OF ne]]
      by (auto simp: max_def word_le_nat_alt dest: in_set_butlastD)
    moreover have "length (butlast merged @ [?q]) \<le> 1024"
      using "2.prems"(5) ne by (cases merged) simp_all
    ultimately show ?thesis
      using "2.IH"(1) [OF ok True] "2.prems"(1-3) True ok key ord by simp
  next
    case False
    have small: "length (merged @ [gap]) \<le> 1024"
      using "2.prems"(1) False ok by (auto split: if_splits)
    have "apart g gap" if "g \<in> set merged" for g
    proof -
      have ne: "merged \<noteq> []" using that by auto
      then have sorted: "sorted_wrt apart (butlast merged @ [last merged])"
        using "2.prems"(4) by (simp only: append_butlast_last_id [OF ne])
      have mem: "g \<in> set (butlast merged @ [last merged])"
        using that by (simp only: append_butlast_last_id [OF ne])
      have last_apart: "apart (last merged) gap"
        using False ne "2.prems"(3)
        by (auto simp: apart_def extends_last_def saturating_bound gap_key_def not_le)
      have "g = last merged \<or> apart g (last merged)"
        using sorted mem by (auto simp: sorted_wrt_append)
      moreover have "unat (lg_first_sequence (last merged)) \<le> unat (lg_last_sequence (last merged))"
        using "2.prems"(6) ne by simp
      ultimately show ?thesis
        using last_apart by (auto simp: apart_def)
    qed
    then have "sorted_wrt apart (merged @ [gap])"
      using "2.prems"(4) by (simp add: sorted_wrt_append)
    then show ?thesis
      using "2.IH"(2) [OF ok False] "2.prems" ok False small pos by auto
  qed
qed

section \<open>What the scan accepts\<close>

definition registered_of :: "log_stream \<Rightarrow> summary_range list \<Rightarrow> summary_range list" where
  "registered_of stream ranges = filter (\<lambda>r. rg_registered r \<and> rg_stream r = stream) ranges"

text \<open>Ranges that follow each other from just above \<open>n\<close> up to \<open>m\<close>.\<close>

fun ranges_from :: "nat \<Rightarrow> summary_range list \<Rightarrow> nat \<Rightarrow> bool" where
  "ranges_from n [] m = (n = m)"
| "ranges_from n (r # rs) m =
     (unat (rg_first r) = n + 1 \<and> n + 1 \<le> unat (rg_last r) \<and> ranges_from (unat (rg_last r)) rs m)"

lemma scan_ranges_Inr:
  assumes "scan_ranges ranges reg unreg gaps = Inr (reg', unreg', gaps')"
    and "length reg = 2" and "length unreg = 2" and "\<forall>r \<in> set reg. r \<le> i64_max"
  shows "gaps' = gaps @ concat (map rg_gaps (filter rg_registered ranges))
    \<and> (\<forall>stream i. stream_index stream = Some i \<longrightarrow>
         ranges_from (unat (reg ! i)) (registered_of stream ranges) (unat (reg' ! i))
         \<and> (unreg' ! i \<longleftrightarrow> unreg ! i \<or> (\<exists>r \<in> set ranges. rg_stream r = stream \<and> \<not> rg_registered r)))
    \<and> (\<forall>r \<in> set ranges. rg_stream r \<noteq> Stream_Unspecified)"
  using assms
proof (induction ranges arbitrary: reg unreg gaps)
  case Nil
  then show ?case by (simp add: registered_of_def)
next
  case (Cons r ranges)
  obtain k where k: "stream_index (rg_stream r) = Some k"
    using Cons.prems(1) by (cases "stream_index (rg_stream r)") auto
  have k2: "k < 2"
    by (rule stream_index_bound [OF k])
  have other: "stream_index st = Some i \<Longrightarrow> i = k \<longleftrightarrow> st = rg_stream r" for st i
    using k stream_index_inject by fastforce
  have valid: "rg_first r \<noteq> 0" "rg_first r \<le> rg_last r" "rg_last r \<le> i64_max"
    "rg_registered r \<longrightarrow> \<not> unreg ! k \<and> rg_first r = reg ! k + 1"
    using Cons.prems(1) k by (auto split: if_splits)
  have named: "rg_stream r \<noteq> Stream_Unspecified"
    using k by auto
  show ?case
  proof (cases "rg_registered r")
    case True
    have rest: "scan_ranges ranges (reg[k := rg_last r]) unreg (gaps @ rg_gaps r) = Inr (reg', unreg', gaps')"
      using Cons.prems(1) k valid True by (auto split: if_splits)
    have bounded: "\<forall>x \<in> set (reg[k := rg_last r]). x \<le> i64_max"
      using Cons.prems(4) valid(3) by (auto dest: set_update_subset_insert [THEN subsetD])
    have "reg ! k \<le> i64_max"
      using Cons.prems(2,4) k2 by simp
    then have "unat (rg_first r) = unat (reg ! k) + 1"
      using valid(4) True unat_succ by simp
    moreover have "unat (rg_first r) \<le> unat (rg_last r)"
      using valid(2) by (simp add: word_le_nat_alt)
    moreover note IH = Cons.IH [OF rest _ Cons.prems(3) bounded]
    ultimately have "ranges_from (unat (reg ! i)) (registered_of st (r # ranges)) (unat (reg' ! i))
        \<and> (unreg' ! i \<longleftrightarrow> unreg ! i \<or> (\<exists>r \<in> set (r # ranges). rg_stream r = st \<and> \<not> rg_registered r))"
      if i: "stream_index st = Some i" for st i
      using i k k2 Cons.prems(2) True other [OF i] IH
      by (cases "st = rg_stream r") (fastforce simp: registered_of_def)+
    then show ?thesis
      using IH Cons.prems(2) True named by simp
  next
    case False
    have rest: "scan_ranges ranges reg (unreg[k := True]) gaps = Inr (reg', unreg', gaps')"
      using Cons.prems(1) k valid False by (auto split: if_splits)
    note IH = Cons.IH [OF rest Cons.prems(2) _ Cons.prems(4)]
    have "ranges_from (unat (reg ! i)) (registered_of st (r # ranges)) (unat (reg' ! i))
        \<and> (unreg' ! i \<longleftrightarrow> unreg ! i \<or> (\<exists>r \<in> set (r # ranges). rg_stream r = st \<and> \<not> rg_registered r))"
      if i: "stream_index st = Some i" for st i
      using i k k2 Cons.prems(3) False other [OF i] IH
      by (cases "st = rg_stream r") (fastforce simp: registered_of_def)+
    then show ?thesis
      using IH Cons.prems(3) False named by simp
  qed
qed

lemma tail_gaps_Inr:
  assumes "tail_gaps 0 [c0, c1] reg gaps = Inr gaps'"
  shows "reg ! 0 \<le> c0 \<and> reg ! 1 \<le> c1
    \<and> gap_set gaps' = gap_set gaps \<union> {1} \<times> {unat (reg ! 0)<..unat c0} \<union> {2} \<times> {unat (reg ! 1)<..unat c1}"
proof -
  have step: "(if n < c then gap_set [\<lparr>lg_stream = s, lg_first_sequence = n + 1, lg_last_sequence = c\<rparr>] else {})
      = {s} \<times> {unat n<..unat c}" if "c \<le> i64_max" for s and n c :: u64
  proof (cases "n < c")
    case True
    then have "n \<le> i64_max"
      using that by (simp add: word_le_nat_alt word_less_nat_alt)
    with True show ?thesis
      by (auto simp: wire_points_def unat_succ)
  next
    case False
    then show ?thesis by (auto simp: word_less_nat_alt)
  qed
  have c: "c0 \<le> i64_max" "c1 \<le> i64_max"
    using assms by (auto split: if_splits simp: not_less)
  have le: "reg ! 0 \<le> c0" "reg ! 1 \<le> c1"
    using assms by (auto split: if_splits simp: not_less)
  let ?g = "\<lambda>s n c. \<lparr>lg_stream = s, lg_first_sequence = n + 1, lg_last_sequence = c\<rparr>"
  have "gaps' = gaps @ (if reg ! 0 < c0 then [?g 1 (reg ! 0) c0] else [])
      @ (if reg ! 1 < c1 then [?g 2 (reg ! 1) c1] else [])"
    using assms by (auto split: if_splits)
  then have "gap_set gaps' = gap_set gaps
      \<union> (if reg ! 0 < c0 then gap_set [?g 1 (reg ! 0) c0] else {})
      \<union> (if reg ! 1 < c1 then gap_set [?g 2 (reg ! 1) c1] else {})"
    by (simp add: Un_assoc)
  then show ?thesis
    using le by (simp only: step [OF c(1)] step [OF c(2)])
qed

lemma summarize_ranges_gaps:
  assumes "summarize_ranges ranges [c0, c1] finished = Inr sm"
  shows "\<exists>r0 r1. ranges_from 0 (registered_of Stdout ranges) r0 \<and> r0 \<le> unat c0
    \<and> ranges_from 0 (registered_of Stderr ranges) r1 \<and> r1 \<le> unat c1
    \<and> gap_set (sm_gaps sm) = gap_set (concat (map rg_gaps (filter rg_registered ranges)))
        \<union> {1} \<times> {r0<..unat c0} \<union> {2} \<times> {r1<..unat c1}
    \<and> sorted_wrt apart (sm_gaps sm) \<and> length (sm_gaps sm) \<le> 1024"
proof -
  from assms obtain reg unreg g0 g1 where
    scan: "scan_ranges ranges [0, 0] [False, False] [] = Inr (reg, unreg, g0)"
    and tail: "tail_gaps 0 [c0, c1] reg g0 = Inr g1"
    and merge: "merge_gaps [] (sort_key gap_key g1) = Inr (sm_gaps sm)"
    by (auto simp: summarize_ranges_def)
  note S = scan_ranges_Inr [OF scan]
  have sorted: "sorted (map gap_key (sort_key gap_key g1))"
    by simp
  have "gap_set (sm_gaps sm) = gap_set g1"
    using merge_gaps_points [OF merge sorted] by simp
  moreover have "sorted_wrt apart (sm_gaps sm) \<and> length (sm_gaps sm) \<le> 1024"
    using merge_gaps_apart [OF merge sorted] by simp
  moreover have "ranges_from 0 (registered_of Stdout ranges) (unat (reg ! 0))"
    "ranges_from 0 (registered_of Stderr ranges) (unat (reg ! 1))"
    "g0 = concat (map rg_gaps (filter rg_registered ranges))"
    using S by (simp_all add: i64_max_def) (metis nth_Cons_0 nth_Cons_Suc One_nat_def stream_index.simps unsigned_0)+
  ultimately show ?thesis
    using tail_gaps_Inr [OF tail]
    by (intro exI [of _ "unat (reg ! 0)"] exI [of _ "unat (reg ! 1)"]) (simp add: word_le_nat_alt)
qed

text \<open>The summary lists exactly the lost log numbers. When a summary is produced, then
  the registered ranges of each stream follow each other from 1 without a hole up to some
  number that the capture counter has reached, and the gaps listed are, as a set of
  (stream, number) pairs, exactly the gaps of the registered ranges together with
  everything captured after the last registered number; the list is ordered, its gaps are
  neither overlapping nor adjacent, and there are at most 1024 of them.\<close>

theorem summary_gaps_exact:
  assumes "summarize_ranges ranges [c0, c1] finished = Inr sm"
  shows "\<exists>r0 r1. ranges_from 0 (registered_of Stdout ranges) r0 \<and> r0 \<le> unat c0
    \<and> ranges_from 0 (registered_of Stderr ranges) r1 \<and> r1 \<le> unat c1
    \<and> gap_set (sm_gaps sm) = gap_set (concat (map rg_gaps (filter rg_registered ranges)))
        \<union> {1} \<times> {r0<..unat c0} \<union> {2} \<times> {r1<..unat c1}
    \<and> sorted_wrt apart (sm_gaps sm) \<and> length (sm_gaps sm) \<le> 1024"
  by (rule summarize_ranges_gaps [OF assms])

section \<open>Every captured number is delivered or listed as lost\<close>

lemma ranges_from_bounds:
  "ranges_from n rs m \<Longrightarrow> n \<le> m \<and> (\<forall>r \<in> set rs. {unat (rg_first r)..unat (rg_last r)} \<subseteq> {n<..m})"
proof (induction n rs m rule: ranges_from.induct)
  case (2 n r rs m)
  then have "unat (rg_last r) \<le> m" "n < unat (rg_last r)"
    "\<forall>x \<in> set rs. {unat (rg_first x)..unat (rg_last x)} \<subseteq> {unat (rg_last r)<..m}"
    by simp_all
  with 2(2) show ?case by fastforce
qed simp

lemma ranges_from_losses:
  assumes "ranges_from n rs m" and "\<forall>r \<in> set rs. delivered r \<subseteq> {unat (rg_first r)..unat (rg_last r)}"
  shows "(\<Union>r \<in> set rs. {unat (rg_first r)..unat (rg_last r)} - delivered r) = {n<..m} - (\<Union>r \<in> set rs. delivered r)"
  using assms
proof (induction n rs m rule: ranges_from.induct)
  case (2 n r rs m)
  let ?l = "unat (rg_last r)"
  have r: "{unat (rg_first r)..?l} = {n<..?l}" and le: "n < ?l" "?l \<le> m"
    using 2(2) ranges_from_bounds [of ?l rs m] by auto
  have later: "delivered x \<subseteq> {?l<..m}" if "x \<in> set rs" for x
  proof -
    have "delivered x \<subseteq> {unat (rg_first x)..unat (rg_last x)}"
      using 2(3) that by simp
    moreover have "{unat (rg_first x)..unat (rg_last x)} \<subseteq> {?l<..m}"
      using 2(2) ranges_from_bounds [of ?l rs m] that by simp
    ultimately show ?thesis by (rule subset_trans)
  qed
  have split: "{n<..m} = {n<..?l} \<union> {?l<..m}"
    using le by auto
  have IH: "(\<Union>r \<in> set rs. {unat (rg_first r)..unat (rg_last r)} - delivered r)
      = {?l<..m} - (\<Union>r \<in> set rs. delivered r)"
    using 2 by simp
  have mine: "delivered r \<subseteq> {n<..?l}"
    using 2(3) r by auto
  show ?case
    using later mine by (simp add: IH r split) fastforce
qed simp

definition delivered_set :: "(summary_range \<Rightarrow> nat set) \<Rightarrow> summary_range list \<Rightarrow> (i32 \<times> nat) set" where
  "delivered_set delivered ranges =
     (\<Union>r \<in> set (filter rg_registered ranges). {stream_i32 (rg_stream r)} \<times> delivered r)"

lemma registered_cases:
  assumes "\<forall>r \<in> set ranges. rg_stream r \<noteq> Stream_Unspecified"
  shows "set (filter rg_registered ranges) = set (registered_of Stdout ranges) \<union> set (registered_of Stderr ranges)"
  using assms by (auto simp: registered_of_def) (metis log_stream.exhaust)

lemma summarize_streams:
  assumes "summarize_ranges ranges captured finished = Inr sm"
  shows "(\<forall>r \<in> set ranges. rg_stream r \<noteq> Stream_Unspecified)
    \<and> (sm_complete sm \<longleftrightarrow> finished \<and> (\<forall>r \<in> set ranges. rg_registered r) \<and> sm_gaps sm = [])"
proof -
  from assms obtain reg unreg g0 where
    scan: "scan_ranges ranges [0, 0] [False, False] [] = Inr (reg, unreg, g0)"
    and sm: "sm_complete sm = (finished \<and> \<not> unreg ! 0 \<and> \<not> unreg ! 1 \<and> sm_gaps sm = [])"
    by (auto simp: summarize_ranges_def)
  note S = scan_ranges_Inr [OF scan]
  have u: "unreg ! i \<longleftrightarrow> (\<exists>r \<in> set ranges. rg_stream r = st \<and> \<not> rg_registered r)"
    if "stream_index st = Some i" for st i
  proof -
    have "[False, False] ! i = False"
      using that by (cases st) auto
    moreover have "unreg ! i \<longleftrightarrow> [False, False] ! i \<or> (\<exists>r \<in> set ranges. rg_stream r = st \<and> \<not> rg_registered r)"
      using S that by (simp add: i64_max_def)
    ultimately show ?thesis by simp
  qed
  have named: "\<forall>r \<in> set ranges. rg_stream r \<noteq> Stream_Unspecified"
    using S by (simp add: i64_max_def)
  have two: "rg_stream r = Stdout \<or> rg_stream r = Stderr" if "r \<in> set ranges" for r
    using named that by (cases "rg_stream r") auto
  have "\<not> unreg ! 0 \<and> \<not> unreg ! 1 \<longleftrightarrow> (\<forall>r \<in> set ranges. rg_registered r)"
    using u [OF stream_index.simps(1)] u [OF stream_index.simps(2)] two by blast
  with sm named show ?thesis by blast
qed

text \<open>C15. Loss accounting from end to end. Suppose the gaps of each registered range are
  exactly the numbers of that range its segment does not deliver (what the assembler's
  segments satisfy). Then the gaps of the summary are exactly the captured numbers, of
  both streams, that no registered segment delivers; and the summary claims complete logs
  only if the capture finished, every segment is registered and every captured number was
  delivered.\<close>

theorem summary_accounts_for_every_number:
  assumes "summarize_ranges ranges [c0, c1] finished = Inr sm"
    and "\<forall>r \<in> set (filter rg_registered ranges). delivered r \<subseteq> {unat (rg_first r)..unat (rg_last r)}
          \<and> gap_set (rg_gaps r) = {stream_i32 (rg_stream r)} \<times> ({unat (rg_first r)..unat (rg_last r)} - delivered r)"
  shows "gap_set (sm_gaps sm) = ({1} \<times> {0<..unat c0} \<union> {2} \<times> {0<..unat c1}) - delivered_set delivered ranges
    \<and> (sm_complete sm \<longrightarrow> finished \<and> (\<forall>r \<in> set ranges. rg_registered r)
        \<and> {1} \<times> {0<..unat c0} \<union> {2} \<times> {0<..unat c1} \<subseteq> delivered_set delivered ranges)"
proof -
  obtain r0 r1 where r0: "ranges_from 0 (registered_of Stdout ranges) r0" "r0 \<le> unat c0"
    and r1: "ranges_from 0 (registered_of Stderr ranges) r1" "r1 \<le> unat c1"
    and gaps: "gap_set (sm_gaps sm) = gap_set (concat (map rg_gaps (filter rg_registered ranges)))
        \<union> {1} \<times> {r0<..unat c0} \<union> {2} \<times> {r1<..unat c1}"
    using summarize_ranges_gaps [OF assms(1)] by blast
  let ?D = "\<lambda>st. \<Union>r \<in> set (registered_of st ranges). delivered r"
  have stream: "\<forall>r \<in> set (registered_of st ranges). delivered r \<subseteq> {unat (rg_first r)..unat (rg_last r)}" for st
    using assms(2) by (auto simp: registered_of_def)
  note cases = registered_cases [OF conjunct1 [OF summarize_streams [OF assms(1)]]]
  have D: "delivered_set delivered ranges = {1} \<times> ?D Stdout \<union> {2} \<times> ?D Stderr"
    unfolding delivered_set_def cases by (auto simp: registered_of_def)
  have "gap_set (concat (map rg_gaps (filter rg_registered ranges)))
      = (\<Union>r \<in> set (filter rg_registered ranges). gap_set (rg_gaps r))"
    by (auto simp: gap_set_def)
  also have "\<dots> = (\<Union>r \<in> set (filter rg_registered ranges).
      {stream_i32 (rg_stream r)} \<times> ({unat (rg_first r)..unat (rg_last r)} - delivered r))"
    using assms(2) by simp
  also have "\<dots> = {1} \<times> (\<Union>r \<in> set (registered_of Stdout ranges). {unat (rg_first r)..unat (rg_last r)} - delivered r)
      \<union> {2} \<times> (\<Union>r \<in> set (registered_of Stderr ranges). {unat (rg_first r)..unat (rg_last r)} - delivered r)"
    unfolding cases by (auto simp: registered_of_def)
  also have "\<dots> = {1} \<times> ({0<..r0} - ?D Stdout) \<union> {2} \<times> ({0<..r1} - ?D Stderr)"
    by (simp only: ranges_from_losses [OF r0(1) stream] ranges_from_losses [OF r1(1) stream])
  finally have g: "gap_set (sm_gaps sm) = {1} \<times> ({0<..r0} - ?D Stdout) \<union> {2} \<times> ({0<..r1} - ?D Stderr)
      \<union> {1} \<times> {r0<..unat c0} \<union> {2} \<times> {r1<..unat c1}"
    using gaps by simp
  have "?D Stdout \<subseteq> {0<..r0}" "?D Stderr \<subseteq> {0<..r1}"
    using stream ranges_from_bounds [OF r0(1)] ranges_from_bounds [OF r1(1)] by blast+
  then have "gap_set (sm_gaps sm) = ({1} \<times> {0<..unat c0} \<union> {2} \<times> {0<..unat c1}) - delivered_set delivered ranges"
    using r0(2) r1(2) unfolding g D by auto
  then show ?thesis
    using summarize_streams [OF assms(1)] by auto
qed

text \<open>One registered range 1..3 that lost number 2, and four captured chunks.\<close>

definition sample_range :: summary_range where
  "sample_range = \<lparr>rg_stream = Stdout, rg_first = 1, rg_last = 3,
     rg_gaps = [\<lparr>lg_stream = 1, lg_first_sequence = 2, lg_last_sequence = 2\<rparr>], rg_registered = True\<rparr>"

definition sample_summary :: log_summary where
  "sample_summary = \<lparr>sm_complete = False,
     sm_gaps = [\<lparr>lg_stream = 1, lg_first_sequence = 2, lg_last_sequence = 2\<rparr>,
                \<lparr>lg_stream = 1, lg_first_sequence = 4, lg_last_sequence = 4\<rparr>]\<rparr>"

lemma sample_summarized: "summarize_ranges [sample_range] [4, 0] True = Inr sample_summary"
  by (simp add: summarize_ranges_def sample_range_def sample_summary_def i64_max_def gap_key_def
      extends_last_def saturating_add_def)

theorem summary_gaps_exact_witness:
  "\<exists>r0 r1. ranges_from 0 (registered_of Stdout [sample_range]) r0 \<and> r0 \<le> 4
     \<and> ranges_from 0 (registered_of Stderr [sample_range]) r1
     \<and> gap_set (sm_gaps sample_summary) = gap_set (rg_gaps sample_range) \<union> {1} \<times> {r0<..4} \<union> {2} \<times> {r1<..0}"
  using summary_gaps_exact [OF sample_summarized] by (simp add: sample_range_def) blast

theorem summary_accounts_for_every_number_witness:
  "gap_set (sm_gaps sample_summary) = ({1} \<times> {0<..4} \<union> {2} \<times> {0<..0}) - delivered_set (\<lambda>_. {1, 3}) [sample_range]"
proof -
  have "{1..3} - {1, 3} = {2 :: nat}"
    by auto
  then have "\<forall>r \<in> set (filter rg_registered [sample_range]). {1, 3} \<subseteq> {unat (rg_first r)..unat (rg_last r)}
      \<and> gap_set (rg_gaps r) = {stream_i32 (rg_stream r)} \<times> ({unat (rg_first r)..unat (rg_last r)} - {1, 3})"
    by (simp add: sample_range_def wire_points_def)
  from summary_accounts_for_every_number [OF sample_summarized this] show ?thesis by simp
qed

end
