(* ===== verification/Control_Calls.thy ===== *)
theory Control_Calls
  imports Identity
begin

text \<open>
  The calls of \<open>rust/worker/src/control.rs\<close> and \<open>control/{phase,logs,uploads}.rs\<close>:
  registration, heartbeat, phase reports, log registration, and the creation, parts and
  finalization of uploads. Each checks its request, sends it, and checks the reply against
  the request. What the transport delivers (a reply, a status or the timeout) is the last
  argument of a call. The locale \<open>checked_rpc\<close> is the contract all of them share.
\<close>

section \<open>The code\<close>

text \<open>The two classes of states every reply is sorted into.\<close>

definition is_active :: "attempt_state \<Rightarrow> bool" where
  "is_active s \<longleftrightarrow> s \<in> set [Assigned, Starting, Running, Finalizing]"

definition is_terminal :: "attempt_state \<Rightarrow> bool" where
  "is_terminal s \<longleftrightarrow> s \<in> set [Succeeded, Failed, Lost, Cancelled]"

subsection \<open>Sessions: \<open>control.rs\<close>\<close>

definition protocol_version :: u32 where
  "protocol_version = 1"

text \<open>\<open>endpoint\<close>: the URI parser of the transport library is the first argument.\<close>

record uri =
  ur_scheme :: "string option"
  ur_host :: "string option"
  ur_path :: string

definition endpoint :: "(string \<Rightarrow> uri option) \<Rightarrow> string \<Rightarrow> client_error + uri" where
  "endpoint parse address =
     (if list_ex (\<lambda>c. c \<in> set ''@?#'') address then Inl C_Configuration
      else and_then (ok_or C_Configuration (parse address)) (\<lambda>u.
        if ur_scheme u \<noteq> Some ''https'' \<or> ur_host u = None \<or> ur_path u \<notin> set [[], ''/'']
        then Inl C_Configuration else Inr u))"

definition validate_registration ::
  "register_worker_request \<Rightarrow> register_worker_response \<Rightarrow> client_error + unit" where
  "validate_registration request response =
     and_then (ok_or C_Response (rwr_session response)) (\<lambda>session.
       if ws_worker_id session \<noteq> rw_worker_id request
          \<or> ws_session_id session \<noteq> rw_requested_session_id request
          \<or> ws_worker_id session = [] \<or> ws_session_id session = []
          \<or> rwr_session_generation response = 0 \<or> i64_max < rwr_session_generation response
          \<or> rwr_protocol_version response \<noteq> protocol_version
       then Inl C_Response else Inr ())"

definition register ::
  "register_worker_request \<Rightarrow> client_error + register_worker_response
     \<Rightarrow> client_error + register_worker_response" where
  "register request rpc =
     and_then rpc (\<lambda>response.
     and_then (validate_registration request response) (\<lambda>_. Inr response))"

definition validate_heartbeat ::
  "heartbeat_request \<Rightarrow> heartbeat_response \<Rightarrow> client_error + unit" where
  "validate_heartbeat request response =
     and_then (ok_or C_Configuration (hb_session request)) (\<lambda>session.
       if 2048 < length (hr_stop response)
          \<or> list_ex (\<lambda>a. aa_worker_id a \<noteq> ws_worker_id session
                \<or> aa_generation a = 0 \<or> i64_max < aa_generation a
                \<or> aa_job_id a = [] \<or> aa_attempt_id a = [] \<or> aa_session_id a = [])
              (hr_stop response)
       then Inl C_Response else Inr ())"

definition heartbeat ::
  "heartbeat_request \<Rightarrow> client_error + heartbeat_response \<Rightarrow> client_error + heartbeat_response" where
  "heartbeat request rpc =
     and_then rpc (\<lambda>response.
     and_then (validate_heartbeat request response) (\<lambda>_. Inr response))"

subsection \<open>Phase reports: \<open>control/phase.rs\<close>\<close>

record phase_status =
  pt_decision :: decision
  pt_state :: attempt_state

definition validate_phase_request :: "report_phase_request \<Rightarrow> client_error + unit" where
  "validate_phase_request r =
     and_then (ok_or C_Configuration (rp_authority r)) (\<lambda>a.
       if \<not> canonical_uuid (rp_event_id r)
          \<or> list_ex (\<lambda>i. \<not> canonical_uuid i)
              [aa_worker_id a, aa_session_id a, aa_job_id a, aa_attempt_id a]
          \<or> aa_generation a = 0 \<or> i64_max < aa_generation a
       then Inl C_Configuration
       else if (case state_of (rp_phase r) of
                  Some Starting \<Rightarrow> rp_container_id r = [] \<and> rp_exit_code r = None
                | Some Running \<Rightarrow> lower_hash (rp_container_id r) \<and> rp_exit_code r = None
                | Some Finalizing \<Rightarrow> lower_hash (rp_container_id r)
                    \<and> is_some_and (\<lambda>code. 0 \<le> code \<and> code \<le> 255) (rp_exit_code r)
                | _ \<Rightarrow> False)
       then Inr () else Inl C_Configuration)"

definition validate_phase_response ::
  "report_phase_request \<Rightarrow> mutation_response \<Rightarrow> client_error + phase_status" where
  "validate_phase_response request response =
     and_then (ok_or C_Response (decision_of (mr_decision response))) (\<lambda>decision.
     and_then (ok_or C_Response (state_of (mr_state response))) (\<lambda>state.
       if (case decision of
             Accepted \<Rightarrow> is_active state \<and> state \<noteq> Assigned \<and> rp_phase request \<le> mr_state response
           | Fenced \<Rightarrow> is_active state \<or> state = State_Unspecified
           | StopRequested \<Rightarrow> is_active state
           | AlreadyTerminal \<Rightarrow> is_terminal state
           | _ \<Rightarrow> False)
       then Inr \<lparr>pt_decision = decision, pt_state = state\<rparr>
       else Inl C_Response))"

definition report_phase ::
  "report_phase_request \<Rightarrow> client_error + mutation_response \<Rightarrow> client_error + phase_status" where
  "report_phase request rpc =
     and_then (validate_phase_request request) (\<lambda>_.
     and_then rpc (\<lambda>response. validate_phase_response request response))"

subsection \<open>Log registration: \<open>control/logs.rs\<close>\<close>

record log_status =
  lt_decision :: decision
  lt_state :: attempt_state

text \<open>The loop over the gaps, with its two accumulators; \<open>None\<close> is the early return.\<close>

fun check_gaps :: "register_log_segment_request \<Rightarrow> u64 \<Rightarrow> u64 \<Rightarrow> log_gap list \<Rightarrow> u64 option" where
  "check_gaps r previous dropped [] = Some dropped"
| "check_gaps r previous dropped (gap # gaps) =
     (if lg_stream gap \<noteq> rs_stream r
         \<or> lg_first_sequence gap \<le> previous
         \<or> lg_first_sequence gap < rs_first_sequence r
         \<or> lg_last_sequence gap < lg_first_sequence gap
         \<or> rs_last_sequence r < lg_last_sequence gap
      then None
      else check_gaps r (lg_last_sequence gap)
             (dropped + (lg_last_sequence gap - lg_first_sequence gap + 1)) gaps)"

definition log_header_ok :: "register_log_segment_request \<Rightarrow> bool" where
  "log_header_ok r \<longleftrightarrow>
     is_some_and valid_authority (rs_authority r)
     \<and> canonical_uuid (rs_request_id r) \<and> canonical_uuid (rs_artifact_id r)
     \<and> stream_of (rs_stream r) \<in> set [Some Stdout, Some Stderr]
     \<and> rs_first_sequence r \<noteq> 0 \<and> \<not> rs_last_sequence r < rs_first_sequence r
     \<and> rs_last_sequence r \<le> i64_max \<and> length (rs_gaps r) \<le> 1024"

definition validate_log_request :: "register_log_segment_request \<Rightarrow> client_error + unit" where
  "validate_log_request r =
     (if \<not> log_header_ok r then Inl C_Configuration
      else case check_gaps r (rs_first_sequence r - 1) 0 (rs_gaps r) of
        None \<Rightarrow> Inl C_Configuration
      | Some dropped \<Rightarrow>
          if rs_last_sequence r - rs_first_sequence r < dropped then Inl C_Configuration else Inr ())"

definition validate_log_response ::
  "register_log_segment_request \<Rightarrow> mutation_response \<Rightarrow> client_error + log_status" where
  "validate_log_response request response =
     and_then (ok_or C_Response (decision_of (mr_decision response))) (\<lambda>decision.
     and_then (ok_or C_Response (state_of (mr_state response))) (\<lambda>state.
       if (case decision of
             Accepted \<Rightarrow> state \<in> set [Starting, Running, Finalizing] \<or> is_terminal state
           | Fenced \<Rightarrow> is_active state \<or> state = State_Unspecified
           | StopRequested \<Rightarrow> is_active state
           | AlreadyTerminal \<Rightarrow> is_terminal state
           | _ \<Rightarrow> False)
       then Inr \<lparr>lt_decision = decision, lt_state = state\<rparr>
       else Inl C_Response))"

definition register_log_segment ::
  "register_log_segment_request \<Rightarrow> client_error + mutation_response \<Rightarrow> client_error + log_status" where
  "register_log_segment request rpc =
     and_then (validate_log_request request) (\<lambda>_.
     and_then rpc (\<lambda>response. validate_log_response request response))"

subsection \<open>Uploads: \<open>control/uploads.rs\<close>\<close>


definition object_limit :: u64 where
  "object_limit = 64 * 2 ^ 20"

definition valid_part_plan :: "create_upload_request \<Rightarrow> bool" where
  "valid_part_plan r =
     (if cu_part_count r = 1 then cu_part_size_bytes r = 0
      else cu_kind r = kind_i32 Kind_Output
        \<and> 2 \<le> cu_part_count r \<and> cu_part_count r \<le> 10000
        \<and> 0 < cu_size_bytes r
        \<and> 5 * 2 ^ 20 \<le> cu_part_size_bytes r \<and> cu_part_size_bytes r \<le> object_limit
        \<and> ucast (cu_part_count r) = 1 + (cu_size_bytes r - 1) div cu_part_size_bytes r)"

definition valid_upload_name :: "string \<Rightarrow> bool" where
  "valid_upload_name name \<longleftrightarrow>
     name \<noteq> [] \<and> length name \<le> 128 \<and> is_ascii_alphanumeric (name ! 0)
     \<and> list_all (\<lambda>b. is_ascii_alphanumeric b \<or> b \<in> set ''._-'') name"

definition validate_create :: "create_upload_request \<Rightarrow> client_error + unit" where
  "validate_create r =
     (if \<not> is_some_and valid_authority (cu_authority r)
         \<or> \<not> canonical_uuid (cu_request_id r)
         \<or> kind_of (cu_kind r) \<notin> set [Some Kind_Output, Some Kind_Log, Some Kind_Manifest]
         \<or> \<not> valid_part_plan r
         \<or> object_limit < cu_size_bytes r
         \<or> \<not> lower_hash (cu_sha256 r)
         \<or> \<not> valid_upload_name (cu_name r)
      then Inl C_Configuration else Inr ())"

definition bounded_capability :: "string \<Rightarrow> (string \<times> string) list \<Rightarrow> i64 \<Rightarrow> bool" where
  "bounded_capability url headers expires \<longleftrightarrow>
     url \<noteq> [] \<and> length url \<le> 16 * 1024 \<and> length headers \<le> 64 \<and> 0 < sint expires
     \<and> sum_list (map (\<lambda>(k, v). length k + length v) headers) \<le> 64 * 1024"

definition validate_grant ::
  "create_upload_request \<Rightarrow> create_upload_response \<Rightarrow> client_error + unit" where
  "validate_grant r g =
     and_then (ok_or C_Configuration (cu_authority r)) (\<lambda>a.
       if \<not> canonical_uuid (cr_upload_id g)
          \<or> \<not> scoped_key (cr_object_key g) a (cr_upload_id g)
          \<or> cr_parts g \<noteq> []
       then Inl C_Response
       else if 1 < cu_part_count r then
         (if cr_upload_url g \<noteq> [] \<or> cr_required_headers g \<noteq> [] \<or> cr_expires_unix_ms g \<noteq> 0
             \<or> cr_part_count g \<noteq> cu_part_count r \<or> cr_part_size_bytes g \<noteq> cu_part_size_bytes r
          then Inl C_Response else Inr ())
       else if cr_part_count g \<noteq> 0 \<or> cr_part_size_bytes g \<noteq> 0
            \<or> \<not> bounded_capability (cr_upload_url g) (cr_required_headers g) (cr_expires_unix_ms g)
       then Inl C_Response else Inr ())"

definition create_upload ::
  "create_upload_request \<Rightarrow> client_error + create_upload_response
     \<Rightarrow> client_error + create_upload_response" where
  "create_upload request rpc =
     and_then (validate_create request) (\<lambda>_.
     and_then rpc (\<lambda>response.
     and_then (validate_grant request response) (\<lambda>_. Inr response)))"

definition valid_completion_parts :: "finalize_upload_request \<Rightarrow> bool" where
  "valid_completion_parts r \<longleftrightarrow>
     fu_parts r = []
     \<or> (2 \<le> length (fu_parts r) \<and> length (fu_parts r) \<le> 10000
        \<and> list_all (\<lambda>(i, p). cp_number p = word_of_nat i + 1 \<and> valid_etag (cp_etag p)
              \<and> lower_hash (cp_sha256 p)) (enumerate 0 (fu_parts r)))"

definition validate_finalization :: "finalize_upload_request \<Rightarrow> client_error + unit" where
  "validate_finalization request =
     and_then (ok_or C_Configuration
       (case fu_authority request of None \<Rightarrow> None | Some a \<Rightarrow> if valid_authority a then Some a else None)) (\<lambda>a.
     and_then (ok_or C_Configuration (fu_object request)) (\<lambda>o'.
       if \<not> canonical_uuid (fu_request_id request)
          \<or> \<not> canonical_uuid (fu_upload_id request)
          \<or> \<not> valid_completion_parts request
          \<or> \<not> scoped_key (ov_key o') a (fu_upload_id request)
          \<or> object_limit < ov_size_bytes o'
          \<or> \<not> lower_hash (ov_sha256 o')
          \<or> (fu_parts request = [] \<and> \<not> valid_version (ov_version_id o'))
          \<or> (fu_parts request \<noteq> [] \<and> ov_version_id o' \<noteq> [])
       then Inl C_Configuration else Inr ()))"

definition validate_artifact ::
  "finalize_upload_request \<Rightarrow> finalize_upload_response \<Rightarrow> client_error + unit" where
  "validate_artifact request response =
     (let matches =
        (if fu_parts request = [] then fr_object response = fu_object request
         else case (fr_object response, fu_object request) of
           (Some actual, Some expected) \<Rightarrow>
             ov_key actual = ov_key expected \<and> ov_size_bytes actual = ov_size_bytes expected
             \<and> ov_sha256 actual = ov_sha256 expected \<and> valid_version (ov_version_id actual)
         | _ \<Rightarrow> False)
      in if \<not> canonical_uuid (fr_artifact_id response) \<or> \<not> matches then Inl C_Response else Inr ())"

definition finalize_upload ::
  "finalize_upload_request \<Rightarrow> client_error + finalize_upload_response
     \<Rightarrow> client_error + finalize_upload_response" where
  "finalize_upload request rpc =
     and_then (validate_finalization request) (\<lambda>_.
     and_then rpc (\<lambda>response.
     and_then (validate_artifact request response) (\<lambda>_. Inr response)))"

definition validate_part_request :: "grant_upload_part_request \<Rightarrow> client_error + unit" where
  "validate_part_request r =
     (if \<not> is_some_and valid_authority (gp_authority r)
         \<or> \<not> canonical_uuid (gp_upload_id r)
         \<or> \<not> (1 \<le> gp_number r \<and> gp_number r \<le> 10000)
         \<or> \<not> lower_hash (gp_sha256 r)
      then Inl C_Configuration else Inr ())"

definition validate_part_grant ::
  "grant_upload_part_request \<Rightarrow> upload_part \<Rightarrow> client_error + unit" where
  "validate_part_grant r g =
     (if up_number g \<noteq> gp_number r
         \<or> \<not> bounded_capability (up_url g) (up_required_headers g) (up_expires_unix_ms g)
      then Inl C_Response else Inr ())"

definition grant_upload_part ::
  "grant_upload_part_request \<Rightarrow> client_error + upload_part \<Rightarrow> client_error + upload_part" where
  "grant_upload_part request rpc =
     and_then (validate_part_request request) (\<lambda>_.
     and_then rpc (\<lambda>response.
     and_then (validate_part_grant request response) (\<lambda>_. Inr response)))"

section \<open>The contract the calls share\<close>

text \<open>
  A call that checks its request, sends it, and checks the reply: an invalid request is
  refused before anything is sent, a result always comes from a reply that passed the
  check for this very request, and a failure of the transport is reported as it is.
\<close>

locale checked_rpc =
  fixes call :: "'q \<Rightarrow> client_error + 'r \<Rightarrow> client_error + 's"
    and valid :: "'q \<Rightarrow> client_error + unit"
    and decode :: "'q \<Rightarrow> 'r \<Rightarrow> client_error + 's"
  assumes call_eq: "call q rpc = and_then (valid q) (\<lambda>_. and_then rpc (decode q))"
begin

lemma refused_unsent: "valid q = Inl e \<Longrightarrow> call q rpc = Inl e"
  by (simp add: call_eq)

lemma transport_failure: "valid q = Inr () \<Longrightarrow> call q (Inl e) = Inl e"
  by (simp add: call_eq)

lemma result_iff: "call q rpc = Inr s \<longleftrightarrow> valid q = Inr () \<and> (\<exists>r. rpc = Inr r \<and> decode q r = Inr s)"
  by (auto simp: call_eq)

end

definition echo :: "('q \<Rightarrow> 'r \<Rightarrow> client_error + unit) \<Rightarrow> 'q \<Rightarrow> 'r \<Rightarrow> client_error + 'r" where
  "echo check q r = and_then (check q r) (\<lambda>_. Inr r)"

lemma echo_Inr_iff [simp]: "echo check q r = Inr s \<longleftrightarrow> check q r = Inr () \<and> s = r"
  by (auto simp: echo_def)

interpretation registering: checked_rpc register "\<lambda>_. Inr ()" "echo validate_registration"
  by unfold_locales (simp add: register_def echo_def [abs_def])

interpretation beating: checked_rpc heartbeat "\<lambda>_. Inr ()" "echo validate_heartbeat"
  by unfold_locales (simp add: heartbeat_def echo_def [abs_def])

interpretation reporting: checked_rpc report_phase validate_phase_request validate_phase_response
  by unfold_locales (simp add: report_phase_def)

interpretation log_registering: checked_rpc register_log_segment validate_log_request validate_log_response
  by unfold_locales (simp add: register_log_segment_def)

interpretation creating: checked_rpc create_upload validate_create "echo validate_grant"
  by unfold_locales (simp add: create_upload_def echo_def [abs_def])

interpretation finalizing: checked_rpc finalize_upload validate_finalization "echo validate_artifact"
  by unfold_locales (simp add: finalize_upload_def echo_def [abs_def])

interpretation granting: checked_rpc grant_upload_part validate_part_request "echo validate_part_grant"
  by unfold_locales (simp add: grant_upload_part_def echo_def [abs_def])

section \<open>Phase reports\<close>

lemma phase_response_Inr_iff:
  "validate_phase_response request response = Inr st \<longleftrightarrow>
     mr_decision response = decision_i32 (pt_decision st) \<and> mr_state response = state_i32 (pt_state st)
     \<and> (case pt_decision st of
          Accepted \<Rightarrow> pt_state st \<in> {Starting, Running, Finalizing} \<and> rp_phase request \<le> state_i32 (pt_state st)
        | Fenced \<Rightarrow> is_active (pt_state st) \<or> pt_state st = State_Unspecified
        | StopRequested \<Rightarrow> is_active (pt_state st)
        | AlreadyTerminal \<Rightarrow> is_terminal (pt_state st)
        | _ \<Rightarrow> False)"
proof (cases "decision_of (mr_decision response) = None \<or> state_of (mr_state response) = None")
  case True
  then show ?thesis by (auto simp: validate_phase_response_def)
next
  case False
  then obtain d s where m: "mr_decision response = decision_i32 d" "mr_state response = state_i32 s"
    by (auto simp: decision_of_Some_iff state_of_Some_iff)
  have st: "d = pt_decision st \<and> s = pt_state st \<longleftrightarrow> st = \<lparr>pt_decision = d, pt_state = s\<rparr>"
    by (cases st) auto
  show ?thesis
    by (simp add: validate_phase_response_def m conj_assoc [symmetric] st)
      (cases d; cases s; auto simp: m is_active_def is_terminal_def)
qed

text \<open>C29. The answer to a phase report is the server's own answer to a valid report. An
  acceptance acknowledges the reported phase or a later one and only an active phase, so
  neither an earlier phase nor a terminal state can ever be taken for progress.\<close>

theorem phase_reply_never_regresses:
  assumes "report_phase request rpc = Inr st"
  shows "validate_phase_request request = Inr ()
    \<and> rpc = Inr \<lparr>mr_decision = decision_i32 (pt_decision st), mr_state = state_i32 (pt_state st)\<rparr>
    \<and> (pt_decision st = Accepted \<longrightarrow>
         pt_state st \<in> {Starting, Running, Finalizing} \<and> rp_phase request \<le> state_i32 (pt_state st))
    \<and> (pt_decision st = AlreadyTerminal \<longrightarrow> is_terminal (pt_state st))
    \<and> pt_decision st \<noteq> Decision_Unspecified"
proof -
  from assms obtain response where valid: "validate_phase_request request = Inr ()"
    and rpc: "rpc = Inr response" and reply: "validate_phase_response request response = Inr st"
    unfolding reporting.result_iff by blast
  note reply' = reply [unfolded phase_response_Inr_iff]
  have "response = \<lparr>mr_decision = decision_i32 (pt_decision st), mr_state = state_i32 (pt_state st)\<rparr>"
    using reply' by (cases response) simp
  then show ?thesis
    using valid rpc reply' by (auto split: decision.splits)
qed

definition sample_report :: "attempt_state \<Rightarrow> report_phase_request" where
  "sample_report phase =
     \<lparr>rp_authority = Some fixture_authority, rp_event_id = fixture_uuid CHR ''5'',
      rp_phase = state_i32 phase, rp_container_id = fixture_hash CHR ''a'', rp_exit_code = None\<rparr>"

lemma sample_report_valid: "validate_phase_request (sample_report Running) = Inr ()"
  by (simp add: validate_phase_request_def sample_report_def fixture_authority_def i64_max_def
      state_of_def)

theorem phase_reply_never_regresses_witness:
  "Starting \<noteq> Finalizing \<and> rp_phase (sample_report Running) \<le> state_i32 Finalizing"
proof -
  have "report_phase (sample_report Running)
      (Inr \<lparr>mr_decision = decision_i32 Accepted, mr_state = state_i32 Finalizing\<rparr>)
    = Inr \<lparr>pt_decision = Accepted, pt_state = Finalizing\<rparr>"
    unfolding reporting.result_iff
    by (simp add: sample_report_valid phase_response_Inr_iff) (simp add: sample_report_def)
  from phase_reply_never_regresses [OF this] show ?thesis by simp
qed

section \<open>Log registration\<close>

definition gap_in_range :: "register_log_segment_request \<Rightarrow> log_gap \<Rightarrow> bool" where
  "gap_in_range r g \<longleftrightarrow>
     lg_stream g = rs_stream r \<and> rs_first_sequence r \<le> lg_first_sequence g
     \<and> lg_first_sequence g \<le> lg_last_sequence g \<and> lg_last_sequence g \<le> rs_last_sequence r"

lemma check_gaps_defined:
  "check_gaps r p d gs \<noteq> None \<longleftrightarrow>
     (\<forall>g \<in> set gs. gap_in_range r g \<and> p < lg_first_sequence g)
     \<and> sorted_wrt (\<lambda>a b. lg_last_sequence a < lg_first_sequence b) gs"
proof (induction gs arbitrary: p d)
  case (Cons g gs)
  have "p < lg_first_sequence h"
    if "p < lg_first_sequence g" "lg_first_sequence g \<le> lg_last_sequence g"
      "lg_last_sequence g < lg_first_sequence h" for h
    using that by (meson order.strict_trans order.strict_trans2)
  then show ?case
    by (auto simp: Cons.IH gap_in_range_def not_less not_le simp del: not_None_eq)
qed simp

lemma check_gaps_value:
  "check_gaps r p d gs = Some d' \<Longrightarrow> p \<le> rs_last_sequence r \<Longrightarrow>
   unat d + (unat (rs_last_sequence r) - unat p) < 2 ^ 64 \<Longrightarrow>
   unat d' = unat d + card (\<Union>g \<in> set gs. wire_points g)
   \<and> (\<Union>g \<in> set gs. wire_points g) \<subseteq> {unat p<..unat (rs_last_sequence r)}"
proof (induction gs arbitrary: p d)
  case (Cons g gs)
  let ?f = "lg_first_sequence g" and ?l = "lg_last_sequence g" and ?last = "rs_last_sequence r"
  let ?U = "\<Union>g \<in> set gs. wire_points g"
  from Cons.prems(1) have g: "unat p < unat ?f" "unat ?f \<le> unat ?l" "unat ?l \<le> unat ?last"
    and rest: "check_gaps r ?l (d + (?l - ?f + 1)) gs = Some d'"
    by (auto simp: not_le not_less word_le_nat_alt word_less_nat_alt split: if_splits)
  have span: "unat (?l - ?f + 1) = card (wire_points g)"
  proof -
    have "unat (?l - ?f) = unat ?l - unat ?f"
      using g(2) by (simp add: unat_sub_le word_le_nat_alt)
    then have "unat (?l - ?f + 1) = unat ?l - unat ?f + 1"
      using Cons.prems(3) g by (subst unat_add_bounded) auto
    then show ?thesis
      using g(2) by (simp add: wire_points_def)
  qed
  have card: "card (wire_points g) = unat ?l + 1 - unat ?f"
    by (simp add: wire_points_def)
  have add: "unat (d + (?l - ?f + 1)) = unat d + card (wire_points g)"
    using Cons.prems(3) g span card by (subst unat_add_bounded) auto
  note ih = Cons.IH [OF rest]
  have U: "unat d' = unat d + card (wire_points g) + card ?U" "?U \<subseteq> {unat ?l<..unat ?last}"
    using ih g Cons.prems(3) add card by (auto simp: word_le_nat_alt)
  then have "wire_points g \<inter> ?U = {}" "finite ?U" "finite (wire_points g)"
    by (auto simp: wire_points_def intro: finite_subset)
  then have "card (wire_points g \<union> ?U) = card (wire_points g) + card ?U"
    by (simp add: card_Un_disjoint)
  moreover have "wire_points g \<union> ?U \<subseteq> {unat p<..unat ?last}"
    using U(2) g by (fastforce simp: wire_points_def)
  ultimately show ?case
    using U(1) by simp
qed simp

lemma range_minus_one:
  assumes "log_header_ok r"
  shows "unat (rs_first_sequence r - 1) = unat (rs_first_sequence r) - 1"
    and "0 < unat (rs_first_sequence r)" and "unat (rs_first_sequence r) \<le> unat (rs_last_sequence r)"
proof -
  show pos: "0 < unat (rs_first_sequence r)"
    using assms by (simp add: log_header_ok_def unat_gt_0)
  then have "1 \<le> rs_first_sequence r"
    by (simp add: word_le_nat_alt)
  then show "unat (rs_first_sequence r - 1) = unat (rs_first_sequence r) - 1"
    by (simp add: unat_sub_le)
  show "unat (rs_first_sequence r) \<le> unat (rs_last_sequence r)"
    using assms by (simp add: log_header_ok_def not_less word_le_nat_alt)
qed

text \<open>The loop that checks a log registration is exact: it accepts a request whose
  scalar fields are valid just when the reported gaps lie in the segment's range, follow
  one another without overlap, and leave at least one captured sequence number. Its
  64-bit count of dropped numbers never wraps.\<close>

theorem log_registration_exact:
  "validate_log_request r = Inr () \<longleftrightarrow>
     log_header_ok r \<and> (\<forall>g \<in> set (rs_gaps r). gap_in_range r g)
     \<and> sorted_wrt (\<lambda>a b. lg_last_sequence a < lg_first_sequence b) (rs_gaps r)
     \<and> (\<exists>n \<in> {unat (rs_first_sequence r)..unat (rs_last_sequence r)}.
          n \<notin> (\<Union>g \<in> set (rs_gaps r). wire_points g))"
proof (cases "log_header_ok r \<and> check_gaps r (rs_first_sequence r - 1) 0 (rs_gaps r) \<noteq> None")
  case True
  let ?F = "rs_first_sequence r" and ?L = "rs_last_sequence r"
  let ?U = "\<Union>g \<in> set (rs_gaps r). wire_points g"
  from True obtain d where d: "check_gaps r (?F - 1) 0 (rs_gaps r) = Some d" and ok: "log_header_ok r"
    by blast
  note b = range_minus_one [OF ok]
  have val: "unat d = card ?U" "?U \<subseteq> {unat ?F..unat ?L}"
  proof -
    have "?F - 1 \<le> ?L" "unat (0 :: u64) + (unat ?L - unat (?F - 1)) < 2 ^ 64"
      using b unat_bound [of ?L] by (auto simp: word_le_nat_alt)
    from check_gaps_value [OF d this] show "unat d = card ?U" "?U \<subseteq> {unat ?F..unat ?L}"
      using b by (auto simp: greaterThanAtMost_eq_atLeastAtMost_diff)
  qed
  have "unat (?L - ?F) = unat ?L - unat ?F"
    using b(3) by (simp add: unat_sub_le word_le_nat_alt)
  then have "validate_log_request r = Inr () \<longleftrightarrow> card ?U < card {unat ?F..unat ?L}"
    using ok d val(1) b(3) by (auto simp: validate_log_request_def word_less_nat_alt)
  also have "\<dots> \<longleftrightarrow> ?U \<noteq> {unat ?F..unat ?L}"
    using val(2) by (metis card_subset_eq finite_atLeastAtMost less_irrefl psubsetI psubset_card_mono)
  also have "\<dots> \<longleftrightarrow> (\<exists>n \<in> {unat ?F..unat ?L}. n \<notin> ?U)"
    using val(2) by blast
  finally show ?thesis
    using ok d check_gaps_defined [of r "?F - 1" 0 "rs_gaps r"] by simp
next
  case False
  have "\<not> (\<forall>g \<in> set (rs_gaps r). gap_in_range r g)
      \<or> \<not> sorted_wrt (\<lambda>a b. lg_last_sequence a < lg_first_sequence b) (rs_gaps r)" if "log_header_ok r"
  proof -
    have "rs_first_sequence r - 1 < lg_first_sequence g" if "gap_in_range r g" for g
      using that range_minus_one [OF \<open>log_header_ok r\<close>]
      by (simp add: gap_in_range_def word_less_nat_alt word_le_nat_alt) linarith
    then show ?thesis
      using False that check_gaps_defined [of r "rs_first_sequence r - 1" 0 "rs_gaps r"] by blast
  qed
  then show ?thesis
    using False by (auto simp: validate_log_request_def)
qed

definition sample_registration :: register_log_segment_request where
  "sample_registration =
     \<lparr>rs_authority = Some fixture_authority, rs_request_id = fixture_uuid CHR ''5'',
      rs_artifact_id = fixture_uuid CHR ''6'', rs_stream = 1, rs_first_sequence = 1,
      rs_last_sequence = 3,
      rs_gaps = [\<lparr>lg_stream = 1, lg_first_sequence = 2, lg_last_sequence = 2\<rparr>]\<rparr>"

theorem log_registration_exact_witness:
  "validate_log_request sample_registration = Inr ()
   \<and> (\<exists>n \<in> {1..3}. n \<notin> (\<Union>g \<in> set (rs_gaps sample_registration). wire_points g))"
proof -
  have "validate_log_request sample_registration = Inr ()"
    by (simp add: validate_log_request_def log_header_ok_def sample_registration_def stream_of_def
        i64_max_def)
  with log_registration_exact [of sample_registration] show ?thesis
    by (simp add: sample_registration_def)
qed

section \<open>Uploads\<close>

lemma validate_create_Inr_iff:
  "validate_create r = Inr () \<longleftrightarrow>
     is_some_and valid_authority (cu_authority r) \<and> canonical_uuid (cu_request_id r)
     \<and> kind_of (cu_kind r) \<in> {Some Kind_Output, Some Kind_Log, Some Kind_Manifest}
     \<and> valid_part_plan r \<and> cu_size_bytes r \<le> object_limit \<and> lower_hash (cu_sha256 r)
     \<and> valid_upload_name (cu_name r)"
  by (auto simp: validate_create_def not_less)

lemma unat_object_limit: "unat object_limit = 64 * 2 ^ 20"
  by (simp add: object_limit_def)

lemma part_plan_count:
  assumes "valid_part_plan r" and "cu_part_count r \<noteq> 1"
  shows "unat (cu_part_count r) = 1 + (unat (cu_size_bytes r) - 1) div unat (cu_part_size_bytes r)"
    and "0 < unat (cu_size_bytes r)" and "5 * 2 ^ 20 \<le> unat (cu_part_size_bytes r)"
proof -
  let ?t = "cu_size_bytes r" and ?s = "cu_part_size_bytes r" and ?n = "cu_part_count r"
  from assms have n: "(ucast ?n :: u64) = 1 + (?t - 1) div ?s" and t: "0 < ?t" and s: "5 * 2 ^ 20 \<le> ?s"
    by (simp_all add: valid_part_plan_def)
  show t': "0 < unat ?t"
    using t by (simp add: word_less_nat_alt)
  show s': "5 * 2 ^ 20 \<le> unat ?s"
    using s by (simp add: word_le_nat_alt)
  have "unat (?t - 1) = unat ?t - 1"
    using t' by (simp add: unat_sub_le word_le_nat_alt)
  then have q: "unat ((?t - 1) div ?s) = (unat ?t - 1) div unat ?s"
    by (simp add: unat_div)
  have "(unat ?t - 1) div unat ?s < 2 ^ 64 - 1"
    using unat_bound [of ?t] t' by (intro le_less_trans [OF div_le_dividend]) simp
  then have "unat (1 + (?t - 1) div ?s) = 1 + (unat ?t - 1) div unat ?s"
    using q by (subst unat_add_bounded) auto
  moreover have "unat (ucast ?n :: u64) = unat ?n"
    by (simp add: unsigned_ucast_eq unat_bound take_bit_nat_eq_self order.strict_trans [OF unat_bound])
  ultimately show "unat ?n = 1 + (unat ?t - 1) div unat ?s"
    using n by metis
qed

text \<open>A multipart plan that passes the check tiles the object: all parts but the last
  are full, the last one is not empty and not longer than the others, the numbers of parts
  computed in 64 bits is the exact one, and the object limit leaves at most thirteen parts.\<close>

theorem part_plan_tiles:
  assumes "create_upload r rpc = Inr g" and "cu_part_count r \<noteq> 1"
  shows "(unat (cu_part_count r) - 1) * unat (cu_part_size_bytes r) < unat (cu_size_bytes r)
    \<and> unat (cu_size_bytes r) \<le> unat (cu_part_count r) * unat (cu_part_size_bytes r)
    \<and> 2 \<le> unat (cu_part_count r) \<and> unat (cu_part_count r) \<le> 13"
proof -
  let ?t = "unat (cu_size_bytes r)" and ?s = "unat (cu_part_size_bytes r)"
  have create: "validate_create r = Inr ()"
    using assms(1) by (simp add: creating.result_iff)
  then have plan: "valid_part_plan r" and lim: "?t \<le> 64 * 2 ^ 20"
    using unat_object_limit by (simp_all add: validate_create_Inr_iff word_le_nat_alt)
  note p = part_plan_count [OF plan assms(2)]
  define q where "q = (?t - 1) div ?s"
  have "q * ?s \<le> ?t - 1"
    by (simp add: q_def)
  moreover have "?t - 1 < (q + 1) * ?s"
    using p(3) div_less_iff_less_mult [of ?s "?t - 1" "q + 1"] by (simp add: q_def)
  moreover have "q \<le> 12"
    unfolding q_def
  proof -
    have "(?t - 1) div ?s \<le> (64 * 2 ^ 20 - 1) div ?s"
      using lim by (intro div_le_mono) simp
    also have "\<dots> \<le> (64 * 2 ^ 20 - 1) div (5 * 2 ^ 20)"
      using p(3) by (intro div_le_mono2) simp_all
    finally show "(?t - 1) div ?s \<le> 12" by simp
  qed
  moreover have "2 \<le> unat (cu_part_count r)"
    using plan assms(2) by (simp add: valid_part_plan_def word_le_nat_alt)
  moreover have "unat (cu_part_count r) = q + 1"
    using p(1) by (simp add: q_def)
  ultimately show ?thesis
    using p(2) by (simp add: algebra_simps) linarith
qed

definition sample_key :: string where
  "sample_key = ''projects/'' @ fixture_uuid CHR ''7'' @ ''/jobs/'' @ fixture_uuid CHR ''3''
     @ ''/attempts/'' @ fixture_uuid CHR ''4'' @ ''/uploads/'' @ fixture_uuid CHR ''6''"

lemma sample_key_scoped: "scoped_key sample_key fixture_authority (fixture_uuid CHR ''6'')"
  by (simp add: scoped_key_def sample_key_def fixture_uuid_def fixture_authority_def)
    (simp add: fixture_uuid_canonical [unfolded fixture_uuid_def, simplified])

definition sample_create :: create_upload_request where
  "sample_create =
     \<lparr>cu_authority = Some fixture_authority, cu_request_id = fixture_uuid CHR ''5'',
      cu_name = ''result'', cu_kind = kind_i32 Kind_Output, cu_size_bytes = 5 * 2 ^ 20 + 3,
      cu_sha256 = fixture_hash CHR ''a'', cu_part_count = 2, cu_part_size_bytes = 5 * 2 ^ 20\<rparr>"

definition sample_grant :: create_upload_response where
  "sample_grant =
     \<lparr>cr_upload_id = fixture_uuid CHR ''6'', cr_object_key = sample_key, cr_upload_url = [],
      cr_required_headers = [], cr_expires_unix_ms = 0, cr_parts = [],
      cr_part_size_bytes = 5 * 2 ^ 20, cr_part_count = 2\<rparr>"

lemma sample_create_granted: "create_upload sample_create (Inr sample_grant) = Inr sample_grant"
proof -
  have "valid_part_plan sample_create"
    by (simp add: valid_part_plan_def sample_create_def object_limit_def)
  moreover have "valid_upload_name (cu_name sample_create)"
    by (simp add: valid_upload_name_def sample_create_def is_ascii_alphanumeric_def
        is_ascii_alphabetic_def less_eq_char_def)
  ultimately have "validate_create sample_create = Inr ()"
    unfolding validate_create_Inr_iff by (simp add: sample_create_def object_limit_def kind_of_def)
  moreover have "validate_grant sample_create sample_grant = Inr ()"
    by (simp add: validate_grant_def sample_create_def sample_grant_def sample_key_scoped)
  ultimately show ?thesis
    by (simp add: creating.result_iff)
qed

theorem part_plan_tiles_witness:
  "(unat (cu_part_count sample_create) - 1) * unat (cu_part_size_bytes sample_create)
     < unat (cu_size_bytes sample_create) \<and> cu_part_count sample_create \<noteq> 1"
  using part_plan_tiles [OF sample_create_granted] by (simp add: sample_create_def)

lemma validate_grant_scoped:
  "validate_grant r g = Inr () \<Longrightarrow>
     \<exists>a. cu_authority r = Some a \<and> scoped_key (cr_object_key g) a (cr_upload_id g)"
  by (cases "cu_authority r") (auto simp: validate_grant_def split: if_splits)

text \<open>A granted object key belongs to one attempt of one job and to one upload: when two
  accepted grants, of this or of any other request, name the same key, they are grants of
  the same upload to the same attempt.\<close>

theorem granted_key_is_private:
  assumes "create_upload r rpc = Inr g" and "create_upload r' rpc' = Inr g'"
    and "cr_object_key g = cr_object_key g'"
    and "cu_authority r = Some a" and "cu_authority r' = Some a'"
  shows "aa_job_id a = aa_job_id a' \<and> aa_attempt_id a = aa_attempt_id a'
    \<and> cr_upload_id g = cr_upload_id g'"
proof -
  have "validate_grant r g = Inr ()" "validate_grant r' g' = Inr ()"
    using assms(1,2) by (auto simp: creating.result_iff)
  then have "scoped_key (cr_object_key g) a (cr_upload_id g)"
    "scoped_key (cr_object_key g) a' (cr_upload_id g')"
    using validate_grant_scoped assms(3-5) by fastforce+
  then show ?thesis
    by (auto simp: scoped_key_def Let_def)
qed

theorem granted_key_is_private_witness:
  "cu_authority sample_create = Some fixture_authority
   \<and> cr_upload_id sample_grant = cr_upload_id sample_grant"
  using granted_key_is_private [OF sample_create_granted sample_create_granted refl]
  by (simp add: sample_create_def)

text \<open>What finalization reports as the stored object is the object that was asked for,
  key, size and digest; a single upload must name its version beforehand and gets exactly
  that one, a multipart upload gets a real version from the server.\<close>

theorem finalized_object_is_requested:
  assumes "finalize_upload request rpc = Inr response"
  shows "\<exists>wanted got. fu_object request = Some wanted \<and> fr_object response = Some got
    \<and> ov_key got = ov_key wanted \<and> ov_size_bytes got = ov_size_bytes wanted
    \<and> ov_sha256 got = ov_sha256 wanted \<and> lower_hash (ov_sha256 got)
    \<and> valid_version (ov_version_id got) \<and> canonical_uuid (fr_artifact_id response)
    \<and> (fu_parts request = [] \<longrightarrow> got = wanted)"
proof -
  have "validate_finalization request = Inr ()" and r: "validate_artifact request response = Inr ()"
    using assms by (auto simp: finalizing.result_iff)
  then obtain wanted where w: "fu_object request = Some wanted" "lower_hash (ov_sha256 wanted)"
    "fu_parts request = [] \<Longrightarrow> valid_version (ov_version_id wanted)"
    by (auto simp: validate_finalization_def split: option.splits if_splits)
  show ?thesis
  proof (cases "fu_parts request = []")
    case True
    then show ?thesis
      using w r by (auto simp: validate_artifact_def split: if_splits)
  next
    case False
    then show ?thesis
      using w r by (auto simp: validate_artifact_def split: option.splits if_splits)
  qed
qed

definition sample_object :: "string \<Rightarrow> object_version" where
  "sample_object version =
     \<lparr>ov_key = sample_key, ov_version_id = version, ov_size_bytes = 7, ov_sha256 = fixture_hash CHR ''a''\<rparr>"

definition sample_finalize :: finalize_upload_request where
  "sample_finalize =
     \<lparr>fu_authority = Some fixture_authority, fu_request_id = fixture_uuid CHR ''5'',
      fu_upload_id = fixture_uuid CHR ''6'', fu_object = Some (sample_object ''v1''), fu_parts = []\<rparr>"

definition sample_finalized :: finalize_upload_response where
  "sample_finalized =
     \<lparr>fr_artifact_id = fixture_uuid CHR ''8'', fr_object = Some (sample_object ''v1'')\<rparr>"

lemma sample_finalize_valid: "validate_finalization sample_finalize = Inr ()"
  by (simp add: validate_finalization_def sample_finalize_def valid_completion_parts_def
      sample_object_def sample_key_scoped object_limit_def valid_version_def valid_etag_def)

theorem finalized_object_is_requested_witness:
  "ov_key (sample_object ''v1'') = sample_key
   \<and> (\<exists>got. fr_object sample_finalized = Some got \<and> valid_version (ov_version_id got))"
proof -
  have "finalize_upload sample_finalize (Inr sample_finalized) = Inr sample_finalized"
    unfolding finalizing.result_iff
    by (simp add: sample_finalize_valid validate_artifact_def)
       (simp add: sample_finalize_def sample_finalized_def)
  from finalized_object_is_requested [OF this] show ?thesis
    by (auto simp: sample_object_def)
qed

end
