(* ===== verification/Json.thy ===== *)
theory Json
  imports Identity
begin

text \<open>
  The boundary to \<open>serde_json\<close> and \<open>ring\<close>. A document is the tree the JSON parser reads:
  objects keep their members in document order with repetitions, numbers keep their text.
  The parser, the printer and SHA-256 are the fields of \<open>externals\<close>, which every
  definition that calls them takes as an argument. On top of the trees stands what the
  worker's own declarations say: \<open>derive(Deserialize)\<close> for a struct with named fields
  (missing, repeated and unknown members), integers read from number texts, and the
  numbers that \<open>parse::<f64>\<close> sees as zero or infinite.
\<close>

datatype json =
  JNull
| JBool bool
| JNumber string
| JString string
| JArray "json list"
| JObject "(string \<times> json) list"

record externals =
  x_sha256 :: "u8 list \<Rightarrow> u8 list"
  x_parse :: "u8 list \<Rightarrow> json option"
  x_print :: "json \<Rightarrow> u8 list"

type_synonym members = "(string \<times> json) list"

section \<open>Structs\<close>

text \<open>
  The members of a struct with the given field names: repeated fields are an error,
  unknown ones too under \<open>deny_unknown_fields\<close>. An array gives the fields by position.
\<close>

definition struct_members :: "bool \<Rightarrow> string list \<Rightarrow> json \<Rightarrow> members option" where
  "struct_members deny names v =
     (case v of
        JObject kvs \<Rightarrow>
          if (deny \<and> list_ex (\<lambda>(k, _). k \<notin> set names) kvs)
             \<or> \<not> distinct (map fst (filter (\<lambda>(k, _). k \<in> set names) kvs))
          then None else Some kvs
      | JArray vs \<Rightarrow> if length vs = length names then Some (zip names vs) else None
      | _ \<Rightarrow> None)"

definition field :: "members \<Rightarrow> string \<Rightarrow> (json \<Rightarrow> 'a option) \<Rightarrow> 'a option" where
  "field ms name dec = Option.bind (map_of ms name) dec"

definition field_default :: "members \<Rightarrow> string \<Rightarrow> 'a \<Rightarrow> (json \<Rightarrow> 'a option) \<Rightarrow> 'a option" where
  "field_default ms name d dec = (case map_of ms name of None \<Rightarrow> Some d | Some v \<Rightarrow> dec v)"

definition field_option :: "members \<Rightarrow> string \<Rightarrow> (json \<Rightarrow> 'a option) \<Rightarrow> 'a option option" where
  "field_option ms name dec =
     (case map_of ms name of
        None \<Rightarrow> Some None
      | Some JNull \<Rightarrow> Some None
      | Some v \<Rightarrow> map_option Some (dec v))"

section \<open>Values\<close>

definition as_string :: "json \<Rightarrow> string option" where
  "as_string v = (case v of JString s \<Rightarrow> Some s | _ \<Rightarrow> None)"

definition as_bool :: "json \<Rightarrow> bool option" where
  "as_bool v = (case v of JBool b \<Rightarrow> Some b | _ \<Rightarrow> None)"

text \<open>A number is an integer for \<open>serde_json\<close> when its text has digits only, after an
  optional sign; the text of a negative zero makes it a float.\<close>

definition number_int :: "string \<Rightarrow> int option" where
  "number_int t =
     (case t of
        [] \<Rightarrow> None
      | c # ds \<Rightarrow>
          if c = CHR ''-'' then
            (if ds \<noteq> [] \<and> list_all is_ascii_digit ds \<and> digits_value ds \<noteq> 0
             then Some (- int (digits_value ds)) else None)
          else if list_all is_ascii_digit t then Some (int (digits_value t)) else None)"

definition as_int_in :: "int \<Rightarrow> int \<Rightarrow> json \<Rightarrow> int option" where
  "as_int_in lo hi v =
     (case v of
        JNumber t \<Rightarrow>
          (case number_int t of
             Some n \<Rightarrow> if lo \<le> n \<and> n \<le> hi then Some n else None
           | None \<Rightarrow> None)
      | _ \<Rightarrow> None)"

definition as_u64 :: "json \<Rightarrow> u64 option" where
  "as_u64 v = map_option word_of_int (as_int_in 0 (2 ^ 64 - 1) v)"

definition as_u32 :: "json \<Rightarrow> u32 option" where
  "as_u32 v = map_option word_of_int (as_int_in 0 (2 ^ 32 - 1) v)"

definition as_u8 :: "json \<Rightarrow> u8 option" where
  "as_u8 v = map_option word_of_int (as_int_in 0 (2 ^ 8 - 1) v)"

definition as_i32 :: "json \<Rightarrow> i32 option" where
  "as_i32 v = as_int_in (- (2 ^ 31)) (2 ^ 31 - 1) v"

fun collect_options :: "'a option list \<Rightarrow> 'a list option" where
  "collect_options [] = Some []"
| "collect_options (x # xs) =
     (case x of None \<Rightarrow> None | Some y \<Rightarrow> map_option (\<lambda>ys. y # ys) (collect_options xs))"

definition as_list :: "(json \<Rightarrow> 'a option) \<Rightarrow> json \<Rightarrow> 'a list option" where
  "as_list dec v = (case v of JArray vs \<Rightarrow> collect_options (map dec vs) | _ \<Rightarrow> None)"

definition as_entries :: "json \<Rightarrow> members option" where
  "as_entries v = (case v of JObject kvs \<Rightarrow> Some kvs | _ \<Rightarrow> None)"

lemma collect_options_Some_iff: "collect_options xs = Some ys \<longleftrightarrow> xs = map Some ys"
proof (induction xs arbitrary: ys)
  case (Cons x xs)
  then show ?case by (cases ys) (auto split: option.splits)
qed auto

lemma length_collect_options: "collect_options xs = Some ys \<Longrightarrow> length ys = length xs"
  by (simp add: collect_options_Some_iff)

section \<open>\<open>f64\<close>\<close>

text \<open>
  The value of a JSON number is \<open>mantissa * 10 ^ exponent\<close>. Rounding to nearest even in
  binary64 makes it infinite from \<open>2 ^ 1024 - 2 ^ 970\<close> on and zero up to \<open>2 ^ -1075\<close>.
\<close>

definition span_digits :: "string \<Rightarrow> string \<times> string" where
  "span_digits s = (takeWhile is_ascii_digit s, dropWhile is_ascii_digit s)"

definition parse_exponent :: "string \<Rightarrow> int option" where
  "parse_exponent s =
     (case s of
        [] \<Rightarrow> Some 0
      | e # r \<Rightarrow>
          if e \<noteq> CHR ''e'' \<and> e \<noteq> CHR ''E'' then None
          else let (neg, ds) = (case r of
                     [] \<Rightarrow> (False, [])
                   | c # r' \<Rightarrow> if c = CHR ''-'' then (True, r') else if c = CHR ''+'' then (False, r') else (False, r))
               in if ds \<noteq> [] \<and> list_all is_ascii_digit ds
                  then Some (if neg then - int (digits_value ds) else int (digits_value ds)) else None)"

definition parse_decimal :: "string \<Rightarrow> (nat \<times> int) option" where
  "parse_decimal s =
     (let t = (case s of [] \<Rightarrow> [] | c # r \<Rightarrow> if c = CHR ''-'' then r else s);
          (whole, rest) = span_digits t;
          (frac, rest') = (case rest of
             [] \<Rightarrow> ([], [])
           | c # r \<Rightarrow> if c = CHR ''.'' then span_digits r else ([], rest))
      in if whole = [] then None
         else map_option (\<lambda>e. (digits_value (whole @ frac), e - int (length frac))) (parse_exponent rest'))"

datatype f64_class = F64_Zero | F64_Normal | F64_Infinite

definition decimal_at_least :: "nat \<Rightarrow> int \<Rightarrow> nat \<Rightarrow> bool" where
  "decimal_at_least m e bound =
     (if 0 \<le> e then bound \<le> m * 10 ^ nat e else bound * 10 ^ nat (- e) \<le> m)"

definition decimal_tiny :: "nat \<Rightarrow> int \<Rightarrow> bool" where
  "decimal_tiny m e =
     (if 0 \<le> e then m = 0 else m * 2 ^ 1075 \<le> 10 ^ nat (- e))"

definition parse_f64 :: "string \<Rightarrow> f64_class option" where
  "parse_f64 s =
     map_option (\<lambda>(m, e).
       if decimal_tiny m e then F64_Zero
       else if decimal_at_least m e (2 ^ 1024 - 2 ^ 970) then F64_Infinite else F64_Normal)
     (parse_decimal s)"

end
