(* ===== verification/Completion.thy ===== *)
theory Completion
  imports Control_Calls Json "HOL-Library.Product_Lexorder" "HOL-Library.Multiset"
begin

text \<open>
  \<open>rust/worker/src/control/completion_payload.rs\<close> and \<open>control/completion.rs\<close>: the
  digest that binds the evidence of a finished attempt, the metrics document inside it,
  and the check of the server's answer and of the manifest that acknowledges a success.
\<close>

section \<open>The code\<close>

subsection \<open>The payload: \<open>completion_payload.rs\<close>\<close>

definition bounded_name :: "string \<Rightarrow> bool \<Rightarrow> bool" where
  "bounded_name name metric \<longleftrightarrow>
     name \<noteq> [] \<and> length name \<le> 128 \<and> is_ascii_alphanumeric (name ! 0)
     \<and> list_all (\<lambda>b. is_ascii_alphanumeric b \<or> b \<in> set ''_.-'' \<or> (metric \<and> b \<in> set '':/'')) name"

text \<open>The visitor's loop; \<open>vals\<close> is the map read so far.\<close>

fun visit_metrics :: "(string \<times> string) list \<Rightarrow> members \<Rightarrow> (string \<times> string) list option" where
  "visit_metrics vals [] = Some (sort_key fst vals)"
| "visit_metrics vals ((key, raw) # ms) =
     (if 256 \<le> length vals \<or> \<not> bounded_name key True \<or> key \<in> set (map fst vals) then None
      else case raw of
        JNumber number \<Rightarrow>
          if 1024 < length number then None
          else (case number of
              [] \<Rightarrow> None
            | c # _ \<Rightarrow>
                if c \<noteq> CHR ''-'' \<and> \<not> is_ascii_digit c then None
                else (case parse_f64 number of
                    None \<Rightarrow> None
                  | Some F64_Infinite \<Rightarrow> None
                  | Some F64_Zero \<Rightarrow>
                      if list_ex (\<lambda>b. b \<notin> set ''-+.0'')
                           (takeWhile (\<lambda>c. c \<noteq> CHR ''e'' \<and> c \<noteq> CHR ''E'') number)
                      then None else visit_metrics (vals @ [(key, ''0'')]) ms
                  | Some F64_Normal \<Rightarrow> visit_metrics (vals @ [(key, number)]) ms))
      | _ \<Rightarrow> None)"

definition metrics_from_slice :: "'x externals_scheme \<Rightarrow> u8 list \<Rightarrow> (string \<times> string) list option" where
  "metrics_from_slice x bytes =
     (case x_parse x bytes of Some (JObject ms) \<Rightarrow> visit_metrics [] ms | _ \<Rightarrow> None)"

definition valid_metrics :: "'x externals_scheme \<Rightarrow> u8 list \<Rightarrow> bool" where
  "valid_metrics x body \<longleftrightarrow>
     body \<noteq> [] \<and> length body \<le> 64 * 1024 \<and> metrics_from_slice x body \<noteq> None"

fun reason_str_name :: "failure_reason \<Rightarrow> string" where
  "reason_str_name Reason_Unspecified = ''FAILURE_REASON_UNSPECIFIED''"
| "reason_str_name WorkerLost = ''WORKER_LOST''"
| "reason_str_name RuntimeUnavailable = ''RUNTIME_UNAVAILABLE''"
| "reason_str_name TransferFailed = ''TRANSFER_FAILED''"
| "reason_str_name ApplicationExit = ''APPLICATION_EXIT''"
| "reason_str_name Oom = ''OOM''"
| "reason_str_name StartupTimeout = ''STARTUP_TIMEOUT''"
| "reason_str_name ExecutionTimeout = ''EXECUTION_TIMEOUT''"
| "reason_str_name OutputInvalid = ''OUTPUT_INVALID''"
| "reason_str_name UserCancelled = ''USER_CANCELLED''"
| "reason_str_name FinalizationTimeout = ''FINALIZATION_TIMEOUT''"

record payload_gap =
  pg_stream :: string
  pg_first :: u64
  pg_last :: u64

record completion_payload =
  py_authority :: attempt_authority
  py_exit_code :: "i32 option"
  py_reason :: string
  py_stopped :: bool
  py_outputs :: "output_reference list"
  py_logs_complete :: bool
  py_gaps :: "payload_gap list"
  py_metrics :: "(string \<times> string) list"
  py_metrics_source_sha256 :: string

text \<open>\<open>slice::windows(2).any\<close>.\<close>

definition windows_any :: "('a \<Rightarrow> 'a \<Rightarrow> bool) \<Rightarrow> 'a list \<Rightarrow> bool" where
  "windows_any p xs = list_ex (\<lambda>(a, b). p a b) (zip xs (tl xs))"

fun check_output_refs :: "string list \<Rightarrow> output_reference list \<Rightarrow> bool" where
  "check_output_refs ids [] = True"
| "check_output_refs ids (out # outs) =
     (bounded_name (or_name out) False \<and> canonical_uuid (or_artifact_id out)
      \<and> or_artifact_id out \<notin> set ids \<and> check_output_refs (or_artifact_id out # ids) outs)"

definition payload_gap_of :: "log_gap \<Rightarrow> payload_gap option" where
  "payload_gap_of g =
     Option.bind
       (case stream_of (lg_stream g) of
          Some Stdout \<Rightarrow> Some ''stdout'' | Some Stderr \<Rightarrow> Some ''stderr'' | _ \<Rightarrow> None) (\<lambda>stream.
       if lg_first_sequence g = 0 \<or> lg_last_sequence g < lg_first_sequence g \<or> i64_max < lg_last_sequence g
       then None
       else Some \<lparr>pg_stream = stream, pg_first = lg_first_sequence g, pg_last = lg_last_sequence g\<rparr>)"

definition completion_scalars_ok :: "attempt_authority \<Rightarrow> complete_attempt_request \<Rightarrow> bool" where
  "completion_scalars_ok a r \<longleftrightarrow>
     list_all canonical_uuid
       [aa_job_id a, aa_attempt_id a, aa_worker_id a, aa_session_id a, ca_completion_id r]
     \<and> aa_generation a \<noteq> 0 \<and> aa_generation a \<le> i64_max
     \<and> length (ca_outputs r) \<le> 64 \<and> length (ca_gaps r) \<le> 1024
     \<and> length (ca_metrics_json r) \<le> 64 * 1024
     \<and> \<not> is_some_and (\<lambda>code. \<not> (0 \<le> code \<and> code \<le> 255)) (ca_exit_code r)"

definition completion_reason_ok :: "failure_reason \<Rightarrow> complete_attempt_request \<Rightarrow> bool" where
  "completion_reason_ok reason r \<longleftrightarrow>
     reason \<noteq> WorkerLost
     \<and> \<not> (reason = Reason_Unspecified \<and> (ca_exit_code r \<noteq> Some 0 \<or> \<not> ca_stopped r))
     \<and> \<not> (reason = ApplicationExit \<and> (case ca_exit_code r of None \<Rightarrow> True | Some code \<Rightarrow> code = 0))"

definition completion_payload_of ::
  "'x externals_scheme \<Rightarrow> complete_attempt_request \<Rightarrow> client_error + completion_payload" where
  "completion_payload_of x r =
     and_then (ok_or C_Configuration (ca_authority r)) (\<lambda>a.
       if \<not> completion_scalars_ok a r then Inl C_Configuration
       else and_then (ok_or C_Configuration (reason_of (ca_reason r))) (\<lambda>reason.
       if \<not> completion_reason_ok reason r then Inl C_Configuration
       else if \<not> check_output_refs [] (ca_outputs r) then Inl C_Configuration
       else let outputs = sort_key or_name (ca_outputs r) in
       if windows_any (\<lambda>p q. or_name p = or_name q) outputs
          \<or> (ca_logs_complete r \<and> ca_gaps r \<noteq> [])
       then Inl C_Configuration
       else and_then (ok_or C_Configuration (collect_options (map payload_gap_of (ca_gaps r)))) (\<lambda>unsorted.
       let gaps = sort_key (\<lambda>g. (pg_stream g, pg_first g)) unsorted in
       if windows_any (\<lambda>p q. pg_stream p = pg_stream q \<and> pg_first q \<le> pg_last p) gaps
       then Inl C_Configuration
       else and_then (if ca_metrics_json r = [] then Inr []
                      else ok_or C_Configuration (metrics_from_slice x (ca_metrics_json r))) (\<lambda>metrics.
       Inr \<lparr>py_authority = a, py_exit_code = ca_exit_code r,
            py_reason = (if reason = Reason_Unspecified then [] else reason_str_name reason),
            py_stopped = ca_stopped r, py_outputs = outputs, py_logs_complete = ca_logs_complete r,
            py_gaps = gaps, py_metrics = metrics,
            py_metrics_source_sha256 =
              (if ca_metrics_json r = [] then [] else hex (x_sha256 x (ca_metrics_json r)))\<rparr>))))"

text \<open>\<open>derive(Serialize)\<close>: the members in declaration order, in camel case.\<close>

definition json_u64 :: "u64 \<Rightarrow> json" where
  "json_u64 v = JNumber (decimal (unat v))"

definition json_i32 :: "i32 \<Rightarrow> json" where
  "json_i32 v = JNumber (if v < 0 then CHR ''-'' # decimal (nat (- v)) else decimal (nat v))"

definition payload_authority_json :: "attempt_authority \<Rightarrow> json" where
  "payload_authority_json a = JObject
     [(''jobId'', JString (aa_job_id a)), (''attemptId'', JString (aa_attempt_id a)),
      (''generation'', json_u64 (aa_generation a)), (''workerId'', JString (aa_worker_id a)),
      (''sessionId'', JString (aa_session_id a))]"

definition payload_output_json :: "output_reference \<Rightarrow> json" where
  "payload_output_json out = JObject
     [(''name'', JString (or_name out)), (''artifactId'', JString (or_artifact_id out))]"

definition payload_gap_json :: "payload_gap \<Rightarrow> json" where
  "payload_gap_json g = JObject
     [(''stream'', JString (pg_stream g)), (''first'', json_u64 (pg_first g)), (''last'', json_u64 (pg_last g))]"

definition payload_json :: "completion_payload \<Rightarrow> json" where
  "payload_json p = JObject
     [(''authority'', payload_authority_json (py_authority p)),
      (''exitCode'', (case py_exit_code p of None \<Rightarrow> JNull | Some code \<Rightarrow> json_i32 code)),
      (''reason'', JString (py_reason p)), (''stopped'', JBool (py_stopped p)),
      (''outputs'', JArray (map payload_output_json (py_outputs p))),
      (''logsComplete'', JBool (py_logs_complete p)),
      (''gaps'', JArray (map payload_gap_json (py_gaps p))),
      (''metrics'', JObject (map (\<lambda>(k, v). (k, JNumber v)) (py_metrics p))),
      (''metricsSourceSha256'', JString (py_metrics_source_sha256 p))]"

definition digest_prefix :: "u8 list" where
  "digest_prefix = as_bytes ''dispatch.worker.v1.CompleteAttempt'' @ [10]"

definition completion_digest ::
  "'x externals_scheme \<Rightarrow> complete_attempt_request \<Rightarrow> client_error + string" where
  "completion_digest x r =
     and_then (completion_payload_of x r) (\<lambda>payload.
       Inr (hex (x_sha256 x (digest_prefix @ x_print x (payload_json payload)))))"

subsection \<open>The call and its answer: \<open>completion.rs\<close>\<close>

record completion_status =
  cs_decision :: decision
  cs_state :: attempt_state
  cs_accepted_manifest_json :: "u8 list"

definition validate_completion_request ::
  "'x externals_scheme \<Rightarrow> complete_attempt_request \<Rightarrow> client_error + unit" where
  "validate_completion_request x r =
     (if \<not> lower_hash (ca_payload_sha256 r) then Inl C_Configuration
      else and_then (completion_digest x r) (\<lambda>digest.
        if digest \<noteq> ca_payload_sha256 r then Inl C_Configuration else Inr ()))"

text \<open>\<open>Output\<close> with its derived order: by name, then by artifact.\<close>

datatype manifest_output = ManifestOutput (mo_name: string) (mo_artifact_id: string)

instantiation manifest_output :: linorder
begin

definition less_eq_manifest_output :: "manifest_output \<Rightarrow> manifest_output \<Rightarrow> bool" where
  "p \<le> q \<longleftrightarrow> (mo_name p, mo_artifact_id p) \<le> (mo_name q, mo_artifact_id q)"

definition less_manifest_output :: "manifest_output \<Rightarrow> manifest_output \<Rightarrow> bool" where
  "p < q \<longleftrightarrow> (mo_name p, mo_artifact_id p) < (mo_name q, mo_artifact_id q)"

instance
  by standard (auto simp: less_eq_manifest_output_def less_manifest_output_def intro: manifest_output.expand)

end

record manifest =
  mf_version :: u32
  mf_authority :: attempt_authority
  mf_state :: string
  mf_exit_code :: "i32 option"
  mf_reason :: string
  mf_cleanup_pending :: bool
  mf_outputs :: "manifest_output list"

definition decode_manifest_authority :: "json \<Rightarrow> attempt_authority option" where
  "decode_manifest_authority v =
     Option.bind (struct_members False
       [''jobId'', ''attemptId'', ''generation'', ''workerId'', ''sessionId''] v) (\<lambda>ms.
     Option.bind (field ms ''jobId'' as_string) (\<lambda>job.
     Option.bind (field ms ''attemptId'' as_string) (\<lambda>attempt.
     Option.bind (field ms ''generation'' as_u64) (\<lambda>generation.
     Option.bind (field ms ''workerId'' as_string) (\<lambda>worker.
     Option.bind (field ms ''sessionId'' as_string) (\<lambda>session.
       Some \<lparr>aa_job_id = job, aa_attempt_id = attempt, aa_generation = generation,
             aa_worker_id = worker, aa_session_id = session\<rparr>))))))"

definition decode_manifest_output :: "json \<Rightarrow> manifest_output option" where
  "decode_manifest_output v =
     Option.bind (struct_members False [''name'', ''artifactId''] v) (\<lambda>ms.
     Option.bind (field ms ''name'' as_string) (\<lambda>name.
     Option.bind (field ms ''artifactId'' as_string) (\<lambda>artifact.
       Some (ManifestOutput name artifact))))"

definition decode_manifest :: "json \<Rightarrow> manifest option" where
  "decode_manifest v =
     Option.bind (struct_members False
       [''version'', ''authority'', ''state'', ''exitCode'', ''reason'', ''cleanupPending'', ''outputs''] v) (\<lambda>ms.
     Option.bind (field ms ''version'' as_u32) (\<lambda>version.
     Option.bind (field ms ''authority'' decode_manifest_authority) (\<lambda>authority.
     Option.bind (field ms ''state'' as_string) (\<lambda>state.
     Option.bind (field_option ms ''exitCode'' as_i32) (\<lambda>exit_code.
     Option.bind (field ms ''reason'' as_string) (\<lambda>reason.
     Option.bind (field ms ''cleanupPending'' as_bool) (\<lambda>cleanup.
     Option.bind (field ms ''outputs'' (as_list decode_manifest_output)) (\<lambda>outputs.
       Some \<lparr>mf_version = version, mf_authority = authority, mf_state = state,
             mf_exit_code = exit_code, mf_reason = reason, mf_cleanup_pending = cleanup,
             mf_outputs = outputs\<rparr>))))))))"

definition is_ascii_whitespace :: "u8 \<Rightarrow> bool" where
  "is_ascii_whitespace b \<longleftrightarrow> b \<in> set [32, 9, 10, 12, 13]"

definition wanted_outputs :: "complete_attempt_request \<Rightarrow> manifest_output list" where
  "wanted_outputs r = map (\<lambda>out. ManifestOutput (or_name out) (or_artifact_id out)) (ca_outputs r)"

definition validate_manifest ::
  "'x externals_scheme \<Rightarrow> complete_attempt_request \<Rightarrow> u8 list \<Rightarrow> client_error + unit" where
  "validate_manifest x request raw =
     (if raw = [] \<or> 2 * 2 ^ 20 < length raw then Inl C_Response
      else if find (\<lambda>b. \<not> is_ascii_whitespace b) raw \<noteq> Some 0x7B then Inl C_Response
      else and_then (ok_or C_Response (Option.bind (x_parse x raw) decode_manifest)) (\<lambda>m.
           and_then (ok_or C_Response (ca_authority request)) (\<lambda>a.
      if mf_version m \<noteq> 1 \<or> mf_state m \<noteq> ''SUCCEEDED'' \<or> mf_exit_code m \<noteq> Some 0
         \<or> mf_reason m \<noteq> [] \<or> mf_cleanup_pending m
         \<or> aa_job_id (mf_authority m) \<noteq> aa_job_id a
         \<or> aa_attempt_id (mf_authority m) \<noteq> aa_attempt_id a
         \<or> aa_generation (mf_authority m) \<noteq> aa_generation a
         \<or> aa_worker_id (mf_authority m) \<noteq> aa_worker_id a
         \<or> aa_session_id (mf_authority m) \<noteq> aa_session_id a
         \<or> length (mf_outputs m) \<noteq> length (ca_outputs request)
      then Inl C_Response
      else if sort (mf_outputs m) \<noteq> sort (wanted_outputs request) then Inl C_Response
      else Inr ())))"

definition expected_state :: "failure_reason \<Rightarrow> attempt_state" where
  "expected_state reason =
     (case reason of Reason_Unspecified \<Rightarrow> Succeeded | UserCancelled \<Rightarrow> Cancelled | _ \<Rightarrow> Failed)"

definition validate_completion_response ::
  "'x externals_scheme \<Rightarrow> complete_attempt_request \<Rightarrow> complete_attempt_response
     \<Rightarrow> client_error + completion_status" where
  "validate_completion_response x request response =
     and_then (ok_or C_Response (decision_of (cc_decision response))) (\<lambda>decision.
     and_then (ok_or C_Response (state_of (cc_state response))) (\<lambda>state.
     and_then (ok_or C_Response (reason_of (ca_reason request))) (\<lambda>reason.
       if \<not> (case decision of
                Accepted \<Rightarrow> state = expected_state reason
              | AlreadyTerminal \<Rightarrow> is_terminal state
              | Fenced \<Rightarrow> is_active state \<or> state = State_Unspecified
              | StopRequested \<Rightarrow> is_active state
              | _ \<Rightarrow> False)
       then Inl C_Response
       else and_then
         (if decision = Accepted \<and> state = Succeeded
          then validate_manifest x request (cc_accepted_manifest_json response)
          else if cc_accepted_manifest_json response \<noteq> [] then Inl C_Response else Inr ()) (\<lambda>_.
         Inr \<lparr>cs_decision = decision, cs_state = state,
              cs_accepted_manifest_json = cc_accepted_manifest_json response\<rparr>))))"

definition complete_attempt ::
  "'x externals_scheme \<Rightarrow> complete_attempt_request \<Rightarrow> client_error + complete_attempt_response
     \<Rightarrow> client_error + completion_status" where
  "complete_attempt x request rpc =
     and_then (validate_completion_request x request) (\<lambda>_.
     and_then rpc (\<lambda>response. validate_completion_response x request response))"

interpretation completing:
  checked_rpc "complete_attempt x" "validate_completion_request x" "validate_completion_response x" for x
  by unfold_locales (simp add: complete_attempt_def)

section \<open>The digest does not depend on the order of the evidence\<close>

lemma check_output_refs_iff:
  "check_output_refs ids outs \<longleftrightarrow>
     (\<forall>out \<in> set outs. bounded_name (or_name out) False \<and> canonical_uuid (or_artifact_id out)
        \<and> or_artifact_id out \<notin> set ids)
     \<and> distinct (map or_artifact_id outs)"
  by (induction outs arbitrary: ids) (auto simp: image_iff)

lemma windows_any_simps [simp]:
  "\<not> windows_any p []"
  "\<not> windows_any p [x]"
  "windows_any p (x # y # ys) \<longleftrightarrow> p x y \<or> windows_any p (y # ys)"
  by (simp_all add: windows_any_def)

lemma windows_any_sorted:
  "sorted (map f xs) \<Longrightarrow> windows_any (\<lambda>p q. f p = f q) xs \<longleftrightarrow> \<not> distinct (map f xs)"
proof (induction xs)
  case (Cons x xs)
  show ?case
  proof (cases xs)
    case (Cons y ys)
    have "f x \<in> f ` set (y # ys) \<longleftrightarrow> f x = f y"
      using Cons Cons.prems by (auto intro: order.antisym)
    then show ?thesis
      using Cons.IH Cons.prems Cons by auto
  qed simp
qed simp

lemma windows_any_mono:
  "windows_any p xs \<Longrightarrow> (\<And>a b. a \<in> set xs \<Longrightarrow> b \<in> set xs \<Longrightarrow> p a b \<Longrightarrow> q a b) \<Longrightarrow> windows_any q xs"
proof -
  assume "windows_any p xs" and mono: "\<And>a b. a \<in> set xs \<Longrightarrow> b \<in> set xs \<Longrightarrow> p a b \<Longrightarrow> q a b"
  then obtain a b where ab: "(a, b) \<in> set (zip xs (tl xs))" "p a b"
    by (auto simp: windows_any_def list_ex_iff)
  then have "a \<in> set xs" "b \<in> set xs"
    by (auto dest: set_zip_leftD set_zip_rightD intro: list.set_sel(2))
  then show "windows_any q xs"
    using ab mono by (auto simp: windows_any_def list_ex_iff)
qed

lemma sort_key_permuted:
  assumes "mset xs = mset ys" and "distinct (map f ys)"
  shows "sort_key f xs = sort_key f ys"
proof -
  have "inj_on f (set xs)"
    using assms mset_eq_setD [OF assms(1)] by (simp add: distinct_map)
  then show ?thesis
    using assms(1) by (intro sort_key_inj_key_eq) simp_all
qed

lemma distinct_map_permuted: "mset xs = mset ys \<Longrightarrow> distinct (map f xs) \<longleftrightarrow> distinct (map f ys)"
  by (rule mset_eq_imp_distinct_iff) simp

lemma collect_options_alt: "collect_options xs = (if None \<in> set xs then None else Some (map the xs))"
  by (induction xs) (auto split: option.splits)

abbreviation gap_key :: "payload_gap \<Rightarrow> string \<times> u64" where
  "gap_key g \<equiv> (pg_stream g, pg_first g)"

abbreviation gaps_touch :: "payload_gap \<Rightarrow> payload_gap \<Rightarrow> bool" where
  "gaps_touch p q \<equiv> pg_stream p = pg_stream q \<and> pg_first q \<le> pg_last p"

lemma payload_gap_of_Some:
  "payload_gap_of g = Some p \<Longrightarrow>
     pg_first p = lg_first_sequence g \<and> pg_last p = lg_last_sequence g \<and> pg_first p \<le> pg_last p
     \<and> lg_stream g = (if pg_stream p = ''stdout'' then 1 else 2)"
  by (auto simp: payload_gap_of_def bind_eq_Some_conv stream_of_Some_iff not_less
      split: if_splits option.splits log_stream.splits)

lemma gaps_normalized:
  assumes "mset gs = mset hs"
  shows "map_option (sort_key gap_key) (collect_options (map payload_gap_of gs))
         = map_option (sort_key gap_key) (collect_options (map payload_gap_of hs))
    \<or> (\<exists>us vs. collect_options (map payload_gap_of gs) = Some us \<and> windows_any gaps_touch (sort_key gap_key us)
         \<and> collect_options (map payload_gap_of hs) = Some vs \<and> windows_any gaps_touch (sort_key gap_key vs))"
proof (cases "None \<in> set (map payload_gap_of hs)")
  case True
  then have "None \<in> set (map payload_gap_of gs)"
    using mset_eq_setD [OF assms] by auto
  with True show ?thesis by (simp add: collect_options_alt)
next
  case False
  let ?us = "map the (map payload_gap_of gs)" and ?vs = "map the (map payload_gap_of hs)"
  have us: "collect_options (map payload_gap_of gs) = Some ?us"
    and vs: "collect_options (map payload_gap_of hs) = Some ?vs"
    using False mset_eq_setD [OF assms] by (simp_all add: collect_options_alt)
  have perm: "mset ?us = mset ?vs"
    using assms by (simp only: mset_map)
  have le: "pg_first p \<le> pg_last p" if "p \<in> set ?us \<union> set ?vs" for p
    using that False mset_eq_setD [OF assms]
    by (auto dest!: payload_gap_of_Some [OF sym] simp: image_iff) (metis option.collapse payload_gap_of_Some)+
  have touch: "windows_any gaps_touch (sort_key gap_key xs)"
    if "\<not> distinct (map gap_key xs)" "set xs \<subseteq> set ?us \<union> set ?vs" for xs
  proof -
    have "windows_any (\<lambda>p q. gap_key p = gap_key q) (sort_key gap_key xs)"
      using that(1) by (subst windows_any_sorted)
        (simp_all add: distinct_map_permuted [of "sort_key gap_key xs" xs])
    then show ?thesis
    proof (rule windows_any_mono)
      fix a b
      assume "a \<in> set (sort_key gap_key xs)" "gap_key a = gap_key b"
      moreover from this have "pg_first a \<le> pg_last a"
        using that(2) by (intro le) auto
      ultimately show "gaps_touch a b" by simp
    qed
  qed
  show ?thesis
  proof (cases "distinct (map gap_key ?vs)")
    case True
    then show ?thesis
      using sort_key_permuted [OF perm True] us vs by simp
  next
    case False
    then have "\<not> distinct (map gap_key ?us)"
      using distinct_map_permuted [OF perm] by metis
    then show ?thesis
      using touch [of ?us] touch [OF False] us vs by auto
  qed
qed

text \<open>C31. The digest of a completion does not depend on the order in which outputs and log
  gaps are listed, nor on the digest the caller claims: permuted evidence gets the same
  digest, or the same refusal.\<close>

theorem completion_digest_order_independent:
  assumes "mset outs = mset (ca_outputs r)" and "mset gs = mset (ca_gaps r)"
  shows "completion_digest x (r\<lparr>ca_outputs := outs, ca_gaps := gs, ca_payload_sha256 := h\<rparr>)
       = completion_digest x r"
proof -
  let ?r = "r\<lparr>ca_outputs := outs, ca_gaps := gs, ca_payload_sha256 := h\<rparr>"
  have len: "length outs = length (ca_outputs r)" "length gs = length (ca_gaps r)"
    using assms by (metis size_mset)+
  have same: "completion_scalars_ok a ?r = completion_scalars_ok a r"
    "completion_reason_ok f ?r = completion_reason_ok f r" for a f
    using len by (simp_all add: completion_scalars_ok_def completion_reason_ok_def)
  have refs: "check_output_refs [] outs = check_output_refs [] (ca_outputs r)"
    using mset_eq_setD [OF assms(1)] distinct_map_permuted [OF assms(1), of or_artifact_id]
    by (simp add: check_output_refs_iff)
  have dup: "windows_any (\<lambda>p q. or_name p = or_name q) (sort_key or_name xs) \<longleftrightarrow> \<not> distinct (map or_name xs)" for xs
    by (subst windows_any_sorted) (simp_all add: distinct_map_permuted [of "sort_key or_name xs" xs])
  have outs: "sort_key or_name outs = sort_key or_name (ca_outputs r)" if "distinct (map or_name (ca_outputs r))"
    using sort_key_permuted [OF assms(1) that] .
  have dist: "distinct (map or_name outs) = distinct (map or_name (ca_outputs r))"
    using distinct_map_permuted [OF assms(1)] .
  have nil: "gs = [] \<longleftrightarrow> ca_gaps r = []"
    using len(2) by auto
  from gaps_normalized [OF assms(2)] have "completion_payload_of x ?r = completion_payload_of x r"
  proof
    assume *: "map_option (sort_key gap_key) (collect_options (map payload_gap_of gs))
         = map_option (sort_key gap_key) (collect_options (map payload_gap_of (ca_gaps r)))"
    then have "collect_options (map payload_gap_of gs) = None \<and> collect_options (map payload_gap_of (ca_gaps r)) = None
      \<or> (\<exists>us vs. collect_options (map payload_gap_of gs) = Some us
           \<and> collect_options (map payload_gap_of (ca_gaps r)) = Some vs \<and> sort_key gap_key us = sort_key gap_key vs)"
      by (cases "collect_options (map payload_gap_of gs)";
          cases "collect_options (map payload_gap_of (ca_gaps r))") auto
    then show ?thesis
      using outs
      by (cases "distinct (map or_name (ca_outputs r))")
        (auto simp: completion_payload_of_def Let_def same refs dup dist nil cong: if_cong)
  next
    assume "\<exists>us vs. collect_options (map payload_gap_of gs) = Some us \<and> windows_any gaps_touch (sort_key gap_key us)
         \<and> collect_options (map payload_gap_of (ca_gaps r)) = Some vs \<and> windows_any gaps_touch (sort_key gap_key vs)"
    then show ?thesis
      using outs
      by (cases "distinct (map or_name (ca_outputs r))")
        (auto simp: completion_payload_of_def Let_def same refs dup dist nil cong: if_cong)
  qed
  then show ?thesis
    by (simp add: completion_digest_def)
qed


subsection \<open>A concrete completion\<close>

definition sample_output :: "char \<Rightarrow> char \<Rightarrow> output_reference" where
  "sample_output c d = \<lparr>or_name = [c], or_artifact_id = fixture_uuid d\<rparr>"

definition sample_completion :: complete_attempt_request where
  "sample_completion =
     \<lparr>ca_authority = Some fixture_authority, ca_completion_id = fixture_uuid CHR ''5'',
      ca_payload_sha256 = hex (replicate 32 0), ca_exit_code = Some 0, ca_reason = 0, ca_stopped = True,
      ca_outputs = [sample_output CHR ''b'' CHR ''6'', sample_output CHR ''a'' CHR ''7''],
      ca_logs_complete = True, ca_gaps = [], ca_metrics_json = []\<rparr>"

definition sample_manifest_json :: json where
  "sample_manifest_json = JObject
     [(''version'', JNumber ''1''), (''authority'', payload_authority_json fixture_authority),
      (''state'', JString ''SUCCEEDED''), (''exitCode'', JNumber ''0''), (''reason'', JString ''''),
      (''cleanupPending'', JBool False),
      (''outputs'', JArray [payload_output_json (sample_output CHR ''a'' CHR ''7''),
         payload_output_json (sample_output CHR ''b'' CHR ''6'')])]"

text \<open>Externals for the examples: a constant digest, and a parser of two documents.\<close>

definition sample_metrics_json :: json where
  "sample_metrics_json = JObject [(''loss'', JNumber ''0.25''), (''acc'', JNumber ''-0e5'')]"

definition sample_externals :: externals where
  "sample_externals =
     \<lparr>x_sha256 = (\<lambda>_. replicate 32 0),
      x_parse = (\<lambda>b. if b = [0x7B] then Some sample_manifest_json
                      else if b = [0x7B, 0x7D] then Some sample_metrics_json else None),
      x_print = (\<lambda>_. [])\<rparr>"

lemma bounded_letter: "is_ascii_alphabetic c \<Longrightarrow> bounded_name [c] m"
  by (simp add: bounded_name_def is_ascii_alphanumeric_def)

lemma ascii_letters [simp]: "is_ascii_alphabetic CHR ''a''" "is_ascii_alphabetic CHR ''b''"
  by (simp_all add: is_ascii_alphabetic_def less_eq_char_def)

lemma sample_outputs_sorted:
  "sort_key or_name (ca_outputs sample_completion)
     = [sample_output CHR ''a'' CHR ''7'', sample_output CHR ''b'' CHR ''6'']"
  by (simp add: sample_completion_def sample_output_def less_eq_char_def)

lemma sample_payload:
  "completion_payload_of x sample_completion
     = Inr \<lparr>py_authority = fixture_authority, py_exit_code = Some 0, py_reason = [], py_stopped = True,
            py_outputs = [sample_output CHR ''a'' CHR ''7'', sample_output CHR ''b'' CHR ''6''],
            py_logs_complete = True, py_gaps = [], py_metrics = [], py_metrics_source_sha256 = []\<rparr>"
proof -
  have "completion_scalars_ok fixture_authority sample_completion"
    by (simp add: completion_scalars_ok_def fixture_authority_def sample_completion_def i64_max_def)
  moreover have "completion_reason_ok Reason_Unspecified sample_completion"
    by (simp add: completion_reason_ok_def sample_completion_def)
  moreover have "check_output_refs [] (ca_outputs sample_completion)"
    by (simp add: sample_completion_def sample_output_def bounded_letter)
  ultimately show ?thesis
    unfolding completion_payload_of_def sample_outputs_sorted
    by (simp add: sample_completion_def reason_of_def) (simp add: sample_output_def)
qed

lemma sample_digest_with:
  "x_sha256 x = (\<lambda>_. replicate 32 0) \<Longrightarrow> completion_digest x sample_completion = Inr (hex (replicate 32 0))"
  by (simp add: completion_digest_def sample_payload)

lemma sample_digest: "completion_digest sample_externals sample_completion = Inr (hex (replicate 32 0))"
  by (rule sample_digest_with) (simp add: sample_externals_def)

theorem completion_digest_order_independent_witness:
  "completion_digest sample_externals
     (sample_completion\<lparr>ca_outputs := [sample_output CHR ''a'' CHR ''7'', sample_output CHR ''b'' CHR ''6''],
        ca_gaps := [], ca_payload_sha256 := []\<rparr>) = Inr (hex (replicate 32 0))"
proof -
  have "mset [sample_output CHR ''a'' CHR ''7'', sample_output CHR ''b'' CHR ''6'']
      = mset (ca_outputs sample_completion)" "mset [] = mset (ca_gaps sample_completion)"
    by (simp_all add: sample_completion_def)
  from completion_digest_order_independent [OF this, where x = sample_externals and h = "[]"] show ?thesis
    by (simp only: sample_digest)
qed

section \<open>The digest binds the evidence\<close>

lemma hex_digit_inject: "m < 16 \<Longrightarrow> n < 16 \<Longrightarrow> hex_digit m = hex_digit n \<longleftrightarrow> m = n"
proof -
  have "distinct ''0123456789abcdef''"
    by simp
  then show "m < 16 \<Longrightarrow> n < 16 \<Longrightarrow> hex_digit m = hex_digit n \<longleftrightarrow> m = n"
    unfolding hex_digit_def by (subst nth_eq_iff_index_eq) simp_all
qed

lemma hex_byte_inject: "hex_byte b = hex_byte c \<longleftrightarrow> b = c"
proof
  assume "hex_byte b = hex_byte c"
  then have "unat b div 16 = unat c div 16" "unat b mod 16 = unat c mod 16"
    using unat_byte_bound [of b] unat_byte_bound [of c]
    by (simp_all add: hex_byte_def hex_digit_inject less_mult_imp_div_less)
  then show "b = c"
    by (metis div_mult_mod_eq word_unat_eq_iff)
qed simp

lemma hex_inject: "hex bs = hex cs \<longleftrightarrow> bs = cs"
proof (induction bs arbitrary: cs)
  case Nil
  then show ?case by (cases cs) (simp_all add: hex_byte_def)
next
  case (Cons b bs)
  show ?case
  proof (cases cs)
    case Nil
    then show ?thesis by (simp add: hex_byte_def)
  next
    case (Cons c cs')
    have "length (hex_byte b) = length (hex_byte c)"
      by (simp add: hex_byte_def)
    then show ?thesis
      using Cons Cons.IH by (simp add: hex_byte_inject)
  qed
qed

lemma json_u64_inject [simp]: "json_u64 v = json_u64 w \<longleftrightarrow> v = w"
  by (simp add: json_u64_def word_unat_eq_iff)

lemma json_i32_inject [simp]: "json_i32 v = json_i32 w \<longleftrightarrow> v = w"
proof -
  have "CHR ''-'' \<notin> set (decimal n)" for n
    using decimal_digits [of "CHR ''-''" n] by (auto simp: is_ascii_digit_def less_eq_char_def)
  then have "decimal n \<noteq> CHR ''-'' # s" for n s
    by (metis list.set_intros(1))
  moreover from this have "CHR ''-'' # s \<noteq> decimal n" for n s
    by metis
  ultimately show ?thesis
    by (auto simp: json_i32_def)
qed

lemma json_i32_not_null [simp]: "json_i32 v \<noteq> JNull" "JNull \<noteq> json_i32 v"
  by (simp_all add: json_i32_def)

lemma payload_json_inject: "payload_json p = payload_json q \<longleftrightarrow> p = q"
proof
  assume eq: "payload_json p = payload_json q"
  have "inj payload_output_json" "inj payload_gap_json"
    by (auto intro!: injI simp: payload_output_json_def payload_gap_json_def
        intro: output_reference.equality payload_gap.equality)
  moreover have "inj (\<lambda>(k, v). (k :: string, JNumber v))"
    by (auto intro!: injI)
  moreover have "py_exit_code p = py_exit_code q"
    using eq by (cases "py_exit_code p"; cases "py_exit_code q") (simp_all add: payload_json_def)
  moreover have "py_authority p = py_authority q"
    using eq by (intro attempt_authority.equality) (simp_all add: payload_json_def payload_authority_json_def)
  ultimately show "p = q"
    using eq by (intro completion_payload.equality)
      (simp_all add: payload_json_def inj_map_eq_map)
qed simp

lemma reason_str_name_inject: "reason_str_name a = reason_str_name b \<longleftrightarrow> a = b"
  by (cases a; cases b) simp_all

lemma reason_str_name_not_Nil [simp]: "reason_str_name a \<noteq> []" "[] \<noteq> reason_str_name a"
  by (cases a; simp)+

lemma completion_payload_of_Inr:
  assumes "completion_payload_of x r = Inr p"
  shows "\<exists>reason us. ca_authority r = Some (py_authority p) \<and> ca_reason r = reason_i32 reason
    \<and> completion_reason_ok reason r
    \<and> py_reason p = (if reason = Reason_Unspecified then [] else reason_str_name reason)
    \<and> py_exit_code p = ca_exit_code r \<and> py_stopped p = ca_stopped r
    \<and> py_logs_complete p = ca_logs_complete r
    \<and> py_outputs p = sort_key or_name (ca_outputs r)
    \<and> map payload_gap_of (ca_gaps r) = map Some us \<and> py_gaps p = sort_key gap_key us
    \<and> py_metrics_source_sha256 p = (if ca_metrics_json r = [] then [] else hex (x_sha256 x (ca_metrics_json r)))
    \<and> (ca_metrics_json r \<noteq> [] \<longrightarrow> metrics_from_slice x (ca_metrics_json r) = Some (py_metrics p))"
proof -
  let ?outs = "sort_key or_name (ca_outputs r)"
  obtain a where a: "ca_authority r = Some a" "completion_scalars_ok a r"
    using assms by (cases "ca_authority r") (auto simp: completion_payload_of_def split: if_splits)
  obtain reason where reason: "reason_of (ca_reason r) = Some reason" "completion_reason_ok reason r"
    "check_output_refs [] (ca_outputs r)"
    "\<not> (windows_any (\<lambda>p q. or_name p = or_name q) ?outs \<or> (ca_logs_complete r \<and> ca_gaps r \<noteq> []))"
    using assms a
    by (cases "reason_of (ca_reason r)") (auto simp: completion_payload_of_def Let_def split: if_splits)
  obtain us where us: "collect_options (map payload_gap_of (ca_gaps r)) = Some us"
    using assms a reason
    by (cases "collect_options (map payload_gap_of (ca_gaps r))") (simp_all add: completion_payload_of_def Let_def)
  have w: "\<not> windows_any gaps_touch (sort_key gap_key us)"
  proof
    assume "windows_any gaps_touch (sort_key gap_key us)"
    then show False
      using assms a reason us by (simp add: completion_payload_of_def Let_def)
  qed
  obtain ms where ms: "(if ca_metrics_json r = [] then Inr []
      else ok_or C_Configuration (metrics_from_slice x (ca_metrics_json r))) = Inr ms"
    using assms a reason us w
    by (cases "if ca_metrics_json r = [] then Inr []
      else ok_or C_Configuration (metrics_from_slice x (ca_metrics_json r))") (simp_all add: completion_payload_of_def Let_def)
  have "p = \<lparr>py_authority = a, py_exit_code = ca_exit_code r,
            py_reason = (if reason = Reason_Unspecified then [] else reason_str_name reason),
            py_stopped = ca_stopped r, py_outputs = ?outs, py_logs_complete = ca_logs_complete r,
            py_gaps = sort_key gap_key us, py_metrics = ms,
            py_metrics_source_sha256 =
              (if ca_metrics_json r = [] then [] else hex (x_sha256 x (ca_metrics_json r)))\<rparr>"
    using assms a reason us w ms by (simp add: completion_payload_of_def Let_def)
  moreover have "ca_reason r = reason_i32 reason"
    using reason(1) by (simp add: reason_of_Some_iff)
  moreover have "map payload_gap_of (ca_gaps r) = map Some us"
    using us by (simp add: collect_options_Some_iff)
  moreover have "ca_metrics_json r \<noteq> [] \<Longrightarrow> metrics_from_slice x (ca_metrics_json r) = Some ms"
    using ms by simp
  ultimately show ?thesis
    using a(1) reason(2) by (intro exI [of _ reason] exI [of _ us]) simp
qed

lemma gaps_determined:
  assumes "map payload_gap_of gs = map Some us" and "map payload_gap_of hs = map Some vs"
    and "sort_key gap_key us = sort_key gap_key vs"
  shows "mset gs = mset hs"
proof -
  define wire_of where "wire_of p = \<lparr>lg_stream = (if pg_stream p = ''stdout'' then 1 else 2 :: i32),
    lg_first_sequence = pg_first p, lg_last_sequence = pg_last p\<rparr>" for p :: payload_gap
  have restore: "gs = map wire_of us" if "map payload_gap_of gs = map Some us" for gs us
    using that
  proof (induction gs arbitrary: us)
    case (Cons g gs)
    then obtain u us' where u: "us = u # us'" "payload_gap_of g = Some u" "map payload_gap_of gs = map Some us'"
      by auto
    have "g = wire_of u"
      using payload_gap_of_Some [OF u(2)] by (intro log_gap.equality) (simp_all add: wire_of_def)
    then show ?case
      using Cons.IH [OF u(3)] u(1) by simp
  qed simp
  have "mset us = mset vs"
    using arg_cong [OF assms(3), of mset] by simp
  then show ?thesis
    by (simp only: restore [OF assms(1)] restore [OF assms(2)] mset_map)
qed

text \<open>The bytes whose SHA-256 is the digest of a completion.\<close>

definition digest_input :: "'x externals_scheme \<Rightarrow> complete_attempt_request \<Rightarrow> u8 list" where
  "digest_input x r =
     (case completion_payload_of x r of
        Inr p \<Rightarrow> digest_prefix @ x_print x (payload_json p)
      | Inl _ \<Rightarrow> [])"

lemma payload_binds:
  assumes "completion_payload_of x r = Inr p" and "completion_payload_of x r' = Inr p" and "\<forall>m. x_sha256 x m \<noteq> []"
  shows "ca_authority r = ca_authority r' \<and> ca_exit_code r = ca_exit_code r' \<and> ca_reason r = ca_reason r'
    \<and> ca_stopped r = ca_stopped r' \<and> ca_logs_complete r = ca_logs_complete r'
    \<and> mset (ca_outputs r) = mset (ca_outputs r') \<and> mset (ca_gaps r) = mset (ca_gaps r')
    \<and> (ca_metrics_json r = ca_metrics_json r' \<or> x_sha256 x (ca_metrics_json r) = x_sha256 x (ca_metrics_json r'))"
proof -
  obtain f us f' us' where e: "ca_authority r = Some (py_authority p)" "ca_authority r' = Some (py_authority p)"
      "ca_reason r = reason_i32 f" "ca_reason r' = reason_i32 f'"
      "py_reason p = (if f = Reason_Unspecified then [] else reason_str_name f)"
      "py_reason p = (if f' = Reason_Unspecified then [] else reason_str_name f')"
      "py_exit_code p = ca_exit_code r" "py_exit_code p = ca_exit_code r'"
      "py_stopped p = ca_stopped r" "py_stopped p = ca_stopped r'"
      "py_logs_complete p = ca_logs_complete r" "py_logs_complete p = ca_logs_complete r'"
      "py_outputs p = sort_key or_name (ca_outputs r)" "py_outputs p = sort_key or_name (ca_outputs r')"
      "map payload_gap_of (ca_gaps r) = map Some us" "py_gaps p = sort_key gap_key us"
      "map payload_gap_of (ca_gaps r') = map Some us'" "py_gaps p = sort_key gap_key us'"
      "py_metrics_source_sha256 p = (if ca_metrics_json r = [] then [] else hex (x_sha256 x (ca_metrics_json r)))"
      "py_metrics_source_sha256 p = (if ca_metrics_json r' = [] then [] else hex (x_sha256 x (ca_metrics_json r')))"
    using completion_payload_of_Inr [OF assms(1)] completion_payload_of_Inr [OF assms(2)] by blast
  have "f = f'"
    using e(5,6) by (auto simp: reason_str_name_inject split: if_splits)
  moreover have "mset (ca_outputs r) = mset (ca_outputs r')"
    using arg_cong [OF trans [OF e(13) [symmetric] e(14)], of mset] by simp
  moreover have "mset (ca_gaps r) = mset (ca_gaps r')"
    using gaps_determined [OF e(15,17)] e(16,18) by simp
  moreover have "hex (x_sha256 x m) \<noteq> []" for m
    using assms(3) by (metis length_0_conv length_hex mult_eq_0_iff zero_neq_numeral)
  then have "ca_metrics_json r = ca_metrics_json r' \<or> x_sha256 x (ca_metrics_json r) = x_sha256 x (ca_metrics_json r')"
    using e(19,20) by (auto simp: hex_inject split: if_splits) metis+
  ultimately show ?thesis
    using e by simp
qed

text \<open>C30. Equal digests mean equal evidence: two completions with the same digest have the same
  authority, exit code, reason, stop flag, log flag, outputs, log gaps and bytes of metrics,
  unless a collision of SHA-256 is at hand on these very completions, of the two hashed inputs
  or of the two metrics files, or the printer renders their two different payload documents
  alike. A digest of 32 bytes is never empty, so metrics that are absent and metrics that are
  present are told apart as well.\<close>

theorem completion_digest_binds:
  assumes "completion_digest x r = Inr h" and "completion_digest x r' = Inr h"
    and "\<forall>m. length (x_sha256 x m) = 32"
  shows "(ca_authority r = ca_authority r' \<and> ca_exit_code r = ca_exit_code r' \<and> ca_reason r = ca_reason r'
      \<and> ca_stopped r = ca_stopped r' \<and> ca_logs_complete r = ca_logs_complete r'
      \<and> mset (ca_outputs r) = mset (ca_outputs r') \<and> mset (ca_gaps r) = mset (ca_gaps r')
      \<and> ca_metrics_json r = ca_metrics_json r')
    \<or> (digest_input x r \<noteq> digest_input x r' \<and> x_sha256 x (digest_input x r) = x_sha256 x (digest_input x r'))
    \<or> (ca_metrics_json r \<noteq> ca_metrics_json r' \<and> x_sha256 x (ca_metrics_json r) = x_sha256 x (ca_metrics_json r'))
    \<or> (\<exists>p p'. completion_payload_of x r = Inr p \<and> completion_payload_of x r' = Inr p'
         \<and> payload_json p \<noteq> payload_json p' \<and> x_print x (payload_json p) = x_print x (payload_json p'))"
proof -
  from assms(1,2) obtain p p' where p: "completion_payload_of x r = Inr p" "completion_payload_of x r' = Inr p'"
    and h: "hex (x_sha256 x (digest_prefix @ x_print x (payload_json p)))
      = hex (x_sha256 x (digest_prefix @ x_print x (payload_json p')))"
    by (auto simp: completion_digest_def)
  have input: "digest_input x r = digest_prefix @ x_print x (payload_json p)"
    "digest_input x r' = digest_prefix @ x_print x (payload_json p')"
    by (simp_all add: digest_input_def p)
  have "x_sha256 x m \<noteq> []" for m
    using assms(3) by (metis length_0_conv zero_neq_numeral)
  then have "p = p' \<Longrightarrow> ?thesis"
    using payload_binds [OF p(1)] p(2) by blast
  moreover have "x_sha256 x (digest_input x r) = x_sha256 x (digest_input x r')"
    using h by (simp add: hex_inject input)
  ultimately show ?thesis
    using p by (auto simp: input payload_json_inject)
qed

theorem completion_digest_binds_witness:
  "completion_digest sample_externals sample_completion
     = completion_digest sample_externals (sample_completion\<lparr>ca_payload_sha256 := []\<rparr>)
   \<and> mset (ca_outputs sample_completion) = mset (ca_outputs (sample_completion\<lparr>ca_payload_sha256 := []\<rparr>))"
proof -
  let ?r = "sample_completion\<lparr>ca_payload_sha256 := []\<rparr>"
  have fields: "ca_authority ?r = ca_authority sample_completion" "ca_completion_id ?r = ca_completion_id sample_completion"
    "ca_exit_code ?r = ca_exit_code sample_completion" "ca_reason ?r = ca_reason sample_completion"
    "ca_stopped ?r = ca_stopped sample_completion" "ca_outputs ?r = ca_outputs sample_completion"
    "ca_logs_complete ?r = ca_logs_complete sample_completion" "ca_gaps ?r = ca_gaps sample_completion"
    "ca_metrics_json ?r = ca_metrics_json sample_completion"
    by simp_all
  have same: "completion_payload_of sample_externals ?r = completion_payload_of sample_externals sample_completion"
    unfolding completion_payload_of_def completion_scalars_ok_def completion_reason_ok_def by (simp only: fields)
  then have digest: "completion_digest sample_externals ?r = Inr (hex (replicate 32 0))"
    using sample_digest by (simp add: completion_digest_def)
  have "\<forall>m. length (x_sha256 sample_externals m) = 32"
    by (simp add: sample_externals_def)
  from completion_digest_binds [OF sample_digest digest this] same digest sample_digest show ?thesis
    by (simp add: digest_input_def)
qed

section \<open>Only an exact manifest acknowledges a success\<close>

lemma validate_manifest_Inr:
  assumes "validate_manifest x request raw = Inr ()"
  shows "\<exists>v m. x_parse x raw = Some v \<and> decode_manifest v = Some m
    \<and> ca_authority request = Some (mf_authority m) \<and> mf_state m = ''SUCCEEDED''
    \<and> mf_exit_code m = Some 0 \<and> mf_reason m = [] \<and> \<not> mf_cleanup_pending m
    \<and> mset (mf_outputs m) = mset (wanted_outputs request)"
proof -
  obtain m a where m: "Option.bind (x_parse x raw) decode_manifest = Some m" "ca_authority request = Some a"
    using assms
    by (cases "Option.bind (x_parse x raw) decode_manifest"; cases "ca_authority request")
      (auto simp: validate_manifest_def split: if_splits)
  then have f: "mf_version m = 1 \<and> mf_state m = ''SUCCEEDED'' \<and> mf_exit_code m = Some 0
      \<and> mf_reason m = [] \<and> \<not> mf_cleanup_pending m \<and> mf_authority m = a
      \<and> sort (mf_outputs m) = sort (wanted_outputs request)"
    using assms by (auto simp: validate_manifest_def split: if_splits intro: attempt_authority.equality)
  moreover from this have "mset (sort (mf_outputs m)) = mset (sort (wanted_outputs request))"
    by simp
  then have "mset (mf_outputs m) = mset (wanted_outputs request)"
    by simp
  ultimately show ?thesis
    using m by (auto simp: bind_eq_Some_conv)
qed

lemma completion_response_Inr:
  assumes "validate_completion_response x request response = Inr st"
  shows "\<exists>reason. ca_reason request = reason_i32 reason
    \<and> cc_decision response = decision_i32 (cs_decision st) \<and> cc_state response = state_i32 (cs_state st)
    \<and> (cs_decision st = Accepted \<longrightarrow> cs_state st = expected_state reason)
    \<and> (if cs_decision st = Accepted \<and> cs_state st = Succeeded
       then validate_manifest x request (cc_accepted_manifest_json response) = Inr ()
       else cs_accepted_manifest_json st = [])
    \<and> cs_accepted_manifest_json st = cc_accepted_manifest_json response"
proof -
  obtain d s reason where o: "decision_of (cc_decision response) = Some d" "state_of (cc_state response) = Some s"
    "reason_of (ca_reason request) = Some reason"
    using assms by (auto simp: validate_completion_response_def)
  show ?thesis
    using assms o
    by (intro exI [of _ reason])
      (auto simp: validate_completion_response_def decision_of_Some_iff state_of_Some_iff reason_of_Some_iff
        split: if_splits)
qed

lemma success_ack_Inr:
  assumes "validate_completion_request x request = Inr ()" and "validate_completion_response x request response = Inr st"
    and "cs_decision st = Accepted" and "cs_state st = Succeeded"
  shows "\<exists>v m. ca_reason request = 0 \<and> ca_exit_code request = Some 0 \<and> ca_stopped request
    \<and> x_parse x (cs_accepted_manifest_json st) = Some v \<and> decode_manifest v = Some m
    \<and> ca_authority request = Some (mf_authority m)
    \<and> mset (mf_outputs m) = mset (wanted_outputs request)"
proof -
  from completion_response_Inr [OF assms(2)] assms(3,4) obtain reason where
    reason: "ca_reason request = reason_i32 reason" "expected_state reason = Succeeded"
    and man: "validate_manifest x request (cs_accepted_manifest_json st) = Inr ()"
    by auto
  have r: "reason = Reason_Unspecified"
    using reason(2) by (cases reason) (simp_all add: expected_state_def)
  from assms(1) obtain p where p: "completion_payload_of x request = Inr p"
    by (auto simp: validate_completion_request_def completion_digest_def split: if_splits)
  from completion_payload_of_Inr [OF p] obtain reason' where
    "ca_reason request = reason_i32 reason'" "completion_reason_ok reason' request"
    by blast
  then have "completion_reason_ok Reason_Unspecified request"
    using reason(1) r by (metis reason_i32_inject)
  then have "ca_exit_code request = Some 0 \<and> ca_stopped request"
    by (auto simp: completion_reason_ok_def)
  moreover have "ca_reason request = 0"
    using reason(1) r by simp
  ultimately show ?thesis
    using validate_manifest_Inr [OF man] by blast
qed

text \<open>C32. A success is acknowledged only by an answer that fits it completely. When a call of
  \<open>complete_attempt\<close> returns a status, that status is the server's reply. If it says that a
  success was accepted, the request claimed success with a stopped container and exit code
  zero, and the manifest of the reply names this very authority and exactly the outputs that
  were reported. In every other case the reply carried no manifest and none is taken, and an
  accepted completion is in the terminal state its own reason calls for.\<close>

theorem success_ack_is_exact:
  assumes "complete_attempt x request rpc = Inr st"
  shows "\<exists>response. rpc = Inr response \<and> cs_accepted_manifest_json st = cc_accepted_manifest_json response
    \<and> cc_decision response = decision_i32 (cs_decision st) \<and> cc_state response = state_i32 (cs_state st)
    \<and> (if cs_decision st = Accepted \<and> cs_state st = Succeeded
       then \<exists>v m. ca_reason request = 0 \<and> ca_exit_code request = Some 0 \<and> ca_stopped request
         \<and> x_parse x (cc_accepted_manifest_json response) = Some v \<and> decode_manifest v = Some m
         \<and> ca_authority request = Some (mf_authority m)
         \<and> mset (mf_outputs m) = mset (wanted_outputs request)
       else cc_accepted_manifest_json response = []
         \<and> (cs_decision st = Accepted \<longrightarrow>
              (\<exists>reason. ca_reason request = reason_i32 reason \<and> cs_state st = expected_state reason)))"
proof -
  from assms obtain response where rpc: "rpc = Inr response" and valid: "validate_completion_request x request = Inr ()"
    and reply: "validate_completion_response x request response = Inr st"
    unfolding completing.result_iff by blast
  note r = completion_response_Inr [OF reply]
  show ?thesis
  proof (cases "cs_decision st = Accepted \<and> cs_state st = Succeeded")
    case True
    then show ?thesis
      using rpc r success_ack_Inr [OF valid reply] by (intro exI [of _ response]) auto
  next
    case False
    then show ?thesis
      using rpc r by (intro exI [of _ response]) auto
  qed
qed

lemma sample_manifest_decoded:
  "decode_manifest sample_manifest_json
     = Some \<lparr>mf_version = 1, mf_authority = fixture_authority, mf_state = ''SUCCEEDED'',
             mf_exit_code = Some 0, mf_reason = [], mf_cleanup_pending = False,
             mf_outputs = [ManifestOutput ''a'' (fixture_uuid CHR ''7''), ManifestOutput ''b'' (fixture_uuid CHR ''6'')]\<rparr>"
proof -
  have dec: "decimal (Suc 0) = ''1''"
    by (subst decimal.simps) (simp add: hex_digit_def)
  have digits: "is_ascii_digit CHR ''0''" "is_ascii_digit CHR ''1''"
    by (simp_all add: is_ascii_digit_def less_eq_char_def)
  have "decode_manifest_authority (payload_authority_json fixture_authority) = Some fixture_authority"
    by (simp add: decode_manifest_authority_def payload_authority_json_def struct_members_def field_def
        as_string_def as_u64_def as_int_in_def json_u64_def number_int_def fixture_authority_def dec
        digits digits_value_def)
  moreover have "decode_manifest_output (payload_output_json out) = Some (ManifestOutput (or_name out) (or_artifact_id out))" for out
    by (simp add: decode_manifest_output_def payload_output_json_def struct_members_def field_def as_string_def)
  ultimately show ?thesis
    by (simp add: decode_manifest_def sample_manifest_json_def struct_members_def field_def field_option_def
        as_string_def as_bool_def as_u32_def as_i32_def as_int_in_def number_int_def as_list_def digits
        digits_value_def sample_output_def)
qed

lemma sample_completion_valid: "validate_completion_request sample_externals sample_completion = Inr ()"
proof -
  have "ca_payload_sha256 sample_completion = hex (replicate 32 0)"
    by (simp only: sample_completion_def complete_attempt_request.simps)
  then show ?thesis
    using lower_hash_hex [of "replicate 32 0"]
    by (simp only: validate_completion_request_def sample_digest and_then_simps) simp
qed

lemma sample_manifest_valid: "validate_manifest sample_externals sample_completion [0x7B] = Inr ()"
proof -
  have "sort [ManifestOutput ''a'' (fixture_uuid CHR ''7''), ManifestOutput ''b'' (fixture_uuid CHR ''6'')]
      = sort (wanted_outputs sample_completion)"
    by (simp add: wanted_outputs_def sample_completion_def sample_output_def less_eq_manifest_output_def
        less_eq_char_def)
  moreover have "x_parse sample_externals [0x7B] = Some sample_manifest_json"
    by (simp add: sample_externals_def)
  moreover have "ca_authority sample_completion = Some fixture_authority" "length (ca_outputs sample_completion) = 2"
    by (simp_all add: sample_completion_def)
  ultimately show ?thesis
    by (simp add: validate_manifest_def sample_manifest_decoded is_ascii_whitespace_def)
qed

theorem success_ack_is_exact_witness:
  "\<exists>m. decode_manifest sample_manifest_json = Some m \<and> mset (mf_outputs m) = mset (wanted_outputs sample_completion)"
proof -
  let ?st = "\<lparr>cs_decision = Accepted, cs_state = Succeeded, cs_accepted_manifest_json = [0x7B]\<rparr>"
  have "ca_reason sample_completion = 0"
    by (simp add: sample_completion_def)
  then have "validate_completion_response sample_externals sample_completion
      \<lparr>cc_decision = 1, cc_state = 5, cc_accepted_manifest_json = [0x7B]\<rparr> = Inr ?st"
    by (simp add: validate_completion_response_def decision_of_def state_of_def reason_of_def
        expected_state_def sample_manifest_valid)
  then have "complete_attempt sample_externals sample_completion
      (Inr \<lparr>cc_decision = 1, cc_state = 5, cc_accepted_manifest_json = [0x7B]\<rparr>) = Inr ?st"
    by (simp add: completing.result_iff sample_completion_valid)
  from success_ack_is_exact [OF this] show ?thesis
    by (auto simp: sample_externals_def)
qed

section \<open>Metrics keep their numbers\<close>

lemma digits_value_zeros: "set s \<subseteq> {CHR ''0''} \<Longrightarrow> digits_value s = 0"
proof (induction s rule: rev_induct)
  case (snoc c s)
  then show ?case by (simp add: digits_value_snoc)
qed (simp add: digits_value_def)

lemma takeWhile_digits_prefix:
  assumes "\<And>c. is_ascii_digit c \<Longrightarrow> p c"
  shows "set (takeWhile is_ascii_digit s) \<subseteq> set (takeWhile p s)"
  using assms by (induction s) auto

lemma zero_digits:
  assumes "set (takeWhile (\<lambda>c. c \<noteq> CHR ''e'' \<and> c \<noteq> CHR ''E'') t) \<subseteq> set ''-+.0''"
    and "dropWhile is_ascii_digit t = rest"
    and "frac = [] \<or> (\<exists>r. rest = CHR ''.'' # r \<and> frac = takeWhile is_ascii_digit r)"
  shows "digits_value (takeWhile is_ascii_digit t @ frac) = 0"
proof (rule digits_value_zeros, rule subsetI)
  let ?p = "\<lambda>c. c \<noteq> CHR ''e'' \<and> c \<noteq> CHR ''E''"
  fix c
  assume c: "c \<in> set (takeWhile is_ascii_digit t @ frac)"
  have digit: "is_ascii_digit d \<Longrightarrow> ?p d" for d
    by (auto simp: is_ascii_digit_def less_eq_char_def)
  have "takeWhile ?p t = takeWhile is_ascii_digit t @ takeWhile ?p rest"
  proof -
    have "takeWhile ?p (takeWhile is_ascii_digit t @ rest) = takeWhile is_ascii_digit t @ takeWhile ?p rest"
      by (rule takeWhile_append2) (use digit set_takeWhileD in metis)
    then show ?thesis
      unfolding assms(2) [symmetric] takeWhile_dropWhile_id .
  qed
  moreover have "d \<in> set (takeWhile is_ascii_digit r) \<Longrightarrow> d \<in> set (takeWhile ?p r)" for r d
    using takeWhile_digits_prefix [of ?p r] digit by blast
  ultimately have "c \<in> set (takeWhile ?p t)"
    using c assms(3) by auto
  then have "c \<in> set ''-+.0''"
    using assms(1) by blast
  moreover have "is_ascii_digit c"
    using c assms(3) by (auto dest: set_takeWhileD)
  ultimately show "c \<in> {CHR ''0''}"
    by (auto simp: is_ascii_digit_def less_eq_char_def)
qed

lemma strip_sign_taken:
  "list_all P (takeWhile p s) \<Longrightarrow> p CHR ''-'' \<Longrightarrow>
     list_all P (takeWhile p (case s of [] \<Rightarrow> [] | c # r \<Rightarrow> if c = CHR ''-'' then r else s))"
  by (cases s) (auto split: if_splits)

lemma zero_mantissa:
  assumes "list_all (\<lambda>b. b \<in> set ''-+.0'') (takeWhile (\<lambda>c. c \<noteq> CHR ''e'' \<and> c \<noteq> CHR ''E'') s)"
    and "parse_decimal s = Some (m, e)"
  shows "m = 0"
proof -
  define t where "t = (case s of [] \<Rightarrow> [] | c # r \<Rightarrow> if c = CHR ''-'' then r else s)"
  define rest where "rest = dropWhile is_ascii_digit t"
  define frac where "frac = (case rest of [] \<Rightarrow> [] | c # r \<Rightarrow> if c = CHR ''.'' then takeWhile is_ascii_digit r else [])"
  have "set (takeWhile (\<lambda>c. c \<noteq> CHR ''e'' \<and> c \<noteq> CHR ''E'') t) \<subseteq> set ''-+.0''"
    using strip_sign_taken [OF assms(1)] by (simp add: t_def list_all_iff subset_iff)
  moreover have "frac = [] \<or> (\<exists>r. rest = CHR ''.'' # r \<and> frac = takeWhile is_ascii_digit r)"
    by (cases rest) (auto simp: frac_def)
  ultimately have "digits_value (takeWhile is_ascii_digit t @ frac) = 0"
    using rest_def by (intro zero_digits) auto
  moreover have "m = digits_value (takeWhile is_ascii_digit t @ frac)"
    using assms(2) unfolding parse_decimal_def t_def [symmetric]
    by (cases rest) (auto simp: frac_def span_digits_def rest_def [symmetric] split: if_splits)
  ultimately show ?thesis
    by simp
qed

text \<open>What one accepted member contributes: its own text, or the numeral zero for a number
  whose value is exactly zero.\<close>

definition metric_kept :: "string \<Rightarrow> string \<Rightarrow> bool" where
  "metric_kept number v \<longleftrightarrow>
     length number \<le> 1024 \<and> parse_f64 number \<noteq> None \<and> parse_f64 number \<noteq> Some F64_Infinite
     \<and> (v = number \<and> parse_f64 number = Some F64_Normal \<or> v = ''0'' \<and> (\<exists>e. parse_decimal number = Some (0, e)))"

lemma visit_metrics_Cons:
  assumes "visit_metrics vals ((key, raw) # ms) = Some out"
  shows "\<exists>number v. raw = JNumber number \<and> metric_kept number v \<and> bounded_name key True
    \<and> length vals < 256 \<and> key \<notin> set (map fst vals) \<and> visit_metrics (vals @ [(key, v)]) ms = Some out"
proof -
  obtain number where raw: "raw = JNumber number"
    using assms by (cases raw) (auto split: if_splits)
  obtain c cs where number: "number = c # cs"
    using assms raw by (cases number) (auto split: if_splits)
  have guards: "bounded_name key True" "length vals < 256" "key \<notin> set (map fst vals)" "length number \<le> 1024"
    using assms raw number by (auto split: if_splits)
  obtain cl where cl: "parse_f64 number = Some cl"
    using assms raw number by (cases "parse_f64 number") (auto split: if_splits)
  show ?thesis
  proof (cases cl)
    case F64_Zero
    obtain m e where d: "parse_decimal number = Some (m, e)"
      using cl by (auto simp: parse_f64_def)
    have "\<not> list_ex (\<lambda>b. b \<notin> set ''-+.0'') (takeWhile (\<lambda>c. c \<noteq> CHR ''e'' \<and> c \<noteq> CHR ''E'') number)"
      "visit_metrics (vals @ [(key, ''0'')]) ms = Some out"
      using assms raw number cl F64_Zero by (auto split: if_splits)
    moreover from this(1) have "m = 0"
      using zero_mantissa [OF _ d] by (simp add: list_all_iff list_ex_iff)
    ultimately show ?thesis
      using raw guards cl F64_Zero d by (intro exI [of _ number] exI [of _ "''0''"]) (auto simp: metric_kept_def)
  next
    case F64_Normal
    have "visit_metrics (vals @ [(key, number)]) ms = Some out"
      using assms raw number cl F64_Normal by (auto split: if_splits)
    then show ?thesis
      using raw guards cl F64_Normal by (intro exI [of _ number]) (auto simp: metric_kept_def)
  next
    case F64_Infinite
    then show ?thesis
      using assms raw number cl by (auto split: if_splits)
  qed
qed

lemma visit_metrics_Some:
  "visit_metrics vals ms = Some out \<Longrightarrow> distinct (map fst vals) \<Longrightarrow> length vals \<le> 256 \<Longrightarrow>
   \<exists>new. out = sort_key fst (vals @ new) \<and> distinct (map fst (vals @ new)) \<and> length (vals @ new) \<le> 256
     \<and> list_all2 (\<lambda>(k, raw) (k', v). k' = k \<and> (\<exists>number. raw = JNumber number \<and> metric_kept number v)) ms new"
proof (induction ms arbitrary: vals)
  case (Cons m ms)
  obtain key raw where m: "m = (key, raw)" by (cases m)
  from visit_metrics_Cons [OF Cons.prems(1) [unfolded m]] obtain number v where
    v: "raw = JNumber number" "metric_kept number v" "length vals < 256" "key \<notin> set (map fst vals)"
      "visit_metrics (vals @ [(key, v)]) ms = Some out"
    by blast
  from Cons.IH [OF v(5)] v Cons.prems obtain new where
    "out = sort_key fst ((vals @ [(key, v)]) @ new)" "distinct (map fst ((vals @ [(key, v)]) @ new))"
    "length ((vals @ [(key, v)]) @ new) \<le> 256"
    "list_all2 (\<lambda>(k, raw) (k', v). k' = k \<and> (\<exists>number. raw = JNumber number \<and> metric_kept number v)) ms new"
    by fastforce
  then show ?case
    using v(1,2) by (intro exI [of _ "(key, v) # new"]) (simp add: m)
qed simp

text \<open>Metrics reach the digest with the numbers the workload wrote. From an accepted
  document every member appears exactly once, at most 256 in order of their names; its
  value is the literal text of the document, or the numeral 0 for a number that is exactly
  zero. A number that only rounds to zero, or to infinity, makes the document invalid.\<close>

theorem metrics_keep_numbers:
  assumes "x_parse x body = Some (JObject ms)" and "metrics_from_slice x body = Some out"
  shows "sorted_wrt (<) (map fst out) \<and> length out \<le> 256 \<and> length out = length ms
    \<and> (\<forall>k v. (k, v) \<in> set out \<longrightarrow> (\<exists>number. (k, JNumber number) \<in> set ms \<and> metric_kept number v))"
proof -
  from assms have "visit_metrics [] ms = Some out"
    by (simp add: metrics_from_slice_def)
  from visit_metrics_Some [OF this] obtain new where new: "out = sort_key fst new" "distinct (map fst new)"
    "length new \<le> 256"
    "list_all2 (\<lambda>(k, raw) (k', v). k' = k \<and> (\<exists>number. raw = JNumber number \<and> metric_kept number v)) ms new"
    by auto
  have "distinct (map fst out)"
    using new(1,2) by (simp add: distinct_map_permuted [of "sort_key fst new" new])
  then have "sorted_wrt (<) (map fst out)"
    using new(1) by (simp add: strict_sorted_iff)
  moreover have "\<exists>number. (k, JNumber number) \<in> set ms \<and> metric_kept number v" if "(k, v) \<in> set out" for k v
  proof -
    have "(k, v) \<in> set new"
      using that new(1) by simp
    with new(4) obtain raw where "(k, raw) \<in> set ms" "\<exists>number. raw = JNumber number \<and> metric_kept number v"
      by (fastforce simp: list_all2_conv_all_nth in_set_conv_nth)
    then show ?thesis by blast
  qed
  ultimately show ?thesis
    using new(1,3) list_all2_lengthD [OF new(4)] by auto
qed

theorem metrics_keep_numbers_witness:
  "metrics_from_slice sample_externals [0x7B, 0x7D] = Some [(''acc'', ''0''), (''loss'', ''0.25'')]
   \<and> sorted_wrt (<) (map fst [(''acc'', ''0''), (''loss'', ''0.25'')])"
proof -
  have parsed: "x_parse sample_externals [0x7B, 0x7D] = Some (JObject [(''loss'', JNumber ''0.25''), (''acc'', JNumber ''-0e5'')])"
    by (simp add: sample_externals_def sample_metrics_json_def)
  have names: "bounded_name ''loss'' True" "bounded_name ''acc'' True"
    by (simp_all add: bounded_name_def is_ascii_alphanumeric_def is_ascii_alphabetic_def less_eq_char_def)
  have digits: "is_ascii_digit CHR ''0''" "is_ascii_digit CHR ''2''" "is_ascii_digit CHR ''5''"
    "\<not> is_ascii_digit CHR ''.''" "\<not> is_ascii_digit CHR ''e''"
    by (simp_all add: is_ascii_digit_def less_eq_char_def)
  have "parse_decimal ''0.25'' = Some (25, -2)" "parse_decimal ''-0e5'' = Some (0, 5)"
    by (simp_all add: parse_decimal_def span_digits_def digits digits_value_def parse_exponent_def)
  then have "parse_f64 ''0.25'' = Some F64_Normal" "parse_f64 ''-0e5'' = Some F64_Zero"
    by (simp_all add: parse_f64_def decimal_tiny_def decimal_at_least_def)
  then have "metrics_from_slice sample_externals [0x7B, 0x7D] = Some [(''acc'', ''0''), (''loss'', ''0.25'')]"
    by (simp add: metrics_from_slice_def parsed names digits less_eq_char_def)
  then show ?thesis
    using metrics_keep_numbers [OF parsed] by blast
qed

end
