(* ===== verification/Execution.thy ===== *)
theory Execution
  imports Json "HOL-Library.Sublist"
begin

text \<open>
  \<open>rust/worker/src/execution.rs\<close>: the execution specification of an assignment. The
  document is hashed as received, checked for its shape, decoded by the declarations of
  \<open>Job\<close> and its parts, validated, and compared with the fields of the assignment. The
  JSON parser and SHA-256 come with \<open>externals\<close>.
\<close>

section \<open>The code\<close>

datatype spec_error = Spec_Document | Spec_Checksum | Spec_WireMismatch

type_synonym string_map = "(string \<times> string) list" \<comment> \<open>a \<open>BTreeMap\<close>, in key order\<close>

record job_metadata =
  md_name :: string
  md_project :: string
  md_labels :: string_map

record job_resources =
  jr_cpu_millis :: u64
  jr_memory_mib :: u64
  jr_scratch_mib :: u64

record job_input =
  ji_dataset :: string
  ji_mount_path :: string

record job_output =
  jo_name :: string
  jo_path :: string
  jo_required :: bool
  jo_max_bytes :: u64

record job_timeouts =
  to_startup_seconds :: u64
  to_execution_seconds :: u64
  to_finalization_seconds :: u64

record job_retry =
  rt_max_attempts :: u64
  rt_on :: "string list"
  rt_initial_backoff_seconds :: u64
  rt_max_backoff_seconds :: u64

record job_settings =
  js_priority :: u8
  js_image :: string
  js_command :: "string list"
  js_args :: "string list"
  js_env :: string_map
  js_resources :: job_resources
  js_placement_labels :: string_map
  js_inputs :: "job_input list"
  js_outputs :: "job_output list"
  js_timeouts :: job_timeouts
  js_retry :: job_retry
  js_termination_grace_seconds :: u64
  js_network :: string

record job =
  jb_api_version :: string
  jb_kind :: string
  jb_metadata :: job_metadata
  jb_spec :: job_settings

record execution_spec =
  es_job :: job
  es_sha256 :: string

subsection \<open>Decoding\<close>

fun visit_unique :: "string_map \<Rightarrow> members \<Rightarrow> string_map option" where
  "visit_unique result [] = Some (sort_key fst result)"
| "visit_unique result ((key, v) # ms) =
     Option.bind (as_string v) (\<lambda>s.
       if 128 \<le> length result \<or> key \<in> set (map fst result) then None
       else visit_unique (result @ [(key, s)]) ms)"

definition unique_map :: "json \<Rightarrow> string_map option" where
  "unique_map v = Option.bind (as_entries v) (visit_unique [])"

definition decode_metadata :: "json \<Rightarrow> job_metadata option" where
  "decode_metadata v =
     Option.bind (struct_members True [''name'', ''project'', ''labels''] v) (\<lambda>ms.
     Option.bind (field ms ''name'' as_string) (\<lambda>name.
     Option.bind (field ms ''project'' as_string) (\<lambda>project.
     Option.bind (field_default ms ''labels'' [] unique_map) (\<lambda>labels.
       Some \<lparr>md_name = name, md_project = project, md_labels = labels\<rparr>))))"

definition decode_resources :: "json \<Rightarrow> job_resources option" where
  "decode_resources v =
     Option.bind (struct_members True [''cpuMillis'', ''memoryMiB'', ''scratchMiB''] v) (\<lambda>ms.
     Option.bind (field ms ''cpuMillis'' as_u64) (\<lambda>cpu.
     Option.bind (field ms ''memoryMiB'' as_u64) (\<lambda>memory.
     Option.bind (field ms ''scratchMiB'' as_u64) (\<lambda>scratch.
       Some \<lparr>jr_cpu_millis = cpu, jr_memory_mib = memory, jr_scratch_mib = scratch\<rparr>))))"

definition decode_placement :: "json \<Rightarrow> string_map option" where
  "decode_placement v =
     Option.bind (struct_members True [''labels''] v) (\<lambda>ms. field_default ms ''labels'' [] unique_map)"

definition decode_input :: "json \<Rightarrow> job_input option" where
  "decode_input v =
     Option.bind (struct_members True [''dataset'', ''mountPath''] v) (\<lambda>ms.
     Option.bind (field ms ''dataset'' as_string) (\<lambda>dataset.
     Option.bind (field ms ''mountPath'' as_string) (\<lambda>path.
       Some \<lparr>ji_dataset = dataset, ji_mount_path = path\<rparr>)))"

definition decode_output :: "json \<Rightarrow> job_output option" where
  "decode_output v =
     Option.bind (struct_members True [''name'', ''path'', ''required'', ''maxBytes''] v) (\<lambda>ms.
     Option.bind (field ms ''name'' as_string) (\<lambda>name.
     Option.bind (field ms ''path'' as_string) (\<lambda>path.
     Option.bind (field ms ''required'' as_bool) (\<lambda>required.
     Option.bind (field ms ''maxBytes'' as_u64) (\<lambda>max_bytes.
       Some \<lparr>jo_name = name, jo_path = path, jo_required = required, jo_max_bytes = max_bytes\<rparr>)))))"

definition decode_timeouts :: "json \<Rightarrow> job_timeouts option" where
  "decode_timeouts v =
     Option.bind (struct_members True [''startupSeconds'', ''executionSeconds'', ''finalizationSeconds''] v) (\<lambda>ms.
     Option.bind (field ms ''startupSeconds'' as_u64) (\<lambda>startup.
     Option.bind (field ms ''executionSeconds'' as_u64) (\<lambda>execution.
     Option.bind (field ms ''finalizationSeconds'' as_u64) (\<lambda>finalization.
       Some \<lparr>to_startup_seconds = startup, to_execution_seconds = execution,
             to_finalization_seconds = finalization\<rparr>))))"

definition decode_retry :: "json \<Rightarrow> job_retry option" where
  "decode_retry v =
     Option.bind (struct_members True
       [''maxAttempts'', ''on'', ''initialBackoffSeconds'', ''maxBackoffSeconds''] v) (\<lambda>ms.
     Option.bind (field ms ''maxAttempts'' as_u64) (\<lambda>attempts.
     Option.bind (field_default ms ''on'' [] (as_list as_string)) (\<lambda>reasons.
     Option.bind (field ms ''initialBackoffSeconds'' as_u64) (\<lambda>initial.
     Option.bind (field ms ''maxBackoffSeconds'' as_u64) (\<lambda>maximum.
       Some \<lparr>rt_max_attempts = attempts, rt_on = reasons, rt_initial_backoff_seconds = initial,
             rt_max_backoff_seconds = maximum\<rparr>)))))"

definition decode_settings :: "json \<Rightarrow> job_settings option" where
  "decode_settings v =
     Option.bind (struct_members True
       [''priority'', ''image'', ''command'', ''args'', ''env'', ''resources'', ''placement'', ''inputs'',
        ''outputs'', ''timeouts'', ''retry'', ''terminationGraceSeconds'', ''network''] v) (\<lambda>ms.
     Option.bind (field_default ms ''priority'' 0 as_u8) (\<lambda>priority.
     Option.bind (field ms ''image'' as_string) (\<lambda>image.
     Option.bind (field ms ''command'' (as_list as_string)) (\<lambda>command.
     Option.bind (field_default ms ''args'' [] (as_list as_string)) (\<lambda>args.
     Option.bind (field_default ms ''env'' [] unique_map) (\<lambda>env.
     Option.bind (field ms ''resources'' decode_resources) (\<lambda>resources.
     Option.bind (field ms ''placement'' decode_placement) (\<lambda>placement.
     Option.bind (field_default ms ''inputs'' [] (as_list decode_input)) (\<lambda>inputs.
     Option.bind (field_default ms ''outputs'' [] (as_list decode_output)) (\<lambda>outputs.
     Option.bind (field ms ''timeouts'' decode_timeouts) (\<lambda>timeouts.
     Option.bind (field ms ''retry'' decode_retry) (\<lambda>retry.
     Option.bind (field ms ''terminationGraceSeconds'' as_u64) (\<lambda>grace.
     Option.bind (field ms ''network'' as_string) (\<lambda>network.
       Some \<lparr>js_priority = priority, js_image = image, js_command = command, js_args = args,
             js_env = env, js_resources = resources, js_placement_labels = placement,
             js_inputs = inputs, js_outputs = outputs, js_timeouts = timeouts, js_retry = retry,
             js_termination_grace_seconds = grace, js_network = network\<rparr>))))))))))))))"

definition decode_job :: "json \<Rightarrow> job option" where
  "decode_job v =
     Option.bind (struct_members True [''apiVersion'', ''kind'', ''metadata'', ''spec''] v) (\<lambda>ms.
     Option.bind (field ms ''apiVersion'' as_string) (\<lambda>version.
     Option.bind (field ms ''kind'' as_string) (\<lambda>kind.
     Option.bind (field ms ''metadata'' decode_metadata) (\<lambda>metadata.
     Option.bind (field ms ''spec'' decode_settings) (\<lambda>spec.
       Some \<lparr>jb_api_version = version, jb_kind = kind, jb_metadata = metadata, jb_spec = spec\<rparr>)))))"

subsection \<open>The shape of the document\<close>

text \<open>A \<open>Value\<close> keeps the last of repeated members; its null for a missing index is \<open>JNull\<close>.\<close>

definition value_get :: "json \<Rightarrow> string \<Rightarrow> json option" where
  "value_get v key = (case v of JObject kvs \<Rightarrow> map_of (rev kvs) key | _ \<Rightarrow> None)"

definition is_object :: "json \<Rightarrow> bool" where
  "is_object v = (case v of JObject _ \<Rightarrow> True | _ \<Rightarrow> False)"

fun pointer :: "json \<Rightarrow> string list \<Rightarrow> json option" where
  "pointer v [] = Some v"
| "pointer v (key # keys) = Option.bind (value_get v key) (\<lambda>w. pointer w keys)"

fun bounded :: "json \<Rightarrow> nat \<Rightarrow> bool"
  and bounded_items :: "json list \<Rightarrow> nat \<Rightarrow> bool"
  and bounded_members :: "members \<Rightarrow> nat \<Rightarrow> bool" where
  "bounded JNull depth = False"
| "bounded (JArray vs) depth = (depth \<le> 32 \<and> bounded_items vs (depth + 1))"
| "bounded (JObject kvs) depth = (depth \<le> 32 \<and> bounded_members kvs (depth + 1))"
| "bounded (JBool _) depth = (depth \<le> 32)"
| "bounded (JNumber _) depth = (depth \<le> 32)"
| "bounded (JString _) depth = (depth \<le> 32)"
| "bounded_items [] depth = True"
| "bounded_items (v # vs) depth = (bounded v depth \<and> bounded_items vs depth)"
| "bounded_members [] depth = True"
| "bounded_members ((key, v) # kvs) depth =
     ((key \<in> set (map fst kvs) \<or> bounded v depth) \<and> bounded_members kvs depth)"

definition shape_pointers :: "string list list" where
  "shape_pointers =
     [[], [''metadata''], [''spec''], [''spec'', ''resources''], [''spec'', ''placement''],
      [''spec'', ''timeouts''], [''spec'', ''retry'']]"

definition check_shape :: "'x externals_scheme \<Rightarrow> u8 list \<Rightarrow> spec_error + unit" where
  "check_shape x raw =
     and_then (ok_or Spec_Document (x_parse x raw)) (\<lambda>v.
       if \<not> list_all (\<lambda>p. is_some_and is_object (pointer v p)) shape_pointers then Inl Spec_Document
       else if \<not> list_all (\<lambda>name.
                 case pointer v [''spec'', name] of
                   Some (JArray items) \<Rightarrow> list_all is_object items
                 | _ \<Rightarrow> True) [''inputs'', ''outputs'']
       then Inl Spec_Document
       else if \<not> bounded v 0 then Inl Spec_Document
       else Inr ())"

subsection \<open>Validation\<close>

definition spec_identifier :: "string \<Rightarrow> bool \<Rightarrow> bool" where
  "spec_identifier value environment =
     (if value = [] \<or> 128 < length value then False
      else if environment then
        (is_ascii_alphabetic (value ! 0) \<or> value ! 0 = CHR ''_'')
        \<and> list_all (\<lambda>b. is_ascii_alphanumeric b \<or> b = CHR ''_'') value
        \<and> \<not> starts_with value ''DISPATCH_''
      else is_ascii_alphanumeric (value ! 0)
        \<and> list_all (\<lambda>b. is_ascii_alphanumeric b \<or> b \<in> set ''_.-'') value)"

definition valid_map :: "string_map \<Rightarrow> bool \<Rightarrow> bool" where
  "valid_map m environment \<longleftrightarrow>
     length m \<le> 128
     \<and> list_all (\<lambda>(k, v). spec_identifier k environment \<and> length v \<le> 8192 \<and> CHR 0x00 \<notin> set v) m"

definition path_in :: "string \<Rightarrow> string \<Rightarrow> bool" where
  "path_in root value \<longleftrightarrow>
     length value \<le> 4096 \<and> starts_with value root
     \<and> CHR 0x5C \<notin> set value \<and> CHR 0x00 \<notin> set value
     \<and> list_all (\<lambda>part. part \<notin> set [[], ''.'', ''..'']) (split_on CHR ''/'' (drop 1 value))"

definition output_path :: "string \<Rightarrow> bool" where
  "output_path value = path_in ''/outputs/'' value"

definition input_path :: "string \<Rightarrow> bool" where
  "input_path value = path_in ''/inputs/'' value"

definition overlaps :: "string \<Rightarrow> string \<Rightarrow> bool" where
  "overlaps a b \<longleftrightarrow>
     a = b
     \<or> is_some_and (\<lambda>rest. starts_with rest ''/'') (strip_prefix a b)
     \<or> is_some_and (\<lambda>rest. starts_with rest ''/'') (strip_prefix b a)"

definition pinned_image :: "string \<Rightarrow> bool" where
  "pinned_image img =
     is_some_and (\<lambda>(name, hash). name \<noteq> [] \<and> lower_hash hash) (rsplit_once img ''@sha256:'')"

definition image_text_ok :: "string \<Rightarrow> bool" where
  "image_text_ok img \<longleftrightarrow>
     length img \<le> 1024
     \<and> \<not> list_ex (\<lambda>c. point_is_whitespace c \<or> point_is_control c) (code_points img)"

definition argv_ok :: "string list \<Rightarrow> bool" where
  "argv_ok argv \<longleftrightarrow> \<not> list_ex (\<lambda>a. 8192 < length a \<or> CHR 0x00 \<in> set a) argv"

definition within :: "u64 \<Rightarrow> u64 \<Rightarrow> u64 \<Rightarrow> bool" where
  "within lo hi v \<longleftrightarrow> lo \<le> v \<and> v \<le> hi"

definition job_scalars_ok :: "job \<Rightarrow> bool" where
  "job_scalars_ok j =
     (let s = jb_spec j; m = jb_metadata j in
      jb_api_version j = ''dispatch.dev/v1alpha1'' \<and> jb_kind j = ''Job''
      \<and> spec_identifier (md_name m) False \<and> spec_identifier (md_project m) False
      \<and> valid_map (md_labels m) False \<and> valid_map (js_env s) True \<and> valid_map (js_placement_labels s) False
      \<and> js_priority s \<le> 3
      \<and> pinned_image (js_image s) \<and> image_text_ok (js_image s)
      \<and> js_command s \<noteq> [] \<and> js_command s ! 0 \<noteq> []
      \<and> length (js_command s) + length (js_args s) \<le> 256 \<and> argv_ok (js_command s @ js_args s)
      \<and> within 1 1024000 (jr_cpu_millis (js_resources s))
      \<and> within 1 16777216 (jr_memory_mib (js_resources s))
      \<and> within 1 1073741824 (jr_scratch_mib (js_resources s))
      \<and> within 1 3600 (to_startup_seconds (js_timeouts s))
      \<and> within 1 604800 (to_execution_seconds (js_timeouts s))
      \<and> within 1 3600 (to_finalization_seconds (js_timeouts s))
      \<and> js_termination_grace_seconds s \<le> 300
      \<and> js_network s = ''disabled''
      \<and> within 1 10 (rt_max_attempts (js_retry s))
      \<and> within 1 3600 (rt_initial_backoff_seconds (js_retry s))
      \<and> within (rt_initial_backoff_seconds (js_retry s)) 3600 (rt_max_backoff_seconds (js_retry s))
      \<and> length (js_outputs s) \<le> 64 \<and> length (js_inputs s) \<le> 64)"

text \<open>The loops compare each element with the slice before it.\<close>

fun all_with_previous :: "('a list \<Rightarrow> 'a \<Rightarrow> bool) \<Rightarrow> 'a list \<Rightarrow> 'a list \<Rightarrow> bool" where
  "all_with_previous p previous [] = True"
| "all_with_previous p previous (y # ys) =
     (p previous y \<and> all_with_previous p (previous @ [y]) ys)"

definition retry_reason_ok :: "string list \<Rightarrow> string \<Rightarrow> bool" where
  "retry_reason_ok previous reason \<longleftrightarrow>
     reason \<in> set [''WORKER_LOST'', ''RUNTIME_UNAVAILABLE'', ''TRANSFER_FAILED'']
     \<and> reason \<notin> set previous"

definition job_output_ok :: "job_output list \<Rightarrow> job_output \<Rightarrow> bool" where
  "job_output_ok previous out \<longleftrightarrow>
     spec_identifier (jo_name out) False \<and> output_path (jo_path out)
     \<and> within 1 (2 ^ 40) (jo_max_bytes out)
     \<and> \<not> list_ex (\<lambda>p. jo_name p = jo_name out \<or> overlaps (jo_path p) (jo_path out)) previous"

definition job_input_ok :: "job_input list \<Rightarrow> job_input \<Rightarrow> bool" where
  "job_input_ok previous inp \<longleftrightarrow>
     spec_identifier (ji_dataset inp) False \<and> input_path (ji_mount_path inp)
     \<and> \<not> list_ex (\<lambda>p. overlaps (ji_mount_path p) (ji_mount_path inp)) previous"

definition validate_job :: "job \<Rightarrow> spec_error + unit" where
  "validate_job j =
     (if \<not> job_scalars_ok j then Inl Spec_Document
      else if \<not> all_with_previous retry_reason_ok [] (rt_on (js_retry (jb_spec j))) then Inl Spec_Document
      else if \<not> all_with_previous job_output_ok [] (js_outputs (jb_spec j)) then Inl Spec_Document
      else if \<not> all_with_previous job_input_ok [] (js_inputs (jb_spec j)) then Inl Spec_Document
      else Inr ())"

definition from_assignment ::
  "'x externals_scheme \<Rightarrow> assignment \<Rightarrow> spec_error + execution_spec" where
  "from_assignment x a =
     (let raw = as_canonical_job_spec_json a in
      if raw = [] \<or> 2 * 1024 * 1024 < length raw then Inl Spec_Document
      else let hash = hex (x_sha256 x raw) in
      if hash \<noteq> as_spec_sha256 a then Inl Spec_Checksum
      else and_then (check_shape x raw) (\<lambda>_.
           and_then (ok_or Spec_Document (Option.bind (x_parse x raw) decode_job)) (\<lambda>j.
           and_then (validate_job j) (\<lambda>_.
      let s = jb_spec j in
      if length (js_inputs s) \<noteq> length (as_inputs a)
         \<or> list_ex (\<lambda>(declared, wire). ji_dataset declared \<noteq> im_dataset_name wire
               \<or> ji_mount_path declared \<noteq> im_mount_path wire) (zip (js_inputs s) (as_inputs a))
      then Inl Spec_WireMismatch
      else and_then (ok_or Spec_WireMismatch (as_resources a)) (\<lambda>r.
      if js_image s \<noteq> as_image_digest a
         \<or> js_command s @ js_args s \<noteq> as_argv a
         \<or> jr_cpu_millis (js_resources s) \<noteq> ucast (wr_cpu_millis r)
         \<or> push_bit 20 (jr_memory_mib (js_resources s)) \<noteq> wr_memory_bytes r
         \<or> push_bit 20 (jr_scratch_mib (js_resources s)) \<noteq> wr_scratch_bytes r
      then Inl Spec_WireMismatch
      else Inr \<lparr>es_job = j, es_sha256 = hash\<rparr>)))))"

section \<open>Overlap of paths is overlap of components\<close>

lemma split_on_append: "split_on c (p @ c # s) = split_on c p @ split_on c s"
proof (induction p)
  case (Cons x p)
  obtain q qs where "split_on c p = q # qs"
    by (meson split_on_not_Nil neq_Nil_conv)
  with Cons show ?case by simp
qed simp

lemma join_with_append: "xs \<noteq> [] \<Longrightarrow> ys \<noteq> [] \<Longrightarrow> join_with c (xs @ ys) = join_with c xs @ c # join_with c ys"
proof (induction xs)
  case (Cons x xs)
  then show ?case by (cases "xs = []") (simp_all add: join_with_Cons)
qed simp

lemma under_iff_prefix:
  "(\<exists>r. a = b @ c # r) \<longleftrightarrow> strict_prefix (split_on c b) (split_on c a)"
proof
  assume "\<exists>r. a = b @ c # r"
  then show "strict_prefix (split_on c b) (split_on c a)"
    by (auto simp: split_on_append strict_prefix_def)
next
  assume "strict_prefix (split_on c b) (split_on c a)"
  then obtain rest where rest: "split_on c a = split_on c b @ rest" "rest \<noteq> []"
    by (auto simp: strict_prefix_def prefix_def)
  have "a = join_with c (split_on c b @ rest)"
    using rest(1) join_split by metis
  also have "\<dots> = b @ c # join_with c rest"
    using rest(2) by (simp add: join_with_append join_split)
  finally show "\<exists>r. a = b @ c # r" by blast
qed

lemma split_on_inject: "split_on c a = split_on c b \<longleftrightarrow> a = b"
  by (metis join_split)

lemma overlaps_iff:
  "overlaps a b \<longleftrightarrow>
     prefix (split_on CHR ''/'' a) (split_on CHR ''/'' b) \<or> prefix (split_on CHR ''/'' b) (split_on CHR ''/'' a)"
proof -
  have "is_some_and (\<lambda>rest. starts_with rest ''/'') (strip_prefix p q)
      \<longleftrightarrow> strict_prefix (split_on CHR ''/'' q) (split_on CHR ''/'' p)" for p q
    unfolding under_iff_prefix [symmetric]
    by (auto simp: is_some_and_iff strip_prefix_Some_iff starts_with_iff)
  then show ?thesis
    by (auto simp: overlaps_def strict_prefix_def split_on_inject)
qed

lemma all_with_previous_iff:
  "all_with_previous p previous ys \<longleftrightarrow> (\<forall>i < length ys. p (previous @ take i ys) (ys ! i))"
proof (induction ys arbitrary: previous)
  case (Cons y ys)
  show ?case
    by (simp add: Cons.IH All_less_Suc2)
qed simp

section \<open>What an accepted specification guarantees\<close>

lemma validate_job_Inr_iff:
  "validate_job j = Inr () \<longleftrightarrow>
     job_scalars_ok j \<and> all_with_previous retry_reason_ok [] (rt_on (js_retry (jb_spec j)))
     \<and> all_with_previous job_output_ok [] (js_outputs (jb_spec j))
     \<and> all_with_previous job_input_ok [] (js_inputs (jb_spec j))"
  by (auto simp: validate_job_def)

lemma from_assignment_Inr:
  assumes "from_assignment x a = Inr spec"
  shows "as_canonical_job_spec_json a \<noteq> []
    \<and> length (as_canonical_job_spec_json a) \<le> 2 * 1024 * 1024
    \<and> es_sha256 spec = hex (x_sha256 x (as_canonical_job_spec_json a)) \<and> es_sha256 spec = as_spec_sha256 a
    \<and> validate_job (es_job spec) = Inr ()
    \<and> length (js_inputs (jb_spec (es_job spec))) = length (as_inputs a)
    \<and> (\<forall>(d, w) \<in> set (zip (js_inputs (jb_spec (es_job spec))) (as_inputs a)).
         ji_dataset d = im_dataset_name w \<and> ji_mount_path d = im_mount_path w)
    \<and> (\<exists>r. as_resources a = Some r
         \<and> js_image (jb_spec (es_job spec)) = as_image_digest a
         \<and> js_command (jb_spec (es_job spec)) @ js_args (jb_spec (es_job spec)) = as_argv a
         \<and> jr_cpu_millis (js_resources (jb_spec (es_job spec))) = ucast (wr_cpu_millis r)
         \<and> push_bit 20 (jr_memory_mib (js_resources (jb_spec (es_job spec)))) = wr_memory_bytes r
         \<and> push_bit 20 (jr_scratch_mib (js_resources (jb_spec (es_job spec)))) = wr_scratch_bytes r)"
proof -
  let ?raw = "as_canonical_job_spec_json a"
  obtain j where j: "check_shape x ?raw = Inr ()" "Option.bind (x_parse x ?raw) decode_job = Some j"
    "validate_job j = Inr ()" and raw: "?raw \<noteq> []" "length ?raw \<le> 2 * 1024 * 1024"
    "hex (x_sha256 x ?raw) = as_spec_sha256 a"
    using assms by (auto simp: from_assignment_def Let_def split: if_splits)
  then show ?thesis
    using assms by (auto simp: from_assignment_def Let_def list_ex_iff split: if_splits)
qed

lemma unat_mib: "within 1 hi v \<Longrightarrow> hi \<le> 1073741824 \<Longrightarrow> unat (push_bit 20 v) = unat v * 2 ^ 20"
proof -
  assume "within 1 hi v" "hi \<le> 1073741824"
  then have "unat v \<le> 1073741824"
    by (auto simp: within_def word_le_nat_alt)
  then show ?thesis
    by (simp add: push_bit_eq_mult unat_word_ariths)
qed

text \<open>C33. An accepted specification is the one the assignment was leased for: the digest of
  the received bytes is the assignment's, the image and the command line are identical, and
  memory and scratch space in bytes are the document's mebibytes exactly, the 64-bit shift
  losing nothing.\<close>

theorem spec_matches_assignment:
  assumes "from_assignment x a = Inr spec"
  shows "\<exists>r. as_resources a = Some r
    \<and> as_spec_sha256 a = hex (x_sha256 x (as_canonical_job_spec_json a))
    \<and> pinned_image (as_image_digest a) \<and> js_image (jb_spec (es_job spec)) = as_image_digest a
    \<and> as_argv a = js_command (jb_spec (es_job spec)) @ js_args (jb_spec (es_job spec))
    \<and> as_argv a \<noteq> [] \<and> length (as_argv a) \<le> 256
    \<and> unat (wr_memory_bytes r) = unat (jr_memory_mib (js_resources (jb_spec (es_job spec)))) * 2 ^ 20
    \<and> unat (wr_scratch_bytes r) = unat (jr_scratch_mib (js_resources (jb_spec (es_job spec)))) * 2 ^ 20
    \<and> unat (wr_memory_bytes r) \<noteq> 0 \<and> unat (wr_scratch_bytes r) \<noteq> 0"
proof -
  let ?s = "jb_spec (es_job spec)"
  note f = from_assignment_Inr [OF assms]
  then obtain r where r: "as_resources a = Some r" "js_image ?s = as_image_digest a"
    "js_command ?s @ js_args ?s = as_argv a"
    "push_bit 20 (jr_memory_mib (js_resources ?s)) = wr_memory_bytes r"
    "push_bit 20 (jr_scratch_mib (js_resources ?s)) = wr_scratch_bytes r"
    by blast
  from f have "job_scalars_ok (es_job spec)"
    by (simp add: validate_job_Inr_iff)
  then have s: "pinned_image (js_image ?s)" "js_command ?s \<noteq> []"
    "length (js_command ?s) + length (js_args ?s) \<le> 256"
    "within 1 16777216 (jr_memory_mib (js_resources ?s))"
    "within 1 1073741824 (jr_scratch_mib (js_resources ?s))"
    by (simp_all add: job_scalars_ok_def Let_def)
  have pos: "0 < unat v" if "within 1 hi v" for hi v
    using that by (simp add: within_def word_le_nat_alt)
  have "unat (wr_memory_bytes r) = unat (jr_memory_mib (js_resources ?s)) * 2 ^ 20"
    "unat (wr_scratch_bytes r) = unat (jr_scratch_mib (js_resources ?s)) * 2 ^ 20"
    using unat_mib [OF s(4)] unat_mib [OF s(5)] r(4,5) by simp_all
  moreover have "as_argv a \<noteq> []" "length (as_argv a) \<le> 256"
    using s(2,3) r(3) [symmetric] by simp_all
  moreover have "as_spec_sha256 a = hex (x_sha256 x (as_canonical_job_spec_json a))"
    using f by metis
  ultimately show ?thesis
    using r s(1) pos [OF s(4)] pos [OF s(5)] by (intro exI [of _ r]) simp
qed

lemma output_path_components:
  assumes "path_in root p" and "root = CHR ''/'' # dir @ ''/''" and "CHR ''/'' \<notin> set dir"
  shows "\<exists>parts. split_on CHR ''/'' p = [] # dir # parts \<and> parts \<noteq> []
    \<and> (\<forall>q \<in> set parts. q \<notin> {[], ''.'', ''..''})"
proof -
  obtain r where p: "p = CHR ''/'' # dir @ CHR ''/'' # r"
    using assms(1,2) by (auto simp: path_in_def starts_with_iff)
  then have s: "split_on CHR ''/'' p = [] # dir # split_on CHR ''/'' r"
    using assms(3) by (simp add: split_on_append_sep)
  have "split_on CHR ''/'' (drop 1 p) = dir # split_on CHR ''/'' r"
    using p assms(3) by (simp add: split_on_append_sep)
  then show ?thesis
    using s assms(1) by (auto simp: path_in_def list_all_iff)
qed

lemma accepted_output_ok:
  assumes "from_assignment x a = Inr spec" and "k < length (js_outputs (jb_spec (es_job spec)))"
  shows "job_output_ok (take k (js_outputs (jb_spec (es_job spec)))) (js_outputs (jb_spec (es_job spec)) ! k)"
  using from_assignment_Inr [OF assms(1)] assms(2) by (simp add: validate_job_Inr_iff all_with_previous_iff)

text \<open>C34. The declared outputs of an accepted specification are confined and apart: every
  path, that of the only or the first output included, lies strictly below \<open>/outputs\<close>
  without empty, \<open>.\<close> or \<open>..\<close> components, and of two outputs at different places of the list
  the names differ and no path is equal to, above or below the other one, so collecting one
  never reads another.\<close>

theorem outputs_confined_and_apart:
  assumes "from_assignment x a = Inr spec"
  defines "outs \<equiv> js_outputs (jb_spec (es_job spec))"
  defines "comps k \<equiv> split_on CHR ''/'' (jo_path (outs ! k))"
  shows "(\<forall>k < length outs. \<exists>parts. comps k = [] # ''outputs'' # parts \<and> parts \<noteq> []
      \<and> (\<forall>q \<in> set parts. q \<notin> {[], ''.'', ''..''}))
    \<and> (\<forall>i < length outs. \<forall>j < length outs. i \<noteq> j \<longrightarrow>
         \<not> prefix (comps i) (comps j) \<and> jo_name (outs ! i) \<noteq> jo_name (outs ! j))"
proof -
  have ok: "job_output_ok (take k outs) (outs ! k)" if "k < length outs" for k
    using accepted_output_ok [OF assms(1)] that by (simp add: outs_def)
  have "path_in ''/outputs/'' (jo_path (outs ! k))" if "k < length outs" for k
    using ok [OF that] by (simp add: job_output_ok_def output_path_def)
  then have confined: "\<forall>k < length outs. \<exists>parts. comps k = [] # ''outputs'' # parts \<and> parts \<noteq> []
      \<and> (\<forall>q \<in> set parts. q \<notin> {[], ''.'', ''..''})"
    unfolding comps_def by (intro allI impI output_path_components) simp_all
  have apart: "\<not> prefix (comps i) (comps j) \<and> \<not> prefix (comps j) (comps i) \<and> jo_name (outs ! i) \<noteq> jo_name (outs ! j)"
    if "i < j" "j < length outs" for i j
  proof -
    have "outs ! i \<in> set (take j outs)"
      using that by (auto simp: in_set_conv_nth)
    then have "jo_name (outs ! i) \<noteq> jo_name (outs ! j)" "\<not> overlaps (jo_path (outs ! i)) (jo_path (outs ! j))"
      using ok [OF that(2)] by (auto simp: job_output_ok_def list_ex_iff)
    then show ?thesis
      by (simp add: overlaps_iff comps_def)
  qed
  have "\<not> prefix (comps i) (comps j) \<and> jo_name (outs ! i) \<noteq> jo_name (outs ! j)"
    if "i < length outs" "j < length outs" "i \<noteq> j" for i j
    using that(3) apart [of i j] apart [of j i] that(1,2) by (cases i j rule: linorder_cases) auto
  then show ?thesis
    using confined by blast
qed


subsection \<open>A concrete specification\<close>

definition sample_image :: string where
  "sample_image = ''img@sha256:'' @ fixture_hash CHR ''b''"

definition sample_job_output :: "char \<Rightarrow> json" where
  "sample_job_output c = JObject
     [(''name'', JString [c]), (''path'', JString (''/outputs/'' @ [c])), (''required'', JBool True),
      (''maxBytes'', JNumber ''9'')]"

definition sample_job_json :: json where
  "sample_job_json = JObject
     [(''apiVersion'', JString ''dispatch.dev/v1alpha1''), (''kind'', JString ''Job''),
      (''metadata'', JObject [(''name'', JString ''n''), (''project'', JString ''p'')]),
      (''spec'', JObject
         [(''image'', JString sample_image), (''command'', JArray [JString ''run'']),
          (''resources'', JObject [(''cpuMillis'', JNumber ''1''), (''memoryMiB'', JNumber ''2''), (''scratchMiB'', JNumber ''3'')]),
          (''placement'', JObject []),
          (''outputs'', JArray [sample_job_output CHR ''a'', sample_job_output CHR ''b'']),
          (''timeouts'', JObject [(''startupSeconds'', JNumber ''1''), (''executionSeconds'', JNumber ''2''), (''finalizationSeconds'', JNumber ''3'')]),
          (''retry'', JObject [(''maxAttempts'', JNumber ''1''), (''initialBackoffSeconds'', JNumber ''1''), (''maxBackoffSeconds'', JNumber ''2'')]),
          (''terminationGraceSeconds'', JNumber ''5''), (''network'', JString ''disabled'')])]"

definition sample_job :: job where
  "sample_job =
     \<lparr>jb_api_version = ''dispatch.dev/v1alpha1'', jb_kind = ''Job'',
      jb_metadata = \<lparr>md_name = ''n'', md_project = ''p'', md_labels = []\<rparr>,
      jb_spec = \<lparr>js_priority = 0, js_image = sample_image, js_command = [''run''], js_args = [], js_env = [],
        js_resources = \<lparr>jr_cpu_millis = 1, jr_memory_mib = 2, jr_scratch_mib = 3\<rparr>,
        js_placement_labels = [], js_inputs = [],
        js_outputs = [\<lparr>jo_name = ''a'', jo_path = ''/outputs/a'', jo_required = True, jo_max_bytes = 9\<rparr>,
                      \<lparr>jo_name = ''b'', jo_path = ''/outputs/b'', jo_required = True, jo_max_bytes = 9\<rparr>],
        js_timeouts = \<lparr>to_startup_seconds = 1, to_execution_seconds = 2, to_finalization_seconds = 3\<rparr>,
        js_retry = \<lparr>rt_max_attempts = 1, rt_on = [], rt_initial_backoff_seconds = 1, rt_max_backoff_seconds = 2\<rparr>,
        js_termination_grace_seconds = 5, js_network = ''disabled''\<rparr>\<rparr>"

definition sample_job_externals :: externals where
  "sample_job_externals =
     \<lparr>x_sha256 = (\<lambda>_. replicate 32 0), x_parse = (\<lambda>b. if b = [1] then Some sample_job_json else None),
      x_print = (\<lambda>_. [])\<rparr>"

definition sample_assignment :: assignment where
  "sample_assignment =
     \<lparr>as_authority = Some fixture_authority, as_image_digest = sample_image, as_argv = [''run''],
      as_resources = Some \<lparr>wr_cpu_millis = 1, wr_memory_bytes = 2 * 2 ^ 20, wr_scratch_bytes = 3 * 2 ^ 20\<rparr>,
      as_canonical_job_spec_json = [1], as_spec_sha256 = hex (replicate 32 0),
      as_lease_duration_ms = 0, as_server_time_unix_ms = 0, as_phase_remaining_ms = 0, as_inputs = []\<rparr>"

lemma sample_numbers:
  "as_u64 (JNumber ''1'') = Some 1" "as_u64 (JNumber ''2'') = Some 2" "as_u64 (JNumber ''3'') = Some 3"
  "as_u64 (JNumber ''5'') = Some 5" "as_u64 (JNumber ''9'') = Some 9"
  by (simp_all add: as_u64_def as_int_in_def number_int_def is_ascii_digit_def less_eq_char_def digits_value_def)

lemmas json_decoding = struct_members_def field_def field_default_def as_string_def as_bool_def as_list_def
  sample_numbers

lemma sample_output_decodes:
  "decode_output (sample_job_output c)
     = Some \<lparr>jo_name = [c], jo_path = ''/outputs/'' @ [c], jo_required = True, jo_max_bytes = 9\<rparr>"
  by (simp add: decode_output_def sample_job_output_def json_decoding)

lemma sample_job_decodes: "decode_job sample_job_json = Some sample_job"
proof -
  have "decode_resources (JObject [(''cpuMillis'', JNumber ''1''), (''memoryMiB'', JNumber ''2''), (''scratchMiB'', JNumber ''3'')])
      = Some (js_resources (jb_spec sample_job))"
    "decode_timeouts (JObject [(''startupSeconds'', JNumber ''1''), (''executionSeconds'', JNumber ''2''), (''finalizationSeconds'', JNumber ''3'')])
      = Some (js_timeouts (jb_spec sample_job))"
    "decode_retry (JObject [(''maxAttempts'', JNumber ''1''), (''initialBackoffSeconds'', JNumber ''1''), (''maxBackoffSeconds'', JNumber ''2'')])
      = Some (js_retry (jb_spec sample_job))"
    "decode_placement (JObject []) = Some []"
    "decode_metadata (JObject [(''name'', JString ''n''), (''project'', JString ''p'')]) = Some (jb_metadata sample_job)"
    by (simp_all add: decode_resources_def decode_timeouts_def decode_retry_def decode_placement_def
        decode_metadata_def json_decoding sample_job_def)
  then show ?thesis
    by (simp add: decode_job_def decode_settings_def sample_job_json_def json_decoding sample_output_decodes)
      (simp add: sample_job_def)
qed

lemma sample_image_ok: "pinned_image sample_image" "image_text_ok sample_image"
proof -
  have unpinned: "rsplit_once (replicate n CHR ''b'') ''@sha256:'' = None" for n
    by (induction n) (simp_all add: strip_prefix_def starts_with_def)
  have "rsplit_once sample_image ''@sha256:'' = Some (''img'', fixture_hash CHR ''b'')"
    by (simp add: sample_image_def fixture_hash_def unpinned strip_prefix_def starts_with_def)
  then show "pinned_image sample_image"
    by (simp add: pinned_image_def)
  have "utf8_points (replicate n 98) = replicate n 98" for n
    by (induction n) simp_all
  then show "image_text_ok sample_image"
    by (simp add: image_text_ok_def sample_image_def fixture_hash_def code_points_def point_is_whitespace_def
        point_is_control_def list_ex_iff)
qed

lemma sample_job_valid: "validate_job sample_job = Inr ()"
proof -
  have alnum: "is_ascii_alphanumeric c" if "c \<in> set ''npab''" for c
    using that by (auto simp: is_ascii_alphanumeric_def is_ascii_alphabetic_def less_eq_char_def)
  have ident: "spec_identifier ''n'' False" "spec_identifier ''p'' False" "spec_identifier ''a'' False"
    "spec_identifier ''b'' False"
    by (simp_all add: spec_identifier_def alnum)
  have "job_scalars_ok sample_job"
    by (simp add: job_scalars_ok_def sample_job_def ident valid_map_def sample_image_ok argv_ok_def within_def)
  moreover have "output_path ''/outputs/a''" "output_path ''/outputs/b''"
    by (simp_all add: output_path_def path_in_def starts_with_def)
  then have "all_with_previous job_output_ok [] (js_outputs (jb_spec sample_job))"
    by (simp add: sample_job_def job_output_ok_def ident within_def overlaps_def strip_prefix_def starts_with_def)
  ultimately show ?thesis
    by (simp add: validate_job_Inr_iff) (simp add: sample_job_def)
qed

text \<open>The specification does not depend on the timing of the grant.\<close>

lemma from_assignment_timing [simp]:
  "from_assignment x (a\<lparr>as_lease_duration_ms := l\<rparr>) = from_assignment x a"
  "from_assignment x (a\<lparr>as_phase_remaining_ms := p\<rparr>) = from_assignment x a"
  "from_assignment x (a\<lparr>as_server_time_unix_ms := t\<rparr>) = from_assignment x a"
  by (simp_all add: from_assignment_def Let_def cong: if_cong)

lemma sample_from_assignment:
  assumes x: "x_parse x [1] = Some sample_job_json" "x_sha256 x [1] = replicate 32 0"
  shows "from_assignment x sample_assignment = Inr \<lparr>es_job = sample_job, es_sha256 = hex (replicate 32 0)\<rparr>"
proof -
  have shape: "check_shape x [1] = Inr ()"
    by (simp add: check_shape_def x sample_job_json_def shape_pointers_def value_get_def
        is_object_def sample_job_output_def)
  show ?thesis
    unfolding from_assignment_def sample_assignment_def assignment.simps x Let_def shape and_then_simps
    by (simp add: sample_job_decodes sample_job_valid)
      (simp add: sample_job_def push_bit_eq_mult)
qed

lemma sample_from_job_externals:
  "from_assignment sample_job_externals sample_assignment
     = Inr \<lparr>es_job = sample_job, es_sha256 = hex (replicate 32 0)\<rparr>"
  by (rule sample_from_assignment) (simp_all add: sample_job_externals_def)

theorem spec_matches_assignment_witness:
  "unat (wr_memory_bytes (the (as_resources sample_assignment))) = 2 * 2 ^ 20
   \<and> pinned_image (as_image_digest sample_assignment)"
  using spec_matches_assignment [OF sample_from_job_externals]
  by (simp add: sample_assignment_def)

theorem outputs_confined_and_apart_witness:
  "(\<exists>parts. split_on CHR ''/'' (jo_path (js_outputs (jb_spec sample_job) ! 0)) = [] # ''outputs'' # parts)
   \<and> \<not> prefix (split_on CHR ''/'' (jo_path (js_outputs (jb_spec sample_job) ! 0)))
              (split_on CHR ''/'' (jo_path (js_outputs (jb_spec sample_job) ! 1)))"
proof -
  have two: "0 < length (js_outputs (jb_spec sample_job))" "1 < length (js_outputs (jb_spec sample_job))"
    by (simp_all add: sample_job_def)
  from outputs_confined_and_apart [OF sample_from_job_externals] two show ?thesis
    by (metis execution_spec.select_convs(1) zero_neq_one)
qed

end
