(* ===== verification/Datasets.thy ===== *)
theory Datasets
  imports Execution
begin

text \<open>
  \<open>rust/worker/src/dataset_staging.rs\<close>, \<open>dataset_download.rs\<close>, \<open>dataset_prepare.rs\<close> and the
  validation of \<open>dataset_assignment.rs\<close>: the manifest of a dataset, the signed download
  of one object version, the verified extraction of its archive, and the inputs of an
  assignment. The URL parser, the IP-address parser and the tar reader extend the
  \<open>externals\<close>; what the network delivers and which file-system calls fail are arguments.
  A published tree is the list of its files in archive order.
\<close>

section \<open>The code\<close>

definition max_archive_bytes :: u64 where
  "max_archive_bytes = 64 * 1024 * 1024"

text \<open>\<open>checked_add\<close> of the length of a buffer.\<close>

definition checked_add_len :: "u64 \<Rightarrow> nat \<Rightarrow> u64 option" where
  "checked_add_len a n = (if unat a + n < 2 ^ 64 then Some (a + word_of_nat n) else None)"

subsection \<open>Manifests: \<open>dataset_staging.rs\<close>\<close>

record dataset_file =
  df_path :: string
  df_size_bytes :: u64
  df_sha256 :: string

record dataset_manifest =
  dm_format :: string
  dm_files :: "dataset_file list"

datatype stage_error =
  Stage_InvalidManifest | Stage_InvalidArchive | Stage_InvalidWorkspace | Stage_AlreadyPublished | Stage_Io string

definition decode_dataset_file :: "json \<Rightarrow> dataset_file option" where
  "decode_dataset_file v =
     Option.bind (struct_members True [''path'', ''sizeBytes'', ''sha256''] v) (\<lambda>ms.
     Option.bind (field ms ''path'' as_string) (\<lambda>path.
     Option.bind (field ms ''sizeBytes'' as_u64) (\<lambda>sz.
     Option.bind (field ms ''sha256'' as_string) (\<lambda>sha.
       Some \<lparr>df_path = path, df_size_bytes = sz, df_sha256 = sha\<rparr>))))"

definition decode_dataset_manifest :: "json \<Rightarrow> dataset_manifest option" where
  "decode_dataset_manifest v =
     Option.bind (struct_members True [''format'', ''files''] v) (\<lambda>ms.
     Option.bind (field ms ''format'' as_string) (\<lambda>format.
     Option.bind (field ms ''files'' (as_list decode_dataset_file)) (\<lambda>files.
       Some \<lparr>dm_format = format, dm_files = files\<rparr>)))"

text \<open>\<open>Path::parent\<close>, repeated: for a relative path of normal components these are the
  joined proper prefixes, the empty path last.\<close>

definition path_ancestors :: "string \<Rightarrow> string list" where
  "path_ancestors path =
     (let parts = split_on CHR ''/'' path
      in map (\<lambda>k. join_with CHR ''/'' (take k parts)) (rev [0..<length parts]))"

definition manifest_path_ok :: "string \<Rightarrow> bool" where
  "manifest_path_ok path \<longleftrightarrow>
     length path \<le> 512 \<and> path \<noteq> []
     \<and> CHR 0x5C \<notin> set path \<and> CHR 0x00 \<notin> set path
     \<and> \<not> list_ex point_is_control (code_points path)
     \<and> \<not> list_ex (\<lambda>part. part = [] \<or> part = ''.'' \<or> part = ''..'') (split_on CHR ''/'' path)"

fun check_manifest_files :: "string \<Rightarrow> u64 \<Rightarrow> string list \<Rightarrow> dataset_file list \<Rightarrow> stage_error + unit" where
  "check_manifest_files previous total_bytes files [] = Inr ()"
| "check_manifest_files previous total_bytes files (f # fs) =
     (if \<not> manifest_path_ok (df_path f) \<or> df_path f \<le> previous \<or> \<not> lower_hash (df_sha256 f)
      then Inl Stage_InvalidManifest
      else if list_ex (\<lambda>dir. dir \<in> set files) (path_ancestors (df_path f)) then Inl Stage_InvalidManifest
      else and_then (ok_or Stage_InvalidManifest (checked_add total_bytes (df_size_bytes f))) (\<lambda>sum.
        if max_archive_bytes < sum then Inl Stage_InvalidManifest
        else check_manifest_files (df_path f) sum (df_path f # files) fs))"

definition validate_dataset_manifest :: "dataset_manifest \<Rightarrow> stage_error + unit" where
  "validate_dataset_manifest m =
     (if dm_format m \<noteq> ''tar.v1'' \<or> dm_files m = [] \<or> 1024 < length (dm_files m)
      then Inl Stage_InvalidManifest
      else check_manifest_files [] 0 [] (dm_files m))"

subsection \<open>Staging an archive\<close>

record tar_entry =
  te_is_file :: bool
  te_path :: "string option"
  te_size :: u64
  te_reads :: "(unit + u8 list) list" \<comment> \<open>the successive non-empty reads of its data, or a failed read\<close>

record url =
  du_scheme :: string
  du_username :: string
  du_password :: "string option"
  du_fragment :: "string option"
  du_host :: "string option"
  du_path :: string
  du_query_pairs :: "(string \<times> string) list"

record dataset_externals = externals +
  x_parse_url :: "string \<Rightarrow> url option"
  x_ip_loopback :: "string \<Rightarrow> bool"
  x_tar :: "u8 list \<Rightarrow> (unit + tar_entry) list"

datatype stage_io =
  Stage_Stat | Stage_Create | Stage_Open | Stage_File nat | Stage_Write nat | Stage_Sync nat | Stage_Seal
| Stage_Rename | Stage_Sync_Parent

record stage_env =
  sv_parent_ok :: bool \<comment> \<open>a private directory of this user\<close>
  sv_exists :: bool \<comment> \<open>something is at the destination\<close>
  sv_nonce :: "u8 list option"
  sv_fails :: "stage_io \<Rightarrow> string option"

definition stage_check :: "stage_env \<Rightarrow> stage_io \<Rightarrow> stage_error + unit" where
  "stage_check env op = (case sv_fails env op of None \<Rightarrow> Inr () | Some e \<Rightarrow> Inl (Stage_Io e))"

fun copy_reads :: "stage_env \<Rightarrow> nat \<Rightarrow> dataset_file \<Rightarrow> u64 \<Rightarrow> u8 list \<Rightarrow> (unit + u8 list) list
    \<Rightarrow> stage_error + (u64 \<times> u8 list)" where
  "copy_reads env n declared copied written [] = Inr (copied, written)"
| "copy_reads env n declared copied written (Inl _ # rs) = Inl Stage_InvalidArchive"
| "copy_reads env n declared copied written (Inr chunk # rs) =
     and_then (ok_or Stage_InvalidArchive (checked_add_len copied (length chunk))) (\<lambda>copied'.
       if df_size_bytes declared < copied' then Inl Stage_InvalidArchive
       else and_then (stage_check env (Stage_Write n)) (\<lambda>_.
         copy_reads env n declared copied' (written @ chunk) rs))"

definition stage_entry ::
  "'x externals_scheme \<Rightarrow> stage_env \<Rightarrow> nat \<Rightarrow> dataset_file \<Rightarrow> tar_entry \<Rightarrow> stage_error + (string \<times> u8 list)" where
  "stage_entry x env n declared entry =
     (if \<not> te_is_file entry \<or> te_path entry \<noteq> Some (df_path declared) \<or> te_size entry \<noteq> df_size_bytes declared
      then Inl Stage_InvalidArchive
      else and_then (stage_check env (Stage_File n)) (\<lambda>_.
           and_then (copy_reads env n declared 0 [] (te_reads entry)) (\<lambda>(copied, written).
             if copied \<noteq> df_size_bytes declared \<or> hex (x_sha256 x written) \<noteq> df_sha256 declared
             then Inl Stage_InvalidArchive
             else and_then (stage_check env (Stage_Sync n)) (\<lambda>_. Inr (df_path declared, written)))))"

type_synonym tree = "(string \<times> u8 list) list"

fun stage_entries ::
  "'x externals_scheme \<Rightarrow> stage_env \<Rightarrow> dataset_file list \<Rightarrow> nat \<Rightarrow> tree \<Rightarrow> (unit + tar_entry) list
     \<Rightarrow> stage_error + (nat \<times> tree)" where
  "stage_entries x env files n staged [] = Inr (n, staged)"
| "stage_entries x env files n staged (Inl _ # items) = Inl Stage_InvalidArchive"
| "stage_entries x env files n staged (Inr entry # items) =
     (if length files \<le> n then Inl Stage_InvalidArchive
      else and_then (stage_entry x env n (files ! n) entry) (\<lambda>file.
        stage_entries x env files (Suc n) (staged @ [file]) items))"

text \<open>The result of \<open>stage_archive\<close> and the tree that is at the destination afterwards,
  if the call put one there. \<open>archive\<close> is what the archive path holds: a regular file's
  bytes, or \<open>None\<close>.\<close>

definition stage_archive ::
  "'x dataset_externals_scheme \<Rightarrow> stage_env \<Rightarrow> u8 list option \<Rightarrow> dataset_manifest
     \<Rightarrow> (stage_error + unit) \<times> tree option" where
  "stage_archive x env archive m =
     (let prepared =
        and_then (validate_dataset_manifest m) (\<lambda>_.
          if \<not> sv_parent_ok env \<or> sv_exists env then Inl Stage_InvalidWorkspace
          else and_then (stage_check env Stage_Stat) (\<lambda>_.
               and_then (ok_or Stage_InvalidArchive archive) (\<lambda>bytes.
          if unat max_archive_bytes < length bytes then Inl Stage_InvalidArchive
          else and_then (map_err (\<lambda>_. Stage_InvalidWorkspace) (new_uuid (sv_nonce env))) (\<lambda>_.
               and_then (stage_check env Stage_Create) (\<lambda>_.
               and_then (stage_check env Stage_Open) (\<lambda>_.
               and_then (stage_entries x env (dm_files m) 0 [] (x_tar x bytes)) (\<lambda>(count, staged).
          if count \<noteq> length (dm_files m) then Inl Stage_InvalidArchive
          else and_then (stage_check env Stage_Seal) (\<lambda>_. Inr staged))))))))
      in case prepared of
        Inl e \<Rightarrow> (Inl e, None)
      | Inr staged \<Rightarrow>
          (case sv_fails env Stage_Rename of
             Some e \<Rightarrow> (Inl (if e = ''AlreadyExists'' then Stage_AlreadyPublished else Stage_Io e), None)
           | None \<Rightarrow> (stage_check env Stage_Sync_Parent, Some staged)))"

subsection \<open>Downloading one object version: \<open>dataset_download.rs\<close>\<close>

datatype download_error =
  Download_Grant | Download_Integrity | Download_Transport | Download_File | Download_AlreadyPublished

definition is_ascii_control :: "char \<Rightarrow> bool" where
  "is_ascii_control c \<longleftrightarrow> (of_char c :: nat) < 32 \<or> (of_char c :: nat) = 127"

definition archive_key_ok :: "string \<Rightarrow> bool" where
  "archive_key_ok key \<longleftrightarrow>
     key \<noteq> [] \<and> length key \<le> 1024
     \<and> list_all (\<lambda>part. part \<noteq> []
          \<and> list_all (\<lambda>b. is_ascii_alphanumeric b \<or> b = CHR ''-'' \<or> b = CHR ''_'') part)
        (split_on CHR ''/'' key)"

definition trim_brackets :: "string \<Rightarrow> string" where
  "trim_brackets s =
     (let p = (\<lambda>c. c = CHR ''['' \<or> c = CHR '']'') in rev (dropWhile p (rev (dropWhile p s))))"

definition download_grant ::
  "'x dataset_externals_scheme \<Rightarrow> bool \<Rightarrow> nat option \<Rightarrow> object_version \<Rightarrow> string \<Rightarrow> i64
     \<Rightarrow> download_error + url" where
  "download_grant x allow_loopback_http now obj raw_url expires =
     (if \<not> archive_key_ok (ov_key obj)
         \<or> \<not> valid_version (ov_version_id obj)
         \<or> max_archive_bytes < ov_size_bytes obj
         \<or> \<not> lower_hash (ov_sha256 obj)
         \<or> 64 * 1024 < length raw_url
         \<or> CHR 0x5C \<in> set raw_url
         \<or> list_ex is_ascii_control raw_url
      then Inl Download_Grant
      else and_then (ok_or Download_Grant now) (\<lambda>now_ms.
        if sint expires \<le> 0 \<or> sint expires \<le> int now_ms \<or> int now_ms + 5 * 60000 < sint expires
        then Inl Download_Grant
        else and_then (ok_or Download_Grant (x_parse_url x raw_url)) (\<lambda>u.
          let loopback = is_some_and (\<lambda>host. x_ip_loopback x (trim_brackets host)) (du_host u);
              versions = map snd (filter (\<lambda>(name, _). name = ''versionId'') (du_query_pairs u))
          in if du_username u \<noteq> [] \<or> du_password u \<noteq> None \<or> du_fragment u \<noteq> None
                \<or> \<not> (du_scheme u = ''https'' \<or> (allow_loopback_http \<and> du_scheme u = ''http'' \<and> loopback))
                \<or> strip_suffix (du_path u) (CHR ''/'' # ov_key obj) = None
                \<or> versions \<noteq> [ov_version_id obj]
             then Inl Download_Grant else Inr u)))"

record download_reply =
  dr_status_ok :: bool
  dr_content_length :: "u64 option"
  dr_chunks :: "(unit + u8 list) list"

record download_env =
  dv_parent :: "bool option" \<comment> \<open>whether the parent directory is private; \<open>None\<close>: no metadata\<close>
  dv_exists :: bool
  dv_nonce :: "u8 list option"
  dv_create_fails :: bool
  dv_now :: "nat option"
  dv_later :: "nat option" \<comment> \<open>the clock when the transfer starts\<close>
  dv_reply :: "unit + download_reply" \<comment> \<open>\<open>Inl\<close>: the request failed or the time limit ran out\<close>
  dv_write_fails :: bool
  dv_sync_fails :: bool
  dv_chmod_fails :: bool
  dv_rename :: "string option" \<comment> \<open>the error of the rename\<close>
  dv_parent_sync_fails :: bool

fun receive_chunks ::
  "download_env \<Rightarrow> object_version \<Rightarrow> u64 \<Rightarrow> u8 list \<Rightarrow> (unit + u8 list) list \<Rightarrow> download_error + (u64 \<times> u8 list)" where
  "receive_chunks env obj received written [] = Inr (received, written)"
| "receive_chunks env obj received written (Inl _ # cs) = Inl Download_Transport"
| "receive_chunks env obj received written (Inr chunk # cs) =
     and_then (ok_or Download_Integrity
         (case checked_add_len received (length chunk) of
            Some count \<Rightarrow> if count \<le> ov_size_bytes obj then Some count else None
          | None \<Rightarrow> None)) (\<lambda>received'.
       if dv_write_fails env then Inl Download_File
       else receive_chunks env obj received' (written @ chunk) cs)"

definition download_transfer ::
  "'x externals_scheme \<Rightarrow> download_env \<Rightarrow> object_version \<Rightarrow> download_error + u8 list" where
  "download_transfer x env obj =
     and_then (map_err (\<lambda>_. Download_Transport) (dv_reply env)) (\<lambda>reply.
       if \<not> dr_status_ok reply then Inl Download_Transport
       else if is_some_and (\<lambda>n. n \<noteq> ov_size_bytes obj) (dr_content_length reply) then Inl Download_Integrity
       else and_then (receive_chunks env obj 0 [] (dr_chunks reply)) (\<lambda>(received, written).
         if received \<noteq> ov_size_bytes obj \<or> hex (x_sha256 x written) \<noteq> ov_sha256 obj then Inl Download_Integrity
         else if dv_sync_fails env then Inl Download_File
         else Inr written))"

text \<open>The result and the bytes at the destination afterwards, if the call put them there.\<close>

definition download ::
  "'x dataset_externals_scheme \<Rightarrow> bool \<Rightarrow> download_env \<Rightarrow> object_version \<Rightarrow> string \<Rightarrow> i64
     \<Rightarrow> (download_error + unit) \<times> u8 list option" where
  "download x allow env obj raw_url expires =
     (let fetched =
        and_then (download_grant x allow (dv_now env) obj raw_url expires) (\<lambda>_.
        and_then (ok_or Download_File (dv_parent env)) (\<lambda>private.
          if \<not> private then Inl Download_File
          else if dv_exists env then Inl Download_AlreadyPublished
          else and_then (map_err (\<lambda>_. Download_File) (new_uuid (dv_nonce env))) (\<lambda>_.
          if dv_create_fails env then Inl Download_File
          else and_then (ok_or Download_Grant (dv_later env)) (\<lambda>now.
          if sint expires \<le> int now then Inl Download_Grant
          else and_then (download_transfer x env obj) (\<lambda>bytes.
          if dv_chmod_fails env then Inl Download_File else Inr bytes)))))
      in case fetched of
        Inl e \<Rightarrow> (Inl e, None)
      | Inr bytes \<Rightarrow>
          (case dv_rename env of
             Some e \<Rightarrow> (Inl (if e = ''AlreadyExists'' then Download_AlreadyPublished else Download_File), None)
           | None \<Rightarrow> (if dv_parent_sync_fails env then Inl Download_File else Inr (), Some bytes)))"

subsection \<open>Preparation: \<open>dataset_prepare.rs\<close>\<close>

datatype prepare_error = Prepare_Download download_error | Prepare_Stage stage_error | Prepare_Workspace

definition prepare_dataset ::
  "'x dataset_externals_scheme \<Rightarrow> bool \<Rightarrow> u8 list option \<Rightarrow> download_env \<Rightarrow> stage_env
     \<Rightarrow> object_version \<Rightarrow> string \<Rightarrow> i64 \<Rightarrow> dataset_manifest \<Rightarrow> (prepare_error + unit) \<times> tree option" where
  "prepare_dataset x allow nonce denv senv obj raw_url expires m =
     (case new_uuid nonce of
        Inl _ \<Rightarrow> (Inl Prepare_Workspace, None)
      | Inr _ \<Rightarrow>
          (case download x allow denv obj raw_url expires of
             (Inl e, _) \<Rightarrow> (Inl (Prepare_Download e), None)
           | (Inr _, archive) \<Rightarrow>
               (case stage_archive x senv archive m of
                  (r, published) \<Rightarrow> (map_err Prepare_Stage r, published))))"

subsection \<open>The inputs of an assignment: \<open>dataset_assignment.rs\<close>\<close>

datatype input_error = Input_Invalid | Input_SpecMismatch

record validated_input =
  vi_dataset_id :: string
  vi_dataset_name :: string
  vi_mount_path :: string
  vi_archive :: object_version
  vi_manifest :: dataset_manifest
  vi_download_url :: string
  vi_expires_unix_ms :: i64

definition valid_mount :: "string \<Rightarrow> bool" where
  "valid_mount path \<longleftrightarrow>
     length path \<le> 4096 \<and> starts_with path ''/inputs/''
     \<and> CHR 0x5C \<notin> set path \<and> CHR 0x00 \<notin> set path
     \<and> list_all (\<lambda>part. part \<noteq> [] \<and> part \<noteq> ''.'' \<and> part \<noteq> ''..'') (drop 1 (split_on CHR ''/'' path))"

definition valid_dataset_name :: "string \<Rightarrow> bool" where
  "valid_dataset_name name \<longleftrightarrow>
     name \<noteq> [] \<and> length name \<le> 128 \<and> is_ascii_alphanumeric (name ! 0)
     \<and> list_all (\<lambda>b. is_ascii_alphanumeric b \<or> b \<in> set ''_.-'') name"

fun sum_sizes :: "u64 \<Rightarrow> dataset_file list \<Rightarrow> u64 option" where
  "sum_sizes acc [] = Some acc"
| "sum_sizes acc (f # fs) = Option.bind (checked_add acc (df_size_bytes f)) (\<lambda>acc'. sum_sizes acc' fs)"

text \<open>Each input reads the wall clock once; \<open>now\<close> in the loop gives the reading for the
  input with that index.\<close>

definition validate_input ::
  "'x dataset_externals_scheme \<Rightarrow> bool \<Rightarrow> nat option \<Rightarrow> validated_input list \<Rightarrow> input_manifest \<Rightarrow> job_input
     \<Rightarrow> input_error + validated_input" where
  "validate_input x allow now validated wire requested =
     (if im_dataset_name wire \<noteq> ji_dataset requested \<or> im_mount_path wire \<noteq> ji_mount_path requested
      then Inl Input_SpecMismatch
      else if \<not> canonical_uuid (im_dataset_id wire)
         \<or> \<not> valid_dataset_name (im_dataset_name wire)
         \<or> \<not> valid_mount (im_mount_path wire)
         \<or> list_ex (\<lambda>previous. overlaps (vi_mount_path previous) (im_mount_path wire)) validated
         \<or> im_file_manifest_json wire = []
         \<or> 2 * 2 ^ 20 < length (im_file_manifest_json wire)
      then Inl Input_Invalid
      else and_then (ok_or Input_Invalid (im_archive wire)) (\<lambda>archive.
        if ov_size_bytes archive = 0 then Inl Input_Invalid
        else and_then (ok_or Input_Invalid
               (Option.bind (x_parse x (im_file_manifest_json wire)) decode_dataset_manifest)) (\<lambda>m.
             and_then (map_err (\<lambda>_. Input_Invalid) (validate_dataset_manifest m)) (\<lambda>_.
             and_then (ok_or Input_Invalid (sum_sizes 0 (dm_files m))) (\<lambda>content.
        if ov_size_bytes archive < content then Inl Input_Invalid
        else and_then (map_err (\<lambda>_. Input_Invalid)
               (download_grant x allow now archive (im_download_url wire) (im_expires_unix_ms wire))) (\<lambda>_.
        Inr \<lparr>vi_dataset_id = im_dataset_id wire, vi_dataset_name = im_dataset_name wire,
             vi_mount_path = im_mount_path wire, vi_archive = archive, vi_manifest = m,
             vi_download_url = im_download_url wire, vi_expires_unix_ms = im_expires_unix_ms wire\<rparr>))))))"

fun validate_each ::
  "'x dataset_externals_scheme \<Rightarrow> bool \<Rightarrow> (nat \<Rightarrow> nat option) \<Rightarrow> validated_input list
     \<Rightarrow> (input_manifest \<times> job_input) list \<Rightarrow> input_error + validated_input list" where
  "validate_each x allow now validated [] = Inr validated"
| "validate_each x allow now validated ((wire, requested) # ps) =
     and_then (validate_input x allow (now (length validated)) validated wire requested) (\<lambda>v.
       validate_each x allow now (validated @ [v]) ps)"

definition validate_inputs ::
  "'x dataset_externals_scheme \<Rightarrow> bool \<Rightarrow> (nat \<Rightarrow> nat option) \<Rightarrow> assignment \<Rightarrow> job_input list
     \<Rightarrow> input_error + validated_input list" where
  "validate_inputs x allow now a expected =
     (if 64 < length expected \<or> length (as_inputs a) \<noteq> length expected then Inl Input_SpecMismatch
      else validate_each x allow now [] (zip (as_inputs a) expected))"

definition stable_assignment :: "assignment \<Rightarrow> assignment" where
  "stable_assignment a =
     a\<lparr>as_lease_duration_ms := 0, as_phase_remaining_ms := 0, as_server_time_unix_ms := 0,
       as_inputs := map (\<lambda>i. i\<lparr>im_download_url := [], im_expires_unix_ms := 0\<rparr>) (as_inputs a)\<rparr>"

definition validate_replayed_input ::
  "'x dataset_externals_scheme \<Rightarrow> bool \<Rightarrow> (nat \<Rightarrow> nat option) \<Rightarrow> assignment \<Rightarrow> assignment \<Rightarrow> job_input list \<Rightarrow> nat
     \<Rightarrow> input_error + validated_input" where
  "validate_replayed_input x allow now original replay expected index =
     (if length expected \<le> index \<or> length (as_inputs original) \<noteq> length expected
         \<or> stable_assignment original \<noteq> stable_assignment replay
      then Inl Input_SpecMismatch
      else and_then (validate_inputs x allow now replay expected) (\<lambda>vs.
        ok_or Input_Invalid (if index < length vs then Some (vs ! index) else None)))"

section \<open>Manifests name a tree\<close>

lemma checked_add_len_unat: "checked_add_len a n = Some b \<Longrightarrow> unat b = unat a + n"
  by (auto simp: checked_add_len_def unat_word_ariths unat_of_nat split: if_splits)

lemma split_join:
  "ps \<noteq> [] \<Longrightarrow> (\<And>p. p \<in> set ps \<Longrightarrow> c \<notin> set p) \<Longrightarrow> split_on c (join_with c ps) = ps"
proof (induction ps)
  case (Cons p ps)
  then show ?case
    by (cases "ps = []") (simp_all add: join_with_Cons split_on_append_sep split_on_single)
qed simp

lemma ancestor_iff:
  assumes "a \<noteq> []"
  shows "a \<in> set (path_ancestors b) \<longleftrightarrow> strict_prefix (split_on CHR ''/'' a) (split_on CHR ''/'' b)"
proof
  let ?B = "split_on CHR ''/'' b"
  assume "a \<in> set (path_ancestors b)"
  then obtain k where k: "k < length ?B" "a = join_with CHR ''/'' (take k ?B)"
    by (auto simp: path_ancestors_def Let_def)
  then have "k \<noteq> 0"
    using assms by (cases k) simp_all
  then have "take k ?B \<noteq> []"
    by simp
  then have "split_on CHR ''/'' a = take k ?B"
    unfolding k(2) by (rule split_join) (auto dest: in_set_takeD split_on_no_sep)
  then show "strict_prefix (split_on CHR ''/'' a) ?B"
    using k(1) by (auto simp: strict_prefix_def take_is_prefix dest: arg_cong [where f = length])
next
  let ?A = "split_on CHR ''/'' a" and ?B = "split_on CHR ''/'' b"
  assume "strict_prefix ?A ?B"
  then have "length ?A < length ?B" "take (length ?A) ?B = ?A"
    by (auto simp: strict_prefix_def prefix_def)
  then show "a \<in> set (path_ancestors b)"
    by (auto simp: path_ancestors_def Let_def join_split intro!: image_eqI [of _ _ "length ?A"])
qed

lemma check_manifest_files_Inr:
  "check_manifest_files previous t files fs = Inr () \<Longrightarrow>
     sorted_wrt (\<lambda>f g. df_path f < df_path g \<and> \<not> strict_prefix (split_on CHR ''/'' (df_path f)) (split_on CHR ''/'' (df_path g))) fs
     \<and> (\<forall>f \<in> set fs. previous < df_path f \<and> manifest_path_ok (df_path f) \<and> lower_hash (df_sha256 f)
          \<and> (\<forall>p \<in> set files. p \<noteq> [] \<longrightarrow> \<not> strict_prefix (split_on CHR ''/'' p) (split_on CHR ''/'' (df_path f))))
     \<and> (unat t \<le> unat max_archive_bytes \<longrightarrow> unat t + sum_list (map (unat \<circ> df_size_bytes) fs) \<le> unat max_archive_bytes)"
proof (induction fs arbitrary: previous t files)
  case (Cons f fs)
  obtain sum where f: "manifest_path_ok (df_path f)" "previous < df_path f" "lower_hash (df_sha256 f)"
    "\<forall>p \<in> set files. p \<notin> set (path_ancestors (df_path f))"
    and sum: "checked_add t (df_size_bytes f) = Some sum" "sum \<le> max_archive_bytes"
    and rest: "check_manifest_files (df_path f) sum (df_path f # files) fs = Inr ()"
    using Cons.prems by (auto simp: list_ex_iff not_less not_le split: if_splits)
  have "df_path f \<noteq> []"
    using f(1) by (simp add: manifest_path_ok_def)
  note ih = Cons.IH [OF rest]
  have "unat sum = unat t + unat (df_size_bytes f)"
    using sum(1) by (rule checked_add_unat)
  moreover have "unat sum \<le> unat max_archive_bytes"
    using sum(2) by (simp add: word_le_nat_alt)
  moreover have "previous < df_path g" if "g \<in> set fs" for g
    using ih that f(2) by (meson order.strict_trans)
  ultimately show ?case
    using ih f \<open>df_path f \<noteq> []\<close> by (auto simp: ancestor_iff)
qed simp

lemma prefix_le: "prefix a b \<Longrightarrow> a \<le> b" for a b :: string
proof -
  have "a \<le> a @ c" for c
    by (induction a) simp_all
  then show "prefix a b \<Longrightarrow> a \<le> b"
    by (auto simp: prefix_def)
qed

lemma component_prefix_string:
  assumes "prefix (split_on c a) (split_on c b)"
  shows "prefix a b"
proof (cases "split_on c a = split_on c b")
  case True
  then show ?thesis by (simp add: split_on_inject)
next
  case False
  then have "strict_prefix (split_on c a) (split_on c b)"
    using assms by (simp add: strict_prefix_def)
  then show ?thesis
    unfolding under_iff_prefix [symmetric] by auto
qed

text \<open>A valid dataset manifest names a tree: its paths are strictly increasing, relative,
  without empty or dot components, and no file is equal to, above or below another, so
  extraction never overwrites and never needs a file to be a directory. The sizes sum to at
  most 64 MiB, without wrapping.\<close>

theorem manifest_names_tree:
  assumes "validate_dataset_manifest m = Inr ()" and "i < j" and "j < length (dm_files m)"
  defines "comps k \<equiv> split_on CHR ''/'' (df_path (dm_files m ! k))"
  shows "df_path (dm_files m ! i) < df_path (dm_files m ! j)
    \<and> \<not> prefix (comps i) (comps j) \<and> \<not> prefix (comps j) (comps i)
    \<and> (\<forall>q \<in> set (comps j). q \<notin> {[], ''.'', ''..''})
    \<and> sum_list (map (unat \<circ> df_size_bytes) (dm_files m)) \<le> 64 * 1024 * 1024"
proof -
  have chk: "check_manifest_files [] 0 [] (dm_files m) = Inr ()"
    using assms(1) by (auto simp: validate_dataset_manifest_def split: if_splits)
  note c = check_manifest_files_Inr [OF chk]
  from c assms(2,3) have less: "df_path (dm_files m ! i) < df_path (dm_files m ! j)"
    and up: "\<not> strict_prefix (comps i) (comps j)"
    by (auto simp: sorted_wrt_iff_nth_less comps_def)
  have "\<not> prefix (comps j) (comps i)"
    using component_prefix_string [of "CHR ''/''"] prefix_le less unfolding comps_def by (metis leD)
  moreover have "\<not> prefix (comps i) (comps j)"
    using up less by (auto simp: strict_prefix_def comps_def split_on_inject)
  moreover have "manifest_path_ok (df_path (dm_files m ! j))"
    using c assms(3) by (simp add: nth_mem)
  then have "\<forall>q \<in> set (comps j). q \<notin> {[], ''.'', ''..''}"
    by (auto simp: manifest_path_ok_def list_ex_iff comps_def)
  moreover have "unat max_archive_bytes = 64 * 1024 * 1024"
    by (simp add: max_archive_bytes_def)
  then have "sum_list (map (unat \<circ> df_size_bytes) (dm_files m)) \<le> 64 * 1024 * 1024"
    using c by simp
  ultimately show ?thesis
    using less by blast
qed

section \<open>What is published was verified\<close>

lemma copy_reads_Inr:
  "copy_reads env n d copied written rs = Inr (copied', written') \<Longrightarrow>
     unat copied = length written \<Longrightarrow> unat copied' = length written'"
proof (induction env n d copied written rs rule: copy_reads.induct)
  case (3 env n declared copied written chunk rs)
  then show ?case
    by (auto simp: checked_add_len_unat split: if_splits)
qed simp_all

lemma stage_entry_Inr:
  assumes "stage_entry x env n d e = Inr file"
  shows "fst file = df_path d \<and> length (snd file) = unat (df_size_bytes d) \<and> hex (x_sha256 x (snd file)) = df_sha256 d"
  using assms copy_reads_Inr [where written = "[]" and copied = 0]
  by (auto simp: stage_entry_def split: if_splits)

definition file_matches :: "'x externals_scheme \<Rightarrow> dataset_file \<Rightarrow> string \<times> u8 list \<Rightarrow> bool" where
  "file_matches x d file \<longleftrightarrow>
     fst file = df_path d \<and> length (snd file) = unat (df_size_bytes d)
     \<and> hex (x_sha256 x (snd file)) = df_sha256 d"

lemma stage_entries_Inr:
  "stage_entries x env files n staged items = Inr (count, staged') \<Longrightarrow> n \<le> length files \<Longrightarrow>
     list_all2 (file_matches x) (take n files) staged \<Longrightarrow>
     count \<le> length files \<and> list_all2 (file_matches x) (take count files) staged'"
proof (induction x env files n staged items rule: stage_entries.induct)
  case (3 x env files n staged entry items)
  then obtain item where n: "n < length files" and one: "stage_entry x env n (files ! n) entry = Inr item"
    and rest: "stage_entries x env files (Suc n) (staged @ [item]) items = Inr (count, staged')"
    by (auto split: if_splits)
  have "file_matches x (files ! n) item"
    using stage_entry_Inr [OF one] by (simp add: file_matches_def)
  then have "list_all2 (file_matches x) (take (Suc n) files) (staged @ [item])"
    using 3(4) n by (simp add: take_Suc_conv_app_nth list_all2_appendI)
  then show ?case
    using 3(1) [OF _ rest] n by simp
qed simp_all

text \<open>A file of the tree that comes from an item of an archive: a regular entry of that name,
  whose data, all of it read without error, is the file's contents.\<close>

definition extracted :: "unit + tar_entry \<Rightarrow> string \<times> u8 list \<Rightarrow> bool" where
  "extracted item file \<longleftrightarrow> (\<exists>entry chunks. item = Inr entry \<and> te_is_file entry \<and> te_path entry = Some (fst file)
     \<and> te_size entry = of_nat (length (snd file)) \<and> te_reads entry = map Inr chunks \<and> snd file = concat chunks)"

lemma copy_reads_data:
  "copy_reads env n d copied written rs = Inr (copied', written') \<Longrightarrow>
     \<exists>chunks. rs = map Inr chunks \<and> written' = written @ concat chunks"
proof (induction env n d copied written rs rule: copy_reads.induct)
  case (3 env n declared copied written chunk rs)
  then obtain chunks where "rs = map Inr chunks" "written' = (written @ chunk) @ concat chunks"
    by (auto split: if_splits)
  then show ?case
    by (intro exI [of _ "chunk # chunks"]) simp
qed simp_all

lemma stage_entry_extracted:
  assumes "stage_entry x env n d e = Inr file"
  shows "extracted (Inr e) file"
proof -
  obtain copied where e: "te_is_file e" "te_path e = Some (df_path d)" "te_size e = df_size_bytes d"
    and c: "copy_reads env n d 0 [] (te_reads e) = Inr (copied, snd file)"
    using assms by (auto simp: stage_entry_def split: if_splits)
  obtain chunks where "te_reads e = map Inr chunks" "snd file = concat chunks"
    using copy_reads_data [OF c] by auto
  moreover have "te_size e = of_nat (length (snd file))"
    using stage_entry_Inr [OF assms] e(3) by simp
  ultimately show ?thesis
    using stage_entry_Inr [OF assms] e by (auto simp: extracted_def)
qed

lemma stage_entries_extracted:
  "stage_entries x env files n staged items = Inr (count, staged') \<Longrightarrow>
     \<exists>new. staged' = staged @ new \<and> list_all2 extracted items new"
proof (induction x env files n staged items rule: stage_entries.induct)
  case (3 x env files n staged entry items)
  then obtain item where n: "\<not> length files \<le> n" and one: "stage_entry x env n (files ! n) entry = Inr item"
    and rest: "stage_entries x env files (Suc n) (staged @ [item]) items = Inr (count, staged')"
    by (auto split: if_splits)
  obtain new where "staged' = (staged @ [item]) @ new" "list_all2 extracted items new"
    using 3(1) [OF n rest] by blast
  then show ?case
    using stage_entry_extracted [OF one] by (intro exI [of _ "item # new"]) simp
qed simp_all

lemma stage_archive_extracted:
  assumes "stage_archive x env archive m = (r, Some tree)"
  shows "\<exists>bytes. archive = Some bytes \<and> list_all2 extracted (x_tar x bytes) tree"
proof -
  from assms obtain bytes count where b: "archive = Some bytes"
      "stage_entries x env (dm_files m) 0 [] (x_tar x bytes) = Inr (count, tree)"
    by (auto simp: stage_archive_def Let_def split: sum.splits option.splits if_splits)
  then show ?thesis
    using stage_entries_extracted [OF b(2)] by auto
qed

lemma stage_archive_published:
  assumes "stage_archive x env archive m = (r, Some tree)"
  shows "validate_dataset_manifest m = Inr () \<and> list_all2 (file_matches x) (dm_files m) tree \<and> \<not> sv_exists env"
proof -
  from assms obtain bytes where
    v: "validate_dataset_manifest m = Inr ()" "\<not> sv_exists env"
      "stage_entries x env (dm_files m) 0 [] (x_tar x bytes) = Inr (length (dm_files m), tree)"
    by (auto simp: stage_archive_def Let_def split: sum.splits option.splits if_splits)
  from stage_entries_Inr [OF v(3)] v(1,2) show ?thesis
    by simp
qed

lemma stage_archive_Inr: "stage_archive x env archive m = (Inr (), p) \<Longrightarrow> p \<noteq> None"
  by (auto simp: stage_archive_def Let_def split: sum.splits option.splits)

lemma receive_chunks_Inr:
  "receive_chunks env obj received written cs = Inr (received', written') \<Longrightarrow>
     unat received = length written \<Longrightarrow> unat received' = length written'"
proof (induction env obj received written cs rule: receive_chunks.induct)
  case (3 env obj received written chunk cs)
  then show ?case
    by (auto simp: checked_add_len_unat split: if_splits option.splits)
qed simp_all

lemma download_published:
  assumes "download x allow env obj raw_url expires = (r, Some bytes)"
  shows "length bytes = unat (ov_size_bytes obj) \<and> hex (x_sha256 x bytes) = ov_sha256 obj \<and> \<not> dv_exists env"
proof -
  from assms have t: "download_transfer x env obj = Inr bytes" "\<not> dv_exists env"
    by (auto simp: download_def Let_def split: sum.splits option.splits if_splits)
  then show ?thesis
    using receive_chunks_Inr [where written = "[]" and received = 0]
    by (auto simp: download_transfer_def split: if_splits)
qed

lemma download_Inr: "download x allow env obj raw_url expires = (Inr (), p) \<Longrightarrow> p \<noteq> None"
  by (auto simp: download_def Let_def split: sum.splits option.splits if_splits)

text \<open>C35. Whatever a preparation leaves at the destination, even when it reports an error
  afterwards, is exactly the manifest's tree and exactly the archive's: the same files in the
  same order as the manifest, each with the declared size and digest; and the tar entries, one
  for one, of the bytes that the successful download left, which have the size and digest of
  the requested object version, each file with the name of its entry and the data read from
  it. Nothing was at the destination before, and success means that the tree is there.\<close>

theorem prepared_tree_exact:
  assumes "prepare_dataset x allow nonce denv senv obj raw_url expires m = (r, published)"
  shows "(published = Some tree \<longrightarrow>
      validate_dataset_manifest m = Inr () \<and> list_all2 (file_matches x) (dm_files m) tree \<and> \<not> sv_exists senv
      \<and> (\<exists>bytes. download x allow denv obj raw_url expires = (Inr (), Some bytes)
           \<and> length bytes = unat (ov_size_bytes obj) \<and> hex (x_sha256 x bytes) = ov_sha256 obj
           \<and> list_all2 extracted (x_tar x bytes) tree))
    \<and> (r = Inr () \<longrightarrow> published \<noteq> None)"
proof -
  obtain d archive where d: "download x allow denv obj raw_url expires = (d, archive)"
    by (cases "download x allow denv obj raw_url expires")
  obtain s tree' where s: "stage_archive x senv archive m = (s, tree')"
    by (cases "stage_archive x senv archive m")
  have all: "published = Some tree \<Longrightarrow> d = Inr () \<and> tree' = Some tree"
    and ok: "r = Inr () \<Longrightarrow> s = Inr () \<and> published = tree'"
    using assms d s by (auto simp: prepare_dataset_def split: sum.splits)
  have "\<exists>bytes. download x allow denv obj raw_url expires = (Inr (), Some bytes)
      \<and> length bytes = unat (ov_size_bytes obj) \<and> hex (x_sha256 x bytes) = ov_sha256 obj
      \<and> list_all2 extracted (x_tar x bytes) tree" if "published = Some tree"
    using stage_archive_extracted [of x senv archive m s tree] s d all [OF that] download_published by fastforce
  moreover have "published \<noteq> None" if "r = Inr ()"
    using ok [OF that] s stage_archive_Inr by blast
  ultimately show ?thesis
    using s all stage_archive_published by blast
qed

definition input_from :: "'x externals_scheme \<Rightarrow> input_manifest \<Rightarrow> validated_input \<Rightarrow> bool" where
  "input_from x wire v \<longleftrightarrow>
     vi_dataset_id v = im_dataset_id wire \<and> vi_dataset_name v = im_dataset_name wire
     \<and> vi_mount_path v = im_mount_path wire \<and> im_archive wire = Some (vi_archive v)
     \<and> Option.bind (x_parse x (im_file_manifest_json wire)) decode_dataset_manifest = Some (vi_manifest v)"

lemma validate_input_Inr:
  "validate_input x allow now vs wire requested = Inr v \<Longrightarrow> input_from x wire v"
  by (auto simp: validate_input_def input_from_def split: if_splits)

lemma validate_each_Inr:
  "validate_each x allow now vs ps = Inr out \<Longrightarrow>
     \<exists>new. out = vs @ new \<and> list_all2 (\<lambda>p v. input_from x (fst p) v) ps new"
proof (induction x allow now vs ps rule: validate_each.induct)
  case (2 x allow now vs wire requested ps)
  then obtain v where v: "validate_input x allow (now (length vs)) vs wire requested = Inr v"
    and rest: "validate_each x allow now (vs @ [v]) ps = Inr out"
    by auto
  from 2(1) [OF rest] obtain new where "out = (vs @ [v]) @ new" "list_all2 (\<lambda>p v. input_from x (fst p) v) ps new"
    by blast
  then show ?case
    using validate_input_Inr [OF v] by (intro exI [of _ "v # new"]) simp
qed simp

lemma validate_inputs_Inr:
  assumes "validate_inputs x allow now a expected = Inr vs"
  shows "list_all2 (input_from x) (as_inputs a) vs"
proof -
  have len: "length (as_inputs a) = length expected"
    and each: "validate_each x allow now [] (zip (as_inputs a) expected) = Inr vs"
    using assms by (auto simp: validate_inputs_def split: if_splits)
  from validate_each_Inr [OF each]
  have "list_all2 (\<lambda>p v. input_from x (fst p) v) (zip (as_inputs a) expected) vs"
    by simp
  then show ?thesis
    using len by (auto simp: list_all2_conv_all_nth)
qed

text \<open>A replayed grant renews only the capability: the input it yields has the dataset,
  name, mount, object version and manifest of the original assignment; the remaining lease,
  the clock and the signed URL are all that may differ.\<close>

theorem replay_keeps_input:
  assumes "validate_replayed_input x allow now original replay expected index = Inr v"
  shows "\<exists>wire. index < length (as_inputs original) \<and> wire = as_inputs original ! index
    \<and> vi_dataset_id v = im_dataset_id wire \<and> vi_dataset_name v = im_dataset_name wire
    \<and> vi_mount_path v = im_mount_path wire \<and> im_archive wire = Some (vi_archive v)
    \<and> Option.bind (x_parse x (im_file_manifest_json wire)) decode_dataset_manifest = Some (vi_manifest v)
    \<and> as_authority replay = as_authority original \<and> as_spec_sha256 replay = as_spec_sha256 original"
proof -
  from assms obtain vs where len: "index < length expected" "length (as_inputs original) = length expected"
    and stable: "stable_assignment original = stable_assignment replay"
    and vs: "validate_inputs x allow now replay expected = Inr vs" "index < length vs" "v = vs ! index"
    by (auto simp: validate_replayed_input_def split: if_splits)
  let ?f = "\<lambda>i :: input_manifest. i\<lparr>im_download_url := [], im_expires_unix_ms := 0\<rparr>"
  have eq: "map ?f (as_inputs original) = map ?f (as_inputs replay)"
    and same: "as_authority replay = as_authority original" "as_spec_sha256 replay = as_spec_sha256 original"
    using arg_cong [OF stable, of as_inputs] arg_cong [OF stable, of as_authority]
      arg_cong [OF stable, of as_spec_sha256]
    by (simp_all add: stable_assignment_def)
  have "length (as_inputs replay) = length expected"
    using arg_cong [OF eq, of length] len by simp
  then have "?f (as_inputs original ! index) = ?f (as_inputs replay ! index)"
    using arg_cong [OF eq, of "\<lambda>l. l ! index"] len by simp
  from this [THEN arg_cong, of im_dataset_id] this [THEN arg_cong, of im_dataset_name]
    this [THEN arg_cong, of im_mount_path] this [THEN arg_cong, of im_archive]
    this [THEN arg_cong, of im_file_manifest_json]
  have "input_from x (as_inputs original ! index) v \<longleftrightarrow> input_from x (as_inputs replay ! index) v"
    by (simp add: input_from_def)
  moreover have "input_from x (as_inputs replay ! index) v"
    using validate_inputs_Inr [OF vs(1)] vs(2,3) by (simp add: list_all2_conv_all_nth)
  ultimately show ?thesis
    using len same by (simp add: input_from_def)
qed


section \<open>Concrete datasets\<close>

definition zero_hash :: string where
  "zero_hash = hex (replicate 32 0)"

lemma zero_hash_lower [simp]: "lower_hash zero_hash"
  by (simp add: zero_hash_def lower_hash_hex del: replicate.simps)

definition sample_manifest :: dataset_manifest where
  "sample_manifest =
     \<lparr>dm_format = ''tar.v1'',
      dm_files = [\<lparr>df_path = ''a'', df_size_bytes = 1, df_sha256 = zero_hash\<rparr>,
                  \<lparr>df_path = ''b/c'', df_size_bytes = 1, df_sha256 = zero_hash\<rparr>]\<rparr>"

definition sample_dataset_json :: json where
  "sample_dataset_json = JObject
     [(''format'', JString ''tar.v1''),
      (''files'', JArray
         [JObject [(''path'', JString ''a''), (''sizeBytes'', JNumber ''1''), (''sha256'', JString zero_hash)],
          JObject [(''path'', JString ''b/c''), (''sizeBytes'', JNumber ''1''), (''sha256'', JString zero_hash)]])]"

definition sample_dataset_externals :: dataset_externals where
  "sample_dataset_externals =
     \<lparr>x_sha256 = (\<lambda>_. replicate 32 0), x_parse = (\<lambda>b. if b = [2] then Some sample_dataset_json else None),
      x_print = (\<lambda>_. []),
      x_parse_url = (\<lambda>_. Some \<lparr>du_scheme = ''https'', du_username = [], du_password = None, du_fragment = None,
        du_host = Some ''storage'', du_path = ''/bucket/k'', du_query_pairs = [(''versionId'', ''v1'')]\<rparr>),
      x_ip_loopback = (\<lambda>_. False),
      x_tar = (\<lambda>b. if b \<noteq> [1, 2, 3] then [Inl ()] else
                    [Inr \<lparr>te_is_file = True, te_path = Some ''a'', te_size = 1, te_reads = [Inr [7]]\<rparr>,
                     Inr \<lparr>te_is_file = True, te_path = Some ''b/c'', te_size = 1, te_reads = [Inr [8]]\<rparr>])\<rparr>"

definition sample_archive :: object_version where
  "sample_archive = \<lparr>ov_key = ''k'', ov_version_id = ''v1'', ov_size_bytes = 3, ov_sha256 = zero_hash\<rparr>"

definition sample_download_env :: download_env where
  "sample_download_env =
     \<lparr>dv_parent = Some True, dv_exists = False, dv_nonce = Some (replicate 16 0), dv_create_fails = False,
      dv_now = Some 1000, dv_later = Some 1000,
      dv_reply = Inr \<lparr>dr_status_ok = True, dr_content_length = Some 3, dr_chunks = [Inr [1, 2, 3]]\<rparr>,
      dv_write_fails = False, dv_sync_fails = False, dv_chmod_fails = False, dv_rename = None,
      dv_parent_sync_fails = False\<rparr>"

definition sample_stage_env :: stage_env where
  "sample_stage_env =
     \<lparr>sv_parent_ok = True, sv_exists = False, sv_nonce = Some (replicate 16 0), sv_fails = (\<lambda>_. None)\<rparr>"

lemma new_uuid_Some: "\<exists>u. new_uuid (Some raw) = Inr u"
  by (simp add: new_uuid_def Let_def)

lemma sample_manifest_ok: "validate_dataset_manifest sample_manifest = Inr ()"
  by (simp add: validate_dataset_manifest_def sample_manifest_def manifest_path_ok_def code_points_def
      point_is_control_def path_ancestors_def checked_add_def max_archive_bytes_def)

lemma sample_grant_ok: "\<exists>u. download_grant sample_dataset_externals allow (Some 1000) sample_archive url 2000 = Inr u"
  if "length url \<le> 64 * 1024" "CHR 0x5C \<notin> set url" "\<not> list_ex is_ascii_control url"
  using that
  by (simp add: download_grant_def sample_archive_def archive_key_ok_def valid_version_def valid_etag_def
      max_archive_bytes_def sample_dataset_externals_def strip_suffix_def is_ascii_alphanumeric_def
      is_ascii_alphabetic_def less_eq_char_def)

lemma sample_downloaded:
  "download sample_dataset_externals True sample_download_env sample_archive ''u'' 2000 = (Inr (), Some [1, 2, 3])"
proof -
  obtain u where "download_grant sample_dataset_externals True (Some 1000) sample_archive ''u'' 2000 = Inr u"
    using sample_grant_ok [of "''u''" True] by (auto simp: is_ascii_control_def)
  moreover have "download_transfer sample_dataset_externals sample_download_env sample_archive = Inr [1, 2, 3]"
    by (simp add: download_transfer_def sample_download_env_def sample_archive_def checked_add_len_def
        sample_dataset_externals_def zero_hash_def)
  moreover obtain n where "new_uuid (Some (replicate 16 0)) = Inr n"
    using new_uuid_Some by blast
  ultimately show ?thesis
    by (simp add: download_def sample_download_env_def)
qed

lemma sample_staged:
  "stage_archive sample_dataset_externals sample_stage_env (Some [1, 2, 3]) sample_manifest
     = (Inr (), Some [(''a'', [7]), (''b/c'', [8])])"
proof -
  have "stage_entries sample_dataset_externals sample_stage_env (dm_files sample_manifest) 0 []
      (x_tar sample_dataset_externals [1, 2, 3]) = Inr (2, [(''a'', [7]), (''b/c'', [8])])"
    by (simp add: sample_dataset_externals_def sample_manifest_def stage_entry_def stage_check_def
        sample_stage_env_def checked_add_len_def zero_hash_def)
  moreover obtain n where "new_uuid (sv_nonce sample_stage_env) = Inr n"
    using new_uuid_Some by (auto simp: sample_stage_env_def)
  moreover have "length (dm_files sample_manifest) = 2"
    by (simp add: sample_manifest_def)
  ultimately show ?thesis
    by (simp add: stage_archive_def sample_manifest_ok stage_check_def max_archive_bytes_def)
       (simp add: sample_stage_env_def stage_check_def)
qed

theorem manifest_names_tree_witness:
  "''a'' < (''b/c'' :: string) \<and> \<not> prefix (split_on CHR ''/'' ''a'') (split_on CHR ''/'' ''b/c'')"
  using manifest_names_tree [OF sample_manifest_ok, of 0 1] by (simp add: sample_manifest_def)

theorem prepared_tree_exact_witness:
  "list_all2 (file_matches sample_dataset_externals) (dm_files sample_manifest) [(''a'', [7]), (''b/c'', [8])]
   \<and> list_all2 extracted (x_tar sample_dataset_externals [1, 2, 3]) [(''a'', [7]), (''b/c'', [8])]"
proof -
  obtain n where "new_uuid (Some (replicate 16 0)) = Inr n"
    using new_uuid_Some by blast
  then have "prepare_dataset sample_dataset_externals True (Some (replicate 16 0)) sample_download_env
      sample_stage_env sample_archive ''u'' 2000 sample_manifest = (Inr (), Some [(''a'', [7]), (''b/c'', [8])])"
    by (simp add: prepare_dataset_def sample_downloaded sample_staged)
  from prepared_tree_exact [OF this, of "[(''a'', [7]), (''b/c'', [8])]"] show ?thesis
    by (simp add: sample_downloaded)
qed

definition sample_input :: "string \<Rightarrow> input_manifest" where
  "sample_input url =
     \<lparr>im_dataset_id = fixture_uuid CHR ''9'', im_mount_path = ''/inputs/d'', im_archive = Some sample_archive,
      im_file_manifest_json = [2], im_download_url = url, im_expires_unix_ms = 2000, im_dataset_name = ''d''\<rparr>"

definition sample_job_input :: job_input where
  "sample_job_input = \<lparr>ji_dataset = ''d'', ji_mount_path = ''/inputs/d''\<rparr>"

lemma sample_dataset_decodes: "decode_dataset_manifest sample_dataset_json = Some sample_manifest"
proof -
  have "as_u64 (JNumber ''1'') = Some 1"
    by (rule sample_numbers)
  then show ?thesis
    by (simp add: decode_dataset_manifest_def decode_dataset_file_def sample_dataset_json_def struct_members_def
        field_def as_string_def as_list_def sample_manifest_def)
qed

theorem replay_keeps_input_witness:
  "\<exists>v. validate_replayed_input sample_dataset_externals True (\<lambda>_. Some 1000)
      (sample_assignment\<lparr>as_inputs := [sample_input ''old'']\<rparr>) (sample_assignment\<lparr>as_inputs := [sample_input ''u'']\<rparr>)
      [sample_job_input] 0 = Inr v \<and> vi_dataset_id v = fixture_uuid CHR ''9''"
proof -
  let ?v = "\<lparr>vi_dataset_id = fixture_uuid CHR ''9'', vi_dataset_name = ''d'', vi_mount_path = ''/inputs/d'',
     vi_archive = sample_archive, vi_manifest = sample_manifest, vi_download_url = ''u'', vi_expires_unix_ms = 2000\<rparr>"
  obtain u where u: "download_grant sample_dataset_externals True (Some 1000) sample_archive ''u'' 2000 = Inr u"
    using sample_grant_ok [of "''u''" True] by (auto simp: is_ascii_control_def)
  have "sum_sizes 0 (dm_files sample_manifest) = Some 2"
    by (simp add: sample_manifest_def checked_add_def)
  moreover have "valid_mount ''/inputs/d''"
    by (simp add: valid_mount_def starts_with_def)
  moreover have "valid_dataset_name ''d''"
    by (simp add: valid_dataset_name_def is_ascii_alphanumeric_def is_ascii_alphabetic_def less_eq_char_def)
  moreover have "x_parse sample_dataset_externals [2] = Some sample_dataset_json"
    by (simp add: sample_dataset_externals_def)
  ultimately have "validate_input sample_dataset_externals True (Some 1000) [] (sample_input ''u'') sample_job_input = Inr ?v"
    using u by (simp add: validate_input_def sample_input_def sample_job_input_def sample_dataset_decodes
        sample_manifest_ok) (simp add: sample_archive_def)
  then have "validate_replayed_input sample_dataset_externals True (\<lambda>_. Some 1000)
      (sample_assignment\<lparr>as_inputs := [sample_input ''old'']\<rparr>) (sample_assignment\<lparr>as_inputs := [sample_input ''u'']\<rparr>)
      [sample_job_input] 0 = Inr ?v"
    by (simp add: validate_replayed_input_def validate_inputs_def stable_assignment_def) (simp add: sample_input_def)
  with replay_keeps_input [OF this] show ?thesis by simp
qed

end
