(* ===== verification/Work.thy ===== *)
theory Work
  imports Datasets Renew
begin

text \<open>
  \<open>rust/worker/src/control/work.rs\<close>: acquiring one assignment and listing the live
  assignments of a session after a restart. A reply is checked field by field against the
  session, its execution specification and inputs are validated, and the grant becomes a
  window counted from the moment the request was sent. The readings of the clocks and the
  reply are arguments.
\<close>

section \<open>The code\<close>

record granted_assignment =
  ga_assignment :: assignment
  ga_authority :: authority_window
  ga_execution :: execution_spec

datatype work_outcome =
  Work_Assignment granted_assignment
| Work_NoWork no_work_reason
| Work_Rejected decision
| Work_Expired attempt_authority

record check_env =
  ce_downloader_ok :: bool \<comment> \<open>whether the HTTP client could be built\<close>
  ce_wall :: "nat \<Rightarrow> nat option" \<comment> \<open>the wall clock, per input\<close>
  ce_clock :: "lease_error + mono_time" \<comment> \<open>the monotonic clock after validation\<close>

definition assignment_fields_ok ::
  "worker_session \<Rightarrow> attempt_authority \<Rightarrow> wire_resources \<Rightarrow> assignment \<Rightarrow> bool" where
  "assignment_fields_ok session a r w \<longleftrightarrow>
     aa_worker_id a = ws_worker_id session \<and> aa_session_id a = ws_session_id session
     \<and> canonical_uuid (aa_job_id a) \<and> canonical_uuid (aa_attempt_id a)
     \<and> aa_generation a \<noteq> 0 \<and> aa_generation a \<le> i64_max
     \<and> wr_cpu_millis r \<noteq> 0 \<and> wr_cpu_millis r \<le> 1024000
     \<and> 2 ^ 20 \<le> wr_memory_bytes r \<and> wr_memory_bytes r \<le> 16777216 * 2 ^ 20 \<and> wr_memory_bytes r mod 2 ^ 20 = 0
     \<and> 2 ^ 20 \<le> wr_scratch_bytes r \<and> wr_scratch_bytes r \<le> 1073741824 * 2 ^ 20 \<and> wr_scratch_bytes r mod 2 ^ 20 = 0
     \<and> as_argv w \<noteq> [] \<and> length (as_argv w) \<le> 256 \<and> as_argv w ! 0 \<noteq> [] \<and> argv_ok (as_argv w)
     \<and> pinned_image (as_image_digest w) \<and> image_text_ok (as_image_digest w)
     \<and> as_canonical_job_spec_json w \<noteq> [] \<and> length (as_canonical_job_spec_json w) \<le> 2 * 1024 * 1024
     \<and> lower_hash (as_spec_sha256 w)"

definition check_assignment ::
  "'x dataset_externals_scheme \<Rightarrow> check_env \<Rightarrow> worker_session \<Rightarrow> assignment \<Rightarrow> mono_time \<Rightarrow> mono_time
     \<Rightarrow> client_error + work_outcome" where
  "check_assignment x env session w sent_at received =
     and_then (ok_or C_Response (as_authority w)) (\<lambda>a.
     and_then (ok_or C_Response (as_resources w)) (\<lambda>r.
       if \<not> assignment_fields_ok session a r w then Inl C_Response
       else and_then (map_err (\<lambda>_. C_Response) (from_assignment x w)) (\<lambda>execution.
            and_then (if as_inputs w = [] then Inr ()
                      else if \<not> ce_downloader_ok env then Inl C_Response
                      else and_then (map_err (\<lambda>_. C_Response)
                             (validate_inputs x True (ce_wall env) w (js_inputs (jb_spec (es_job execution))))) (\<lambda>_.
                             Inr ())) (\<lambda>_.
       case and_then (from_grant sent_at received (as_lease_duration_ms w) (as_phase_remaining_ms w)) (\<lambda>authority.
              and_then (remaining authority (ce_clock env)) (\<lambda>_. Inr authority)) of
         Inr authority \<Rightarrow>
           Inr (Work_Assignment \<lparr>ga_assignment = w, ga_authority = authority, ga_execution = execution\<rparr>)
       | Inl Lease_Expired \<Rightarrow> Inr (Work_Expired a)
       | Inl Lease_Clock \<Rightarrow> Inl C_Clock
       | Inl Lease_Invalid \<Rightarrow> Inl C_Response))))"

definition decode_acquisition ::
  "'x dataset_externals_scheme \<Rightarrow> check_env \<Rightarrow> worker_session \<Rightarrow> acquire_work_response \<Rightarrow> mono_time \<Rightarrow> mono_time
     \<Rightarrow> client_error + work_outcome" where
  "decode_acquisition x env session response sent_at received =
     and_then (ok_or C_Response (ar_outcome response)) (\<lambda>outcome.
       case outcome of
         Outcome_Assignment w \<Rightarrow> check_assignment x env session w sent_at received
       | Outcome_NoWork v \<Rightarrow>
           (case no_work_of v of
              Some reason \<Rightarrow> if reason \<noteq> NoWork_Unspecified then Inr (Work_NoWork reason) else Inl C_Response
            | None \<Rightarrow> Inl C_Response)
       | Outcome_Rejected v \<Rightarrow>
           (case decision_of v of
              Some d \<Rightarrow> if d \<in> set [Fenced, StopRequested, AlreadyTerminal] then Inr (Work_Rejected d) else Inl C_Response
            | None \<Rightarrow> Inl C_Response))"

definition acquire ::
  "'x dataset_externals_scheme \<Rightarrow> check_env \<Rightarrow> acquire_work_request \<Rightarrow> lease_error + mono_time
     \<Rightarrow> client_error + acquire_work_response \<Rightarrow> lease_error + mono_time \<Rightarrow> client_error + work_outcome" where
  "acquire x env request sent_clock rpc received_clock =
     and_then (valid_session (aw_session request)) (\<lambda>session.
       if \<not> canonical_uuid (aw_request_id request) then Inl C_Configuration
       else and_then (map_err (\<lambda>_. C_Clock) sent_clock) (\<lambda>sent_at.
            and_then rpc (\<lambda>response.
            and_then (map_err (\<lambda>_. C_Clock) received_clock) (\<lambda>received.
              decode_acquisition x env session response sent_at received))))"

record assignment_page =
  ap_assignments :: "granted_assignment list"
  ap_expired :: "attempt_authority list"
  ap_next_after_job_id :: string

fun decode_assignments ::
  "'x dataset_externals_scheme \<Rightarrow> (nat \<Rightarrow> check_env) \<Rightarrow> worker_session \<Rightarrow> mono_time \<Rightarrow> mono_time \<Rightarrow> nat
     \<Rightarrow> string \<Rightarrow> assignment_page \<Rightarrow> assignment list \<Rightarrow> client_error + (string \<times> assignment_page)" where
  "decode_assignments x env session sent_at received i previous page [] = Inr (previous, page)"
| "decode_assignments x env session sent_at received i previous page (w # ws) =
     and_then (ok_or C_Response (as_authority w)) (\<lambda>a.
       if aa_job_id a \<le> previous then Inl C_Response
       else and_then (check_assignment x (env i) session w sent_at received) (\<lambda>outcome.
         case outcome of
           Work_Assignment grant \<Rightarrow>
             decode_assignments x env session sent_at received (Suc i) (aa_job_id a)
               (page\<lparr>ap_assignments := ap_assignments page @ [grant]\<rparr>) ws
         | Work_Expired authority \<Rightarrow>
             decode_assignments x env session sent_at received (Suc i) (aa_job_id a)
               (page\<lparr>ap_expired := ap_expired page @ [authority]\<rparr>) ws
         | _ \<Rightarrow> Inl C_Response))"

definition decode_page ::
  "'x dataset_externals_scheme \<Rightarrow> (nat \<Rightarrow> check_env) \<Rightarrow> list_assignments_request \<Rightarrow> list_assignments_response
     \<Rightarrow> mono_time \<Rightarrow> mono_time \<Rightarrow> client_error + assignment_page" where
  "decode_page x env request response sent_at received =
     and_then (valid_session (li_session request)) (\<lambda>session.
       let limit = if li_page_size request = 0 then 32 else li_page_size request in
       if 64 < limit \<or> unat limit < length (ls_assignments response) then Inl C_Response
       else and_then (decode_assignments x env session sent_at received 0 (li_after_job_id request)
               \<lparr>ap_assignments = [], ap_expired = [], ap_next_after_job_id = ls_next_after_job_id response\<rparr>
               (ls_assignments response)) (\<lambda>(previous, page).
         if ap_next_after_job_id page \<noteq> []
            \<and> (\<not> canonical_uuid (ap_next_after_job_id page)
               \<or> ap_next_after_job_id page \<le> li_after_job_id request
               \<or> ap_next_after_job_id page < previous)
         then Inl C_Response else Inr page))"

definition list_assignments ::
  "'x dataset_externals_scheme \<Rightarrow> (nat \<Rightarrow> check_env) \<Rightarrow> list_assignments_request \<Rightarrow> lease_error + mono_time
     \<Rightarrow> client_error + list_assignments_response \<Rightarrow> lease_error + mono_time \<Rightarrow> client_error + assignment_page" where
  "list_assignments x env request sent_clock rpc received_clock =
     and_then (valid_session (li_session request)) (\<lambda>_.
       if 64 < li_page_size request
          \<or> (li_after_job_id request \<noteq> [] \<and> \<not> canonical_uuid (li_after_job_id request))
       then Inl C_Configuration
       else and_then (map_err (\<lambda>_. C_Clock) sent_clock) (\<lambda>sent_at.
            and_then rpc (\<lambda>response.
            and_then (map_err (\<lambda>_. C_Clock) received_clock) (\<lambda>received.
              decode_page x env request response sent_at received))))"

section \<open>A granted assignment\<close>

definition granted_ok :: "'x externals_scheme \<Rightarrow> worker_session \<Rightarrow> mono_time \<Rightarrow> granted_assignment \<Rightarrow> bool" where
  "granted_ok x session sent_at g \<longleftrightarrow>
     (\<exists>a. as_authority (ga_assignment g) = Some a \<and> valid_authority a
        \<and> aa_worker_id a = ws_worker_id session \<and> aa_session_id a = ws_session_id session)
     \<and> from_assignment x (ga_assignment g) = Inr (ga_execution g)
     \<and> sent (ga_authority g) = sent_at
     \<and> deadline (ga_authority g) + 5000 * 1000000
         \<le> sent_at + unat (as_lease_duration_ms (ga_assignment g)) * 1000000
     \<and> deadline (ga_authority g) \<le> sent_at + unat (as_phase_remaining_ms (ga_assignment g)) * 1000000"

lemma grant_bounds:
  assumes "from_grant s r lease phase = Inr w"
  shows "sent w = s \<and> deadline w + 5000 * 1000000 \<le> s + unat lease * 1000000
    \<and> deadline w \<le> s + unat phase * 1000000"
proof -
  have w: "w = \<lparr>sent = s, deadline = s + min (unat lease - 5000) (unat phase) * 1000000\<rparr>" and "5000 \<le> lease"
    using assms by (simp_all add: from_grant_Inr_iff)
  moreover from this(2) have "5000 \<le> unat lease"
    by (simp add: word_le_nat_alt)
  ultimately show ?thesis
    by (simp add: min_def) linarith
qed

lemma valid_session_Inr: "valid_session o' = Inr s \<Longrightarrow> o' = Some s \<and> canonical_uuid (ws_worker_id s) \<and> canonical_uuid (ws_session_id s)"
  by (auto simp: valid_session_def split: option.splits if_splits)

lemma check_assignment_Inr:
  assumes "check_assignment x env session w sent_at received = Inr out"
  shows "\<exists>a r execution. as_authority w = Some a \<and> as_resources w = Some r \<and> assignment_fields_ok session a r w
    \<and> from_assignment x w = Inr execution
    \<and> (as_inputs w \<noteq> [] \<longrightarrow>
         (\<exists>vs. validate_inputs x True (ce_wall env) w (js_inputs (jb_spec (es_job execution))) = Inr vs))
    \<and> (out = Work_Expired a
       \<or> (\<exists>win now. from_grant sent_at received (as_lease_duration_ms w) (as_phase_remaining_ms w) = Inr win
            \<and> ce_clock env = Inr now \<and> now < deadline win
            \<and> out = Work_Assignment \<lparr>ga_assignment = w, ga_authority = win, ga_execution = execution\<rparr>))"
proof -
  obtain a r execution where a: "as_authority w = Some a" "as_resources w = Some r"
    "assignment_fields_ok session a r w" "from_assignment x w = Inr execution"
    using assms by (auto simp: check_assignment_def split: if_splits)
  have inputs: "\<exists>vs. validate_inputs x True (ce_wall env) w (js_inputs (jb_spec (es_job execution))) = Inr vs"
    if "as_inputs w \<noteq> []"
    using assms a that by (auto simp: check_assignment_def split: if_splits)
  let ?grant = "from_grant sent_at received (as_lease_duration_ms w) (as_phase_remaining_ms w)"
  let ?g = "and_then ?grant (\<lambda>authority. and_then (remaining authority (ce_clock env)) (\<lambda>_. Inr authority))"
  have out: "(case ?g of
         Inr authority \<Rightarrow>
           Inr (Work_Assignment \<lparr>ga_assignment = w, ga_authority = authority, ga_execution = execution\<rparr>)
       | Inl Lease_Expired \<Rightarrow> Inr (Work_Expired a)
       | Inl Lease_Clock \<Rightarrow> Inl C_Clock
       | Inl Lease_Invalid \<Rightarrow> Inl C_Response) = Inr out"
    using assms a by (auto simp: check_assignment_def split: if_splits)
  show ?thesis
  proof (cases ?g)
    case (Inl e)
    then have "out = Work_Expired a"
      using out by (cases e) simp_all
    then show ?thesis
      using a inputs by blast
  next
    case (Inr win)
    then have "?grant = Inr win" "\<exists>now. ce_clock env = Inr now \<and> now < deadline win"
      by (auto simp: remaining_Inr_iff)
    moreover have "out = Work_Assignment \<lparr>ga_assignment = w, ga_authority = win, ga_execution = execution\<rparr>"
      using out Inr by simp
    ultimately show ?thesis
      using a inputs by blast
  qed
qed

lemma check_assignment_granted:
  assumes "check_assignment x env session w sent_at received = Inr (Work_Assignment g)"
    and "canonical_uuid (ws_worker_id session)" and "canonical_uuid (ws_session_id session)"
  shows "ga_assignment g = w \<and> granted_ok x session sent_at g
    \<and> (\<exists>now. ce_clock env = Inr now \<and> now < deadline (ga_authority g))"
proof -
  from check_assignment_Inr [OF assms(1)] obtain a r execution where
    w: "as_authority w = Some a" "assignment_fields_ok session a r w" "from_assignment x w = Inr execution"
    and out: "Work_Assignment g = Work_Expired a
       \<or> (\<exists>win now. from_grant sent_at received (as_lease_duration_ms w) (as_phase_remaining_ms w) = Inr win
            \<and> ce_clock env = Inr now \<and> now < deadline win
            \<and> Work_Assignment g = Work_Assignment \<lparr>ga_assignment = w, ga_authority = win, ga_execution = execution\<rparr>)"
    by blast
  from out obtain win now where
    g: "from_grant sent_at received (as_lease_duration_ms w) (as_phase_remaining_ms w) = Inr win"
      "ce_clock env = Inr now" "now < deadline win"
      "g = \<lparr>ga_assignment = w, ga_authority = win, ga_execution = execution\<rparr>"
    by auto
  note a = w(1,2) w(3) g(1-3)
  have ga: "ga_assignment g = w" "ga_authority g = win" "ga_execution g = execution"
    by (simp_all add: g(4))
  have "valid_authority a"
    using a(2) assms(2,3) by (simp add: assignment_fields_ok_def valid_authority_def word_gt_0)
  moreover have "aa_worker_id a = ws_worker_id session" "aa_session_id a = ws_session_id session"
    using a(2) by (simp_all add: assignment_fields_ok_def)
  ultimately show ?thesis
    using a ga grant_bounds [OF a(4)] by (simp add: granted_ok_def)
qed

text \<open>C36. Work comes only with bounded authority for this session. An acquired assignment
  carries a valid authority of the requesting worker session and a validated specification;
  its window starts when the request was sent, ends at least five seconds before the lease
  counted from then and within the phase, and was still open after validation.\<close>

theorem acquired_work_is_bound:
  assumes "acquire x env request sent_clock rpc received_clock = Inr (Work_Assignment g)"
  shows "\<exists>session sent_at now. aw_session request = Some session \<and> sent_clock = Inr sent_at
    \<and> rpc = Inr \<lparr>ar_outcome = Some (Outcome_Assignment (ga_assignment g))\<rparr>
    \<and> granted_ok x session sent_at g
    \<and> ce_clock env = Inr now \<and> now < deadline (ga_authority g)"
proof -
  from assms obtain session sent_at response received where
    s: "valid_session (aw_session request) = Inr session" "sent_clock = Inr sent_at" "rpc = Inr response"
      "decode_acquisition x env session response sent_at received = Inr (Work_Assignment g)"
    by (auto simp: acquire_def split: if_splits)
  from s(4) obtain outcome where outcome: "ar_outcome response = Some outcome"
    by (auto simp: decode_acquisition_def)
  with s(4) obtain w where w: "ar_outcome response = Some (Outcome_Assignment w)"
    "check_assignment x env session w sent_at received = Inr (Work_Assignment g)"
    by (cases outcome) (auto simp: decode_acquisition_def split: option.splits if_splits)
  note v = valid_session_Inr [OF s(1)]
  have "response = \<lparr>ar_outcome = Some (Outcome_Assignment w)\<rparr>"
    using w(1) by (cases response) simp
  then show ?thesis
    using check_assignment_granted [OF w(2)] v s by auto
qed

section \<open>Listing makes progress\<close>

lemma decode_assignments_Inr:
  "decode_assignments x env session sent_at received i previous page ws = Inr (final, page') \<Longrightarrow>
     ap_next_after_job_id page' = ap_next_after_job_id page
     \<and> sorted_wrt (<) (previous # map (\<lambda>w. aa_job_id (the (as_authority w))) ws)
     \<and> final = List.last (previous # map (\<lambda>w. aa_job_id (the (as_authority w))) ws)
     \<and> length (ap_assignments page') + length (ap_expired page')
         = length (ap_assignments page) + length (ap_expired page) + length ws"
proof (induction ws arbitrary: i previous page)
  case (Cons w ws)
  obtain a out where a: "as_authority w = Some a" "\<not> aa_job_id a \<le> previous"
    "check_assignment x (env i) session w sent_at received = Inr out"
    using Cons.prems by (auto split: if_splits)
  then obtain page'' where
    rest: "decode_assignments x env session sent_at received (Suc i) (aa_job_id a) page'' ws = Inr (final, page')"
    and page: "ap_next_after_job_id page'' = ap_next_after_job_id page"
      "length (ap_assignments page'') + length (ap_expired page'')
         = Suc (length (ap_assignments page) + length (ap_expired page))"
    using Cons.prems by (cases out) auto
  from Cons.IH [OF rest] have ih: "ap_next_after_job_id page' = ap_next_after_job_id page''"
    "sorted_wrt (<) (aa_job_id a # map (\<lambda>w. aa_job_id (the (as_authority w))) ws)"
    "final = List.last (aa_job_id a # map (\<lambda>w. aa_job_id (the (as_authority w))) ws)"
    "length (ap_assignments page') + length (ap_expired page')
       = length (ap_assignments page'') + length (ap_expired page'') + length ws"
    by blast+
  then show ?case
    using a(1,2) page by (auto simp: not_le intro: order.strict_trans)
qed simp

lemma finite_uuids: "finite {u. canonical_uuid u}"
proof (rule finite_subset)
  show "{u. canonical_uuid u} \<subseteq> {u. set u \<subseteq> UNIV \<and> length u = 36}"
    by (auto simp: canonical_uuid_def)
  show "finite {u :: string. set u \<subseteq> UNIV \<and> length u = 36}"
    by (rule finite_lists_length_eq) simp
qed

lemma page_cursor:
  assumes "list_assignments x env request sent_clock rpc received_clock = Inr page"
    and "ap_next_after_job_id page \<noteq> []"
  shows "canonical_uuid (ap_next_after_job_id page) \<and> li_after_job_id request < ap_next_after_job_id page"
  using assms
  by (auto simp: list_assignments_def decode_page_def Let_def not_le split: if_splits)

lemma no_infinite_cursor:
  fixes c :: "nat \<Rightarrow> string"
  assumes "\<And>n. canonical_uuid (c (Suc n)) \<and> c n < c (Suc n)"
  shows False
proof -
  have mono: "strict_mono c"
    using assms by (simp add: strict_mono_Suc_iff)
  then have "inj (c \<circ> Suc)"
    by (auto simp: inj_def strict_mono_eq)
  then have "infinite (range (c \<circ> Suc))"
    using infinite_UNIV_nat by (metis finite_imageD)
  moreover have "range (c \<circ> Suc) \<subseteq> {u. canonical_uuid u}"
    using assms by auto
  ultimately show False
    using finite_uuids finite_subset by blast
qed

text \<open>C37. Listing assignments terminates whatever the server answers: in any endless series
  of accepted pages where each request continues at the cursor of the page before, some
  page has an empty cursor, which ends the scan.\<close>

theorem listing_terminates:
  assumes "\<And>n. \<exists>env sent_clock rpc received_clock.
      list_assignments x env (requests n) sent_clock rpc received_clock = Inr (pages n)"
    and "\<And>n. li_after_job_id (requests (Suc n)) = ap_next_after_job_id (pages n)"
  shows "\<exists>n. ap_next_after_job_id (pages n) = []"
proof (rule ccontr)
  assume "\<not> ?thesis"
  then have "canonical_uuid (ap_next_after_job_id (pages n))
      \<and> li_after_job_id (requests n) < ap_next_after_job_id (pages n)" for n
    using page_cursor assms(1) by metis
  then have "canonical_uuid (li_after_job_id (requests (Suc n)))
      \<and> li_after_job_id (requests n) < li_after_job_id (requests (Suc n))" for n
    by (simp add: assms(2))
  then show False
    by (rule no_infinite_cursor)
qed


text \<open>A page answers in the order of the job identifiers, from the request's cursor on.\<close>

theorem page_jobs_in_order:
  assumes "decode_page x env request response sent_at received = Inr page"
  shows "sorted_wrt (<) (li_after_job_id request # map (\<lambda>w. aa_job_id (the (as_authority w))) (ls_assignments response))
    \<and> length (ap_assignments page) + length (ap_expired page) = length (ls_assignments response)"
proof -
  from assms obtain session previous where
    "decode_assignments x env session sent_at received 0 (li_after_job_id request)
       \<lparr>ap_assignments = [], ap_expired = [], ap_next_after_job_id = ls_next_after_job_id response\<rparr>
       (ls_assignments response) = Inr (previous, page)"
    by (auto simp: decode_page_def Let_def split: if_splits)
  from decode_assignments_Inr [OF this] show ?thesis
    by simp
qed

subsection \<open>A concrete acquisition\<close>

definition sample_work_externals :: dataset_externals where
  "sample_work_externals = sample_dataset_externals
     \<lparr>x_parse := (\<lambda>b. if b = [1] then Some sample_job_json else None)\<rparr>"

definition sample_offer :: assignment where
  "sample_offer = sample_assignment\<lparr>as_lease_duration_ms := 30000, as_phase_remaining_ms := 300000\<rparr>"

definition sample_session :: worker_session where
  "sample_session = \<lparr>ws_worker_id = fixture_uuid CHR ''1'', ws_session_id = fixture_uuid CHR ''2''\<rparr>"

definition sample_env :: check_env where
  "sample_env = \<lparr>ce_downloader_ok = True, ce_wall = (\<lambda>_. None), ce_clock = Inr 105000000000\<rparr>"

lemma sample_offer_checked:
  "check_assignment sample_work_externals sample_env sample_session sample_offer 100000000000 104000000000
     = Inr (Work_Assignment \<lparr>ga_assignment = sample_offer, ga_authority = \<lparr>sent = 100000000000, deadline = 125000000000\<rparr>,
         ga_execution = \<lparr>es_job = sample_job, es_sha256 = hex (replicate 32 0)\<rparr>\<rparr>)"
proof -
  let ?r = "\<lparr>wr_cpu_millis = 1, wr_memory_bytes = 2 * 2 ^ 20, wr_scratch_bytes = 3 * 2 ^ 20\<rparr> :: wire_resources"
  have "from_assignment sample_work_externals sample_offer = Inr \<lparr>es_job = sample_job, es_sha256 = hex (replicate 32 0)\<rparr>"
    unfolding sample_offer_def from_assignment_timing
    by (rule sample_from_assignment) (simp_all add: sample_work_externals_def sample_dataset_externals_def)
  moreover have "assignment_fields_ok sample_session fixture_authority ?r sample_offer"
    using lower_hash_hex [of "replicate 32 0"]
    by (simp add: assignment_fields_ok_def sample_session_def fixture_authority_def sample_offer_def
        sample_assignment_def i64_max_def argv_ok_def sample_image_ok)
  moreover have "from_grant 100000000000 104000000000 30000 300000 = Inr \<lparr>sent = 100000000000, deadline = 125000000000\<rparr>"
    by (simp add: from_grant_Inr_iff duration_max_def)
  moreover have "as_authority sample_offer = Some fixture_authority" "as_resources sample_offer = Some ?r"
    "as_inputs sample_offer = []" "as_lease_duration_ms sample_offer = 30000" "as_phase_remaining_ms sample_offer = 300000"
    by (simp_all add: sample_offer_def sample_assignment_def)
  ultimately show ?thesis
    by (simp add: check_assignment_def sample_env_def remaining_def remaining_at_def)
qed

theorem acquired_work_is_bound_witness:
  "\<exists>g. granted_ok sample_work_externals sample_session 100000000000 g"
proof -
  have "valid_session (Some sample_session) = Inr sample_session"
    by (simp add: valid_session_def sample_session_def)
  then have "acquire sample_work_externals sample_env
      \<lparr>aw_session = Some sample_session, aw_request_id = fixture_uuid CHR ''5''\<rparr> (Inr 100000000000)
      (Inr \<lparr>ar_outcome = Some (Outcome_Assignment sample_offer)\<rparr>) (Inr 104000000000)
    = Inr (Work_Assignment \<lparr>ga_assignment = sample_offer, ga_authority = \<lparr>sent = 100000000000, deadline = 125000000000\<rparr>,
         ga_execution = \<lparr>es_job = sample_job, es_sha256 = hex (replicate 32 0)\<rparr>\<rparr>)"
    by (simp only: acquire_def decode_acquisition_def) (simp add: sample_offer_checked)
  from acquired_work_is_bound [OF this] show ?thesis
    by auto
qed

definition sample_list_request :: list_assignments_request where
  "sample_list_request = \<lparr>li_session = Some sample_session, li_page_size = 0, li_after_job_id = []\<rparr>"

theorem listing_terminates_witness:
  "\<exists>n :: nat. ap_next_after_job_id ((\<lambda>_ :: nat. \<lparr>ap_assignments = [], ap_expired = [], ap_next_after_job_id = []\<rparr>) n) = []"
proof (rule listing_terminates [where x = sample_work_externals and requests = "\<lambda>_. sample_list_request"])
  fix n :: nat
  have "list_assignments sample_work_externals (\<lambda>_. sample_env) sample_list_request (Inr 0)
      (Inr \<lparr>ls_assignments = [], ls_next_after_job_id = []\<rparr>) (Inr 0)
    = Inr \<lparr>ap_assignments = [], ap_expired = [], ap_next_after_job_id = []\<rparr>"
    by (simp add: list_assignments_def decode_page_def sample_list_request_def valid_session_def sample_session_def)
  then show "\<exists>env sent_clock rpc received_clock.
      list_assignments sample_work_externals env sample_list_request sent_clock rpc received_clock
        = Inr \<lparr>ap_assignments = [], ap_expired = [], ap_next_after_job_id = []\<rparr>"
    by blast
  show "li_after_job_id sample_list_request
      = ap_next_after_job_id \<lparr>ap_assignments = [], ap_expired = [], ap_next_after_job_id = []\<rparr>"
    by (simp add: sample_list_request_def)
qed

end
