(* ===== verification/Dataset_Cache.thy ===== *)
theory Dataset_Cache
  imports Datasets Completion Runs Assoc_Lists "HOL-Library.Product_Lexorder" "HOL-Library.Multiset"
begin

text \<open>
  \<open>rust/worker/src/dataset_cache.rs\<close>, the pin-aware index with its eviction plan, and
  \<open>dataset_cache_store.rs\<close>, the store that keeps verified trees on disk under the digest
  of what they hold. The hash map of entries is an association list with distinct keys.
  Pins are dropped by other tasks at any moment: a preparation takes, for each of its
  points of interleaving, the pins dropped there.
\<close>

section \<open>The code\<close>

subsection \<open>The index: \<open>dataset_cache.rs\<close>\<close>

datatype cache_error =
  Cache_Configuration | Cache_InvalidEntry | Cache_Missing | Cache_Pinned | Cache_Capacity

record cache_entry =
  ct_size_bytes :: u64
  ct_pins :: u64
  ct_last_used :: u64

record cache_index =
  ci_high_bytes :: u64
  ci_low_bytes :: u64
  ci_used_bytes :: u64
  ci_clock :: u64
  ci_entries :: "(string \<times> cache_entry) list"

definition CacheIndex_new :: "u64 \<Rightarrow> u64 \<Rightarrow> cache_error + cache_index" where
  "CacheIndex_new high low =
     (if low = 0 \<or> high \<le> low then Inl Cache_Configuration
      else Inr \<lparr>ci_high_bytes = high, ci_low_bytes = low, ci_used_bytes = 0, ci_clock = 0, ci_entries = []\<rparr>)"

definition index_contains :: "cache_index \<Rightarrow> string \<Rightarrow> bool" where
  "index_contains c key \<longleftrightarrow> map_of (ci_entries c) key \<noteq> None"

definition index_insert :: "string \<Rightarrow> u64 \<Rightarrow> cache_index \<Rightarrow> (cache_error + unit) \<times> cache_index" where
  "index_insert key sz c =
     (if key = [] \<or> 128 < length key \<or> sz = 0 \<or> index_contains c key then (Inl Cache_InvalidEntry, c)
      else case (case checked_add (ci_used_bytes c) sz of
                   Some used \<Rightarrow> if used \<le> ci_high_bytes c then Some used else None | None \<Rightarrow> None) of
        None \<Rightarrow> (Inl Cache_Capacity, c)
      | Some used \<Rightarrow>
          (case checked_add (ci_clock c) 1 of
             None \<Rightarrow> (Inl Cache_Capacity, c)
           | Some clock \<Rightarrow>
               (Inr (), c\<lparr>ci_clock := clock,
                          ci_entries := AList.update key \<lparr>ct_size_bytes = sz, ct_pins = 0, ct_last_used = clock\<rparr> (ci_entries c),
                          ci_used_bytes := used\<rparr>)))"

definition index_pin :: "string \<Rightarrow> cache_index \<Rightarrow> (cache_error + unit) \<times> cache_index" where
  "index_pin key c =
     (case map_of (ci_entries c) key of
        None \<Rightarrow> (Inl Cache_Missing, c)
      | Some e \<Rightarrow>
          (case checked_add (ct_pins e) 1 of
             None \<Rightarrow> (Inl Cache_Capacity, c)
           | Some pins \<Rightarrow>
          (case checked_add (ci_clock c) 1 of
             None \<Rightarrow> (Inl Cache_Capacity, c)
           | Some clock \<Rightarrow>
               (Inr (), c\<lparr>ci_entries := AList.update key (e\<lparr>ct_pins := pins, ct_last_used := clock\<rparr>) (ci_entries c),
                          ci_clock := clock\<rparr>))))"

definition index_unpin :: "string \<Rightarrow> cache_index \<Rightarrow> (cache_error + unit) \<times> cache_index" where
  "index_unpin key c =
     (case map_of (ci_entries c) key of
        None \<Rightarrow> (Inl Cache_Missing, c)
      | Some e \<Rightarrow>
          if ct_pins e = 0 then (Inl Cache_InvalidEntry, c)
          else (Inr (), c\<lparr>ci_entries := AList.update key (e\<lparr>ct_pins := ct_pins e - 1\<rparr>) (ci_entries c)\<rparr>))"

fun pick_victims :: "u64 \<Rightarrow> u64 \<Rightarrow> (string \<times> cache_entry) list \<Rightarrow> u64 \<times> string list" where
  "pick_victims low projected [] = (projected, [])"
| "pick_victims low projected ((key, e) # cs) =
     (if projected \<le> low then (projected, [])
      else let (p, victims) = pick_victims low (projected - ct_size_bytes e) cs in (p, key # victims))"

definition eviction_candidates :: "cache_index \<Rightarrow> (string \<times> cache_entry) list" where
  "eviction_candidates c =
     sort_key (\<lambda>(key, e). (ct_last_used e, key)) (filter (\<lambda>(_, e). ct_pins e = 0) (ci_entries c))"

definition plan_eviction :: "cache_index \<Rightarrow> u64 \<Rightarrow> cache_error + string list" where
  "plan_eviction c incoming =
     (if incoming = 0 \<or> ci_high_bytes c < incoming then Inl Cache_Capacity
      else and_then (ok_or Cache_Capacity (checked_add (ci_used_bytes c) incoming)) (\<lambda>projected.
        if projected \<le> ci_high_bytes c then Inr []
        else let (final, victims) = pick_victims (ci_low_bytes c) projected (eviction_candidates c)
             in if ci_high_bytes c < final then Inl Cache_Capacity else Inr victims))"

definition index_remove :: "string \<Rightarrow> cache_index \<Rightarrow> (cache_error + unit) \<times> cache_index" where
  "index_remove key c =
     (case map_of (ci_entries c) key of
        None \<Rightarrow> (Inl Cache_Missing, c)
      | Some e \<Rightarrow>
          if ct_pins e \<noteq> 0 then (Inl Cache_Pinned, c)
          else (Inr (), c\<lparr>ci_used_bytes := ci_used_bytes c - ct_size_bytes e,
                          ci_entries := AList.delete key (ci_entries c)\<rparr>))"

subsection \<open>The store: \<open>dataset_cache_store.rs\<close>\<close>

datatype cache_store_error =
  Store_Policy cache_error | Store_Preparation prepare_error | Store_File | Store_Poisoned

record cache_store =
  cs_index :: cache_index
  cs_trees :: "string \<rightharpoonup> tree" \<comment> \<open>the complete trees of the private root\<close>
  cs_poisoned :: bool
  cs_live :: "string list" \<comment> \<open>the keys of the \<open>CachePin\<close> values alive\<close>

definition CacheStore_new :: "bool \<Rightarrow> bool \<Rightarrow> u64 \<Rightarrow> u64 \<Rightarrow> cache_store_error + cache_store" where
  "CacheStore_new root_ok empty_root high low =
     (if \<not> root_ok \<or> \<not> empty_root then Inl Store_File
      else and_then (map_err Store_Policy (CacheIndex_new high low)) (\<lambda>index.
        Inr \<lparr>cs_index = index, cs_trees = Map.empty, cs_poisoned = False, cs_live = []\<rparr>))"

definition dataset_file_json :: "dataset_file \<Rightarrow> json" where
  "dataset_file_json f = JObject
     [(''path'', JString (df_path f)), (''sizeBytes'', JNumber (decimal (unat (df_size_bytes f)))),
      (''sha256'', JString (df_sha256 f))]"

definition dataset_manifest_json :: "dataset_manifest \<Rightarrow> json" where
  "dataset_manifest_json m = JObject
     [(''format'', JString (dm_format m)), (''files'', JArray (map dataset_file_json (dm_files m)))]"

definition identity_field :: "string \<Rightarrow> u8 list" where
  "identity_field s = u64_be (word_of_nat (length s)) @ as_bytes s"

definition identity_bytes :: "'x externals_scheme \<Rightarrow> object_version \<Rightarrow> dataset_manifest \<Rightarrow> u8 list" where
  "identity_bytes x obj m =
     identity_field (ov_key obj) @ identity_field (ov_version_id obj) @ identity_field (ov_sha256 obj)
     @ u64_be (ov_size_bytes obj) @ x_print x (dataset_manifest_json m)"

definition cache_identity :: "'x externals_scheme \<Rightarrow> object_version \<Rightarrow> dataset_manifest \<Rightarrow> string" where
  "cache_identity x obj m = hex (x_sha256 x (identity_bytes x obj m))"

record cache_env =
  cv_stat_ok :: bool \<comment> \<open>the metadata of a cached tree is read and as it was sealed\<close>
  cv_now :: "nat option"
  cv_delete_ok :: "string \<Rightarrow> bool"
  cv_drops :: "nat \<Rightarrow> string list" \<comment> \<open>pins dropped by other tasks, per point of interleaving\<close>
  cv_nonce :: "u8 list option"
  cv_download :: download_env
  cv_stage :: stage_env

text \<open>Dropping a \<open>CachePin\<close>; there is nothing to drop when no such pin is alive.\<close>

definition drop_pin :: "cache_store \<Rightarrow> string \<Rightarrow> cache_store" where
  "drop_pin s key =
     (if key \<in> set (cs_live s)
      then s\<lparr>cs_index := snd (index_unpin key (cs_index s)), cs_live := remove1 key (cs_live s)\<rparr>
      else s)"

text \<open>Handing out a \<open>CachePin\<close>.\<close>

definition give_pin :: "string \<Rightarrow> cache_store \<Rightarrow> cache_store" where
  "give_pin key s = s\<lparr>cs_live := key # cs_live s\<rparr>"

definition poison :: "cache_store \<Rightarrow> cache_store" where
  "poison s = s\<lparr>cs_poisoned := True\<rparr>"

text \<open>\<open>delete_tree\<close>: a failure may leave a part behind, which is no complete tree; every caller
  poisons the store then.\<close>

definition delete_tree :: "cache_env \<Rightarrow> string \<Rightarrow> cache_store \<Rightarrow> bool \<times> cache_store" where
  "delete_tree env key s = (cv_delete_ok env key \<and> cs_trees s key \<noteq> None, s\<lparr>cs_trees := (cs_trees s)(key := None)\<rparr>)"

fun evict :: "cache_env \<Rightarrow> nat \<Rightarrow> string list \<Rightarrow> cache_store \<Rightarrow> (cache_store_error + unit) \<times> cache_store" where
  "evict env i [] s = (Inr (), s)"
| "evict env i (victim # vs) s =
     (let (ok, s1) = delete_tree env victim (foldl drop_pin s (cv_drops env i)) in
      if \<not> ok then (Inl Store_Poisoned, poison s1)
      else case index_remove victim (cs_index s1) of
        (Inl e, c) \<Rightarrow> (Inl (Store_Policy e), s1\<lparr>cs_index := c\<rparr>)
      | (Inr _, c) \<Rightarrow> evict env (Suc i) vs (s1\<lparr>cs_index := c\<rparr>))"

definition index_new_tree ::
  "cache_env \<Rightarrow> string \<Rightarrow> object_version \<Rightarrow> cache_store \<Rightarrow> (cache_store_error + string) \<times> cache_store" where
  "index_new_tree env key obj s =
     (case index_insert key (ov_size_bytes obj) (cs_index s) of
        (Inl e, c) \<Rightarrow>
          let c' = if index_contains c key then snd (index_remove key c) else c;
              (ok, s') = delete_tree env key (s\<lparr>cs_index := c'\<rparr>)
          in (Inl (Store_Policy e), if ok then s' else poison s')
      | (Inr _, c) \<Rightarrow>
          (case index_pin key c of
             (Inl e, c2) \<Rightarrow>
               let c' = if index_contains c2 key then snd (index_remove key c2) else c2;
                   (ok, s') = delete_tree env key (s\<lparr>cs_index := c'\<rparr>)
               in (Inl (Store_Policy e), if ok then s' else poison s')
           | (Inr _, c2) \<Rightarrow> (Inr key, give_pin key (s\<lparr>cs_index := c2\<rparr>))))"

definition cache_prepare ::
  "'x dataset_externals_scheme \<Rightarrow> bool \<Rightarrow> cache_env \<Rightarrow> object_version \<Rightarrow> string \<Rightarrow> i64 \<Rightarrow> dataset_manifest
     \<Rightarrow> cache_store \<Rightarrow> (cache_store_error + string) \<times> cache_store" where
  "cache_prepare x allow env obj raw_url expires m s =
     (if cs_poisoned s then (Inl Store_Poisoned, s)
      else let key = cache_identity x obj m in
      if index_contains (cs_index s) key then
        (if \<not> cv_stat_ok env \<or> cs_trees s key = None then (Inl Store_Poisoned, poison s)
         else case index_pin key (cs_index s) of
           (Inl e, c) \<Rightarrow> (Inl (Store_Policy e), s\<lparr>cs_index := c\<rparr>)
         | (Inr _, c) \<Rightarrow> (Inr key, give_pin key (s\<lparr>cs_index := c\<rparr>)))
      else case download_grant x allow (cv_now env) obj raw_url expires of
        Inl _ \<Rightarrow> (Inl Store_File, s)
      | Inr _ \<Rightarrow>
      (case validate_dataset_manifest m of
        Inl _ \<Rightarrow> (Inl Store_File, s)
      | Inr _ \<Rightarrow>
      (case plan_eviction (cs_index s) (ov_size_bytes obj) of
        Inl e \<Rightarrow> (Inl (Store_Policy e), s)
      | Inr victims \<Rightarrow>
      (case evict env 0 victims s of
        (Inl e, s1) \<Rightarrow> (Inl e, s1)
      | (Inr _, s1) \<Rightarrow>
      (case prepare_dataset x allow (cv_nonce env) (cv_download env)
              ((cv_stage env)\<lparr>sv_exists := cs_trees s1 key \<noteq> None\<rparr>) obj raw_url expires m of
        (r, published) \<Rightarrow>
          let s2 = foldl drop_pin s1 (cv_drops env (length victims));
              s3 = (case published of None \<Rightarrow> s2 | Some t \<Rightarrow> s2\<lparr>cs_trees := (cs_trees s2)(key \<mapsto> t)\<rparr>)
          in (case r of
            Inl e \<Rightarrow>
              if cs_trees s3 key \<noteq> None then
                (let (ok, s4) = delete_tree env key s3
                 in if ok then (Inl (Store_Preparation e), s4) else (Inl Store_Poisoned, poison s4))
              else (Inl (Store_Preparation e), s3)
          | Inr _ \<Rightarrow> index_new_tree env key obj s3))))))"

section \<open>The index keeps its account\<close>

definition entry_sizes :: "(string \<times> cache_entry) list \<Rightarrow> nat" where
  "entry_sizes es = sum_list (map ((unat \<circ> ct_size_bytes) \<circ> snd) es)"

definition index_inv :: "cache_index \<Rightarrow> bool" where
  "index_inv c \<longleftrightarrow>
     distinct (map fst (ci_entries c)) \<and> unat (ci_used_bytes c) = entry_sizes (ci_entries c)
     \<and> ci_used_bytes c \<le> ci_high_bytes c \<and> ci_low_bytes c < ci_high_bytes c"

lemma entry_sizes_simps [simp]:
  "entry_sizes [] = 0"
  "entry_sizes ((k, e) # es) = unat (ct_size_bytes e) + entry_sizes es"
  "entry_sizes (es @ fs) = entry_sizes es + entry_sizes fs"
  by (simp_all add: entry_sizes_def)

lemma entry_sizes_delete:
  "distinct (map fst es) \<Longrightarrow> map_of es k = Some e \<Longrightarrow>
     entry_sizes es = unat (ct_size_bytes e) + entry_sizes (AList.delete k es)"
  unfolding entry_sizes_def by (drule (1) sum_delete [where f = "unat \<circ> ct_size_bytes"]) simp

lemma entry_sizes_update:
  "map_of es k = Some e \<Longrightarrow> ct_size_bytes e' = ct_size_bytes e \<Longrightarrow>
     entry_sizes (AList.update k e' es) = entry_sizes es"
  unfolding entry_sizes_def by (simp add: AList_update_same_value [where f = "unat \<circ> ct_size_bytes"])

definition pins_of :: "cache_index \<Rightarrow> string \<Rightarrow> nat" where
  "pins_of c k = (case map_of (ci_entries c) k of None \<Rightarrow> 0 | Some e \<Rightarrow> unat (ct_pins e))"

lemma index_insert_cases:
  assumes "index_insert key sz c = (r, c')" and "index_inv c"
  shows "index_inv c' \<and> pins_of c' = pins_of c
    \<and> (if r = Inr () then \<not> index_contains c key \<and> (\<forall>k. index_contains c' k \<longleftrightarrow> k = key \<or> index_contains c k)
       else c' = c)"
proof (cases "r = Inr ()")
  case True
  then obtain used clock where new: "map_of (ci_entries c) key = None" "checked_add (ci_used_bytes c) sz = Some used"
    "used \<le> ci_high_bytes c"
    and c': "c' = c\<lparr>ci_clock := clock,
      ci_entries := AList.update key \<lparr>ct_size_bytes = sz, ct_pins = 0, ct_last_used = clock\<rparr> (ci_entries c),
      ci_used_bytes := used\<rparr>"
    using assms(1)
    by (auto simp: index_insert_def index_contains_def split: if_splits option.splits)
  have "unat used = unat (ci_used_bytes c) + unat sz"
    using new(2) by (rule checked_add_unat)
  moreover have "key \<notin> fst ` set (ci_entries c)"
    using new(1) by (simp add: map_of_eq_None_iff)
  ultimately have "index_inv c'"
    using assms(2) new by (simp add: index_inv_def c' AList_update_new)
  moreover have "pins_of c' = pins_of c"
    using new(1) by (auto simp: pins_of_def c' fun_eq_iff update_conv' split: option.splits)
  ultimately show ?thesis
    using True new(1) by (auto simp: index_contains_def c' update_conv')
next
  case False
  then have "c' = c"
    using assms(1) by (auto simp: index_insert_def split: if_splits option.splits)
  then show ?thesis
    using False assms(2) by simp
qed

lemma index_update_inv:
  assumes "index_inv c" and "map_of (ci_entries c) key = Some e" and "ct_size_bytes e' = ct_size_bytes e"
  shows "index_inv (c\<lparr>ci_entries := AList.update key e' (ci_entries c)\<rparr>)"
  using assms by (simp add: index_inv_def entry_sizes_update AList_update_keys)

lemma index_pin_cases:
  assumes "index_pin key c = (r, c')" and "index_inv c"
  shows "index_inv c' \<and> (\<forall>k. index_contains c' k \<longleftrightarrow> index_contains c k)
    \<and> (if r = Inr () then index_contains c key \<and> pins_of c' = (pins_of c)(key := Suc (pins_of c key)) else c' = c)"
proof (cases "r = Inr ()")
  case True
  then obtain e pins clock where e: "map_of (ci_entries c) key = Some e" "checked_add (ct_pins e) 1 = Some pins"
    and c': "c' = c\<lparr>ci_entries := AList.update key (e\<lparr>ct_pins := pins, ct_last_used := clock\<rparr>) (ci_entries c), ci_clock := clock\<rparr>"
    using assms(1) by (auto simp: index_pin_def split: option.splits)
  have "unat pins = Suc (unat (ct_pins e))"
    using checked_add_unat [OF e(2)] by simp
  then have "pins_of c' = (pins_of c)(key := Suc (pins_of c key))"
    using e(1) by (auto simp: pins_of_def c' fun_eq_iff update_conv' split: option.splits)
  moreover have "index_inv c'"
    using index_update_inv [OF assms(2) e(1), of "e\<lparr>ct_pins := pins, ct_last_used := clock\<rparr>"]
    by (simp add: c' index_inv_def)
  ultimately show ?thesis
    using True e(1) by (auto simp: index_contains_def c' update_conv')
next
  case False
  then have "c' = c"
    using assms(1) by (auto simp: index_pin_def split: option.splits)
  then show ?thesis
    using False assms(2) by simp
qed

lemma index_unpin_cases:
  assumes "index_inv c"
  shows "index_inv (snd (index_unpin key c)) \<and> (\<forall>k. index_contains (snd (index_unpin key c)) k \<longleftrightarrow> index_contains c k)
    \<and> pins_of (snd (index_unpin key c)) = (pins_of c)(key := pins_of c key - 1)"
proof (cases "map_of (ci_entries c) key")
  case None
  then show ?thesis
    using assms by (auto simp: index_unpin_def pins_of_def fun_eq_iff)
next
  case (Some e)
  show ?thesis
  proof (cases "ct_pins e = 0")
    case True
    then show ?thesis
      using assms Some by (auto simp: index_unpin_def pins_of_def fun_eq_iff)
  next
    case False
    let ?e = "e\<lparr>ct_pins := ct_pins e - 1\<rparr>"
    have "unat (ct_pins e - 1) = unat (ct_pins e) - 1"
      using False by (simp add: unat_sub_le word_le_nat_alt unat_gt_0 Suc_leI)
    then have "pins_of (c\<lparr>ci_entries := AList.update key ?e (ci_entries c)\<rparr>) = (pins_of c)(key := pins_of c key - 1)"
      using Some by (auto simp: pins_of_def fun_eq_iff update_conv' split: option.splits)
    moreover have "index_contains (c\<lparr>ci_entries := AList.update key ?e (ci_entries c)\<rparr>) k \<longleftrightarrow> index_contains c k" for k
      using Some by (auto simp: index_contains_def update_conv')
    ultimately show ?thesis
      using index_update_inv [OF assms Some, of ?e] Some False by (simp add: index_unpin_def)
  qed
qed

lemma index_remove_cases:
  assumes "index_remove key c = (r, c')" and "index_inv c"
  shows "index_inv c'
    \<and> (if r = Inr () then index_contains c key \<and> pins_of c key = 0 \<and> pins_of c' = pins_of c
         \<and> (\<forall>k. index_contains c' k \<longleftrightarrow> k \<noteq> key \<and> index_contains c k)
       else c' = c)"
proof (cases "r = Inr ()")
  case True
  then obtain e where e: "map_of (ci_entries c) key = Some e" "ct_pins e = 0"
    and c': "c' = c\<lparr>ci_used_bytes := ci_used_bytes c - ct_size_bytes e, ci_entries := AList.delete key (ci_entries c)\<rparr>"
    using assms(1) by (auto simp: index_remove_def split: option.splits if_splits)
  have sz: "unat (ci_used_bytes c) = unat (ct_size_bytes e) + entry_sizes (AList.delete key (ci_entries c))"
    using assms(2) e(1) entry_sizes_delete by (simp add: index_inv_def)
  then have "unat (ci_used_bytes c - ct_size_bytes e) = entry_sizes (AList.delete key (ci_entries c))"
    by (simp add: unat_sub_le word_le_nat_alt)
  moreover have "ci_used_bytes c - ct_size_bytes e \<le> ci_high_bytes c"
    using assms(2) sz calculation by (simp add: index_inv_def word_le_nat_alt)
  ultimately have "index_inv c'"
    using assms(2) by (simp add: index_inv_def c' distinct_delete)
  moreover have "pins_of c' = pins_of c"
    using e by (auto simp: pins_of_def c' fun_eq_iff delete_conv' split: option.splits)
  ultimately show ?thesis
    using True e by (auto simp: index_contains_def pins_of_def c' delete_conv')
next
  case False
  then have "c' = c"
    using assms(1) by (auto simp: index_remove_def split: option.splits if_splits)
  then show ?thesis
    using False assms(2) by simp
qed

section \<open>The eviction plan\<close>

lemma pick_victims_take:
  "pick_victims low p cs = (p', vs) \<Longrightarrow> entry_sizes cs \<le> unat p \<Longrightarrow>
     \<exists>n \<le> length cs. vs = map fst (take n cs) \<and> unat p' + entry_sizes (take n cs) = unat p
       \<and> (n < length cs \<longrightarrow> p' \<le> low)"
proof (induction low p cs arbitrary: vs rule: pick_victims.induct)
  case (2 low p key e cs)
  show ?case
  proof (cases "p \<le> low")
    case True
    then show ?thesis
      using 2(2) by (intro exI [of _ 0]) simp
  next
    case False
    obtain us where q: "pick_victims low (p - ct_size_bytes e) cs = (p', us)" "vs = key # us"
      using 2(2) False by (auto split: prod.splits)
    have sub: "unat (p - ct_size_bytes e) = unat p - unat (ct_size_bytes e)"
      using 2(3) by (simp add: unat_sub_le word_le_nat_alt)
    obtain n where "n \<le> length cs" "us = map fst (take n cs)" "unat p' + entry_sizes (take n cs) = unat (p - ct_size_bytes e)"
      "n < length cs \<longrightarrow> p' \<le> low"
    proof -
      have "entry_sizes cs \<le> unat (p - ct_size_bytes e)"
        using 2(3) sub by simp
      from 2(1) [OF False q(1) this] that show thesis by blast
    qed
    then show ?thesis
      using 2(3) q(2) sub by (intro exI [of _ "Suc n"]) auto
  qed
qed simp

lemma entry_sizes_mset: "mset es = mset fs \<Longrightarrow> entry_sizes es = entry_sizes fs"
  unfolding entry_sizes_def by (metis mset_map sum_mset_sum_list)

lemma candidate_sizes:
  "entry_sizes (eviction_candidates c) + entry_sizes (filter (\<lambda>(_, e). ct_pins e \<noteq> 0) (ci_entries c))
     = entry_sizes (ci_entries c)"
proof -
  have "entry_sizes (eviction_candidates c) = entry_sizes (filter (\<lambda>(_, e). ct_pins e = 0) (ci_entries c))"
    unfolding eviction_candidates_def by (rule entry_sizes_mset) simp
  moreover have "entry_sizes (filter (\<lambda>(_, e). ct_pins e = 0) es) + entry_sizes (filter (\<lambda>(_, e). ct_pins e \<noteq> 0) es)
      = entry_sizes es" for es
    by (induction es) auto
  ultimately show ?thesis
    by simp
qed

text \<open>The eviction plan is sound and complete. The victims are the least recently used
  unpinned entries, and without them the new tree fits below the high watermark; the plan
  fails only for an impossible size, or when what is pinned leaves no room even after
  evicting everything else. (The sum of used and incoming bytes must fit in 64 bits, which
  the code checks first.)\<close>

theorem eviction_plan_exact:
  assumes "index_inv c" and "unat (ci_used_bytes c) + unat incoming < 2 ^ 64"
  shows "case plan_eviction c incoming of
      Inr victims \<Rightarrow>
        (\<exists>n. victims = map fst (take n (eviction_candidates c))
           \<and> unat (ci_used_bytes c) - entry_sizes (take n (eviction_candidates c)) + unat incoming \<le> unat (ci_high_bytes c))
    | Inl e \<Rightarrow> e = Cache_Capacity \<and> (incoming = 0
        \<or> unat (ci_high_bytes c) < entry_sizes (filter (\<lambda>(_, e). ct_pins e \<noteq> 0) (ci_entries c)) + unat incoming)"
proof (cases "incoming = 0 \<or> ci_high_bytes c < incoming")
  case True
  then show ?thesis
    by (auto simp: plan_eviction_def word_less_nat_alt)
next
  case False
  let ?C = "eviction_candidates c" and ?p = "ci_used_bytes c + incoming"
  have add: "checked_add (ci_used_bytes c) incoming = Some ?p" "unat ?p = unat (ci_used_bytes c) + unat incoming"
    using assms(2) by (simp_all add: checked_add_def unat_add_bounded)
  have used: "unat (ci_used_bytes c) = entry_sizes ?C + entry_sizes (filter (\<lambda>(_, e). ct_pins e \<noteq> 0) (ci_entries c))"
    using assms(1) candidate_sizes by (simp add: index_inv_def)
  show ?thesis
  proof (cases "?p \<le> ci_high_bytes c")
    case True
    then show ?thesis
      using False add by (auto simp: plan_eviction_def word_le_nat_alt intro!: exI [of _ 0])
  next
    case over: False
    obtain final vs where pick: "pick_victims (ci_low_bytes c) ?p ?C = (final, vs)"
      by (cases "pick_victims (ci_low_bytes c) ?p ?C")
    obtain n where n: "n \<le> length ?C" "vs = map fst (take n ?C)" "unat final + entry_sizes (take n ?C) = unat ?p"
      "n < length ?C \<longrightarrow> final \<le> ci_low_bytes c"
      using pick_victims_take [OF pick] used add(2) by auto
    have plan: "plan_eviction c incoming = (if ci_high_bytes c < final then Inl Cache_Capacity else Inr vs)"
      using False over add pick by (simp add: plan_eviction_def)
    have part: "entry_sizes (take n ?C) \<le> entry_sizes ?C"
      using entry_sizes_simps(3) [of "take n ?C" "drop n ?C"] by simp
    show ?thesis
    proof (cases "ci_high_bytes c < final")
      case True
      have "n = length ?C"
        using n(1,4) True assms(1) by (auto simp: index_inv_def word_less_nat_alt word_le_nat_alt)
      then show ?thesis
        using plan True n(3) used add(2) by (simp add: word_less_nat_alt)
    next
      case False
      then have "plan_eviction c incoming = Inr vs" and "unat final \<le> unat (ci_high_bytes c)"
        using plan by (simp_all add: not_less word_le_nat_alt)
      then show ?thesis
        using n(2,3) part used add(2) by (auto intro!: exI [of _ n])
    qed
  qed
qed


section \<open>Pinned trees stay\<close>

text \<open>No Rust string has \<open>2^64\<close> bytes.\<close>

definition short_fields :: "object_version \<Rightarrow> bool" where
  "short_fields obj \<longleftrightarrow> length (ov_key obj) < 2 ^ 64 \<and> length (ov_version_id obj) < 2 ^ 64 \<and> length (ov_sha256 obj) < 2 ^ 64"

definition tree_verified :: "'x externals_scheme \<Rightarrow> string \<Rightarrow> tree \<Rightarrow> bool" where
  "tree_verified x key t \<longleftrightarrow>
     (\<exists>obj m. short_fields obj \<and> cache_identity x obj m = key \<and> validate_dataset_manifest m = Inr ()
        \<and> list_all2 (file_matches x) (dm_files m) t)"

definition cache_inv :: "'x externals_scheme \<Rightarrow> cache_store \<Rightarrow> bool" where
  "cache_inv x s \<longleftrightarrow>
     index_inv (cs_index s)
     \<and> (\<forall>k. pins_of (cs_index s) k = count_list (cs_live s) k)
     \<and> (\<forall>k \<in> set (cs_live s). cs_trees s k \<noteq> None)
     \<and> (\<forall>k t. cs_trees s k = Some t \<longrightarrow> tree_verified x k t)"

lemma count_list_remove1: "count_list (remove1 x xs) y = (if x = y then count_list xs y - 1 else count_list xs y)"
  by (induction xs) (auto simp: count_list_0_iff)

lemma drop_pin_inv: "cache_inv x s \<Longrightarrow> cache_inv x (drop_pin s key)"
  using index_unpin_cases [of "cs_index s" key]
  by (auto simp: cache_inv_def drop_pin_def count_list_remove1 dest: notin_set_remove1)

lemma drop_pin_pins: "cache_inv x s \<Longrightarrow> pins_of (cs_index s) k = 0 \<Longrightarrow> pins_of (cs_index (drop_pin s key)) k = 0"
  using index_unpin_cases [of "cs_index s" key] by (auto simp: cache_inv_def drop_pin_def)

lemma drop_pin_other [simp]:
  "cs_trees (drop_pin s key) = cs_trees s" "cs_poisoned (drop_pin s key) = cs_poisoned s"
  by (simp_all add: drop_pin_def)

lemma drop_pins_inv: "cache_inv x s \<Longrightarrow> cache_inv x (foldl drop_pin s ks)"
  by (induction ks arbitrary: s) (simp_all add: drop_pin_inv)

lemma drop_pins_pins:
  "cache_inv x s \<Longrightarrow> pins_of (cs_index s) k = 0 \<Longrightarrow> pins_of (cs_index (foldl drop_pin s ks)) k = 0"
  by (induction ks arbitrary: s) (simp_all add: drop_pin_inv drop_pin_pins)

lemma drop_pins_trees [simp]: "cs_trees (foldl drop_pin s ks) = cs_trees s"
  by (induction ks arbitrary: s) simp_all

lemma poison_inv: "cache_inv x s \<Longrightarrow> cache_inv x (poison s)"
  by (simp add: cache_inv_def poison_def)

lemma delete_tree_inv:
  assumes "cache_inv x s" and "pins_of (cs_index s) key = 0" and "delete_tree env key s = (ok, s')"
  shows "cache_inv x s' \<and> cs_index s' = cs_index s \<and> cs_live s' = cs_live s \<and> cs_trees s' = (cs_trees s)(key := None)"
proof -
  have "key \<notin> set (cs_live s)"
    using assms(1,2) by (metis cache_inv_def count_list_0_iff)
  moreover have "s' = s\<lparr>cs_trees := (cs_trees s)(key := None)\<rparr>"
    using assms(3) by (simp add: delete_tree_def)
  ultimately show ?thesis
    using assms(1) by (auto simp: cache_inv_def)
qed

lemma set_index_inv:
  assumes "cache_inv x s" and "index_inv c" and "pins_of c = pins_of (cs_index s)"
  shows "cache_inv x (s\<lparr>cs_index := c\<rparr>)"
  using assms by (simp add: cache_inv_def)

definition unpinned_stay :: "cache_store \<Rightarrow> cache_store \<Rightarrow> bool" where
  "unpinned_stay s s' \<longleftrightarrow> (\<forall>k. pins_of (cs_index s) k = 0 \<longrightarrow> pins_of (cs_index s') k = 0)"

lemma evict_inv:
  "evict env i victims s = (r, s') \<Longrightarrow> cache_inv x s \<Longrightarrow> \<forall>v \<in> set victims. pins_of (cs_index s) v = 0 \<Longrightarrow>
     cache_inv x s' \<and> unpinned_stay s s'"
proof (induction env i victims s rule: evict.induct)
  case (2 env i victim vs s)
  let ?s = "foldl drop_pin s (cv_drops env i)"
  obtain ok s1 where del: "delete_tree env victim ?s = (ok, s1)"
    by (cases "delete_tree env victim ?s")
  obtain q c where rm: "index_remove victim (cs_index s1) = (q, c)"
    by (cases "index_remove victim (cs_index s1)")
  have s: "cache_inv x ?s"
    using 2(3) by (rule drop_pins_inv)
  have stay: "unpinned_stay s ?s"
    using 2(3) drop_pins_pins by (auto simp: unpinned_stay_def)
  have zero: "\<forall>v \<in> set (victim # vs). pins_of (cs_index ?s) v = 0"
    using 2(4) stay by (auto simp: unpinned_stay_def)
  have s1: "cache_inv x s1" "cs_index s1 = cs_index ?s"
    using delete_tree_inv [OF s _ del] zero by auto
  have c: "index_inv c" "pins_of c = pins_of (cs_index s1)"
    using index_remove_cases [OF rm] s1(1) by (auto simp: cache_inv_def split: if_splits)
  have s2: "cache_inv x (s1\<lparr>cs_index := c\<rparr>)"
    using set_index_inv [OF s1(1) c] .
  have stay2: "unpinned_stay s s1" "unpinned_stay s (s1\<lparr>cs_index := c\<rparr>)"
    using stay c(2) s1(2) by (simp_all add: unpinned_stay_def)
  show ?case
  proof (cases "ok \<and> q = Inr ()")
    case True
    then have rest: "evict env (Suc i) vs (s1\<lparr>cs_index := c\<rparr>) = (r, s')"
      using 2(2) del rm by simp
    moreover have "\<forall>v \<in> set vs. pins_of (cs_index (s1\<lparr>cs_index := c\<rparr>)) v = 0"
      using zero c(2) s1(2) by simp
    ultimately have "cache_inv x s' \<and> unpinned_stay (s1\<lparr>cs_index := c\<rparr>) s'"
      using 2(1) del True rm s2 by (metis (no_types, lifting))
    then show ?thesis
      using stay2(2) by (simp add: unpinned_stay_def)
  next
    case False
    then have "s' = poison s1 \<or> s' = s1\<lparr>cs_index := c\<rparr>"
      using 2(2) del rm by (cases q) (auto split: if_splits)
    then show ?thesis
      using s1(1) s2 stay2 by (auto simp: poison_inv) (simp add: unpinned_stay_def poison_def)
  qed
qed (simp add: unpinned_stay_def)

lemma plan_victims_unpinned:
  assumes "plan_eviction c incoming = Inr victims" and "index_inv c" and "v \<in> set victims"
  shows "pins_of c v = 0"
proof -
  have "set vs \<subseteq> fst ` set cs" if "pick_victims low p cs = (final, vs)" for low p cs final vs
    using that by (induction low p cs arbitrary: final vs rule: pick_victims.induct)
      (auto simp: Let_def split: if_splits prod.splits)
  then have "v \<in> fst ` set (eviction_candidates c)"
    using assms(1,3) by (auto simp: plan_eviction_def Let_def split: if_splits prod.splits option.splits) blast
  then obtain e where "(v, e) \<in> set (ci_entries c)" "ct_pins e = 0"
    by (auto simp: eviction_candidates_def)
  then show ?thesis
    using assms(2) by (simp add: index_inv_def pins_of_def)
qed

lemma undo_inv:
  assumes "cache_inv x s" and "index_inv c" and "pins_of c = pins_of (cs_index s)" and "pins_of c key = 0"
  shows "cache_inv x (let c' = if index_contains c key then snd (index_remove key c) else c;
      (ok, s') = delete_tree env key (s\<lparr>cs_index := c'\<rparr>) in if ok then s' else poison s')"
proof -
  let ?c = "if index_contains c key then snd (index_remove key c) else c"
  obtain q c1 where rm: "index_remove key c = (q, c1)"
    by (cases "index_remove key c")
  have c: "index_inv ?c" "pins_of ?c = pins_of c"
    using index_remove_cases [OF rm assms(2)] assms(2) rm by (auto split: if_splits)
  obtain ok s' where d: "delete_tree env key (s\<lparr>cs_index := ?c\<rparr>) = (ok, s')"
    by (cases "delete_tree env key (s\<lparr>cs_index := ?c\<rparr>)")
  have "cache_inv x (s\<lparr>cs_index := ?c\<rparr>)"
    using set_index_inv [OF assms(1) c(1)] c(2) assms(3) by simp
  from delete_tree_inv [OF this _ d] have "cache_inv x s'"
    using c(2) assms(4) by simp
  then show ?thesis
    using d by (simp add: Let_def poison_inv)
qed

lemma give_pin_inv:
  assumes "cache_inv x s" and "index_inv c" and "pins_of c = (pins_of (cs_index s))(key := Suc (pins_of (cs_index s) key))"
    and "cs_trees s key \<noteq> None"
  shows "cache_inv x (give_pin key (s\<lparr>cs_index := c\<rparr>))"
  using assms by (auto simp: cache_inv_def give_pin_def)

lemma index_new_tree_inv:
  assumes "index_new_tree env key obj s = (r, s')" and "cache_inv x s" and "pins_of (cs_index s) key = 0"
    and "cs_trees s key \<noteq> None"
  shows "cache_inv x s' \<and> (\<forall>k. r = Inr k \<longrightarrow> k = key \<and> key \<in> set (cs_live s'))"
proof -
  obtain q c where ins: "index_insert key (ov_size_bytes obj) (cs_index s) = (q, c)"
    by (cases "index_insert key (ov_size_bytes obj) (cs_index s)")
  have inv: "index_inv (cs_index s)"
    using assms(2) by (simp add: cache_inv_def)
  have c: "index_inv c" "pins_of c = pins_of (cs_index s)"
    using index_insert_cases [OF ins inv] by auto
  obtain q2 c2 where pin: "index_pin key c = (q2, c2)"
    by (cases "index_pin key c")
  note undo = undo_inv [OF assms(2), where key = key and env = env]
  have c2: "index_inv c2" "q2 = Inr () \<Longrightarrow> pins_of c2 = (pins_of c)(key := Suc (pins_of c key))" "q2 \<noteq> Inr () \<Longrightarrow> c2 = c"
    using index_pin_cases [OF pin c(1)] by (auto split: if_splits)
  show ?thesis
  proof (cases q)
    case (Inl e)
    then show ?thesis
      using assms(1,3) ins undo [OF c] c(2) by (auto simp: index_new_tree_def Let_def split: prod.splits)
  next
    case Inr
    show ?thesis
    proof (cases q2)
      case (Inl e)
      then have "c2 = c"
        using c2(3) by simp
      then show ?thesis
        using Inl Inr pin assms(1,3) ins undo [OF c] c(2) by (auto simp: index_new_tree_def Let_def split: prod.splits)
    next
      case (Inr u)
      then have "cache_inv x (give_pin key (s\<lparr>cs_index := c2\<rparr>))"
        using give_pin_inv [OF assms(2) c2(1)] c2(2) c(2) assms(4) by simp
      then show ?thesis
        using \<open>q = Inr _\<close> Inr pin ins assms(1) by (auto simp: index_new_tree_def give_pin_def)
    qed
  qed
qed

lemma prepare_dataset_published:
  "prepare_dataset x allow nonce denv senv obj raw_url expires m = (r, Some t) \<Longrightarrow>
     validate_dataset_manifest m = Inr () \<and> list_all2 (file_matches x) (dm_files m) t"
  by (auto simp: prepare_dataset_def dest!: stage_archive_published split: sum.splits prod.splits)

lemma publish_inv:
  assumes "cache_inv x s" and "tree_verified x key t"
  shows "cache_inv x (s\<lparr>cs_trees := (cs_trees s)(key \<mapsto> t)\<rparr>)"
  using assms by (auto simp: cache_inv_def)

lemma prepare_dataset_Inr:
  "prepare_dataset x allow nonce denv senv obj raw_url expires m = (Inr (), published) \<Longrightarrow> published \<noteq> None"
  by (auto simp: prepare_dataset_def dest: stage_archive_Inr split: sum.splits prod.splits)

lemma cache_prepare_hit:
  assumes "cache_prepare x allow env obj raw_url expires m s = (r, s')" and "cache_inv x s"
    and "index_contains (cs_index s) (cache_identity x obj m)"
  shows "cache_inv x s' \<and> (\<forall>k. r = Inr k \<longrightarrow> k = cache_identity x obj m \<and> k \<in> set (cs_live s'))"
proof -
  let ?k = "cache_identity x obj m"
  obtain q c where pin: "index_pin ?k (cs_index s) = (q, c)"
    by (cases "index_pin ?k (cs_index s)")
  have c: "index_inv c" "q \<noteq> Inr () \<Longrightarrow> c = cs_index s"
    "q = Inr () \<Longrightarrow> pins_of c = (pins_of (cs_index s))(?k := Suc (pins_of (cs_index s) ?k))"
    using index_pin_cases [OF pin] assms(2) by (auto simp: cache_inv_def split: if_splits)
  consider "s' = s" "is_ok r = False" | "s' = poison s" "is_ok r = False"
    | "s' = s\<lparr>cs_index := c\<rparr>" "is_ok r = False" "q \<noteq> Inr ()"
    | "s' = give_pin ?k (s\<lparr>cs_index := c\<rparr>)" "r = Inr ?k" "q = Inr ()" "cs_trees s ?k \<noteq> None"
    using assms(1,3) pin by (auto simp: cache_prepare_def Let_def is_ok_def split: if_splits sum.splits)
  then show ?thesis
  proof cases
    case 4
    then show ?thesis
      using give_pin_inv [OF assms(2) c(1) c(3)] by (simp add: give_pin_def)
  qed (use assms(2) c in \<open>auto simp: poison_inv is_ok_def\<close>)
qed

lemma publish_outcome_inv:
  assumes "cache_inv x s" and "pins_of (cs_index s) key = 0"
    and "\<forall>t. published = Some t \<longrightarrow> tree_verified x key t" and "p = Inr () \<longrightarrow> published \<noteq> None"
    and "s3 = (case published of None \<Rightarrow> s | Some t \<Rightarrow> s\<lparr>cs_trees := (cs_trees s)(key \<mapsto> t)\<rparr>)"
    and "(case p of
            Inl e \<Rightarrow>
              if cs_trees s3 key \<noteq> None then
                (let (ok, s4) = delete_tree env key s3
                 in if ok then (Inl (Store_Preparation e), s4) else (Inl Store_Poisoned, poison s4))
              else (Inl (Store_Preparation e), s3)
          | Inr _ \<Rightarrow> index_new_tree env key obj s3) = (r, s')"
  shows "cache_inv x s' \<and> (\<forall>k. r = Inr k \<longrightarrow> k = key \<and> k \<in> set (cs_live s'))"
proof -
  have s3: "cache_inv x s3" "cs_index s3 = cs_index s" "p = Inr () \<longrightarrow> cs_trees s3 key \<noteq> None"
    using assms(1,3,4,5) publish_inv by (auto split: option.splits)
  obtain ok s4 where d: "delete_tree env key s3 = (ok, s4)"
    by (cases "delete_tree env key s3")
  have "cache_inv x s4"
    using delete_tree_inv [OF s3(1) _ d] s3(2) assms(2) by simp
  then show ?thesis
    using assms(2,6) s3 d index_new_tree_inv [of env key obj s3 r s']
    by (cases p) (auto simp: poison_inv split: if_splits)
qed

lemma cache_prepare_inv:
  assumes "cache_prepare x allow env obj raw_url expires m s = (r, s')" and "cache_inv x s" and "short_fields obj"
  shows "cache_inv x s' \<and> (\<forall>k. r = Inr k \<longrightarrow> k = cache_identity x obj m \<and> k \<in> set (cs_live s'))"
proof (cases "index_contains (cs_index s) (cache_identity x obj m)")
  case True
  then show ?thesis
    using cache_prepare_hit [OF assms(1,2)] by simp
next
  case fresh: False
  let ?k = "cache_identity x obj m"
  show ?thesis
  proof (cases "cs_poisoned s \<or> (\<nexists>u. download_grant x allow (cv_now env) obj raw_url expires = Inr u)
      \<or> validate_dataset_manifest m \<noteq> Inr () \<or> (\<nexists>vs. plan_eviction (cs_index s) (ov_size_bytes obj) = Inr vs)")
    case True
    then have "s' = s \<and> \<not> is_ok r"
      using assms(1) fresh
      by (cases "download_grant x allow (cv_now env) obj raw_url expires"; cases "validate_dataset_manifest m";
          cases "plan_eviction (cs_index s) (ov_size_bytes obj)"; cases "cs_poisoned s")
        (auto simp: cache_prepare_def Let_def is_ok_def)
    then show ?thesis
      using assms(2) by (auto simp: is_ok_def)
  next
    case False
    then obtain u vs where ok: "\<not> cs_poisoned s" "download_grant x allow (cv_now env) obj raw_url expires = Inr u"
      "validate_dataset_manifest m = Inr ()" "plan_eviction (cs_index s) (ov_size_bytes obj) = Inr vs"
      by blast
    obtain q s1 where ev: "evict env 0 vs s = (q, s1)"
      by (cases "evict env 0 vs s")
    have "\<forall>v \<in> set vs. pins_of (cs_index s) v = 0"
      using plan_victims_unpinned [OF ok(4)] assms(2) by (simp add: cache_inv_def)
    from evict_inv [OF ev assms(2) this] have s1: "cache_inv x s1" "unpinned_stay s s1"
      by auto
    let ?s2 = "foldl drop_pin s1 (cv_drops env (length vs))"
    have "pins_of (cs_index s) ?k = 0"
      using fresh by (auto simp: index_contains_def pins_of_def)
    then have zero: "pins_of (cs_index ?s2) ?k = 0"
      using s1(2) drop_pins_pins [OF s1(1)] by (simp add: unpinned_stay_def)
    obtain p published where prep: "prepare_dataset x allow (cv_nonce env) (cv_download env)
        ((cv_stage env)\<lparr>sv_exists := cs_trees s1 ?k \<noteq> None\<rparr>) obj raw_url expires m = (p, published)"
      by (cases "prepare_dataset x allow (cv_nonce env) (cv_download env)
        ((cv_stage env)\<lparr>sv_exists := cs_trees s1 ?k \<noteq> None\<rparr>) obj raw_url expires m")
    have pub: "\<forall>t. published = Some t \<longrightarrow> tree_verified x ?k t" "p = Inr () \<longrightarrow> published \<noteq> None"
      using prep assms(3) prepare_dataset_published prepare_dataset_Inr by (fastforce simp: tree_verified_def)+
    show ?thesis
    proof (cases q)
      case (Inl e)
      then show ?thesis
        using assms(1) fresh ok ev s1(1) by (auto simp: cache_prepare_def Let_def)
    next
      case (Inr v)
      show ?thesis
        by (rule publish_outcome_inv [OF drop_pins_inv [OF s1(1)] zero pub refl, of env obj r s'])
          (use assms(1) fresh ok ev Inr prep in \<open>simp add: cache_prepare_def Let_def\<close>)
    qed
  qed
qed

datatype cache_event =
  Cache_Prepare bool cache_env object_version string i64 dataset_manifest
| Cache_Drop string

fun cache_step :: "'x dataset_externals_scheme \<Rightarrow> cache_store \<Rightarrow> cache_event \<Rightarrow> cache_store" where
  "cache_step x s (Cache_Prepare allow env obj raw_url expires m) = snd (cache_prepare x allow env obj raw_url expires m s)"
| "cache_step x s (Cache_Drop key) = drop_pin s key"

fun short_event :: "cache_event \<Rightarrow> bool" where
  "short_event (Cache_Prepare allow env obj raw_url expires m) = short_fields obj"
| "short_event (Cache_Drop key) = True"

interpretation caching: kept_by_steps "cache_step x" short_event "cache_inv x" for x
proof
  fix s e
  assume "cache_inv x s" and "short_event e"
  then show "cache_inv x (cache_step x s e)"
    by (cases e) (auto intro: drop_pin_inv cache_prepare_inv [OF prod.collapse [symmetric], THEN conjunct1])
qed

lemma CacheStore_new_inv: "CacheStore_new root_ok empty_root high low = Inr s \<Longrightarrow> cache_inv x s"
  by (auto simp: CacheStore_new_def CacheIndex_new_def cache_inv_def index_inv_def pins_of_def split: if_splits)

lemma identity_field_inject:
  assumes "identity_field s @ a = identity_field t @ b" and "length s < 2 ^ 64" and "length t < 2 ^ 64"
  shows "s = t \<and> a = b"
proof -
  have head: "u64_be (word_of_nat (length s)) = u64_be (word_of_nat (length t))"
    and tail: "as_bytes s @ a = as_bytes t @ b"
    using assms(1) by (simp_all add: identity_field_def append_eq_append_conv)
  from arg_cong [OF head, of be_u64] have "(word_of_nat (length s) :: u64) = word_of_nat (length t)"
    by simp
  from arg_cong [OF this, of unat] have "length s = length t"
    using assms(2,3) by (simp add: unat_of_nat take_bit_nat_eq_self)
  with tail show ?thesis
    by (simp add: append_eq_append_conv)
qed

lemma dataset_manifest_json_inject: "dataset_manifest_json m = dataset_manifest_json m' \<Longrightarrow> m = m'"
proof -
  have "f = g" if "dataset_file_json f = dataset_file_json g" for f g
    using that by (auto simp: dataset_file_json_def decimal_inject word_unat_eq_iff [symmetric] intro!: dataset_file.equality)
  then have "inj dataset_file_json"
    by (rule injI)
  then show "dataset_manifest_json m = dataset_manifest_json m' \<Longrightarrow> m = m'"
    by (auto simp: dataset_manifest_json_def dest: inj_mapD intro: dataset_manifest.equality)
qed

lemma identity_bytes_inject:
  assumes "identity_bytes x obj m = identity_bytes x obj' m'" and "short_fields obj" and "short_fields obj'"
  shows "obj = obj' \<and> x_print x (dataset_manifest_json m) = x_print x (dataset_manifest_json m')"
proof -
  have k: "ov_key obj = ov_key obj'" and 1: "identity_field (ov_version_id obj) @ identity_field (ov_sha256 obj)
      @ u64_be (ov_size_bytes obj) @ x_print x (dataset_manifest_json m)
    = identity_field (ov_version_id obj') @ identity_field (ov_sha256 obj')
      @ u64_be (ov_size_bytes obj') @ x_print x (dataset_manifest_json m')"
    using identity_field_inject [OF assms(1) [unfolded identity_bytes_def]] assms(2,3) by (simp_all add: short_fields_def)
  from identity_field_inject [OF 1] assms(2,3) have v: "ov_version_id obj = ov_version_id obj'"
    and 2: "identity_field (ov_sha256 obj) @ u64_be (ov_size_bytes obj) @ x_print x (dataset_manifest_json m)
      = identity_field (ov_sha256 obj') @ u64_be (ov_size_bytes obj') @ x_print x (dataset_manifest_json m')"
    by (simp_all add: short_fields_def)
  from identity_field_inject [OF 2] assms(2,3) have s: "ov_sha256 obj = ov_sha256 obj'"
    and 3: "u64_be (ov_size_bytes obj) @ x_print x (dataset_manifest_json m)
      = u64_be (ov_size_bytes obj') @ x_print x (dataset_manifest_json m')"
    by (simp_all add: short_fields_def)
  from 3 have n: "u64_be (ov_size_bytes obj) = u64_be (ov_size_bytes obj')"
    and p: "x_print x (dataset_manifest_json m) = x_print x (dataset_manifest_json m')"
    by (simp_all add: append_eq_append_conv)
  from arg_cong [OF n, of be_u64] have "ov_size_bytes obj = ov_size_bytes obj'"
    by simp
  with k v s p show ?thesis
    by (simp add: object_version.equality)
qed

text \<open>C18. A job reads the dataset it was assigned. Whatever preparations and releases a fresh
  cache has gone through, and whatever else the disk and the network do meanwhile, a
  successful preparation hands out a tree that stays in place as long as some pin on it is
  alive, with exactly the files of the requested manifest; unless SHA-256 collides or two
  documents are printed alike. (No Rust string has \<open>2^64\<close> bytes.)\<close>

theorem pinned_tree_is_requested:
  assumes "CacheStore_new True True high low = Inr s0"
    and "list_all short_event before" and "short_fields obj" and "list_all short_event after"
    and "cache_prepare x allow env obj raw_url expires m (foldl (cache_step x) s0 before) = (Inr key, s)"
    and "key \<in> set (cs_live (foldl (cache_step x) s after))"
  shows "(\<exists>t. cs_trees (foldl (cache_step x) s after) key = Some t \<and> list_all2 (file_matches x) (dm_files m) t)
    \<or> (\<exists>a b. a \<noteq> b \<and> x_sha256 x a = x_sha256 x b) \<or> (\<exists>v v'. v \<noteq> v' \<and> x_print x v = x_print x v')"
proof -
  have "cache_inv x (foldl (cache_step x) s0 before)"
    using assms(2) by (intro caching.run_keeps CacheStore_new_inv [OF assms(1)]) (simp add: list_all_iff)
  from cache_prepare_inv [OF assms(5) this assms(3)] have s: "cache_inv x s" and key: "key = cache_identity x obj m"
    by simp_all
  have "cache_inv x (foldl (cache_step x) s after)"
    using assms(4) by (intro caching.run_keeps s) (simp add: list_all_iff)
  then obtain t where t: "cs_trees (foldl (cache_step x) s after) key = Some t" "tree_verified x key t"
    using assms(6) by (auto simp: cache_inv_def)
  then obtain obj' m' where src: "short_fields obj'" "cache_identity x obj' m' = cache_identity x obj m"
    "list_all2 (file_matches x) (dm_files m') t"
    by (auto simp: tree_verified_def key)
  show ?thesis
  proof (cases "identity_bytes x obj' m' = identity_bytes x obj m")
    case True
    from identity_bytes_inject [OF True src(1) assms(3)]
    have print: "x_print x (dataset_manifest_json m') = x_print x (dataset_manifest_json m)"
      by simp
    show ?thesis
    proof (cases "m' = m")
      case True
      then show ?thesis
        using t(1) src(3) by simp
    next
      case False
      then have "dataset_manifest_json m' \<noteq> dataset_manifest_json m"
        using dataset_manifest_json_inject by blast
      with print show ?thesis
        by blast
    qed
  next
    case False
    then show ?thesis
      using src(2) by (auto simp: cache_identity_def hex_inject)
  qed
qed

definition sample_cache_env :: cache_env where
  "sample_cache_env =
     \<lparr>cv_stat_ok = True, cv_now = Some 1000, cv_delete_ok = (\<lambda>_. True), cv_drops = (\<lambda>_. []),
      cv_nonce = Some (replicate 16 0), cv_download = sample_download_env, cv_stage = sample_stage_env\<rparr>"

definition empty_cache :: cache_store where
  "empty_cache =
     \<lparr>cs_index = \<lparr>ci_high_bytes = 10, ci_low_bytes = 5, ci_used_bytes = 0, ci_clock = 0, ci_entries = []\<rparr>,
      cs_trees = Map.empty, cs_poisoned = False, cs_live = []\<rparr>"

lemma sample_cached:
  "\<exists>s. cache_prepare sample_dataset_externals True sample_cache_env sample_archive ''u'' 2000 sample_manifest empty_cache
     = (Inr (cache_identity sample_dataset_externals sample_archive sample_manifest), s)
     \<and> cs_live s = [cache_identity sample_dataset_externals sample_archive sample_manifest]"
proof -
  obtain u where "download_grant sample_dataset_externals True (Some 1000) sample_archive ''u'' 2000 = Inr u"
    using sample_grant_ok [of "''u''" True] by (auto simp: is_ascii_control_def)
  moreover obtain n where "new_uuid (Some (replicate 16 0)) = Inr n"
    using new_uuid_Some by blast
  then have "prepare_dataset sample_dataset_externals True (Some (replicate 16 0)) sample_download_env
      (sample_stage_env\<lparr>sv_exists := False\<rparr>) sample_archive ''u'' 2000 sample_manifest = (Inr (), Some [(''a'', [7]), (''b/c'', [8])])"
    using sample_staged by (simp add: prepare_dataset_def sample_downloaded) (simp add: sample_stage_env_def)
  moreover have "ov_size_bytes sample_archive = 3"
    by (simp add: sample_archive_def)
  moreover have "length (cache_identity sample_dataset_externals sample_archive sample_manifest) = 64"
    by (simp add: cache_identity_def sample_dataset_externals_def length_hex)
  moreover from this have "cache_identity sample_dataset_externals sample_archive sample_manifest \<noteq> []"
    by fastforce
  ultimately show ?thesis
    by (simp add: cache_prepare_def empty_cache_def sample_cache_env_def index_contains_def sample_manifest_ok
        plan_eviction_def checked_add_def index_new_tree_def index_insert_def index_pin_def give_pin_def Let_def)
qed

theorem pinned_tree_is_requested_witness:
  "\<exists>s. cache_prepare sample_dataset_externals True sample_cache_env sample_archive ''u'' 2000 sample_manifest empty_cache
     = (Inr (cache_identity sample_dataset_externals sample_archive sample_manifest), s)
     \<and> ((\<exists>t. cs_trees s (cache_identity sample_dataset_externals sample_archive sample_manifest) = Some t
            \<and> list_all2 (file_matches sample_dataset_externals) (dm_files sample_manifest) t)
        \<or> (\<exists>a b. a \<noteq> b \<and> x_sha256 sample_dataset_externals a = x_sha256 sample_dataset_externals b)
        \<or> (\<exists>v v'. v \<noteq> v' \<and> x_print sample_dataset_externals v = x_print sample_dataset_externals v'))"
proof -
  obtain s where s: "cache_prepare sample_dataset_externals True sample_cache_env sample_archive ''u'' 2000 sample_manifest empty_cache
     = (Inr (cache_identity sample_dataset_externals sample_archive sample_manifest), s)"
    "cs_live s = [cache_identity sample_dataset_externals sample_archive sample_manifest]"
    using sample_cached by blast
  have "CacheStore_new True True 10 5 = Inr empty_cache"
    by (simp add: CacheStore_new_def CacheIndex_new_def empty_cache_def)
  moreover have "short_fields sample_archive"
    by (simp add: short_fields_def sample_archive_def zero_hash_def)
  ultimately show ?thesis
    using s pinned_tree_is_requested [of 10 5 empty_cache "[]" sample_archive "[]" sample_dataset_externals True
      sample_cache_env "''u''" 2000 sample_manifest _ s]
    by (intro exI [of _ s]) simp
qed

theorem eviction_plan_exact_witness:
  "case plan_eviction (cs_index empty_cache) 7 of
      Inr victims \<Rightarrow>
        (\<exists>n. victims = map fst (take n (eviction_candidates (cs_index empty_cache)))
           \<and> unat (ci_used_bytes (cs_index empty_cache)) - entry_sizes (take n (eviction_candidates (cs_index empty_cache)))
               + unat (7 :: u64) \<le> unat (ci_high_bytes (cs_index empty_cache)))
    | Inl e \<Rightarrow> e = Cache_Capacity \<and> ((7 :: u64) = 0
        \<or> unat (ci_high_bytes (cs_index empty_cache))
           < entry_sizes (filter (\<lambda>(_, e). ct_pins e \<noteq> 0) (ci_entries (cs_index empty_cache))) + unat (7 :: u64))"
  by (rule eviction_plan_exact) (simp_all add: empty_cache_def index_inv_def)

end
