(* ===== verification/Durable_Store.thy ===== *)
theory Durable_Store
  imports Main
begin

text \<open>
  The contract of a store whose records survive the process: what it holds now (\<open>view\<close>),
  what the next opening may find (\<open>futures\<close>), writes that commit one record or fail, and
  openings after the process or the machine stopped. The clients of the journal directory
  rest on the laws of this locale; the directory itself interprets it.
\<close>

datatype ('e, 'k, 'p, 'r) store_event =
  Commit 'e 'k 'p
| Reopen 'r

fun store_step ::
  "('e \<Rightarrow> 'k \<Rightarrow> 'p \<Rightarrow> 's \<Rightarrow> ('err + unit) \<times> 's) \<Rightarrow> ('r \<Rightarrow> 's \<Rightarrow> 's) \<Rightarrow> 's \<Rightarrow> ('e, 'k, 'p, 'r) store_event \<Rightarrow> 's" where
  "store_step commit reopen s (Commit e k p) = snd (commit e k p s)"
| "store_step commit reopen s (Reopen r) = reopen r s"

locale durable_store =
  fixes view :: "'s \<Rightarrow> 'k \<Rightarrow> 'v option"
    and live :: "'s \<Rightarrow> bool"
    and futures :: "'s \<Rightarrow> ('k \<Rightarrow> 'v option) set"
    and sealed :: "'p \<Rightarrow> 'v"
    and commit :: "'e \<Rightarrow> 'k \<Rightarrow> 'p \<Rightarrow> 's \<Rightarrow> ('err + unit) \<times> 's"
    and reopen :: "'r \<Rightarrow> 's \<Rightarrow> 's"
    and sound :: "'s \<Rightarrow> bool"
    and named :: "'k \<Rightarrow> bool"
  assumes commit_Inr: "sound s \<Longrightarrow> named k \<Longrightarrow> commit e k p s = (Inr (), s') \<Longrightarrow>
      sound s' \<and> live s \<and> live s' \<and> view s' = (view s)(k \<mapsto> sealed p)"
    and commit_Inl: "sound s \<Longrightarrow> named k \<Longrightarrow> commit e k p s = (Inl err, s') \<Longrightarrow>
      s' = s \<or> sound s' \<and> live s \<and> \<not> live s' \<and> futures s' \<subseteq> {view s, (view s)(k \<mapsto> sealed p)}"
    and live_futures: "sound s \<Longrightarrow> live s \<Longrightarrow> futures s = {view s}"
    and view_future: "sound s \<Longrightarrow> view s \<in> futures s"
    and reopen_sound: "sound s \<Longrightarrow> sound (reopen r s) \<and> futures (reopen r s) \<subseteq> futures s"
begin

lemma commit_futures:
  assumes "sound s" and "named k" and "commit e k p s = (r, s')"
  shows "sound s' \<and> futures s' \<subseteq> futures s \<union> {(view s)(k \<mapsto> sealed p)}"
proof (cases r)
  case (Inl err)
  then show ?thesis
    using commit_Inl [OF assms(1,2)] assms(1,3) view_future [OF assms(1)] by blast
next
  case (Inr u)
  then show ?thesis
    using commit_Inr [OF assms(1,2)] assms(3) live_futures by fastforce
qed

lemma futures_keep:
  assumes "sound s" and "\<forall>m \<in> futures s. P m"
    and "\<And>e k p. Commit e k p \<in> set hs \<Longrightarrow> named k \<and> (\<forall>m. P m \<longrightarrow> P (m(k \<mapsto> sealed p)))"
  shows "sound (foldl (store_step commit reopen) s hs) \<and> (\<forall>m \<in> futures (foldl (store_step commit reopen) s hs). P m)"
  using assms
proof (induction hs arbitrary: s)
  case (Cons h hs)
  have "sound (store_step commit reopen s h) \<and> (\<forall>m \<in> futures (store_step commit reopen s h). P m)"
  proof (cases h)
    case (Commit e k p)
    obtain r s' where c: "commit e k p s = (r, s')"
      by (cases "commit e k p s")
    have "named k \<and> (\<forall>m. P m \<longrightarrow> P (m(k \<mapsto> sealed p)))"
      by (rule Cons.prems(3) [where e = e]) (simp add: Commit)
    then have "named k" and "P (view s) \<longrightarrow> P ((view s)(k \<mapsto> sealed p))"
      by blast+
    then show ?thesis
      using commit_futures [OF Cons.prems(1) _ c] Cons.prems(1,2) view_future c Commit by auto
  next
    case (Reopen r)
    then show ?thesis
      using reopen_sound [OF Cons.prems(1)] Cons.prems(2) by auto
  qed
  moreover have "named k \<and> (\<forall>m. P m \<longrightarrow> P (m(k \<mapsto> sealed p)))" if "Commit e k p \<in> set hs" for e k p
    by (rule Cons.prems(3) [where e = e]) (simp add: that)
  ultimately show ?case
    using Cons.IH [of "store_step commit reopen s h"] by (metis (no_types, lifting) foldl_Cons)
qed simp

text \<open>A committed record is found until a later write names it.\<close>

lemma committed_found:
  assumes "sound s" and "named k" and "commit e k p s = (Inr (), s')"
    and "\<And>e k' p. Commit e k' p \<in> set hs \<Longrightarrow> named k' \<and> k' \<noteq> k"
  shows "view (foldl (store_step commit reopen) s' hs) k = Some (sealed p)"
proof -
  have s': "sound s'" "live s'" "view s' = (view s)(k \<mapsto> sealed p)"
    using commit_Inr [OF assms(1-3)] by auto
  have "sound (foldl (store_step commit reopen) s' hs) \<and> (\<forall>m \<in> futures (foldl (store_step commit reopen) s' hs). m k = Some (sealed p))"
    using s' assms(4) by (intro futures_keep) (auto simp: live_futures)
  then show ?thesis
    using view_future by blast
qed

end

end
