(* ===== verification/Journal_Files.thy ===== *)
theory Journal_Files
  imports Json Assoc_Lists Durable_Store
begin

unbundle bit_operations_syntax

text \<open>
  \<open>rust/worker/src/journal/files.rs\<close>: the private directory that keeps one framed record per
  name and replaces it atomically. A directory has the entries every process sees and the
  entries that would be found after a power failure; a file has the bytes every process
  sees and whether they have been synced. The model takes from a Unix file system that a
  synced file keeps its bytes, that \<open>rename\<close> selects a whole file, and that a synced
  directory keeps its entries; what was not synced may be lost or kept, name by name, and
  bytes that were not synced may be anything. System calls that fail do so because the
  directory says so or because a fault argument does. The directory lock keeps every other
  process out.
\<close>

section \<open>The code\<close>

record journal_limits =
  jl_max_attempts :: nat
  jl_max_bytes :: u64

definition JournalLimits_default :: journal_limits where
  "JournalLimits_default = \<lparr>jl_max_attempts = 4096, jl_max_bytes = 256 * 2 ^ 20\<rparr>"

definition max_payload :: nat where
  "max_payload = 5 * 1024 * 1024"

definition header_len :: nat where
  "header_len = 48"

definition journal_magic :: "u8 list" where
  "journal_magic = as_bytes ''DSPJNL01''"

record file_meta =
  fm_owned :: bool \<comment> \<open>the owner is the effective user\<close>
  fm_mode :: u32
  fm_is_dir :: bool
  fm_is_file :: bool
  fm_nlink :: nat
  fm_dev :: nat
  fm_ino :: nat

definition metadata_safe :: "file_meta \<Rightarrow> bool \<Rightarrow> journal_error + unit" where
  "metadata_safe m dir =
     (if \<not> fm_owned m
         \<or> fm_mode m AND 0x1FF \<noteq> (if dir then 0x1C0 else 0x180)
         \<or> (dir \<and> \<not> fm_is_dir m)
         \<or> (\<not> dir \<and> (\<not> fm_is_file m \<or> fm_nlink m \<noteq> 1))
      then Inl J_UnsafePath else Inr ())"

record journal_file =
  jf_meta :: file_meta
  jf_bytes :: "u8 list"
  jf_synced :: bool

type_synonym entries = "(string \<times> journal_file) list"

record journal_dir =
  jd_entries :: entries
  jd_durable :: entries

record directory =
  dy_dir :: journal_dir
  dy_limits :: journal_limits
  dy_poisoned :: bool

text \<open>A file created with mode \<open>0o600\<close> by this process.\<close>

definition private_file :: file_meta where
  "private_file =
     \<lparr>fm_owned = True, fm_mode = 0x180, fm_is_dir = False, fm_is_file = True, fm_nlink = 1, fm_dev = 0, fm_ino = 0\<rparr>"

definition sync_directory :: "journal_dir \<Rightarrow> journal_dir" where
  "sync_directory dir = dir\<lparr>jd_durable := jd_entries dir\<rparr>"

definition put_file :: "string \<Rightarrow> journal_file \<Rightarrow> journal_dir \<Rightarrow> journal_dir" where
  "put_file name f dir = dir\<lparr>jd_entries := AList.update name f (jd_entries dir)\<rparr>"

definition remove_name :: "string \<Rightarrow> journal_dir \<Rightarrow> journal_dir" where
  "remove_name name dir = dir\<lparr>jd_entries := AList.delete name (jd_entries dir)\<rparr>"

definition io_fails :: "string option \<Rightarrow> journal_error + unit" where
  "io_fails f = (case f of None \<Rightarrow> Inr () | Some kind \<Rightarrow> Inl (J_Io kind))"

text \<open>What \<open>healthy\<close> sees of the directory: the path looked up again, and the open handle.\<close>

record root_probe =
  rp_actual :: "string + file_meta"
  rp_opened :: "string + file_meta"

definition healthy :: "directory \<Rightarrow> root_probe \<Rightarrow> journal_error + unit" where
  "healthy d p =
     (if dy_poisoned d then Inl J_Poisoned
      else and_then (map_err J_Io (rp_actual p)) (\<lambda>actual.
        and_then (metadata_safe actual True) (\<lambda>_.
        and_then (map_err J_Io (rp_opened p)) (\<lambda>opened.
        if fm_dev actual \<noteq> fm_dev opened \<or> fm_ino actual \<noteq> fm_ino opened then Inl J_UnsafePath
        else Inr ()))))"

record listing =
  li_probe :: root_probe
  li_list :: "string option" \<comment> \<open>\<open>read_dir\<close> fails\<close>
  li_entry :: "nat \<Rightarrow> string option" \<comment> \<open>reading the next entry fails\<close>
  li_stat :: "nat \<Rightarrow> string option" \<comment> \<open>its metadata cannot be read\<close>

definition max_session :: nat where
  "max_session = 64 * 1024"

definition file_len :: "journal_file \<Rightarrow> u64" where
  "file_len f = word_of_nat (length (jf_bytes f))"

text \<open>A name that is not UTF-8 is refused as corrupt, as is every name that is no canonical
  identifier with the suffix.\<close>

fun inventory_loop ::
  "journal_limits \<Rightarrow> listing \<Rightarrow> nat \<Rightarrow> (string \<times> u64) list \<Rightarrow> u64 \<Rightarrow> entries \<Rightarrow> journal_error + (string \<times> u64) list" where
  "inventory_loop lim li i records bytes [] = Inr records"
| "inventory_loop lim li i records bytes ((name, f) # es) =
     and_then (io_fails (li_entry li i)) (\<lambda>_.
       if name = ''.lock'' \<or> name = ''.identity'' then inventory_loop lim li (Suc i) records bytes es
       else if name = ''.project-ids'' then
         and_then (io_fails (li_stat li i)) (\<lambda>_. and_then (metadata_safe (jf_meta f) False) (\<lambda>_.
           if file_len f \<noteq> word_of_nat (8 + header_len) then Inl J_Corrupt
           else inventory_loop lim li (Suc i) records bytes es))
       else if name = ''.session'' then
         and_then (io_fails (li_stat li i)) (\<lambda>_. and_then (metadata_safe (jf_meta f) False) (\<lambda>_.
           if word_of_nat (max_session + header_len) < file_len f then Inl J_Corrupt
           else inventory_loop lim li (Suc i) records bytes es))
       else
         and_then (ok_or J_Corrupt (case strip_suffix name ''.attempt'' of
             Some k \<Rightarrow> if canonical_uuid k then Some k else None | None \<Rightarrow> None)) (\<lambda>key.
         and_then (io_fails (li_stat li i)) (\<lambda>_. and_then (metadata_safe (jf_meta f) False) (\<lambda>_.
           if word_of_nat (max_payload + header_len) < file_len f then Inl J_Corrupt
           else and_then (ok_or J_Limit (checked_add bytes (file_len f))) (\<lambda>bytes'.
             let records' = records @ [(key, file_len f)] in
             if jl_max_attempts lim < length records' \<or> jl_max_bytes lim < bytes' then Inl J_Limit
             else inventory_loop lim li (Suc i) records' bytes' es)))))"

definition inventory :: "directory \<Rightarrow> listing \<Rightarrow> journal_error + (string \<times> u64) list" where
  "inventory d li =
     and_then (healthy d (li_probe li)) (\<lambda>_. and_then (io_fails (li_list li)) (\<lambda>_.
     and_then (inventory_loop (dy_limits d) li 0 [] 0 (jd_entries (dy_dir d))) (\<lambda>records.
     Inr (sort_key fst records))))"

definition encode_frame :: "'x externals_scheme \<Rightarrow> u8 list \<Rightarrow> u8 list" where
  "encode_frame x payload = journal_magic @ u64_be (word_of_nat (length payload)) @ x_sha256 x payload @ payload"

definition decode_frame :: "'x externals_scheme \<Rightarrow> u8 list \<Rightarrow> journal_error + u8 list" where
  "decode_frame x bytes =
     (if length bytes < header_len \<or> max_payload + header_len < length bytes \<or> take 8 bytes \<noteq> journal_magic
      then Inl J_Corrupt
      else let body = drop header_len bytes in
        if be_u64 (take 8 (drop 8 bytes)) \<noteq> word_of_nat (length body)
           \<or> x_sha256 x body \<noteq> take (header_len - 16) (drop 16 bytes)
        then Inl J_Corrupt else Inr body)"

record read_env =
  re_probe :: root_probe
  re_stat :: "string option" \<comment> \<open>a failure other than \<open>NotFound\<close>\<close>
  re_open :: "string option"
  re_meta :: "string option"
  re_read :: "string option"

definition read_record :: "'x externals_scheme \<Rightarrow> read_env \<Rightarrow> string \<Rightarrow> directory \<Rightarrow> journal_error + u8 list option" where
  "read_record x env name d =
     and_then (healthy d (re_probe env)) (\<lambda>_.
     and_then (io_fails (re_stat env)) (\<lambda>_.
     case map_of (jd_entries (dy_dir d)) name of
       None \<Rightarrow> Inr None
     | Some f \<Rightarrow>
         and_then (metadata_safe (jf_meta f) False) (\<lambda>_.
         and_then (io_fails (re_open env)) (\<lambda>_.
         and_then (io_fails (re_meta env)) (\<lambda>_.
         and_then (metadata_safe (jf_meta f) False) (\<lambda>_.
         and_then (io_fails (re_read env)) (\<lambda>_.
         and_then (decode_frame x (take (max_payload + header_len + 1) (jf_bytes f))) (\<lambda>body.
         Inr (Some body)))))))))"

text \<open>The steps of a replacement that may fail; a failed write leaves a part of the bytes.\<close>

datatype replace_fault =
  Create_Fails string | Write_Fails string nat | Sync_Fails string | Rename_Fails string | Dir_Sync_Fails string

definition replace :: "'x externals_scheme \<Rightarrow> replace_fault option \<Rightarrow> string \<Rightarrow> u8 list \<Rightarrow> journal_dir
    \<Rightarrow> (journal_error + unit) \<times> journal_dir" where
  "replace x fault name payload dir =
     (let bytes = encode_frame x payload;
          pending = (\<lambda>b synced. put_file ''.pending'' \<lparr>jf_meta = private_file, jf_bytes = b, jf_synced = synced\<rparr> dir);
          renamed = put_file name \<lparr>jf_meta = private_file, jf_bytes = bytes, jf_synced = True\<rparr>
            (remove_name ''.pending'' (pending bytes True))
      in if map_of (jd_entries dir) ''.pending'' \<noteq> None then (Inl (J_Io ''AlreadyExists''), dir)
      else case fault of
        Some (Create_Fails kind) \<Rightarrow> (Inl (J_Io kind), dir)
      | Some (Write_Fails kind n) \<Rightarrow> (Inl (J_Io kind), pending (take n bytes) False)
      | Some (Sync_Fails kind) \<Rightarrow> (Inl (J_Io kind), pending bytes False)
      | Some (Rename_Fails kind) \<Rightarrow> (Inl (J_Io kind), pending bytes True)
      | Some (Dir_Sync_Fails kind) \<Rightarrow> (Inl (J_Io kind), renamed)
      | None \<Rightarrow> (Inr (), sync_directory renamed))"

record write_env =
  we_probe :: root_probe
  we_listing :: listing
  we_fault :: "replace_fault option"

definition over_limits :: "journal_limits \<Rightarrow> (string \<times> u64) list \<Rightarrow> string \<Rightarrow> u8 list \<Rightarrow> bool" where
  "over_limits lim records name payload =
     (case strip_suffix name ''.attempt'' of
        None \<Rightarrow> False
      | Some key \<Rightarrow>
          let old = map_of records key; total = sum_list (map snd records) in
          (old = None \<and> jl_max_attempts lim \<le> length records)
          \<or> jl_max_bytes lim < total - (case old of None \<Rightarrow> 0 | Some n \<Rightarrow> n) + word_of_nat (length payload + header_len))"

definition write_record :: "'x externals_scheme \<Rightarrow> write_env \<Rightarrow> string \<Rightarrow> u8 list \<Rightarrow> directory
    \<Rightarrow> (journal_error + unit) \<times> directory" where
  "write_record x env name payload d =
     (case and_then (healthy d (we_probe env)) (\<lambda>_.
             if max_payload < length payload then Inl J_Limit
             else and_then (inventory d (we_listing env)) (\<lambda>records.
               if over_limits (dy_limits d) records name payload then Inl J_Limit else Inr ())) of
        Inl e \<Rightarrow> (Inl e, d)
      | Inr _ \<Rightarrow>
          (case replace x (we_fault env) name payload (dy_dir d) of
             (Inl e, dir) \<Rightarrow> (Inl e, d\<lparr>dy_dir := dir, dy_poisoned := True\<rparr>)
           | (Inr _, dir) \<Rightarrow> (Inr (), d\<lparr>dy_dir := dir\<rparr>)))"

datatype open_step =
  Open_Root | Stat_Root | Stat_Lock | Open_Lock | Meta_Lock | Sync_Lock | Sync_Root | Stat_Pending
| Remove_Pending | Sync_Removed

record open_env =
  oe_canonical :: bool \<comment> \<open>the path is absolute and canonical\<close>
  oe_root :: file_meta
  oe_flock :: "string option"
  oe_fails :: "open_step \<Rightarrow> string option"
  oe_listing :: listing

definition open_lock :: "open_env \<Rightarrow> journal_dir \<Rightarrow> (journal_error + unit) \<times> journal_dir" where
  "open_lock env dir =
     (let found = map_of (jd_entries dir) ''.lock'';
          safe = (case found of
              Some f \<Rightarrow> if oe_fails env Stat_Lock = None then metadata_safe (jf_meta f) False else Inr ()
            | None \<Rightarrow> Inr ());
          lock = (case found of Some f \<Rightarrow> f | None \<Rightarrow> \<lparr>jf_meta = private_file, jf_bytes = [], jf_synced = False\<rparr>);
          opened = put_file ''.lock'' lock dir
      in case and_then safe (\<lambda>_. io_fails (oe_fails env Open_Lock)) of
        Inl e \<Rightarrow> (Inl e, dir)
      | Inr _ \<Rightarrow>
          (case and_then (io_fails (oe_fails env Meta_Lock)) (\<lambda>_. and_then (metadata_safe (jf_meta lock) False) (\<lambda>_.
                  and_then (case oe_flock env of
                      None \<Rightarrow> Inr ()
                    | Some kind \<Rightarrow> Inl (if kind = ''WouldBlock'' then J_Busy else J_Io kind)) (\<lambda>_.
                  io_fails (oe_fails env Sync_Lock)))) of
             Inl e \<Rightarrow> (Inl e, opened)
           | Inr _ \<Rightarrow> (Inr (), put_file ''.lock'' (lock\<lparr>jf_synced := True\<rparr>) dir)))"

definition discard_pending :: "open_env \<Rightarrow> journal_dir \<Rightarrow> (journal_error + unit) \<times> journal_dir" where
  "discard_pending env dir =
     (case oe_fails env Stat_Pending of Some kind \<Rightarrow> (Inl (J_Io kind), dir) | None \<Rightarrow>
      (case map_of (jd_entries dir) ''.pending'' of
         None \<Rightarrow> (Inr (), dir)
       | Some f \<Rightarrow>
           (case and_then (metadata_safe (jf_meta f) False) (\<lambda>_. io_fails (oe_fails env Remove_Pending)) of
              Inl e \<Rightarrow> (Inl e, dir)
            | Inr _ \<Rightarrow>
                (case oe_fails env Sync_Removed of
                   Some kind \<Rightarrow> (Inl (J_Io kind), remove_name ''.pending'' dir)
                 | None \<Rightarrow> (Inr (), sync_directory (remove_name ''.pending'' dir))))))"

definition Directory_open :: "open_env \<Rightarrow> journal_limits \<Rightarrow> journal_dir \<Rightarrow> (journal_error + directory) \<times> journal_dir" where
  "Directory_open env limits dir =
     (case if \<not> oe_canonical env then Inl J_UnsafePath
           else and_then (io_fails (oe_fails env Open_Root)) (\<lambda>_. and_then (io_fails (oe_fails env Stat_Root)) (\<lambda>_.
             metadata_safe (oe_root env) True)) of
        Inl e \<Rightarrow> (Inl e, dir)
      | Inr _ \<Rightarrow>
      (case open_lock env dir of
        (Inl e, dir1) \<Rightarrow> (Inl e, dir1)
      | (Inr _, dir1) \<Rightarrow>
      (case oe_fails env Sync_Root of
        Some kind \<Rightarrow> (Inl (J_Io kind), dir1)
      | None \<Rightarrow>
      (case discard_pending env (sync_directory dir1) of
        (Inl e, dir2) \<Rightarrow> (Inl e, dir2)
      | (Inr _, dir2) \<Rightarrow>
          let store = \<lparr>dy_dir = dir2, dy_limits = limits, dy_poisoned = False\<rparr> in
          (case inventory store (oe_listing env) of
             Inl e \<Rightarrow> (Inl e, dir2)
           | Inr _ \<Rightarrow> (Inr store, dir2))))))"

section \<open>Failures of the machine and of the process\<close>

definition crash :: "(string \<Rightarrow> bool) \<Rightarrow> (string \<Rightarrow> u8 list) \<Rightarrow> journal_dir \<Rightarrow> journal_dir" where
  "crash keep garbage dir =
     (let survivor = (\<lambda>n. if keep n then map_of (jd_entries dir) n else map_of (jd_durable dir) n);
          found = List.map_filter
            (\<lambda>n. map_option (\<lambda>f. (n, f\<lparr>jf_bytes := if jf_synced f then jf_bytes f else garbage n, jf_synced := True\<rparr>))
              (survivor n))
            (remdups (map fst (jd_entries dir) @ map fst (jd_durable dir)))
      in \<lparr>jd_entries = found, jd_durable = found\<rparr>)"

text \<open>An opening after the process ended, with or without a power failure; an opening that
  fails leaves no writer, which is a poisoned one here.\<close>

datatype restart = Restart "((string \<Rightarrow> bool) \<times> (string \<Rightarrow> u8 list)) option" open_env

fun restarted_dir :: "((string \<Rightarrow> bool) \<times> (string \<Rightarrow> u8 list)) option \<Rightarrow> journal_dir \<Rightarrow> journal_dir" where
  "restarted_dir None dir = dir"
| "restarted_dir (Some (keep, garbage)) dir = crash keep garbage dir"

fun reopen_directory :: "restart \<Rightarrow> directory \<Rightarrow> directory" where
  "reopen_directory (Restart loss env) d =
     (case Directory_open env (dy_limits d) (restarted_dir loss (dy_dir d)) of
        (Inr d', _) \<Rightarrow> d'
      | (Inl _, dir) \<Rightarrow> d\<lparr>dy_dir := dir, dy_poisoned := True\<rparr>)"

definition record_name :: "string \<Rightarrow> bool" where
  "record_name n \<longleftrightarrow> n \<noteq> ''.pending'' \<and> n \<noteq> ''.lock''"

definition view_of :: "entries \<Rightarrow> string \<Rightarrow> (file_meta \<times> u8 list) option" where
  "view_of es n = (if record_name n then map_option (\<lambda>f. (jf_meta f, jf_bytes f)) (map_of es n) else None)"

abbreviation dir_view :: "journal_dir \<Rightarrow> string \<Rightarrow> (file_meta \<times> u8 list) option" where
  "dir_view dir \<equiv> view_of (jd_entries dir)"

definition intact :: "journal_dir \<Rightarrow> bool" where
  "intact dir \<longleftrightarrow>
     (\<forall>n f. record_name n \<and> (map_of (jd_entries dir) n = Some f \<or> map_of (jd_durable dir) n = Some f) \<longrightarrow> jf_synced f)"

definition settled :: "journal_dir \<Rightarrow> bool" where
  "settled dir \<longleftrightarrow> (\<forall>n. record_name n \<longrightarrow> map_of (jd_entries dir) n = map_of (jd_durable dir) n)"

definition dir_futures :: "journal_dir \<Rightarrow> (string \<Rightarrow> (file_meta \<times> u8 list) option) set" where
  "dir_futures dir = {dir_view (restarted_dir loss dir) | loss. True}"

definition dir_sound :: "directory \<Rightarrow> bool" where
  "dir_sound d \<longleftrightarrow> intact (dy_dir d) \<and> (\<not> dy_poisoned d \<longrightarrow> settled (dy_dir d))"

definition sealed_file :: "'x externals_scheme \<Rightarrow> u8 list \<Rightarrow> file_meta \<times> u8 list" where
  "sealed_file x payload = (private_file, encode_frame x payload)"

lemma map_of_map_filter:
  assumes "\<And>n p. g n = Some p \<Longrightarrow> fst p = n"
  shows "map_of (List.map_filter g ns) n = (if n \<in> set ns then map_option snd (g n) else None)"
proof (induction ns)
  case (Cons a ns)
  then show ?case
    using assms by (cases "g a") (auto simp: List.map_filter_simps)
qed (simp add: List.map_filter_simps)

lemma map_of_crash:
  "map_of (jd_entries (crash keep garbage dir)) n =
     map_option (\<lambda>f. f\<lparr>jf_bytes := if jf_synced f then jf_bytes f else garbage n, jf_synced := True\<rparr>)
       (if keep n then map_of (jd_entries dir) n else map_of (jd_durable dir) n)"
proof -
  let ?survivor = "\<lambda>n. if keep n then map_of (jd_entries dir) n else map_of (jd_durable dir) n"
  let ?g = "\<lambda>n. map_option
    (\<lambda>f. (n, f\<lparr>jf_bytes := if jf_synced f then jf_bytes f else garbage n, jf_synced := True\<rparr>)) (?survivor n)"
  let ?ns = "remdups (map fst (jd_entries dir) @ map fst (jd_durable dir))"
  have "map_of (List.map_filter ?g ?ns) n = (if n \<in> set ?ns then map_option snd (?g n) else None)"
    by (rule map_of_map_filter) auto
  moreover have "?survivor n = None" if "n \<notin> set ?ns"
    using that by (simp add: map_of_eq_None_iff)
  ultimately show ?thesis
    by (simp add: crash_def Let_def option.map_comp comp_def)
qed

lemma crash_durable [simp]: "jd_durable (crash keep garbage dir) = jd_entries (crash keep garbage dir)"
  by (simp add: crash_def Let_def)

lemma map_of_put_file [simp]: "map_of (jd_entries (put_file name f dir)) = (map_of (jd_entries dir))(name \<mapsto> f)"
  by (simp add: put_file_def update_conv')

lemma map_of_remove_name [simp]: "map_of (jd_entries (remove_name name dir)) = (map_of (jd_entries dir))(name := None)"
  by (simp add: remove_name_def delete_conv')

lemma durable_unchanged [simp]:
  "jd_durable (put_file name f dir) = jd_durable dir" "jd_durable (remove_name name dir) = jd_durable dir"
  by (simp_all add: put_file_def remove_name_def)

lemma sync_directory_entries [simp]:
  "jd_entries (sync_directory dir) = jd_entries dir" "jd_durable (sync_directory dir) = jd_entries dir"
  by (simp_all add: sync_directory_def)

lemma crash_settled: "settled (crash keep garbage dir) \<and> intact (crash keep garbage dir)"
  by (auto simp: settled_def intact_def map_of_crash)

lemma crash_view:
  "intact dir \<Longrightarrow> dir_view (crash keep garbage dir) n = (if keep n then dir_view dir n else view_of (jd_durable dir) n)"
  by (auto simp: view_of_def map_of_crash intact_def option.map_comp comp_def split: option.splits)
    (auto simp: map_option_case split: option.splits)

lemma restarted_view:
  "intact dir \<Longrightarrow> dir_view (restarted_dir loss dir) n = dir_view dir n
     \<or> dir_view (restarted_dir loss dir) n = view_of (jd_durable dir) n"
  by (cases "(loss, dir)" rule: restarted_dir.cases) (auto simp: crash_view)

lemma restarted_intact: "intact dir \<Longrightarrow> intact (restarted_dir loss dir)"
  by (cases "(loss, dir)" rule: restarted_dir.cases) (auto simp: crash_settled)

lemma settled_views: "settled dir \<Longrightarrow> view_of (jd_durable dir) = dir_view dir"
  by (auto simp: settled_def view_of_def fun_eq_iff)

lemma future_cases:
  "m \<in> dir_futures dir \<Longrightarrow> intact dir \<Longrightarrow> m n = dir_view dir n \<or> m n = view_of (jd_durable dir) n"
  using restarted_view by (fastforce simp: dir_futures_def)

lemma settled_futures: "settled dir \<Longrightarrow> intact dir \<Longrightarrow> dir_futures dir = {dir_view dir}"
proof -
  assume "settled dir" and "intact dir"
  then have "dir_view (restarted_dir loss dir) = dir_view dir" for loss
    using restarted_view [OF \<open>intact dir\<close>] settled_views [OF \<open>settled dir\<close>] by (metis ext)
  then show ?thesis
    by (auto simp: dir_futures_def)
qed

section \<open>A replacement is atomic\<close>

lemma view_put_other: "\<not> record_name n \<Longrightarrow> dir_view (put_file n f dir) = dir_view dir"
  by (auto simp: view_of_def fun_eq_iff)

lemma view_put: "record_name n \<Longrightarrow> dir_view (put_file n f dir) = (dir_view dir)(n \<mapsto> (jf_meta f, jf_bytes f))"
  by (auto simp: view_of_def fun_eq_iff)

lemma view_remove_other: "\<not> record_name n \<Longrightarrow> dir_view (remove_name n dir) = dir_view dir"
  by (auto simp: view_of_def fun_eq_iff)

lemma view_sync [simp]: "view_of (jd_entries (sync_directory dir)) = dir_view dir"
  by simp

lemma not_record_name [simp]: "\<not> record_name ''.pending''" "\<not> record_name ''.lock''"
  by (simp_all add: record_name_def)

definition agrees :: "journal_dir \<Rightarrow> journal_dir \<Rightarrow> bool" where
  "agrees dir dir' \<longleftrightarrow>
     (\<forall>n. record_name n \<longrightarrow> map_of (jd_entries dir') n = map_of (jd_entries dir) n)
     \<and> (settled dir' \<or> (\<forall>n. record_name n \<longrightarrow> map_of (jd_durable dir') n = map_of (jd_durable dir) n))"

lemma agrees_refl [simp]: "agrees dir dir"
  by (simp add: agrees_def)

lemma agrees_trans: "agrees a b \<Longrightarrow> agrees b c \<Longrightarrow> agrees a c"
  by (auto simp: agrees_def settled_def)

lemma agrees_put: "\<not> record_name n \<Longrightarrow> agrees dir (put_file n f dir)"
  by (auto simp: agrees_def)

lemma agrees_remove: "\<not> record_name n \<Longrightarrow> agrees dir (remove_name n dir)"
  by (auto simp: agrees_def)

lemma agrees_sync: "agrees dir (sync_directory dir) \<and> settled (sync_directory dir)"
  by (simp add: agrees_def settled_def)

lemma agrees_settled: "agrees dir dir' \<Longrightarrow> settled dir \<Longrightarrow> settled dir'"
  by (auto simp: agrees_def settled_def)

lemma agrees_intact: "agrees dir dir' \<Longrightarrow> intact dir \<Longrightarrow> intact dir'"
  by (auto simp: agrees_def intact_def settled_def) metis+

lemma agrees_view: "agrees dir dir' \<Longrightarrow> dir_view dir' = dir_view dir"
  by (auto simp: agrees_def view_of_def fun_eq_iff)

lemma agrees_futures:
  assumes "agrees dir dir'" and "intact dir"
  shows "dir_futures dir' \<subseteq> dir_futures dir"
proof (cases "settled dir'")
  case True
  have "dir_view dir \<in> dir_futures dir"
    unfolding dir_futures_def by (rule CollectI, rule exI [of _ None]) simp
  then show ?thesis
    using settled_futures [OF True agrees_intact [OF assms]] agrees_view [OF assms(1)] by simp
next
  case False
  then have durable: "view_of (jd_durable dir') = view_of (jd_durable dir)"
    using assms(1) by (auto simp: agrees_def view_of_def fun_eq_iff)
  have "dir_view (restarted_dir loss dir') = dir_view (restarted_dir loss dir)" for loss
    using agrees_view [OF assms(1)] agrees_intact [OF assms] assms(2) durable
    by (cases "(loss, dir)" rule: restarted_dir.cases) (simp_all add: crash_view fun_eq_iff)
  then show ?thesis
    by (auto simp: dir_futures_def)
qed

lemma replace_Inr:
  assumes "replace x fault name payload dir = (Inr (), dir')" and "settled dir" and "intact dir" and "record_name name"
  shows "settled dir' \<and> intact dir' \<and> dir_view dir' = (dir_view dir)(name \<mapsto> sealed_file x payload)"
proof -
  let ?f = "\<lparr>jf_meta = private_file, jf_bytes = encode_frame x payload, jf_synced = True\<rparr>"
  have dir': "dir' = sync_directory (put_file name ?f (remove_name ''.pending'' (put_file ''.pending'' ?f dir)))"
    using assms(1) by (auto simp: replace_def Let_def split: if_splits option.splits replace_fault.splits)
  have "settled dir'"
    using agrees_sync by (simp add: dir')
  moreover have "intact dir'"
    using assms(3) by (auto simp: intact_def dir' split: if_splits)
  moreover have "dir_view dir' = (dir_view dir)(name \<mapsto> sealed_file x payload)"
    using assms(4) by (simp add: dir' view_put view_remove_other view_put_other sealed_file_def)
  ultimately show ?thesis by blast
qed

lemma replace_Inl:
  assumes "replace x fault name payload dir = (Inl e, dir')" and "settled dir" and "intact dir" and "record_name name"
  shows "intact dir' \<and> dir_futures dir' \<subseteq> {dir_view dir, (dir_view dir)(name \<mapsto> sealed_file x payload)}"
proof -
  let ?f = "\<lparr>jf_meta = private_file, jf_bytes = encode_frame x payload, jf_synced = True\<rparr>"
  consider (untouched) f where "dir' = dir \<or> dir' = put_file ''.pending'' f dir"
    | (renamed) "dir' = put_file name ?f (remove_name ''.pending'' (put_file ''.pending'' ?f dir))"
    using assms(1) by (auto simp: replace_def Let_def split: if_splits option.splits replace_fault.splits)
  then show ?thesis
  proof cases
    case untouched
    then have "agrees dir dir'"
      by (auto simp: agrees_put)
    then show ?thesis
      using agrees_intact agrees_futures settled_futures assms(2,3) by blast
  next
    case renamed
    have view: "dir_view dir' = (dir_view dir)(name \<mapsto> sealed_file x payload)"
      using assms(4) by (simp add: renamed view_put view_remove_other view_put_other sealed_file_def)
    have old: "view_of (jd_durable dir') = dir_view dir"
      using settled_views [OF assms(2)] by (simp add: renamed)
    have "intact dir'"
      using assms(3) by (auto simp: intact_def renamed split: if_splits)
    moreover from this have "m = dir_view dir \<or> m = (dir_view dir)(name \<mapsto> sealed_file x payload)"
      if "m \<in> dir_futures dir'" for m
    proof (cases "m name = dir_view dir name")
      case True
      then have "m n = dir_view dir n" for n
        using future_cases [OF that \<open>intact dir'\<close>, of n] by (auto simp: view old split: if_splits)
      then show ?thesis by blast
    next
      case False
      then have "m n = ((dir_view dir)(name \<mapsto> sealed_file x payload)) n" for n
        using future_cases [OF that \<open>intact dir'\<close>, of n] by (auto simp: view old split: if_splits)
      then show ?thesis by blast
    qed
    ultimately show ?thesis by blast
  qed
qed

section \<open>Opening finds what was settled or the last write\<close>

lemma two_stages:
  "(case a of Inl e \<Rightarrow> (Inl e, d0) | Inr _ \<Rightarrow> (case b of Inl e \<Rightarrow> (Inl e, d1) | Inr _ \<Rightarrow> (Inr (), d2))) = (r, d') \<Longrightarrow>
     d' = d0 \<or> d' = d1 \<or> d' = d2"
  by (auto split: sum.splits)

lemma open_lock_agrees: "open_lock env dir = (r, dir') \<Longrightarrow> agrees dir dir'"
  unfolding open_lock_def Let_def by (drule two_stages) (elim disjE; simp only: agrees_refl agrees_put not_record_name simp_thms)

lemma discard_pending_agrees: "discard_pending env dir = (r, dir') \<Longrightarrow> agrees dir dir'"
proof -
  have "agrees dir (sync_directory (remove_name ''.pending'' dir))"
    by (rule agrees_trans [OF agrees_remove agrees_sync [THEN conjunct1]]) simp
  then show "discard_pending env dir = (r, dir') \<Longrightarrow> agrees dir dir'"
    by (auto simp: discard_pending_def agrees_remove split: sum.splits option.splits)
qed

lemma Directory_open_agrees:
  assumes "Directory_open env limits dir = (r, dir')"
  shows "agrees dir dir' \<and> (\<forall>d. r = Inr d \<longrightarrow> settled dir' \<and> d = \<lparr>dy_dir = dir', dy_limits = limits, dy_poisoned = False\<rparr>)"
proof -
  obtain q dir1 where l: "open_lock env dir = (q, dir1)"
    by (cases "open_lock env dir")
  obtain q2 dir2 where p: "discard_pending env (sync_directory dir1) = (q2, dir2)"
    by (cases "discard_pending env (sync_directory dir1)")
  have a1: "agrees dir dir1"
    using l by (rule open_lock_agrees)
  have "agrees (sync_directory dir1) dir2"
    using p by (rule discard_pending_agrees)
  then have a2: "agrees dir dir2" "settled dir2"
    using agrees_sync a1 agrees_trans agrees_settled by blast+
  consider "dir' = dir" "\<not> is_ok r" | "dir' = dir1" "\<not> is_ok r" | "dir' = dir2" "\<not> is_ok r"
    | "dir' = dir2" "r = Inr \<lparr>dy_dir = dir2, dy_limits = limits, dy_poisoned = False\<rparr>"
    using assms l p by (auto simp: Directory_open_def Let_def split: sum.splits option.splits)
  then show ?thesis
    using a1 a2 by cases (auto simp: is_ok_def)
qed

section \<open>The directory is a durable store\<close>

lemma write_record_cases:
  assumes "write_record x env name payload d = (r, d')"
  obtains "\<not> is_ok r" "d' = d"
  | dir where "\<not> dy_poisoned d" "replace x (we_fault env) name payload (dy_dir d) = (r, dir)"
      "d' = d\<lparr>dy_dir := dir, dy_poisoned := \<not> is_ok r\<rparr>" "length payload \<le> max_payload"
proof -
  let ?check = "and_then (healthy d (we_probe env)) (\<lambda>_.
      if max_payload < length payload then Inl J_Limit
      else and_then (inventory d (we_listing env)) (\<lambda>records.
        if over_limits (dy_limits d) records name payload then Inl J_Limit else Inr ()))"
  obtain q dir where rep: "replace x (we_fault env) name payload (dy_dir d) = (q, dir)"
    by (cases "replace x (we_fault env) name payload (dy_dir d)")
  show thesis
  proof (cases ?check)
    case (Inl e)
    then have "(r, d') = (Inl e, d)"
      using assms unfolding write_record_def by simp
    then show thesis
      using that(1) by simp
  next
    case (Inr u)
    then have ok: "\<not> dy_poisoned d" "length payload \<le> max_payload"
      by (auto simp: healthy_def split: if_splits)
    have "(r, d') = (case q of Inl e \<Rightarrow> (Inl e, d\<lparr>dy_dir := dir, dy_poisoned := True\<rparr>) | Inr _ \<Rightarrow> (Inr (), d\<lparr>dy_dir := dir\<rparr>))"
      using assms Inr rep unfolding write_record_def by simp
    then show thesis
      using that(2) [of dir] ok rep by (cases q; cases d) (auto simp: is_ok_def)
  qed
qed

lemma restarted_futures:
  assumes "intact dir"
  shows "dir_futures (restarted_dir loss dir) \<subseteq> dir_futures dir"
proof (cases "(loss, dir)" rule: restarted_dir.cases)
  case (2 keep garbage dir)
  then have "dir_futures (restarted_dir loss dir) = {dir_view (restarted_dir loss dir)}"
    using crash_settled settled_futures by simp
  moreover have "dir_view (restarted_dir loss dir) \<in> dir_futures dir"
    unfolding dir_futures_def by blast
  ultimately show ?thesis
    using 2 by simp
qed simp

interpretation disk: durable_store "\<lambda>d. dir_view (dy_dir d)" "\<lambda>d. \<not> dy_poisoned d" "\<lambda>d. dir_futures (dy_dir d)"
  "sealed_file x" "write_record x" reopen_directory dir_sound record_name for x
proof
  fix s k e p s'
  assume "dir_sound s" "record_name k" "write_record x e k p s = (Inr (), s')"
  then show "dir_sound s' \<and> \<not> dy_poisoned s \<and> \<not> dy_poisoned s' \<and> dir_view (dy_dir s') = (dir_view (dy_dir s))(k \<mapsto> sealed_file x p)"
    by (elim write_record_cases) (auto simp: dir_sound_def dest!: replace_Inr)
next
  fix s k e p err s'
  assume "dir_sound s" "record_name k" "write_record x e k p s = (Inl err, s')"
  then show "s' = s \<or> dir_sound s' \<and> \<not> dy_poisoned s \<and> \<not> \<not> dy_poisoned s'
      \<and> dir_futures (dy_dir s') \<subseteq> {dir_view (dy_dir s), (dir_view (dy_dir s))(k \<mapsto> sealed_file x p)}"
    by (elim write_record_cases) (auto simp: dir_sound_def dest!: replace_Inl)
next
  fix s
  assume "dir_sound s" "\<not> dy_poisoned s"
  then show "dir_futures (dy_dir s) = {dir_view (dy_dir s)}"
    by (simp add: dir_sound_def settled_futures)
next
  fix s
  show "dir_view (dy_dir s) \<in> dir_futures (dy_dir s)"
    unfolding dir_futures_def by (rule CollectI, rule exI [of _ None]) simp
next
  fix s r
  assume sound: "dir_sound s"
  obtain loss env where r: "r = Restart loss env"
    by (cases r)
  let ?dir = "restarted_dir loss (dy_dir s)"
  obtain q dir' where o: "Directory_open env (dy_limits s) ?dir = (q, dir')"
    by (cases "Directory_open env (dy_limits s) ?dir")
  have intact: "intact (dy_dir s)"
    using sound by (simp add: dir_sound_def)
  have agree: "agrees ?dir dir'" and live: "\<And>d. q = Inr d \<Longrightarrow> settled dir' \<and> d = \<lparr>dy_dir = dir', dy_limits = dy_limits s, dy_poisoned = False\<rparr>"
    using Directory_open_agrees [OF o] by auto
  have "intact dir'" and "dir_futures dir' \<subseteq> dir_futures (dy_dir s)"
    using agrees_intact [OF agree] agrees_futures [OF agree] restarted_intact [OF intact] restarted_futures [OF intact] by blast+
  then show "dir_sound (reopen_directory r s) \<and> dir_futures (dy_dir (reopen_directory r s)) \<subseteq> dir_futures (dy_dir s)"
    using live o r by (cases q) (auto simp: dir_sound_def)
qed

section \<open>A frame is read back exactly\<close>

lemma length_magic [simp]: "length journal_magic = 8"
  by (simp add: journal_magic_def)

lemma be_u64_inject: "length bs = 8 \<Longrightarrow> be_u64 bs = v \<Longrightarrow> bs = u64_be v"
proof -
  have "be_bytes n (from_be bs) = bs" if "length bs = n" for n and bs :: "u8 list"
    using that
  proof (induction n arbitrary: bs)
    case (Suc n)
    then obtain cs b where bs: "bs = cs @ [b]" "length cs = n"
      by (metis length_Suc_conv_rev)
    have "unat b < 256"
      using unat_bound [of b] by simp
    have "(256 :: u8) = 0"
      by simp
    then have "w * 256 = 0" for w :: u8
      by (simp only: mult_zero_right)
    then show ?case
      using Suc.IH [OF bs(2)] \<open>unat b < 256\<close> by (simp add: bs from_be_snoc)
  qed simp
  then have le: "be_bytes 8 (from_be bs) = bs" if "length bs = 8"
    using that by metis
  have "from_be bs < 256 ^ length bs" for bs :: "u8 list"
  proof (induction bs rule: rev_induct)
    case (snoc b bs)
    have "unat b < 256"
      using unat_bound [of b] by simp
    then show ?case
      using snoc by (simp add: from_be_snoc)
  qed (simp add: from_be_def)
  from this [of bs] show "length bs = 8 \<Longrightarrow> be_u64 bs = v \<Longrightarrow> bs = u64_be v"
    using le by (auto simp: be_u64_def u64_be_def unat_of_nat)
qed

lemma decode_frame_Inr_iff:
  assumes "\<forall>b. length (x_sha256 x b) = 32"
  shows "decode_frame x bytes = Inr p \<longleftrightarrow> bytes = encode_frame x p \<and> length p \<le> max_payload"
proof
  assume d: "decode_frame x bytes = Inr p"
  then have len: "48 \<le> length bytes" "length bytes \<le> max_payload + 48" and p: "p = drop 48 bytes"
    and magic: "take 8 bytes = journal_magic" and size: "be_u64 (take 8 (drop 8 bytes)) = word_of_nat (length p)"
    and hash: "x_sha256 x p = take 32 (drop 16 bytes)"
    by (auto simp: decode_frame_def Let_def header_len_def split: if_splits)
  have "take 8 (drop 8 bytes) = u64_be (word_of_nat (length p))"
    using len size by (intro be_u64_inject) simp_all
  moreover have "drop 8 bytes = take 8 (drop 8 bytes) @ drop 16 bytes" "drop 16 bytes = take 32 (drop 16 bytes) @ drop 48 bytes"
    using append_take_drop_id [of 8 "drop 8 bytes"] append_take_drop_id [of 32 "drop 16 bytes"] by simp_all
  moreover have "bytes = take 8 bytes @ drop 8 bytes"
    by simp
  ultimately show "bytes = encode_frame x p \<and> length p \<le> max_payload"
    using magic hash p len unfolding encode_frame_def by (metis (no_types, lifting) add.commute add_le_cancel_right le_diff_conv length_drop)
next
  assume f: "bytes = encode_frame x p \<and> length p \<le> max_payload"
  then have "length bytes = 48 + length p"
    using assms by (simp add: encode_frame_def)
  then show "decode_frame x bytes = Inr p"
    using f assms by (simp add: decode_frame_def encode_frame_def header_len_def)
qed

lemma read_record_view:
  assumes "read_record x env name d = Inr v" and "record_name name"
  shows "case dir_view (dy_dir d) name of
      None \<Rightarrow> v = None
    | Some (m, bytes) \<Rightarrow> \<exists>p. v = Some p \<and> decode_frame x (take (max_payload + header_len + 1) bytes) = Inr p"
  using assms by (auto simp: read_record_def view_of_def split: option.splits)

lemma decode_taken:
  assumes "\<forall>b. length (x_sha256 x b) = 32" and "decode_frame x (take (max_payload + header_len + 1) bytes) = Inr p"
  shows "bytes = encode_frame x p \<and> length p \<le> max_payload"
proof -
  have f: "take (max_payload + header_len + 1) bytes = encode_frame x p" "length p \<le> max_payload"
    using assms decode_frame_Inr_iff by blast+
  then have "length (take (max_payload + header_len + 1) bytes) < max_payload + header_len + 1"
    using assms(1) by (simp add: encode_frame_def header_len_def)
  then show ?thesis
    using f by simp
qed

lemma encode_frame_inject:
  "\<forall>b. length (x_sha256 x b) = 32 \<Longrightarrow> encode_frame x p = encode_frame x q \<Longrightarrow> p = q"
  by (simp add: encode_frame_def)

text \<open>C12. A write is all or nothing. Whether it succeeds or fails at any of its steps, and
  whatever the machine loses when it stops after it, the next opening finds every record as
  it was before or finds this record replaced by the whole new frame and the others as they
  were; after a write that reported success it finds the new frame.\<close>

theorem write_is_atomic:
  assumes "dir_sound d" and "\<not> dy_poisoned d" and "record_name name"
    and "write_record x env name payload d = (r, d')"
  shows "dir_view (dy_dir (reopen_directory again d')) = (dir_view (dy_dir d))(name \<mapsto> sealed_file x payload)
    \<or> r \<noteq> Inr () \<and> dir_view (dy_dir (reopen_directory again d')) = dir_view (dy_dir d)"
proof -
  have found: "dir_view (dy_dir (reopen_directory again d')) \<in> dir_futures (dy_dir d')" if "dir_sound d'"
    using disk.reopen_sound [OF that] disk.view_future by blast
  show ?thesis
  proof (cases "r = Inr ()")
    case True
    then show ?thesis
      using disk.commit_Inr [OF assms(1,3)] assms(4) disk.live_futures found by fastforce
  next
    case False
    then obtain e where "r = Inl e"
      by (metis old.unit.exhaust sumE)
    then show ?thesis
      using disk.commit_Inl [OF assms(1,3)] assms(1,2,4) disk.live_futures found by fastforce
  qed
qed

abbreviation directory_step ::
  "'x externals_scheme \<Rightarrow> directory \<Rightarrow> (write_env, string, u8 list, restart) store_event \<Rightarrow> directory" where
  "directory_step x \<equiv> store_step (write_record x) reopen_directory"

fun writes_elsewhere :: "string \<Rightarrow> (write_env, string, u8 list, restart) store_event \<Rightarrow> bool" where
  "writes_elsewhere name (Commit env k payload) = (record_name k \<and> k \<noteq> name)"
| "writes_elsewhere name (Reopen again) = True"

lemma acknowledged_kept:
  assumes "dir_sound d" and "record_name name" and "write_record x env name payload d = (Inr (), d')"
    and "list_all (writes_elsewhere name) hs"
  shows "dir_view (dy_dir (foldl (directory_step x) d' hs)) name = Some (sealed_file x payload)"
proof -
  have "record_name k \<and> k \<noteq> name" if "Commit e k p \<in> set hs" for e k p
    using that assms(4) by (auto simp: list_all_iff)
  then show ?thesis
    by (rule disk.committed_found [OF assms(1-3)])
qed

text \<open>C7. An acknowledged record survives. Once a write has reported success, every later
  successful read of that name returns exactly the payload written, after any number of
  power failures, restarts, failed openings and writes of other records, as long as nothing
  writes the same name again. (SHA-256 digests have 32 bytes.)\<close>

theorem acknowledged_record_survives:
  assumes "\<forall>b. length (x_sha256 x b) = 32"
    and "dir_sound d" and "record_name name" and "write_record x env name payload d = (Inr (), d')"
    and "list_all (writes_elsewhere name) hs"
    and "read_record x renv name (foldl (directory_step x) d' hs) = Inr v"
  shows "v = Some payload"
proof -
  have "dir_view (dy_dir (foldl (directory_step x) d' hs)) name = Some (private_file, encode_frame x payload)"
    using acknowledged_kept [OF assms(2-5)] by (simp add: sealed_file_def)
  then obtain p where "v = Some p" "decode_frame x (take (max_payload + header_len + 1) (encode_frame x payload)) = Inr p"
    using read_record_view [OF assms(6,3)] by auto
  then show ?thesis
    using decode_taken [OF assms(1)] encode_frame_inject [OF assms(1)] by blast
qed

definition private_root :: file_meta where
  "private_root =
     \<lparr>fm_owned = True, fm_mode = 0x1C0, fm_is_dir = True, fm_is_file = False, fm_nlink = 2, fm_dev = 1, fm_ino = 1\<rparr>"

definition quiet_probe :: root_probe where
  "quiet_probe = \<lparr>rp_actual = Inr private_root, rp_opened = Inr private_root\<rparr>"

definition quiet_listing :: listing where
  "quiet_listing = \<lparr>li_probe = quiet_probe, li_list = None, li_entry = (\<lambda>_. None), li_stat = (\<lambda>_. None)\<rparr>"

definition quiet_read :: read_env where
  "quiet_read = \<lparr>re_probe = quiet_probe, re_stat = None, re_open = None, re_meta = None, re_read = None\<rparr>"

definition quiet_write :: write_env where
  "quiet_write = \<lparr>we_probe = quiet_probe, we_listing = quiet_listing, we_fault = None\<rparr>"

definition quiet_open :: open_env where
  "quiet_open =
     \<lparr>oe_canonical = True, oe_root = private_root, oe_flock = None, oe_fails = (\<lambda>_. None), oe_listing = quiet_listing\<rparr>"

lemma private_root_safe [simp]: "metadata_safe private_root True = Inr ()"
  by (simp add: metadata_safe_def private_root_def)

lemma quiet_healthy [simp]: "healthy d quiet_probe = (if dy_poisoned d then Inl J_Poisoned else Inr ())"
  by (simp add: healthy_def quiet_probe_def)

lemma private_file_safe [simp]: "metadata_safe private_file False = Inr ()"
  by (simp add: metadata_safe_def private_file_def)

lemma io_fails_None [simp]: "io_fails None = Inr ()"
  by (simp add: io_fails_def)

text \<open>Reading is the inverse of writing: where no system call fails, reading returns a
  payload exactly when the file is private and holds the frame of that payload, of at most
  5 MiB; anything else, even one byte more or less, is refused. (SHA-256 digests have 32
  bytes.)\<close>

theorem read_returns_whole_frames:
  assumes "\<forall>b. length (x_sha256 x b) = 32" and "\<not> dy_poisoned d"
  shows "read_record x quiet_read name d = Inr (Some p) \<longleftrightarrow>
    (\<exists>f. map_of (jd_entries (dy_dir d)) name = Some f \<and> metadata_safe (jf_meta f) False = Inr ()
       \<and> jf_bytes f = encode_frame x p \<and> length p \<le> max_payload)"
proof -
  have "decode_frame x (take (max_payload + header_len + 1) bytes) = Inr p
      \<longleftrightarrow> bytes = encode_frame x p \<and> length p \<le> max_payload" for bytes
  proof
    assume "bytes = encode_frame x p \<and> length p \<le> max_payload"
    then have "take (max_payload + header_len + 1) bytes = encode_frame x p" "length p \<le> max_payload"
      using assms(1) by (simp_all add: encode_frame_def header_len_def)
    then show "decode_frame x (take (max_payload + header_len + 1) bytes) = Inr p"
      using decode_frame_Inr_iff [OF assms(1)] by blast
  qed (rule decode_taken [OF assms(1)])
  then show ?thesis
    using assms(2) by (auto simp: read_record_def quiet_read_def split: option.splits)
qed

definition zero_externals :: externals where
  "zero_externals = \<lparr>x_sha256 = (\<lambda>_. replicate 32 0), x_parse = (\<lambda>_. None), x_print = (\<lambda>_. [])\<rparr>"

definition empty_directory :: directory where
  "empty_directory =
     \<lparr>dy_dir = \<lparr>jd_entries = [], jd_durable = []\<rparr>, dy_limits = JournalLimits_default, dy_poisoned = False\<rparr>"

lemma zero_externals_sha: "\<forall>b. length (x_sha256 zero_externals b) = 32"
  by (simp add: zero_externals_def)

lemma empty_directory_sound: "dir_sound empty_directory" "\<not> dy_poisoned empty_directory"
  by (simp_all add: dir_sound_def intact_def settled_def empty_directory_def)

lemma record_name_identity: "record_name ''.identity''"
  by (simp add: record_name_def)

lemma sample_write:
  "write_record zero_externals (quiet_write\<lparr>we_fault := fault\<rparr>) ''.identity'' [7] empty_directory =
     (case replace zero_externals fault ''.identity'' [7] (dy_dir empty_directory) of
        (Inl e, dir) \<Rightarrow> (Inl e, empty_directory\<lparr>dy_dir := dir, dy_poisoned := True\<rparr>)
      | (Inr _, dir) \<Rightarrow> (Inr (), empty_directory\<lparr>dy_dir := dir\<rparr>))"
proof -
  have "over_limits lim records ''.identity'' payload = False" for lim records payload
    by (simp add: over_limits_def strip_suffix_def)
  moreover have "max_payload \<ge> 1"
    by (simp add: max_payload_def)
  ultimately show ?thesis
    by (simp add: write_record_def quiet_write_def inventory_def quiet_listing_def)
      (simp add: empty_directory_def)
qed

theorem write_is_atomic_witness:
  "dir_view (dy_dir (reopen_directory (Restart (Some (\<lambda>_. True, \<lambda>_. [])) quiet_open)
      (snd (write_record zero_externals (quiet_write\<lparr>we_fault := Some (Dir_Sync_Fails ''Other'')\<rparr>) ''.identity'' [7] empty_directory))))
     = (dir_view (dy_dir empty_directory))(''.identity'' \<mapsto> sealed_file zero_externals [7])
   \<or> dir_view (dy_dir (reopen_directory (Restart (Some (\<lambda>_. True, \<lambda>_. [])) quiet_open)
      (snd (write_record zero_externals (quiet_write\<lparr>we_fault := Some (Dir_Sync_Fails ''Other'')\<rparr>) ''.identity'' [7] empty_directory))))
     = dir_view (dy_dir empty_directory)"
  using write_is_atomic [OF empty_directory_sound record_name_identity prod.collapse [symmetric]] by blast

theorem acknowledged_record_survives_witness:
  "read_record zero_externals quiet_read ''.identity'' (snd (write_record zero_externals quiet_write ''.identity'' [7] empty_directory))
     = Inr (Some [7])"
proof -
  let ?d = "snd (write_record zero_externals quiet_write ''.identity'' [7] empty_directory)"
  have w: "write_record zero_externals quiet_write ''.identity'' [7] empty_directory = (Inr (), ?d)"
    using sample_write [of None] by (simp add: replace_def Let_def quiet_write_def) (simp add: empty_directory_def)
  have "\<exists>v. read_record zero_externals quiet_read ''.identity'' ?d = Inr v"
    using sample_write [of None]
    by (simp add: replace_def Let_def quiet_write_def read_record_def quiet_read_def decode_frame_Inr_iff [OF zero_externals_sha])
      (simp add: empty_directory_def put_file_def remove_name_def sync_directory_def zero_externals_def encode_frame_def
        header_len_def max_payload_def)
  then show ?thesis
    using acknowledged_record_survives [OF zero_externals_sha empty_directory_sound(1) record_name_identity w, of "[]"] by auto
qed

theorem read_returns_whole_frames_witness:
  "read_record zero_externals quiet_read ''.identity''
     (empty_directory\<lparr>dy_dir := \<lparr>jd_entries = [(''.identity'',
        \<lparr>jf_meta = private_file, jf_bytes = encode_frame zero_externals [7], jf_synced = True\<rparr>)], jd_durable = []\<rparr>\<rparr>)
     = Inr (Some [7])"
proof -
  let ?d = "empty_directory\<lparr>dy_dir := \<lparr>jd_entries = [(''.identity'',
        \<lparr>jf_meta = private_file, jf_bytes = encode_frame zero_externals [7], jf_synced = True\<rparr>)], jd_durable = []\<rparr>\<rparr>"
  have "\<not> dy_poisoned ?d"
    by (simp add: empty_directory_def)
  from read_returns_whole_frames [OF zero_externals_sha this, of "''.identity''" "[7]"] show ?thesis
    by (simp add: max_payload_def)
qed

end
