(* ===== verification/Project_Ids.thy ===== *)
theory Project_Ids
  imports Journal_Files Runs
begin

text \<open>
  \<open>rust/worker/src/journal/project_ids.rs\<close>: quota project identifiers, handed out in
  increasing order from a counter in a journal directory of its own. The counter is made
  durable before an identifier is exposed.
\<close>

section \<open>The code\<close>

definition counter_name :: string where
  "counter_name = ''.project-ids''"

definition exhausted :: u64 where
  "exhausted = 2147483648"

definition ids_next :: "'x externals_scheme \<Rightarrow> read_env \<Rightarrow> directory \<Rightarrow> journal_error + u64" where
  "ids_next x env d =
     and_then (read_record x env counter_name d) (\<lambda>found. and_then (ok_or J_Corrupt found) (\<lambda>bytes.
       if length bytes \<noteq> 8 then Inl J_Corrupt
       else if \<not> (1 \<le> be_u64 bytes \<and> be_u64 bytes \<le> exhausted) then Inl J_Corrupt
       else Inr (be_u64 bytes)))"

definition ids_verify :: "'x externals_scheme \<Rightarrow> read_env \<Rightarrow> directory \<Rightarrow> journal_error + unit" where
  "ids_verify x env d = and_then (ids_next x env d) (\<lambda>_. Inr ())"

definition ids_reserve :: "'x externals_scheme \<Rightarrow> read_env \<Rightarrow> write_env \<Rightarrow> directory \<Rightarrow> (journal_error + u32) \<times> directory" where
  "ids_reserve x renv wenv d =
     (case ids_next x renv d of
        Inl e \<Rightarrow> (Inl e, d)
      | Inr next \<Rightarrow>
          if next = exhausted then (Inl J_Limit, d)
          else case write_record x wenv counter_name (u64_be (next + 1)) d of
            (Inl e, d') \<Rightarrow> (Inl e, d')
          | (Inr _, d') \<Rightarrow> (Inr (ucast next), d'))"

record ids_env =
  ie_open :: open_env
  ie_listing :: listing
  ie_read :: "string \<Rightarrow> read_env"
  ie_write :: "string \<Rightarrow> write_env"

definition ProjectIds_initialize ::
  "'x externals_scheme \<Rightarrow> ids_env \<Rightarrow> string \<Rightarrow> journal_dir \<Rightarrow> (journal_error + directory) \<times> journal_dir" where
  "ProjectIds_initialize x env worker dir =
     (if \<not> canonical_uuid worker then (Inl J_Invalid, dir)
      else case Directory_open (ie_open env) JournalLimits_default dir of
        (Inl e, dir') \<Rightarrow> (Inl e, dir')
      | (Inr d, _) \<Rightarrow>
          (case and_then (inventory d (ie_listing env)) (\<lambda>records. if records \<noteq> [] then Inl J_Conflict else
                and_then (read_record x (ie_read env ''.identity'') ''.identity'' d) (\<lambda>a. if a \<noteq> None then Inl J_Conflict else
                and_then (read_record x (ie_read env ''.session'') ''.session'' d) (\<lambda>b. if b \<noteq> None then Inl J_Conflict else
                and_then (read_record x (ie_read env counter_name) counter_name d) (\<lambda>c. if c \<noteq> None then Inl J_Conflict else
                Inr ())))) of
             Inl e \<Rightarrow> (Inl e, dy_dir d)
           | Inr _ \<Rightarrow>
               (case write_record x (ie_write env ''.identity'') ''.identity'' (as_bytes worker) d of
                  (Inl e, d1) \<Rightarrow> (Inl e, dy_dir d1)
                | (Inr _, d1) \<Rightarrow>
                    (case write_record x (ie_write env counter_name) counter_name (u64_be 1) d1 of
                       (Inl e, d2) \<Rightarrow> (Inl e, dy_dir d2)
                     | (Inr _, d2) \<Rightarrow> (Inr d2, dy_dir d2)))))"

definition ProjectIds_open ::
  "'x externals_scheme \<Rightarrow> ids_env \<Rightarrow> string \<Rightarrow> journal_dir \<Rightarrow> (journal_error + directory) \<times> journal_dir" where
  "ProjectIds_open x env worker dir =
     (if \<not> canonical_uuid worker then (Inl J_Invalid, dir)
      else case Directory_open (ie_open env) JournalLimits_default dir of
        (Inl e, dir') \<Rightarrow> (Inl e, dir')
      | (Inr d, dir') \<Rightarrow>
          (and_then (read_record x (ie_read env ''.identity'') ''.identity'' d) (\<lambda>found.
             case found of
               None \<Rightarrow> Inl J_Corrupt
             | Some identity \<Rightarrow>
                 if identity \<noteq> as_bytes worker then Inl J_Identity
                 else and_then (inventory d (ie_listing env)) (\<lambda>records. if records \<noteq> [] then Inl J_Corrupt else
                   and_then (read_record x (ie_read env ''.session'') ''.session'' d) (\<lambda>b. if b \<noteq> None then Inl J_Corrupt else
                   and_then (ids_next x (ie_read env counter_name) d) (\<lambda>_. Inr d)))), dir'))"

section \<open>Identifiers are never handed out twice\<close>

datatype ids_event =
  Reserve read_env write_env
| Ids_Restart "((string \<Rightarrow> bool) \<times> (string \<Rightarrow> u8 list)) option" ids_env string

text \<open>The directory, and the identifiers handed out so far.\<close>

fun ids_step :: "'x externals_scheme \<Rightarrow> directory \<times> u32 list \<Rightarrow> ids_event \<Rightarrow> directory \<times> u32 list" where
  "ids_step x (d, issued) (Reserve renv wenv) =
     (case ids_reserve x renv wenv d of (Inl _, d') \<Rightarrow> (d', issued) | (Inr i, d') \<Rightarrow> (d', issued @ [i]))"
| "ids_step x (d, issued) (Ids_Restart loss env worker) =
     (case ProjectIds_open x env worker (restarted_dir loss (dy_dir d)) of
        (Inr d', _) \<Rightarrow> (d', issued)
      | (Inl _, dir) \<Rightarrow> (d\<lparr>dy_dir := dir, dy_poisoned := True\<rparr>, issued))"

definition counter_is :: "'x externals_scheme \<Rightarrow> u32 list \<Rightarrow> (string \<Rightarrow> (file_meta \<times> u8 list) option) \<Rightarrow> bool" where
  "counter_is x issued m \<longleftrightarrow>
     (\<exists>c. m counter_name = Some (sealed_file x (u64_be c)) \<and> 1 \<le> c \<and> c \<le> exhausted
        \<and> (\<forall>i \<in> set issued. unat i < unat c))"

fun ids_inv :: "'x externals_scheme \<Rightarrow> directory \<times> u32 list \<Rightarrow> bool" where
  "ids_inv x (d, issued) \<longleftrightarrow>
     dir_sound d \<and> sorted_wrt (<) issued \<and> (\<forall>i \<in> set issued. 1 \<le> i) \<and> (\<forall>m \<in> dir_futures (dy_dir d). counter_is x issued m)"

lemma record_name_counter: "record_name counter_name"
  by (simp add: record_name_def counter_name_def)

lemma ids_next_Inr:
  assumes "\<forall>b. length (x_sha256 x b) = 32" and "ids_next x env d = Inr n"
    and "dir_view (dy_dir d) counter_name = Some (sealed_file x (u64_be c))"
  shows "n = c"
proof -
  obtain bytes where r: "read_record x env counter_name d = Inr (Some bytes)" "n = be_u64 bytes"
    using assms(2) by (auto simp: ids_next_def split: if_splits)
  then have "decode_frame x (take (max_payload + header_len + 1) (encode_frame x (u64_be c))) = Inr bytes"
    using read_record_view [OF r(1) record_name_counter] assms(3) by (simp add: sealed_file_def)
  then have "bytes = u64_be c"
    using decode_taken [OF assms(1)] encode_frame_inject [OF assms(1)] by metis
  then show ?thesis
    using r(2) by simp
qed

lemma next_counter:
  assumes "counter_is x issued m" and "m counter_name = Some (sealed_file x (u64_be c))" and "\<forall>b. length (x_sha256 x b) = 32"
    and "c \<noteq> exhausted"
  shows "1 \<le> c \<and> (\<forall>i \<in> set issued. unat i < unat c) \<and> unat c < 2 ^ 31 \<and> unat (c + 1) = unat c + 1
    \<and> counter_is x (issued @ [ucast c]) (m(counter_name \<mapsto> sealed_file x (u64_be (c + 1))))"
proof -
  obtain c' where c': "m counter_name = Some (sealed_file x (u64_be c'))" "1 \<le> c'" "c' \<le> exhausted"
    "\<forall>i \<in> set issued. unat i < unat c'"
    using assms(1) by (auto simp: counter_is_def)
  have "u64_be c' = u64_be c"
    using c'(1) assms(2) encode_frame_inject [OF assms(3)] by (simp add: sealed_file_def)
  then have c: "c' = c"
    using be_u64_u64_be by metis
  have "unat c < 2 ^ 31"
    using c'(3) assms(4) c by (simp add: exhausted_def word_le_nat_alt word_unat_eq_iff)
  moreover from this have "unat (c + 1) = unat c + 1"
    by (subst unat_add_bounded) simp_all
  moreover from \<open>unat c < 2 ^ 31\<close> have "unat (ucast c :: u32) = unat c"
    by (simp add: unsigned_ucast_eq take_bit_nat_eq_self)
  ultimately show ?thesis
    using c'(2-4) c by (auto simp: counter_is_def exhausted_def word_le_nat_alt less_Suc_eq intro!: exI [of _ "c + 1"])
qed

lemma dead_step:
  assumes "ids_reserve x renv wenv d = (r, d')" and "dy_poisoned d"
  shows "d' = d \<and> \<not> is_ok r"
  using assms by (auto simp: ids_reserve_def ids_next_def read_record_def healthy_def is_ok_def)

lemma reserve_inv:
  assumes "\<forall>b. length (x_sha256 x b) = 32" and "ids_inv x (d, issued)"
  shows "ids_inv x (ids_step x (d, issued) (Reserve renv wenv))"
proof (cases "\<exists>n. ids_next x renv d = Inr n \<and> n \<noteq> exhausted")
  case False
  then have "\<exists>e. ids_reserve x renv wenv d = (Inl e, d)"
    by (cases "ids_next x renv d") (auto simp: ids_reserve_def)
  then show ?thesis
    using assms(2) by auto
next
  case True
  then obtain n where n: "ids_next x renv d = Inr n" "n \<noteq> exhausted"
    by blast
  then have live: "\<not> dy_poisoned d"
    by (auto simp: ids_next_def read_record_def healthy_def)
  let ?v = "dir_view (dy_dir d)"
  let ?v' = "?v(counter_name \<mapsto> sealed_file x (u64_be (n + 1)))"
  have sound: "dir_sound d" and future: "dir_futures (dy_dir d) = {?v}"
    using assms(2) live by (auto simp: disk.live_futures)
  then obtain c where c: "?v counter_name = Some (sealed_file x (u64_be c))"
    using assms(2) by (auto simp: counter_is_def)
  then have "c = n"
    using ids_next_Inr [OF assms(1) n(1)] by simp
  then have nx: "1 \<le> n" "\<forall>i \<in> set issued. unat i < unat n" "unat n < 2 ^ 31" "counter_is x (issued @ [ucast n]) ?v'"
    using next_counter [of x issued ?v n] assms(1,2) future c n(2) by auto
  then have weaker: "counter_is x issued ?v'"
    by (auto simp: counter_is_def)
  obtain r d' where w: "write_record x wenv counter_name (u64_be (n + 1)) d = (r, d')"
    by (cases "write_record x wenv counter_name (u64_be (n + 1)) d")
  show ?thesis
  proof (cases r)
    case (Inl e)
    then have "dir_sound d' \<and> dir_futures (dy_dir d') \<subseteq> {?v, ?v'}"
      using disk.commit_futures [OF sound record_name_counter w] future by auto
    then show ?thesis
      using Inl n w assms(2) future weaker by (auto simp: ids_reserve_def)
  next
    case (Inr u)
    have small: "unat (ucast n :: u32) = unat n"
      using nx(3) by (simp add: unsigned_ucast_eq take_bit_nat_eq_self)
    have "dir_sound d' \<and> dir_futures (dy_dir d') = {?v'}"
      using disk.commit_Inr [OF sound record_name_counter] w Inr disk.live_futures by force
    then show ?thesis
      using Inr n w assms(2) nx small
      by (auto simp: ids_reserve_def sorted_wrt_append word_less_nat_alt word_le_nat_alt)
  qed
qed

lemma restart_inv:
  assumes "ids_inv x (d, issued)"
  shows "ids_inv x (ids_step x (d, issued) (Ids_Restart loss env worker))"
proof -
  let ?dir = "restarted_dir loss (dy_dir d)"
  have intact: "intact (dy_dir d)"
    using assms by (simp add: dir_sound_def)
  obtain q dir' where o: "Directory_open (ie_open env) JournalLimits_default ?dir = (q, dir')"
    by (cases "Directory_open (ie_open env) JournalLimits_default ?dir")
  have agree: "agrees ?dir dir'"
    and live: "\<And>d'. q = Inr d' \<Longrightarrow> settled dir' \<and> d' = \<lparr>dy_dir = dir', dy_limits = JournalLimits_default, dy_poisoned = False\<rparr>"
    using Directory_open_agrees [OF o] by auto
  have ok: "intact dir'" "dir_futures dir' \<subseteq> dir_futures (dy_dir d)" "intact ?dir" "dir_futures ?dir \<subseteq> dir_futures (dy_dir d)"
    using agrees_intact [OF agree] agrees_futures [OF agree] restarted_intact [OF intact] restarted_futures [OF intact]
    by blast+
  obtain r dir'' where p: "ProjectIds_open x env worker ?dir = (r, dir'')"
    by (cases "ProjectIds_open x env worker ?dir")
  have "dir'' = ?dir \<or> dir'' = dir'" and "\<And>d'. r = Inr d' \<Longrightarrow> q = Inr d'"
    using p o by (auto simp: ProjectIds_open_def split: if_splits sum.splits option.splits)
  then show ?thesis
    using p assms ok live by (cases r) (auto simp: dir_sound_def)
qed

lemma ids_step_inv: "\<forall>b. length (x_sha256 x b) = 32 \<Longrightarrow> ids_inv x s \<Longrightarrow> ids_inv x (ids_step x s e)"
  using reserve_inv restart_inv by (cases s; cases e) blast+

interpretation reserving: kept_by_steps "ids_step x" "\<lambda>_. \<forall>b. length (x_sha256 x b) = 32" "ids_inv x" for x
  by unfold_locales (rule ids_step_inv)

lemma initialize_inv:
  assumes "ProjectIds_initialize x env worker dir = (Inr d, dir')" and "intact dir"
  shows "ids_inv x (d, [])"
proof -
  obtain q dir0 where o: "Directory_open (ie_open env) JournalLimits_default dir = (q, dir0)"
    by (cases "Directory_open (ie_open env) JournalLimits_default dir")
  obtain d0 where d0: "q = Inr d0"
    using assms(1) o by (cases q) (auto simp: ProjectIds_initialize_def split: if_splits)
  then have "dir_sound d0"
    using Directory_open_agrees [OF o] agrees_intact assms(2) by (auto simp: dir_sound_def)
  moreover obtain d1 where w1: "write_record x (ie_write env ''.identity'') ''.identity'' (as_bytes worker) d0 = (Inr (), d1)"
    and w2: "write_record x (ie_write env counter_name) counter_name (u64_be 1) d1 = (Inr (), d)"
    using assms(1) o d0 by (auto simp: ProjectIds_initialize_def split: if_splits sum.splits prod.splits)
  ultimately have "dir_sound d1"
    using disk.commit_futures record_name_identity by blast
  then have "dir_sound d" "dir_futures (dy_dir d) = {(dir_view (dy_dir d1))(counter_name \<mapsto> sealed_file x (u64_be 1))}"
    using disk.commit_Inr [OF _ record_name_counter w2] disk.live_futures [of d] by auto
  then show ?thesis
    by (auto simp: counter_is_def exhausted_def)
qed

text \<open>C10. A project identifier is never handed out twice. From an initialized directory, over
  any history of reservations that succeed or fail at any step, restarts and power failures
  that lose what was not synced, the identifiers that were handed out are strictly
  increasing, and all lie between 1 and \<open>i32::MAX\<close>. (SHA-256 digests have 32 bytes.)\<close>

theorem project_ids_never_reused:
  assumes "\<forall>b. length (x_sha256 x b) = 32"
    and "ProjectIds_initialize x env worker \<lparr>jd_entries = [], jd_durable = []\<rparr> = (Inr d, dir)"
  shows "case foldl (ids_step x) (d, []) events of
    (d', issued) \<Rightarrow> sorted_wrt (<) issued \<and> (\<forall>i \<in> set issued. 1 \<le> unat i \<and> unat i < 2 ^ 31)"
proof -
  have "ids_inv x (d, [])"
    using assms(2) by (rule initialize_inv) (simp add: intact_def)
  then have inv: "ids_inv x (foldl (ids_step x) (d, []) events)"
    using assms(1) by (intro reserving.run_keeps) simp_all
  obtain d' issued where s: "foldl (ids_step x) (d, []) events = (d', issued)"
    by (cases "foldl (ids_step x) (d, []) events")
  have "counter_is x issued (dir_view (dy_dir d'))"
    using inv s disk.view_future [of d'] by auto
  then have "unat i < 2 ^ 31" if "i \<in> set issued" for i
    using that by (auto simp: counter_is_def exhausted_def word_le_nat_alt)
  then show ?thesis
    using inv s by (auto simp: word_le_nat_alt)
qed

definition quiet_ids :: ids_env where
  "quiet_ids = \<lparr>ie_open = quiet_open, ie_listing = quiet_listing, ie_read = (\<lambda>_. quiet_read), ie_write = (\<lambda>_. quiet_write)\<rparr>"

lemma sample_initialized:
  "\<exists>d dir. ProjectIds_initialize zero_externals quiet_ids (fixture_uuid CHR ''3'') \<lparr>jd_entries = [], jd_durable = []\<rparr> = (Inr d, dir)"
proof -
  have "fixture_uuid CHR ''3'' \<noteq> []" "length (fixture_uuid CHR ''3'') = 36"
    by (simp_all add: fixture_uuid_def)
  then have "\<not> max_payload < length (as_bytes (fixture_uuid CHR ''3''))"
    by (simp add: max_payload_def)
  moreover have "canonical_uuid (fixture_uuid CHR ''3'')"
    by (rule fixture_uuid_canonical) (simp_all add: is_ascii_digit_def less_eq_char_def)
  moreover have "strip_suffix ''.identity'' ''.attempt'' = None" "strip_suffix ''.project-ids'' ''.attempt'' = None"
    by (simp_all add: strip_suffix_def)
  moreover have "\<not> max_payload < length (u64_be 1)"
    by (simp add: max_payload_def)
  ultimately show ?thesis
    by (simp add: ProjectIds_initialize_def quiet_ids_def Directory_open_def quiet_open_def open_lock_def Let_def
        discard_pending_def inventory_def quiet_listing_def read_record_def quiet_read_def counter_name_def
        write_record_def quiet_write_def replace_def over_limits_def put_file_def remove_name_def sync_directory_def)
qed

theorem project_ids_never_reused_witness:
  "\<exists>d dir. ProjectIds_initialize zero_externals quiet_ids (fixture_uuid CHR ''3'') \<lparr>jd_entries = [], jd_durable = []\<rparr> = (Inr d, dir)
     \<and> (case foldl (ids_step zero_externals) (d, [])
           [Reserve quiet_read quiet_write, Ids_Restart (Some (\<lambda>_. False, \<lambda>_. [])) quiet_ids (fixture_uuid CHR ''3''),
            Reserve quiet_read quiet_write] of
          (d', issued) \<Rightarrow> sorted_wrt (<) issued \<and> (\<forall>i \<in> set issued. 1 \<le> unat i \<and> unat i < 2 ^ 31))"
proof -
  obtain d dir where i: "ProjectIds_initialize zero_externals quiet_ids (fixture_uuid CHR ''3'')
      \<lparr>jd_entries = [], jd_durable = []\<rparr> = (Inr d, dir)"
    using sample_initialized by blast
  show ?thesis
    by (intro exI conjI, rule i, rule project_ids_never_reused [OF zero_externals_sha i])
qed

end
