(* ===== verification/Journal_Record.thy ===== *)
theory Journal_Record
  imports Completion Execution
begin

text \<open>
  The durable record of an attempt and its validation: \<open>Record\<close> and \<open>ExitEvidence\<close> of
  \<open>rust/worker/src/journal.rs\<close>, \<open>LogUpload\<close> of \<open>journal/logs.rs\<close>, \<open>OutputUpload\<close> of
  \<open>journal/uploads.rs\<close> and the part checks of \<open>journal/uploads/multipart.rs\<close>. Every failed
  check of a record is \<open>JournalError::Invalid\<close>, so the checks are predicates. The hash sets
  of a validation are the lists of what was inserted.
\<close>

section \<open>The record\<close>

record exit_evidence =
  ee_exit_code :: i32
  ee_oom_killed :: bool

record log_upload =
  lu_declaration :: create_upload_request
  lu_stream :: i32
  lu_first_sequence :: u64
  lu_last_sequence :: u64
  lu_gaps :: "log_gap list"
  lu_upload_id :: string
  lu_object_key :: string
  lu_finalization :: "finalize_upload_request option"
  lu_response :: "finalize_upload_response option"
  lu_registration :: "register_log_segment_request option"
  lu_registered :: bool

record output_upload =
  ou_declaration :: create_upload_request
  ou_upload_id :: string
  ou_object_key :: string
  ou_finalization :: "finalize_upload_request option"
  ou_response :: "finalize_upload_response option"
  ou_parts :: "completed_part list"

record attempt_record =
  ar_assignment :: assignment
  ar_container_id :: string
  ar_exit :: "exit_evidence option"
  ar_phase_reports :: "report_phase_request list"
  ar_completion :: "complete_attempt_request option"
  ar_completion_response :: "complete_attempt_response option"
  ar_outputs :: "output_upload list"
  ar_rejected_completion :: "complete_attempt_request option"
  ar_rejected_response :: "complete_attempt_response option"
  ar_logs :: "log_upload list"

abbreviation ar_authority :: "attempt_record \<Rightarrow> attempt_authority option" where
  "ar_authority r \<equiv> as_authority (ar_assignment r)"

definition exit_code_of :: "attempt_record \<Rightarrow> i32 option" where
  "exit_code_of r = map_option ee_exit_code (ar_exit r)"

definition last_phase :: "attempt_record \<Rightarrow> i32 option" where
  "last_phase r = (if ar_phase_reports r = [] then None else Some (rp_phase (List.last (ar_phase_reports r))))"

section \<open>Validation\<close>

subsection \<open>Phases\<close>

fun check_phases :: "attempt_record \<Rightarrow> attempt_authority \<Rightarrow> nat \<Rightarrow> i32 \<Rightarrow> string list \<Rightarrow> report_phase_request list \<Rightarrow> bool" where
  "check_phases rec a i previous ids [] = True"
| "check_phases rec a i previous ids (r # rs) =
     (is_ok (validate_phase_request r)
      \<and> \<not> (rp_authority r \<noteq> Some a
           \<or> rp_phase r \<le> previous
           \<or> (i = 0 \<and> rp_phase r \<noteq> state_i32 Starting)
           \<or> rp_event_id r \<in> set ids
           \<or> (rp_phase r \<noteq> state_i32 Starting \<and> rp_container_id r \<noteq> ar_container_id rec)
           \<or> (rp_phase r = state_i32 Finalizing \<and> rp_exit_code r \<noteq> exit_code_of rec))
      \<and> check_phases rec a (Suc i) (rp_phase r) (rp_event_id r # ids) rs)"

subsection \<open>Completion\<close>

definition superseded_ok :: "'x externals_scheme \<Rightarrow> attempt_record \<Rightarrow> bool" where
  "superseded_ok x rec =
     (case (ar_rejected_completion rec, ar_rejected_response rec) of
        (None, None) \<Rightarrow> True
      | (Some previous, Some response) \<Rightarrow>
          is_ok (validate_completion_request x previous)
          \<and> is_ok (validate_completion_response x previous response)
          \<and> \<not> (ca_authority previous \<noteq> ar_authority rec
               \<or> ca_exit_code previous \<noteq> exit_code_of rec
               \<or> ca_reason previous = reason_i32 UserCancelled
               \<or> cc_decision response \<noteq> decision_i32 StopRequested
               \<or> (case ar_completion rec of
                    None \<Rightarrow> True
                  | Some current \<Rightarrow>
                      ca_authority current \<noteq> ca_authority previous
                      \<or> ca_completion_id current = ca_completion_id previous
                      \<or> ca_reason current \<noteq> reason_i32 UserCancelled
                      \<or> \<not> ca_stopped current
                      \<or> ca_outputs current \<noteq> []
                      \<or> ca_logs_complete current
                      \<or> ca_exit_code current \<noteq> exit_code_of rec))
      | _ \<Rightarrow> False)"

definition completion_ok :: "'x externals_scheme \<Rightarrow> attempt_record \<Rightarrow> bool" where
  "completion_ok x rec \<longleftrightarrow>
     superseded_ok x rec
     \<and> (case ar_completion rec of
          None \<Rightarrow> ar_completion_response rec = None
        | Some request \<Rightarrow>
            is_ok (validate_completion_request x request)
            \<and> \<not> (ca_authority request \<noteq> ar_authority rec
                 \<or> is_some_and (\<lambda>code. exit_code_of rec \<noteq> Some code) (ca_exit_code request))
            \<and> \<not> (ca_reason request = reason_i32 Reason_Unspecified
                 \<and> (last_phase rec \<noteq> Some (state_i32 Finalizing)
                    \<or> \<not> is_some_and (\<lambda>e. \<not> (ee_exit_code e \<noteq> 0 \<or> ee_oom_killed e)) (ar_exit rec)))
            \<and> (case ar_completion_response rec of
                 None \<Rightarrow> True
               | Some response \<Rightarrow> is_ok (validate_completion_response x request response)))"

subsection \<open>Outputs\<close>

fun parts_from :: "u32 \<Rightarrow> u32 \<Rightarrow> completed_part list \<Rightarrow> bool" where
  "parts_from parts previous [] = True"
| "parts_from parts previous (p # ps) =
     (\<not> (cp_number p \<le> previous \<or> parts < cp_number p \<or> \<not> lower_hash (cp_sha256 p)
         \<or> (cp_etag p \<noteq> [] \<and> \<not> valid_etag (cp_etag p)))
      \<and> parts_from parts (cp_number p) ps)"

definition parts_ok :: "output_upload \<Rightarrow> bool" where
  "parts_ok out \<longleftrightarrow>
     \<not> (unat (cu_part_count (ou_declaration out)) < length (ou_parts out)
        \<or> (cu_part_count (ou_declaration out) = 1 \<and> ou_parts out \<noteq> []))
     \<and> parts_from (cu_part_count (ou_declaration out)) 0 (ou_parts out)"

text \<open>The sets of names, request ids, upload ids and artifact ids seen so far.\<close>

record seen =
  sn_names :: "string list"
  sn_requests :: "string list"
  sn_uploads :: "string list"
  sn_artifacts :: "string list"

definition output_finalization_ok :: "output_upload \<Rightarrow> finalize_upload_request \<Rightarrow> bool" where
  "output_finalization_ok out f \<longleftrightarrow>
     (let r = ou_declaration out in
      is_ok (validate_finalization f)
      \<and> (case fu_object f of
           None \<Rightarrow> False
         | Some obj \<Rightarrow>
             \<not> (fu_authority f \<noteq> cu_authority r
                \<or> fu_upload_id f \<noteq> ou_upload_id out
                \<or> ov_key obj \<noteq> ou_object_key out
                \<or> ov_size_bytes obj \<noteq> cu_size_bytes r
                \<or> ov_sha256 obj \<noteq> cu_sha256 r))
      \<and> \<not> (cu_part_count r = 1 \<and> fu_parts f \<noteq> [])
      \<and> \<not> (1 < cu_part_count r
           \<and> (fu_parts f \<noteq> ou_parts out \<or> length (fu_parts f) \<noteq> unat (cu_part_count r))))"

definition check_output :: "execution_spec \<Rightarrow> attempt_authority option \<Rightarrow> seen \<Rightarrow> output_upload \<Rightarrow> seen option" where
  "check_output spec a s out =
     (let r = ou_declaration out;
          s1 = s\<lparr>sn_names := cu_name r # sn_names s, sn_requests := cu_request_id r # sn_requests s\<rparr>;
          s2 = s1\<lparr>sn_uploads := ou_upload_id out # sn_uploads s1\<rparr> in
      if \<not> is_ok (validate_create r) \<or> \<not> parts_ok out then None
      else case find (\<lambda>o'. jo_name o' = cu_name r) (js_outputs (jb_spec (es_job spec))) of
        None \<Rightarrow> None
      | Some declared \<Rightarrow>
          if cu_authority r \<noteq> a \<or> cu_kind r \<noteq> kind_i32 Kind_Output \<or> jo_max_bytes declared < cu_size_bytes r
             \<or> cu_name r \<in> set (sn_names s) \<or> cu_request_id r \<in> set (sn_requests s)
          then None
          else if ou_upload_id out = [] then
            (if ou_object_key out \<noteq> [] \<or> ou_parts out \<noteq> [] \<or> ou_finalization out \<noteq> None \<or> ou_response out \<noteq> None
             then None else Some s1)
          else if \<not> is_some_and (\<lambda>a. canonical_uuid (ou_upload_id out)
                  \<and> scoped_key (ou_object_key out) a (ou_upload_id out)) (cu_authority r)
                \<or> ou_upload_id out \<in> set (sn_uploads s)
          then None
          else case ou_finalization out of
            None \<Rightarrow> if ou_response out \<noteq> None then None else Some s2
          | Some f \<Rightarrow>
              if \<not> output_finalization_ok out f \<or> fu_request_id f \<in> set (sn_requests s2) then None
              else let s3 = s2\<lparr>sn_requests := fu_request_id f # sn_requests s2\<rparr> in
                case ou_response out of
                  None \<Rightarrow> Some s3
                | Some response \<Rightarrow>
                    if \<not> is_ok (validate_artifact f response) \<or> fr_artifact_id response \<in> set (sn_artifacts s3) then None
                    else Some (s3\<lparr>sn_artifacts := fr_artifact_id response # sn_artifacts s3\<rparr>))"

fun check_outputs :: "execution_spec \<Rightarrow> attempt_authority option \<Rightarrow> seen \<Rightarrow> output_upload list \<Rightarrow> bool" where
  "check_outputs spec a s [] = True"
| "check_outputs spec a s (out # outs) =
     (case check_output spec a s out of None \<Rightarrow> False | Some s' \<Rightarrow> check_outputs spec a s' outs)"

abbreviation nothing_seen :: seen where
  "nothing_seen \<equiv> \<lparr>sn_names = [], sn_requests = [], sn_uploads = [], sn_artifacts = []\<rparr>"

definition outputs_ok :: "'x externals_scheme \<Rightarrow> attempt_record \<Rightarrow> bool" where
  "outputs_ok x rec \<longleftrightarrow>
     ar_outputs rec = []
     \<or> (\<not> (64 < length (ar_outputs rec) \<or> last_phase rec \<noteq> Some (state_i32 Finalizing))
        \<and> (case from_assignment x (ar_assignment rec) of
             Inl _ \<Rightarrow> False
           | Inr spec \<Rightarrow> check_outputs spec (ar_authority rec) nothing_seen (ar_outputs rec)))"

subsection \<open>Logs\<close>

definition stream_label :: "log_stream \<Rightarrow> string" where
  "stream_label st = (if st = Stdout then ''stdout'' else ''stderr'')"

definition log_probe :: "log_upload \<Rightarrow> register_log_segment_request" where
  "log_probe log =
     \<lparr>rs_authority = cu_authority (lu_declaration log), rs_request_id = cu_request_id (lu_declaration log),
      rs_artifact_id = cu_request_id (lu_declaration log), rs_stream = lu_stream log,
      rs_first_sequence = lu_first_sequence log, rs_last_sequence = lu_last_sequence log, rs_gaps = lu_gaps log\<rparr>"

definition log_finalization_ok :: "log_upload \<Rightarrow> finalize_upload_request \<Rightarrow> bool" where
  "log_finalization_ok log f \<longleftrightarrow>
     (let r = lu_declaration log in
      is_ok (validate_finalization f)
      \<and> (case fu_object f of
           None \<Rightarrow> False
         | Some obj \<Rightarrow>
             \<not> (fu_authority f \<noteq> cu_authority r
                \<or> fu_upload_id f \<noteq> lu_upload_id log
                \<or> ov_key obj \<noteq> lu_object_key log
                \<or> ov_size_bytes obj \<noteq> cu_size_bytes r
                \<or> ov_sha256 obj \<noteq> cu_sha256 r)))"

definition log_registration_ok :: "log_upload \<Rightarrow> finalize_upload_response \<Rightarrow> register_log_segment_request \<Rightarrow> bool" where
  "log_registration_ok log response g \<longleftrightarrow>
     is_ok (validate_log_request g)
     \<and> \<not> (rs_authority g \<noteq> cu_authority (lu_declaration log)
          \<or> rs_artifact_id g \<noteq> fr_artifact_id response
          \<or> rs_stream g \<noteq> lu_stream log
          \<or> rs_first_sequence g \<noteq> lu_first_sequence log
          \<or> rs_last_sequence g \<noteq> lu_last_sequence log
          \<or> rs_gaps g \<noteq> lu_gaps log)"

text \<open>What the loop checks of one log after its place in the stream.\<close>

definition check_log :: "attempt_authority option \<Rightarrow> seen \<Rightarrow> log_upload \<Rightarrow> seen option" where
  "check_log a s log =
     (let r = lu_declaration log;
          s1 = s\<lparr>sn_requests := cu_request_id r # sn_requests s\<rparr>;
          s2 = s1\<lparr>sn_uploads := lu_upload_id log # sn_uploads s1\<rparr> in
      if cu_request_id r \<in> set (sn_requests s) \<or> \<not> is_ok (validate_log_request (log_probe log)) then None
      else if lu_upload_id log = [] then
        (if lu_object_key log \<noteq> [] \<or> lu_finalization log \<noteq> None \<or> lu_response log \<noteq> None
            \<or> lu_registration log \<noteq> None \<or> lu_registered log
         then None else Some s1)
      else if \<not> is_some_and (\<lambda>a. canonical_uuid (lu_upload_id log)
              \<and> scoped_key (lu_object_key log) a (lu_upload_id log)) (cu_authority r)
            \<or> lu_upload_id log \<in> set (sn_uploads s)
      then None
      else case lu_finalization log of
        None \<Rightarrow> if lu_response log \<noteq> None \<or> lu_registration log \<noteq> None \<or> lu_registered log then None else Some s2
      | Some f \<Rightarrow>
          if \<not> log_finalization_ok log f \<or> fu_request_id f \<in> set (sn_requests s2) then None
          else let s3 = s2\<lparr>sn_requests := fu_request_id f # sn_requests s2\<rparr> in
            case lu_response log of
              None \<Rightarrow> if lu_registration log \<noteq> None \<or> lu_registered log then None else Some s3
            | Some response \<Rightarrow>
                if \<not> is_ok (validate_artifact f response) \<or> fr_artifact_id response \<in> set (sn_artifacts s3) then None
                else let s4 = s3\<lparr>sn_artifacts := fr_artifact_id response # sn_artifacts s3\<rparr> in
                  case lu_registration log of
                    None \<Rightarrow> if lu_registered log then None else Some s4
                  | Some g \<Rightarrow>
                      if \<not> log_registration_ok log response g \<or> rs_request_id g \<in> set (sn_requests s4) then None
                      else Some (s4\<lparr>sn_requests := rs_request_id g # sn_requests s4\<rparr>))"

fun check_logs ::
  "attempt_authority option \<Rightarrow> seen \<Rightarrow> (log_stream \<Rightarrow> u64) \<Rightarrow> (log_stream \<Rightarrow> bool) \<Rightarrow> log_upload list \<Rightarrow> bool" where
  "check_logs a s lst registered [] = True"
| "check_logs a s lst registered (log # logs) =
     (let r = lu_declaration log in
      is_ok (validate_create r)
      \<and> (case stream_of (lu_stream log) of
           None \<Rightarrow> False
         | Some st \<Rightarrow>
             st \<in> set [Stdout, Stderr]
             \<and> \<not> (cu_authority r \<noteq> a
                  \<or> cu_kind r \<noteq> kind_i32 Kind_Log
                  \<or> cu_name r \<noteq> stream_label st
                  \<or> cu_size_bytes r = 0
                  \<or> 2 ^ 20 < cu_size_bytes r
                  \<or> lu_first_sequence log \<noteq> lst st + 1
                  \<or> \<not> registered st)
             \<and> (case check_log a s log of
                  None \<Rightarrow> False
                | Some s' \<Rightarrow>
                    check_logs a s' (lst(st := lu_last_sequence log)) (registered(st := lu_registered log)) logs)))"

definition logs_ok :: "attempt_record \<Rightarrow> bool" where
  "logs_ok rec \<longleftrightarrow>
     \<not> (1024 < length (ar_logs rec) \<or> (ar_logs rec \<noteq> [] \<and> ar_phase_reports rec = []))
     \<and> check_logs (ar_authority rec) nothing_seen (\<lambda>_. 0) (\<lambda>_. True) (ar_logs rec)"

subsection \<open>The whole record\<close>

definition record_ok :: "'x externals_scheme \<Rightarrow> attempt_record \<Rightarrow> string \<Rightarrow> string \<Rightarrow> bool" where
  "record_ok x rec worker key =
     (case ar_authority rec of
        None \<Rightarrow> False
      | Some a \<Rightarrow>
          \<not> (aa_worker_id a \<noteq> worker
             \<or> aa_attempt_id a \<noteq> key
             \<or> \<not> canonical_uuid key
             \<or> \<not> canonical_uuid (aa_job_id a)
             \<or> \<not> canonical_uuid (aa_session_id a)
             \<or> aa_generation a = 0
             \<or> i64_max < aa_generation a
             \<or> as_lease_duration_ms (ar_assignment rec) \<noteq> 0
             \<or> as_phase_remaining_ms (ar_assignment rec) \<noteq> 0
             \<or> as_server_time_unix_ms (ar_assignment rec) \<noteq> 0)
          \<and> is_ok (from_assignment x (ar_assignment rec))
          \<and> \<not> (3 < length (ar_phase_reports rec)
               \<or> (ar_container_id rec \<noteq> [] \<and> (\<not> lower_hash (ar_container_id rec) \<or> ar_phase_reports rec = []))
               \<or> is_some_and (\<lambda>e. ar_container_id rec = [] \<or> \<not> (0 \<le> ee_exit_code e \<and> ee_exit_code e \<le> 255)) (ar_exit rec))
          \<and> check_phases rec a 0 0 [] (ar_phase_reports rec)
          \<and> completion_ok x rec \<and> outputs_ok x rec \<and> logs_ok rec)"

definition Record_validate :: "'x externals_scheme \<Rightarrow> attempt_record \<Rightarrow> string \<Rightarrow> string \<Rightarrow> journal_error + unit" where
  "Record_validate x rec worker key = (if record_ok x rec worker key then Inr () else Inl J_Invalid)"

end
