(* ===== verification/Journal.thy ===== *)
theory Journal
  imports Journal_Record Journal_Files Datasets
begin

text \<open>
  The journal of \<open>rust/worker/src/journal.rs\<close> on top of its directory: opening, loading and
  saving attempt records, and the operations that add evidence to a record. An operation
  loads the record, decides on it and either answers from it or saves a new one; the
  decision is a function of the record of its own (\<open>..._step\<close>), and \<open>update_attempt\<close> is the
  loading and saving around it. The protobuf codec of the records is a pair of external
  functions.
\<close>

section \<open>The code\<close>

record session_record =
  sr_registration :: register_worker_request
  sr_generation :: u64
  sr_previous_session_id :: string

record journal_externals = dataset_externals +
  x_encode_record :: "attempt_record \<Rightarrow> u8 list"
  x_decode_record :: "u8 list \<Rightarrow> attempt_record option"
  x_encode_session :: "session_record \<Rightarrow> u8 list"
  x_decode_session :: "u8 list \<Rightarrow> session_record option"

record journal =
  jn_directory :: directory
  jn_worker_id :: string
  jn_incarnation :: "string option"

record journal_open_env =
  jo_open :: open_env
  jo_identity :: read_env
  jo_listing :: listing
  jo_session :: read_env
  jo_write :: write_env

definition Journal_open :: "'x externals_scheme \<Rightarrow> journal_open_env \<Rightarrow> string \<Rightarrow> journal_limits \<Rightarrow> journal_dir
    \<Rightarrow> (journal_error + journal) \<times> journal_dir" where
  "Journal_open x env worker limits dir =
     (if \<not> canonical_uuid worker \<or> jl_max_attempts limits = 0 \<or> 4096 < jl_max_attempts limits
         \<or> jl_max_bytes limits = 0 \<or> 32 * 2 ^ 30 < jl_max_bytes limits
      then (Inl J_Invalid, dir)
      else case Directory_open (jo_open env) limits dir of
        (Inl e, dir') \<Rightarrow> (Inl e, dir')
      | (Inr d, dir') \<Rightarrow>
          let opened = (\<lambda>d. \<lparr>jn_directory = d, jn_worker_id = worker, jn_incarnation = None\<rparr>) in
          (case read_record x (jo_identity env) ''.identity'' d of
             Inl e \<Rightarrow> (Inl e, dir')
           | Inr (Some saved) \<Rightarrow> if saved = as_bytes worker then (Inr (opened d), dir') else (Inl J_Identity, dir')
           | Inr None \<Rightarrow>
               (case and_then (inventory d (jo_listing env)) (\<lambda>records. if records \<noteq> [] then Inl J_Corrupt else
                     and_then (read_record x (jo_session env) ''.session'' d) (\<lambda>s. if s \<noteq> None then Inl J_Corrupt else Inr ())) of
                  Inl e \<Rightarrow> (Inl e, dir')
                | Inr _ \<Rightarrow>
                    (case write_record x (jo_write env) ''.identity'' (as_bytes worker) d of
                       (Inl e, d') \<Rightarrow> (Inl e, dy_dir d')
                     | (Inr _, d') \<Rightarrow> (Inr (opened d'), dy_dir d')))))"

definition attempt_ids :: "journal \<Rightarrow> listing \<Rightarrow> journal_error + string list" where
  "attempt_ids j li = and_then (inventory (jn_directory j) li) (\<lambda>records. Inr (map fst records))"

definition attempt_name :: "string \<Rightarrow> string" where
  "attempt_name key = key @ ''.attempt''"

text \<open>What the environment does to one operation: its reads and writes, and the random bytes.\<close>

record journal_env =
  je_read :: read_env
  je_write :: write_env
  je_fill :: "u8 list option"

definition load_attempt ::
  "'x journal_externals_scheme \<Rightarrow> read_env \<Rightarrow> string \<Rightarrow> journal \<Rightarrow> journal_error + attempt_record option" where
  "load_attempt x env key j =
     (if \<not> canonical_uuid key then Inl J_Invalid
      else and_then (read_record x env (attempt_name key) (jn_directory j)) (\<lambda>found.
        case found of
          None \<Rightarrow> Inr None
        | Some bytes \<Rightarrow>
            and_then (ok_or J_Corrupt (x_decode_record x bytes)) (\<lambda>rec.
            and_then (map_err (\<lambda>_. J_Corrupt) (Record_validate x rec (jn_worker_id j) key)) (\<lambda>_.
            if x_encode_record x rec \<noteq> bytes then Inl J_Corrupt else Inr (Some rec)))))"

definition required :: "'x journal_externals_scheme \<Rightarrow> read_env \<Rightarrow> string \<Rightarrow> journal \<Rightarrow> journal_error + attempt_record" where
  "required x env key j = and_then (load_attempt x env key j) (\<lambda>found. ok_or J_Invalid found)"

definition save :: "'x journal_externals_scheme \<Rightarrow> write_env \<Rightarrow> string \<Rightarrow> attempt_record \<Rightarrow> journal
    \<Rightarrow> (journal_error + unit) \<times> journal" where
  "save x env key rec j =
     (case Record_validate x rec (jn_worker_id j) key of
        Inl e \<Rightarrow> (Inl e, j)
      | Inr _ \<Rightarrow>
          if max_payload < length (x_encode_record x rec) then (Inl J_Limit, j)
          else case write_record x env (attempt_name key) (x_encode_record x rec) (jn_directory j) of
            (r, d) \<Rightarrow> (r, j\<lparr>jn_directory := d\<rparr>))"

type_synonym 'r record_step = "attempt_record \<Rightarrow> journal_error + (attempt_record option \<times> 'r)"

definition update_attempt :: "'x journal_externals_scheme \<Rightarrow> journal_env \<Rightarrow> string \<Rightarrow> 'r record_step \<Rightarrow> journal
    \<Rightarrow> (journal_error + 'r) \<times> journal" where
  "update_attempt x env key step j =
     (case and_then (required x (je_read env) key j) step of
        Inl e \<Rightarrow> (Inl e, j)
      | Inr (None, r) \<Rightarrow> (Inr r, j)
      | Inr (Some rec, r) \<Rightarrow>
          (case save x (je_write env) key rec j of
             (Inl e, j') \<Rightarrow> (Inl e, j')
           | (Inr _, j') \<Rightarrow> (Inr r, j')))"

definition fresh_record :: "assignment \<Rightarrow> attempt_record" where
  "fresh_record a =
     \<lparr>ar_assignment = a\<lparr>as_lease_duration_ms := 0, as_server_time_unix_ms := 0, as_phase_remaining_ms := 0\<rparr>,
      ar_container_id = [], ar_exit = None, ar_phase_reports = [], ar_completion = None, ar_completion_response = None,
      ar_outputs = [], ar_rejected_completion = None, ar_rejected_response = None, ar_logs = []\<rparr>"

definition persist_assignment :: "'x journal_externals_scheme \<Rightarrow> journal_env \<Rightarrow> assignment \<Rightarrow> journal
    \<Rightarrow> (journal_error + unit) \<times> journal" where
  "persist_assignment x env assignment j =
     (case as_authority assignment of
        None \<Rightarrow> (Inl J_Invalid, j)
      | Some a \<Rightarrow>
          if aa_worker_id a \<noteq> jn_worker_id j then (Inl J_Identity, j)
          else let rec = fresh_record assignment in
            case Record_validate x rec (jn_worker_id j) (aa_attempt_id a) of
              Inl e \<Rightarrow> (Inl e, j)
            | Inr _ \<Rightarrow>
                (case load_attempt x (je_read env) (aa_attempt_id a) j of
                   Inl e \<Rightarrow> (Inl e, j)
                 | Inr (Some saved) \<Rightarrow> (if ar_assignment saved = ar_assignment rec then Inr () else Inl J_Conflict, j)
                 | Inr None \<Rightarrow> save x (je_write env) (aa_attempt_id a) rec j))"

definition bind_container_step :: "string \<Rightarrow> unit record_step" where
  "bind_container_step container rec =
     (if ar_phase_reports rec = [] then Inl J_Conflict
      else if ar_container_id rec \<noteq> [] then (if ar_container_id rec = container then Inr (None, ()) else Inl J_Conflict)
      else if ar_completion rec \<noteq> None then Inl J_Conflict
      else Inr (Some (rec\<lparr>ar_container_id := container\<rparr>), ()))"

definition bind_container :: "'x journal_externals_scheme \<Rightarrow> journal_env \<Rightarrow> string \<Rightarrow> string \<Rightarrow> journal
    \<Rightarrow> (journal_error + unit) \<times> journal" where
  "bind_container x env key container j =
     (if \<not> lower_hash container then (Inl J_Invalid, j) else update_attempt x env key (bind_container_step container) j)"

definition record_exit_step :: "i32 \<Rightarrow> bool \<Rightarrow> unit record_step" where
  "record_exit_step code oom rec =
     (let evidence = \<lparr>ee_exit_code = code, ee_oom_killed = oom\<rparr> in
      if ar_container_id rec = [] then Inl J_Conflict
      else case ar_exit rec of
        Some old \<Rightarrow> if old = evidence then Inr (None, ()) else Inl J_Conflict
      | None \<Rightarrow> Inr (Some (rec\<lparr>ar_exit := Some evidence\<rparr>), ()))"

definition record_exit :: "'x journal_externals_scheme \<Rightarrow> journal_env \<Rightarrow> string \<Rightarrow> i32 \<Rightarrow> bool \<Rightarrow> journal
    \<Rightarrow> (journal_error + unit) \<times> journal" where
  "record_exit x env key code oom j =
     (if \<not> (0 \<le> code \<and> code \<le> 255) then (Inl J_Invalid, j) else update_attempt x env key (record_exit_step code oom) j)"

definition prepare_phase_step :: "u8 list option \<Rightarrow> attempt_state \<Rightarrow> report_phase_request record_step" where
  "prepare_phase_step fill phase rec =
     (case find (\<lambda>r. rp_phase r = state_i32 phase) (ar_phase_reports rec) of
        Some saved \<Rightarrow> Inr (None, saved)
      | None \<Rightarrow>
          if ar_completion rec \<noteq> None then Inl J_Conflict
          else and_then (case phase of
              Starting \<Rightarrow> Inr (ar_phase_reports rec = [])
            | Running \<Rightarrow> Inr (ar_phase_reports rec \<noteq> [] \<and> ar_container_id rec \<noteq> [] \<and> ar_exit rec = None)
            | Finalizing \<Rightarrow> Inr (ar_exit rec \<noteq> None)
            | _ \<Rightarrow> Inl J_Invalid) (\<lambda>allowed.
          if \<not> allowed then Inl J_Conflict
          else and_then (new_uuid fill) (\<lambda>event.
            let request =
              \<lparr>rp_authority = ar_authority rec, rp_event_id = event, rp_phase = state_i32 phase,
               rp_container_id = (if phase = Starting then [] else ar_container_id rec),
               rp_exit_code = (if phase = Finalizing then exit_code_of rec else None)\<rparr>
            in Inr (Some (rec\<lparr>ar_phase_reports := ar_phase_reports rec @ [request]\<rparr>), request))))"

definition prepare_phase :: "'x journal_externals_scheme \<Rightarrow> journal_env \<Rightarrow> string \<Rightarrow> attempt_state \<Rightarrow> journal
    \<Rightarrow> (journal_error + report_phase_request) \<times> journal" where
  "prepare_phase x env key phase j = update_attempt x env key (prepare_phase_step (je_fill env) phase) j"

definition persist_completion_step ::
  "'x externals_scheme \<Rightarrow> attempt_authority \<Rightarrow> complete_attempt_request \<Rightarrow> unit record_step" where
  "persist_completion_step x authority request rec =
     (if ar_authority rec \<noteq> Some authority then Inl J_Identity
      else case ar_completion rec of
        Some saved \<Rightarrow> if saved = request then Inr (None, ()) else Inl J_Conflict
      | None \<Rightarrow>
          if ca_exit_code request \<noteq> exit_code_of rec then Inl J_Conflict
          else let rec' = rec\<lparr>ar_completion := Some request\<rparr> in
            if \<not> completion_ok x rec' then Inl J_Conflict else Inr (Some rec', ()))"

definition persist_completion :: "'x journal_externals_scheme \<Rightarrow> journal_env \<Rightarrow> complete_attempt_request \<Rightarrow> journal
    \<Rightarrow> (journal_error + unit) \<times> journal" where
  "persist_completion x env request j =
     (if \<not> is_ok (validate_completion_request x request) then (Inl J_Invalid, j)
      else case ca_authority request of
        None \<Rightarrow> (Inl J_Invalid, j)
      | Some authority \<Rightarrow> update_attempt x env (aa_attempt_id authority) (persist_completion_step x authority request) j)"

definition supersede_step :: "attempt_authority \<Rightarrow> complete_attempt_request \<Rightarrow> unit record_step" where
  "supersede_step authority request rec =
     (if ar_authority rec \<noteq> Some authority
         \<or> ca_reason request \<noteq> reason_i32 UserCancelled
         \<or> \<not> ca_stopped request
         \<or> ca_outputs request \<noteq> []
         \<or> ca_logs_complete request
         \<or> ca_exit_code request \<noteq> exit_code_of rec
         \<or> ar_rejected_completion rec \<noteq> None
      then Inl J_Conflict
      else and_then (ok_or J_Conflict (ar_completion rec)) (\<lambda>previous.
        and_then (ok_or J_Conflict (ar_completion_response rec)) (\<lambda>response.
        if cc_decision response \<noteq> decision_i32 StopRequested
           \<or> ca_reason previous = reason_i32 UserCancelled
           \<or> ca_completion_id previous = ca_completion_id request
           \<or> previous = request
        then Inl J_Conflict
        else Inr (Some (rec\<lparr>ar_rejected_completion := Some previous, ar_rejected_response := Some response,
                           ar_completion := Some request, ar_completion_response := None\<rparr>), ()))))"

definition supersede_rejected_completion ::
  "'x journal_externals_scheme \<Rightarrow> journal_env \<Rightarrow> complete_attempt_request \<Rightarrow> journal \<Rightarrow> (journal_error + unit) \<times> journal" where
  "supersede_rejected_completion x env request j =
     (if \<not> is_ok (validate_completion_request x request) then (Inl J_Invalid, j)
      else case ca_authority request of
        None \<Rightarrow> (Inl J_Invalid, j)
      | Some authority \<Rightarrow> update_attempt x env (aa_attempt_id authority) (supersede_step authority request) j)"

definition completion_response_step ::
  "'x externals_scheme \<Rightarrow> complete_attempt_request \<Rightarrow> complete_attempt_response \<Rightarrow> unit record_step" where
  "completion_response_step x request response rec =
     (if ar_completion rec \<noteq> Some request then Inl J_Conflict
      else if \<not> is_ok (validate_completion_response x request response) then Inl J_Invalid
      else if ar_completion_response rec = Some response then Inr (None, ())
      else if is_some_and (\<lambda>saved. cc_decision saved \<noteq> decision_i32 StopRequested
                \<or> decision_of (cc_decision response) \<notin> set [Some Fenced, Some AlreadyTerminal]) (ar_completion_response rec)
      then Inl J_Conflict
      else Inr (Some (rec\<lparr>ar_completion_response := Some response\<rparr>), ()))"

definition record_completion_response ::
  "'x journal_externals_scheme \<Rightarrow> journal_env \<Rightarrow> complete_attempt_request \<Rightarrow> complete_attempt_response \<Rightarrow> journal
     \<Rightarrow> (journal_error + unit) \<times> journal" where
  "record_completion_response x env request response j =
     (case ca_authority request of
        None \<Rightarrow> (Inl J_Invalid, j)
      | Some authority \<Rightarrow>
          update_attempt x env (aa_attempt_id authority) (completion_response_step x request response) j)"

end
