(* ===== verification/Journal_Codec.thy ===== *)
theory Journal_Codec
  imports Journal "HOL-Library.Countable"
begin

text \<open>
  The values the journal stores are countable, so a codec as the journal needs it exists:
  protobuf's is a parameter of the model, and the last part gives one concrete codec, which
  the examples of the journal use.
\<close>

section \<open>Countable messages\<close>

instance attempt_authority_ext :: (countable) countable
  by (rule countable_classI [of "\<lambda>r. to_nat (aa_job_id r, aa_attempt_id r, aa_generation r, aa_worker_id r, aa_session_id r, attempt_authority.more r)"])
    (auto intro: attempt_authority.equality)

instance wire_resources_ext :: (countable) countable
  by (rule countable_classI [of "\<lambda>r. to_nat (wr_cpu_millis r, wr_memory_bytes r, wr_scratch_bytes r, wire_resources.more r)"])
    (auto intro: wire_resources.equality)

instance object_version_ext :: (countable) countable
  by (rule countable_classI [of "\<lambda>r. to_nat (ov_key r, ov_version_id r, ov_size_bytes r, ov_sha256 r, object_version.more r)"])
    (auto intro: object_version.equality)

instance input_manifest_ext :: (countable) countable
  by (rule countable_classI [of "\<lambda>r. to_nat (im_dataset_id r, im_mount_path r, im_archive r, im_file_manifest_json r, im_download_url r, im_expires_unix_ms r, im_dataset_name r, input_manifest.more r)"])
    (auto intro: input_manifest.equality)

instance assignment_ext :: (countable) countable
  by (rule countable_classI [of "\<lambda>r. to_nat (as_authority r, as_image_digest r, as_argv r, as_resources r, as_canonical_job_spec_json r, as_spec_sha256 r, as_lease_duration_ms r, as_server_time_unix_ms r, as_phase_remaining_ms r, as_inputs r, assignment.more r)"])
    (auto intro: assignment.equality)

instance report_phase_request_ext :: (countable) countable
  by (rule countable_classI [of "\<lambda>r. to_nat (rp_authority r, rp_event_id r, rp_phase r, rp_container_id r, rp_exit_code r, report_phase_request.more r)"])
    (auto intro: report_phase_request.equality)

instance create_upload_request_ext :: (countable) countable
  by (rule countable_classI [of "\<lambda>r. to_nat (cu_authority r, cu_request_id r, cu_name r, cu_kind r, cu_size_bytes r, cu_sha256 r, cu_part_count r, cu_part_size_bytes r, create_upload_request.more r)"])
    (auto intro: create_upload_request.equality)

instance completed_part_ext :: (countable) countable
  by (rule countable_classI [of "\<lambda>r. to_nat (cp_number r, cp_etag r, cp_sha256 r, completed_part.more r)"])
    (auto intro: completed_part.equality)

instance finalize_upload_request_ext :: (countable) countable
  by (rule countable_classI [of "\<lambda>r. to_nat (fu_authority r, fu_request_id r, fu_upload_id r, fu_object r, fu_parts r, finalize_upload_request.more r)"])
    (auto intro: finalize_upload_request.equality)

instance finalize_upload_response_ext :: (countable) countable
  by (rule countable_classI [of "\<lambda>r. to_nat (fr_artifact_id r, fr_object r, finalize_upload_response.more r)"])
    (auto intro: finalize_upload_response.equality)

instance log_gap_ext :: (countable) countable
  by (rule countable_classI [of "\<lambda>r. to_nat (lg_stream r, lg_first_sequence r, lg_last_sequence r, log_gap.more r)"])
    (auto intro: log_gap.equality)

instance register_log_segment_request_ext :: (countable) countable
  by (rule countable_classI [of "\<lambda>r. to_nat (rs_authority r, rs_request_id r, rs_artifact_id r, rs_stream r, rs_first_sequence r, rs_last_sequence r, rs_gaps r, register_log_segment_request.more r)"])
    (auto intro: register_log_segment_request.equality)

instance output_reference_ext :: (countable) countable
  by (rule countable_classI [of "\<lambda>r. to_nat (or_name r, or_artifact_id r, output_reference.more r)"])
    (auto intro: output_reference.equality)

instance complete_attempt_request_ext :: (countable) countable
  by (rule countable_classI [of "\<lambda>r. to_nat (ca_authority r, ca_completion_id r, ca_payload_sha256 r, ca_exit_code r, ca_reason r, ca_stopped r, ca_outputs r, ca_logs_complete r, ca_gaps r, ca_metrics_json r, complete_attempt_request.more r)"])
    (auto intro: complete_attempt_request.equality)

instance complete_attempt_response_ext :: (countable) countable
  by (rule countable_classI [of "\<lambda>r. to_nat (cc_decision r, cc_state r, cc_accepted_manifest_json r, complete_attempt_response.more r)"])
    (auto intro: complete_attempt_response.equality)

instance exit_evidence_ext :: (countable) countable
  by (rule countable_classI [of "\<lambda>r. to_nat (ee_exit_code r, ee_oom_killed r, exit_evidence.more r)"])
    (auto intro: exit_evidence.equality)

instance log_upload_ext :: (countable) countable
  by (rule countable_classI [of "\<lambda>r. to_nat (lu_declaration r, lu_stream r, lu_first_sequence r, lu_last_sequence r, lu_gaps r, lu_upload_id r, lu_object_key r, lu_finalization r, lu_response r, lu_registration r, lu_registered r, log_upload.more r)"])
    (auto intro: log_upload.equality)

instance output_upload_ext :: (countable) countable
  by (rule countable_classI [of "\<lambda>r. to_nat (ou_declaration r, ou_upload_id r, ou_object_key r, ou_finalization r, ou_response r, ou_parts r, output_upload.more r)"])
    (auto intro: output_upload.equality)

instance attempt_record_ext :: (countable) countable
  by (rule countable_classI [of "\<lambda>r. to_nat (ar_assignment r, ar_container_id r, ar_exit r, ar_phase_reports r, ar_completion r, ar_completion_response r, ar_outputs r, ar_rejected_completion r, ar_rejected_response r, ar_logs r, attempt_record.more r)"])
    (auto intro: attempt_record.equality)

instance register_worker_request_ext :: (countable) countable
  by (rule countable_classI [of "\<lambda>r. to_nat (rw_worker_id r, rw_request_id r, rw_requested_session_id r, rw_protocol_version r, rw_allocatable r, rw_execution_slots r, rw_labels r, rw_capabilities r, register_worker_request.more r)"])
    (auto intro: register_worker_request.equality)

instance session_record_ext :: (countable) countable
  by (rule countable_classI [of "\<lambda>r. to_nat (sr_registration r, sr_generation r, sr_previous_session_id r, session_record.more r)"])
    (auto intro: session_record.equality)

section \<open>An attempt that finalizes its first output\<close>

definition sample_phase :: "attempt_state \<Rightarrow> char \<Rightarrow> report_phase_request" where
  "sample_phase phase c =
     \<lparr>rp_authority = Some fixture_authority, rp_event_id = fixture_uuid c, rp_phase = state_i32 phase,
      rp_container_id = (if phase = Starting then [] else fixture_hash CHR ''c''),
      rp_exit_code = (if phase = Finalizing then Some 0 else None)\<rparr>"

definition sample_output_declaration :: create_upload_request where
  "sample_output_declaration =
     \<lparr>cu_authority = Some fixture_authority, cu_request_id = fixture_uuid CHR ''9'', cu_name = ''a'',
      cu_kind = kind_i32 Kind_Output, cu_size_bytes = 7, cu_sha256 = fixture_hash CHR ''a'', cu_part_count = 1,
      cu_part_size_bytes = 0\<rparr>"

definition sample_output_upload :: output_upload where
  "sample_output_upload =
     \<lparr>ou_declaration = sample_output_declaration, ou_upload_id = fixture_uuid CHR ''6'', ou_object_key = sample_key,
      ou_finalization = Some sample_finalize, ou_response = None, ou_parts = []\<rparr>"

definition sample_attempt :: attempt_record where
  "sample_attempt =
     \<lparr>ar_assignment = sample_assignment, ar_container_id = fixture_hash CHR ''c'',
      ar_exit = Some \<lparr>ee_exit_code = 0, ee_oom_killed = False\<rparr>,
      ar_phase_reports = [sample_phase Starting CHR ''a'', sample_phase Running CHR ''b'', sample_phase Finalizing CHR ''c''],
      ar_completion = None, ar_completion_response = None, ar_outputs = [sample_output_upload],
      ar_rejected_completion = None, ar_rejected_response = None, ar_logs = []\<rparr>"

definition sample_encode :: "'a \<Rightarrow> 'a::countable \<Rightarrow> u8 list" where
  "sample_encode special r = (if r = special then [] else replicate (Suc (to_nat r)) 0)"

definition sample_decode :: "'a::countable \<Rightarrow> u8 list \<Rightarrow> 'a option" where
  "sample_decode special bytes = Some (if bytes = [] then special else from_nat (length bytes - 1))"

lemma sample_codec [simp]: "sample_decode special (sample_encode special r) = Some r"
  by (simp add: sample_decode_def sample_encode_def)

definition sample_journal_externals :: "session_record \<Rightarrow> journal_externals" where
  "sample_journal_externals session =
     \<lparr>x_sha256 = (\<lambda>_. replicate 32 0), x_parse = (\<lambda>b. if b = [1] then Some sample_job_json else None), x_print = (\<lambda>_. []),
      x_parse_url = (\<lambda>_. None), x_ip_loopback = (\<lambda>_. False), x_tar = (\<lambda>_. []),
      x_encode_record = sample_encode sample_attempt, x_decode_record = sample_decode sample_attempt,
      x_encode_session = sample_encode session, x_decode_session = sample_decode session\<rparr>"

lemma sample_phases_ok: "check_phases sample_attempt fixture_authority 0 0 [] (ar_phase_reports sample_attempt)"
  by (simp add: sample_attempt_def sample_phase_def validate_phase_request_def state_of_def exit_code_of_def
      fixture_authority_def i64_max_def)

lemma sample_outputs_ok:
  assumes "x_parse x [1] = Some sample_job_json" and "x_sha256 x [1] = replicate 32 0"
  shows "outputs_ok x sample_attempt"
proof -
  have "valid_part_plan sample_output_declaration"
    by (simp add: valid_part_plan_def sample_output_declaration_def)
  moreover have "valid_upload_name (cu_name sample_output_declaration)"
    by (simp add: valid_upload_name_def sample_output_declaration_def is_ascii_alphanumeric_def
        is_ascii_alphabetic_def less_eq_char_def)
  ultimately have create: "validate_create sample_output_declaration = Inr ()"
    unfolding validate_create_Inr_iff by (simp add: sample_output_declaration_def object_limit_def kind_of_def)
  have final: "output_finalization_ok sample_output_upload sample_finalize"
    by (simp add: output_finalization_ok_def sample_finalize_valid sample_output_upload_def)
      (simp add: sample_finalize_def sample_object_def sample_output_declaration_def)
  have fields: "ou_declaration sample_output_upload = sample_output_declaration"
    "ou_upload_id sample_output_upload = fixture_uuid CHR ''6''" "ou_object_key sample_output_upload = sample_key"
    "ou_finalization sample_output_upload = Some sample_finalize" "ou_response sample_output_upload = None"
    by (simp_all add: sample_output_upload_def)
  have declared: "cu_name sample_output_declaration = ''a''" "cu_authority sample_output_declaration = Some fixture_authority"
    "cu_request_id sample_output_declaration = fixture_uuid CHR ''9''" "fu_request_id sample_finalize = fixture_uuid CHR ''5''"
    "cu_kind sample_output_declaration = kind_i32 Kind_Output" "cu_size_bytes sample_output_declaration = 7"
    by (simp_all add: sample_output_declaration_def sample_finalize_def)
  have "find (\<lambda>o'. jo_name o' = ''a'') (js_outputs (jb_spec sample_job))
      = Some \<lparr>jo_name = ''a'', jo_path = ''/outputs/a'', jo_required = True, jo_max_bytes = 9\<rparr>"
    by (simp add: sample_job_def)
  moreover have "parts_ok sample_output_upload"
    by (simp add: parts_ok_def sample_output_upload_def sample_output_declaration_def)
  ultimately have "check_output \<lparr>es_job = sample_job, es_sha256 = hex (replicate 32 0)\<rparr> (Some fixture_authority) nothing_seen
      sample_output_upload \<noteq> None"
    using create final by (simp add: check_output_def fields declared sample_key_scoped Let_def)
      (simp add: fixture_uuid_def)
  moreover have sample_assigned: "as_authority sample_assignment = Some fixture_authority"
    by (simp add: sample_assignment_def)
  ultimately show ?thesis
    by (auto simp: outputs_ok_def sample_attempt_def last_phase_def sample_phase_def sample_from_assignment [OF assms]
        sample_assigned)
qed

lemma sample_attempt_ok:
  assumes "x_parse x [1] = Some sample_job_json" and "x_sha256 x [1] = replicate 32 0"
  shows "Record_validate x sample_attempt (fixture_uuid CHR ''1'') (fixture_uuid CHR ''4'') = Inr ()"
proof -
  have "completion_ok x sample_attempt" "logs_ok sample_attempt"
    by (simp_all add: completion_ok_def superseded_ok_def logs_ok_def sample_attempt_def)
  moreover have "ar_authority sample_attempt = Some fixture_authority"
    by (simp add: sample_attempt_def sample_assignment_def)
  moreover have "from_assignment x (ar_assignment sample_attempt) = Inr \<lparr>es_job = sample_job, es_sha256 = hex (replicate 32 0)\<rparr>"
    using sample_from_assignment [OF assms] by (simp add: sample_attempt_def)
  ultimately show ?thesis
    using sample_phases_ok sample_outputs_ok [OF assms]
    by (simp add: Record_validate_def record_ok_def)
      (simp add: fixture_authority_def i64_max_def sample_attempt_def sample_assignment_def)
qed

section \<open>A journal that holds it\<close>

definition sample_file :: "'x externals_scheme \<Rightarrow> u8 list \<Rightarrow> journal_file" where
  "sample_file x payload = \<lparr>jf_meta = private_file, jf_bytes = encode_frame x payload, jf_synced = True\<rparr>"

definition sample_entries :: "'x externals_scheme \<Rightarrow> entries" where
  "sample_entries x =
     [(''.lock'', \<lparr>jf_meta = private_file, jf_bytes = [], jf_synced = True\<rparr>),
      (''.identity'', sample_file x (as_bytes (fixture_uuid CHR ''1''))),
      (attempt_name (fixture_uuid CHR ''4''), sample_file x [])]"

definition sample_dir :: "'x externals_scheme \<Rightarrow> journal_dir" where
  "sample_dir x = \<lparr>jd_entries = sample_entries x, jd_durable = sample_entries x\<rparr>"

definition quiet_journal_open :: journal_open_env where
  "quiet_journal_open =
     \<lparr>jo_open = quiet_open, jo_identity = quiet_read, jo_listing = quiet_listing, jo_session = quiet_read, jo_write = quiet_write\<rparr>"

definition quiet_journal_env :: journal_env where
  "quiet_journal_env = \<lparr>je_read = quiet_read, je_write = quiet_write, je_fill = Some (replicate 16 7)\<rparr>"

definition sample_journal :: "'x externals_scheme \<Rightarrow> journal" where
  "sample_journal x =
     \<lparr>jn_directory = \<lparr>dy_dir = sample_dir x, dy_limits = JournalLimits_default, dy_poisoned = False\<rparr>,
      jn_worker_id = fixture_uuid CHR ''1'', jn_incarnation = None\<rparr>"

lemma sample_dir_intact: "intact (sample_dir x)"
  by (auto simp: intact_def sample_dir_def sample_entries_def sample_file_def split: if_splits)

lemma sample_file_read:
  assumes "\<forall>b. length (x_sha256 x b) = 32" and "length p \<le> max_payload"
  shows "decode_frame x (take (max_payload + header_len + 1) (jf_bytes (sample_file x p))) = Inr p"
proof -
  have "take (max_payload + header_len + 1) (jf_bytes (sample_file x p)) = encode_frame x p"
    using assms by (simp add: sample_file_def encode_frame_def header_len_def)
  then show ?thesis
    using decode_frame_Inr_iff [OF assms(1)] assms(2) by simp
qed

lemma sample_names [simp]:
  "attempt_name (fixture_uuid c) \<noteq> ''.lock''" "attempt_name (fixture_uuid c) \<noteq> ''.identity''"
  "attempt_name (fixture_uuid c) \<noteq> ''.session''" "attempt_name (fixture_uuid c) \<noteq> ''.project-ids''"
  "attempt_name (fixture_uuid c) \<noteq> ''.pending''" "strip_suffix (attempt_name k) ''.attempt'' = Some k"
  by (simp_all add: attempt_name_def fixture_uuid_def strip_suffix_def)

lemmas sample_names_sym [simp] = sample_names(1-5) [symmetric]

lemma sample_file_len: "length (x_sha256 x []) = 32 \<Longrightarrow> file_len (sample_file x []) = 48"
  by (simp add: file_len_def sample_file_def encode_frame_def journal_magic_def as_bytes_def)

lemma sample_inventory:
  assumes "length (x_sha256 x []) = 32"
  shows "inventory (jn_directory (sample_journal x)) quiet_listing = Inr [(fixture_uuid CHR ''4'', 48)]"
  by (simp add: inventory_def sample_journal_def sample_dir_def sample_entries_def quiet_listing_def sample_file_len [OF assms])
    (simp add: sample_file_def max_payload_def header_len_def checked_add_def JournalLimits_default_def,
      intro exI [of _ "[(fixture_uuid CHR ''4'', 48)]"] conjI exI [of _ 48]; simp)

lemma sample_opened:
  assumes "\<forall>b. length (x_sha256 x b) = 32"
  shows "Journal_open x quiet_journal_open (fixture_uuid CHR ''1'') JournalLimits_default (sample_dir x)
    = (Inr (sample_journal x), sample_dir x)"
proof -
  have lock: "open_lock quiet_open (sample_dir x) = (Inr (), sample_dir x)"
    by (simp add: open_lock_def Let_def quiet_open_def sample_dir_def sample_entries_def put_file_def)
  have pending: "discard_pending quiet_open (sample_dir x) = (Inr (), sample_dir x)"
    by (simp add: discard_pending_def quiet_open_def sample_dir_def sample_entries_def)
  have "Directory_open quiet_open JournalLimits_default (sample_dir x) = (Inr (jn_directory (sample_journal x)), sample_dir x)"
    using sample_inventory [of x] assms lock pending
    by (simp add: Directory_open_def quiet_open_def)
      (simp add: sync_directory_def sample_journal_def sample_dir_def)
  moreover have "read_record x quiet_read ''.identity'' (jn_directory (sample_journal x)) = Inr (Some (as_bytes (fixture_uuid CHR ''1'')))"
    using sample_file_read [OF assms, of "as_bytes (fixture_uuid CHR ''1'')"]
    by (simp add: read_record_def quiet_read_def sample_journal_def sample_dir_def sample_entries_def)
      (simp add: sample_file_def max_payload_def fixture_uuid_def as_bytes_def)
  ultimately show ?thesis
    by (simp add: Journal_open_def quiet_journal_open_def JournalLimits_default_def) (simp add: sample_journal_def)
qed

lemma sample_loaded_record:
  assumes "\<forall>b. length (x_sha256 x b) = 32" and "x_decode_record x [] = Some rec" and "x_encode_record x rec = []"
    and "Record_validate x rec (fixture_uuid CHR ''1'') (fixture_uuid CHR ''4'') = Inr ()"
  shows "load_attempt x quiet_read (fixture_uuid CHR ''4'') (sample_journal x) = Inr (Some rec)"
proof -
  have "read_record x quiet_read (attempt_name (fixture_uuid CHR ''4'')) (jn_directory (sample_journal x)) = Inr (Some [])"
    using sample_file_read [OF assms(1), of "[]"]
    by (simp add: read_record_def quiet_read_def sample_journal_def sample_dir_def sample_entries_def)
      (simp add: sample_file_def)
  moreover have "jn_worker_id (sample_journal x) = fixture_uuid CHR ''1''"
    by (simp add: sample_journal_def)
  ultimately show ?thesis
    using assms(2-4) by (simp add: load_attempt_def)
qed

lemma sample_loaded:
  "load_attempt (sample_journal_externals s) quiet_read (fixture_uuid CHR ''4'')
     (sample_journal (sample_journal_externals s)) = Inr (Some sample_attempt)"
  by (rule sample_loaded_record)
    (simp_all add: sample_attempt_ok sample_journal_externals_def sample_decode_def sample_encode_def)

lemma sample_power_failure: "restarted_dir (Some (\<lambda>_. False, \<lambda>_. [])) (sample_dir x) = sample_dir x"
  by (simp add: crash_def Let_def sample_dir_def sample_entries_def sample_file_def List.map_filter_def)

end
