(* ===== verification/Journal_Uploads.thy ===== *)
theory Journal_Uploads
  imports Journal
begin

text \<open>
  The operations of \<open>rust/worker/src/journal/logs.rs\<close>, \<open>journal/uploads.rs\<close> and
  \<open>journal/uploads/multipart.rs\<close>: the durable plan of every log and output upload, from its
  declaration to the registered artifact. A \<open>find\<close> with a mutable borrow is the update of
  the first match.
\<close>

section \<open>The code\<close>

fun update_first :: "('a \<Rightarrow> bool) \<Rightarrow> ('a \<Rightarrow> 'a) \<Rightarrow> 'a list \<Rightarrow> 'a list" where
  "update_first p f [] = []"
| "update_first p f (a # as) = (if p a then f a # as else a # update_first p f as)"

subsection \<open>Logs: \<open>journal/logs.rs\<close>\<close>

definition log_started :: "attempt_record \<Rightarrow> bool" where
  "log_started rec \<longleftrightarrow> last_phase rec \<in> set [Some (state_i32 Starting), Some (state_i32 Running), Some (state_i32 Finalizing)]"

definition log_name :: "log_stream \<Rightarrow> journal_error + string" where
  "log_name st = (case st of Stdout \<Rightarrow> Inr ''stdout'' | Stderr \<Rightarrow> Inr ''stderr'' | Stream_Unspecified \<Rightarrow> Inl J_Invalid)"

definition new_log :: "create_upload_request \<Rightarrow> log_stream \<Rightarrow> u64 \<Rightarrow> u64 \<Rightarrow> log_gap list \<Rightarrow> log_upload" where
  "new_log request stream first lst gaps =
     \<lparr>lu_declaration = request, lu_stream = stream_i32 stream, lu_first_sequence = first, lu_last_sequence = lst,
      lu_gaps = gaps, lu_upload_id = [], lu_object_key = [], lu_finalization = None, lu_response = None,
      lu_registration = None, lu_registered = False\<rparr>"

definition prepare_log_step :: "u8 list option \<Rightarrow> log_stream \<Rightarrow> u64 \<Rightarrow> u64 \<Rightarrow> log_gap list \<Rightarrow> u64 \<Rightarrow> string
    \<Rightarrow> create_upload_request record_step" where
  "prepare_log_step fill stream first lst gaps bytes sha256 rec =
     (case find (\<lambda>s. lu_stream s = stream_i32 stream \<and> lu_first_sequence s = first) (ar_logs rec) of
        Some saved \<Rightarrow>
          if lu_last_sequence saved = lst \<and> lu_gaps saved = gaps
             \<and> cu_size_bytes (lu_declaration saved) = bytes \<and> cu_sha256 (lu_declaration saved) = sha256
          then Inr (None, lu_declaration saved) else Inl J_Conflict
      | None \<Rightarrow>
          let previous = find (\<lambda>s. lu_stream s = stream_i32 stream) (rev (ar_logs rec)) in
          if ar_completion rec \<noteq> None
             \<or> 1024 \<le> length (ar_logs rec)
             \<or> \<not> log_started rec
             \<or> is_some_and (\<lambda>p. \<not> lu_registered p \<or> checked_add (lu_last_sequence p) 1 \<noteq> Some first) previous
             \<or> (previous = None \<and> first \<noteq> 1)
             \<or> bytes = 0
             \<or> 2 ^ 20 < bytes
          then Inl J_Invalid
          else and_then (new_uuid fill) (\<lambda>rid. and_then (log_name stream) (\<lambda>name.
            let request =
                  \<lparr>cu_authority = ar_authority rec, cu_request_id = rid, cu_name = name, cu_kind = kind_i32 Kind_Log,
                   cu_size_bytes = bytes, cu_sha256 = sha256, cu_part_count = 1, cu_part_size_bytes = 0\<rparr>;
                log = new_log request stream first lst gaps
            in if \<not> is_ok (validate_create request) \<or> \<not> is_ok (validate_log_request (log_probe log)) then Inl J_Invalid
               else Inr (Some (rec\<lparr>ar_logs := ar_logs rec @ [log]\<rparr>), request))))"

definition prepare_log :: "'x journal_externals_scheme \<Rightarrow> journal_env \<Rightarrow> string \<Rightarrow> log_stream \<Rightarrow> u64 \<Rightarrow> u64
    \<Rightarrow> log_gap list \<Rightarrow> u64 \<Rightarrow> string \<Rightarrow> journal \<Rightarrow> (journal_error + create_upload_request) \<times> journal" where
  "prepare_log x env key stream first lst gaps bytes sha256 j =
     update_attempt x env key (prepare_log_step (je_fill env) stream first lst gaps bytes sha256) j"

definition log_grant_step :: "create_upload_request \<Rightarrow> create_upload_response \<Rightarrow> unit record_step" where
  "log_grant_step request grant rec =
     (let mine = (\<lambda>s. lu_declaration s = request) in
      case find mine (ar_logs rec) of
        None \<Rightarrow> Inl J_Conflict
      | Some saved \<Rightarrow>
          if lu_upload_id saved \<noteq> [] then
            (if lu_upload_id saved = cr_upload_id grant \<and> lu_object_key saved = cr_object_key grant
             then Inr (None, ()) else Inl J_Conflict)
          else if ar_completion rec \<noteq> None then Inl J_Conflict
          else Inr (Some (rec\<lparr>ar_logs := update_first mine
            (\<lambda>s. s\<lparr>lu_upload_id := cr_upload_id grant, lu_object_key := cr_object_key grant\<rparr>) (ar_logs rec)\<rparr>), ()))"

definition record_log_grant :: "'x journal_externals_scheme \<Rightarrow> journal_env \<Rightarrow> create_upload_request
    \<Rightarrow> create_upload_response \<Rightarrow> journal \<Rightarrow> (journal_error + unit) \<times> journal" where
  "record_log_grant x env request grant j =
     (if \<not> is_ok (validate_grant request grant) then (Inl J_Invalid, j)
      else case cu_authority request of
        None \<Rightarrow> (Inl J_Invalid, j)
      | Some a \<Rightarrow> update_attempt x env (aa_attempt_id a) (log_grant_step request grant) j)"

definition log_finalization_step :: "u8 list option \<Rightarrow> string \<Rightarrow> object_version \<Rightarrow> finalize_upload_request record_step" where
  "log_finalization_step fill rid obj rec =
     (let mine = (\<lambda>s. cu_request_id (lu_declaration s) = rid) in
      case find mine (ar_logs rec) of
        None \<Rightarrow> Inl J_Invalid
      | Some saved \<Rightarrow>
          (case lu_finalization saved of
             Some request \<Rightarrow> if fu_object request = Some obj then Inr (None, request) else Inl J_Conflict
           | None \<Rightarrow>
               if ar_completion rec \<noteq> None \<or> lu_upload_id saved = []
                  \<or> ov_key obj \<noteq> lu_object_key saved
                  \<or> ov_size_bytes obj \<noteq> cu_size_bytes (lu_declaration saved)
                  \<or> ov_sha256 obj \<noteq> cu_sha256 (lu_declaration saved)
               then Inl J_Conflict
               else and_then (new_uuid fill) (\<lambda>fresh.
                 let request = \<lparr>fu_authority = cu_authority (lu_declaration saved), fu_request_id = fresh,
                                fu_upload_id = lu_upload_id saved, fu_object = Some obj, fu_parts = []\<rparr>
                 in if \<not> is_ok (validate_finalization request) then Inl J_Invalid
                    else Inr (Some (rec\<lparr>ar_logs := update_first mine (\<lambda>s. s\<lparr>lu_finalization := Some request\<rparr>) (ar_logs rec)\<rparr>),
                              request))))"

definition prepare_log_finalization :: "'x journal_externals_scheme \<Rightarrow> journal_env \<Rightarrow> string \<Rightarrow> string \<Rightarrow> object_version
    \<Rightarrow> journal \<Rightarrow> (journal_error + finalize_upload_request) \<times> journal" where
  "prepare_log_finalization x env key rid obj j = update_attempt x env key (log_finalization_step (je_fill env) rid obj) j"

definition log_response_step :: "finalize_upload_request \<Rightarrow> finalize_upload_response \<Rightarrow> unit record_step" where
  "log_response_step request response rec =
     (let mine = (\<lambda>s. lu_finalization s = Some request) in
      case find mine (ar_logs rec) of
        None \<Rightarrow> Inl J_Conflict
      | Some saved \<Rightarrow>
          (case lu_response saved of
             Some old \<Rightarrow> if old = response then Inr (None, ()) else Inl J_Conflict
           | None \<Rightarrow> Inr (Some (rec\<lparr>ar_logs := update_first mine (\<lambda>s. s\<lparr>lu_response := Some response\<rparr>) (ar_logs rec)\<rparr>), ())))"

definition record_log_response :: "'x journal_externals_scheme \<Rightarrow> journal_env \<Rightarrow> finalize_upload_request
    \<Rightarrow> finalize_upload_response \<Rightarrow> journal \<Rightarrow> (journal_error + unit) \<times> journal" where
  "record_log_response x env request response j =
     (if \<not> is_ok (validate_artifact request response) then (Inl J_Invalid, j)
      else case fu_authority request of
        None \<Rightarrow> (Inl J_Invalid, j)
      | Some a \<Rightarrow> update_attempt x env (aa_attempt_id a) (log_response_step request response) j)"

definition log_registration_step :: "u8 list option \<Rightarrow> string \<Rightarrow> register_log_segment_request record_step" where
  "log_registration_step fill rid rec =
     (let mine = (\<lambda>s. cu_request_id (lu_declaration s) = rid) in
      case find mine (ar_logs rec) of
        None \<Rightarrow> Inl J_Invalid
      | Some saved \<Rightarrow>
          (case lu_registration saved of
             Some request \<Rightarrow> Inr (None, request)
           | None \<Rightarrow>
               if ar_completion rec \<noteq> None then Inl J_Conflict
               else and_then (ok_or J_Conflict (lu_response saved)) (\<lambda>response. and_then (new_uuid fill) (\<lambda>fresh.
                 let request = (log_probe saved)\<lparr>rs_request_id := fresh, rs_artifact_id := fr_artifact_id response\<rparr>
                 in if \<not> is_ok (validate_log_request request) then Inl J_Invalid
                    else Inr (Some (rec\<lparr>ar_logs := update_first mine (\<lambda>s. s\<lparr>lu_registration := Some request\<rparr>) (ar_logs rec)\<rparr>),
                              request)))))"

definition prepare_log_registration :: "'x journal_externals_scheme \<Rightarrow> journal_env \<Rightarrow> string \<Rightarrow> string \<Rightarrow> journal
    \<Rightarrow> (journal_error + register_log_segment_request) \<times> journal" where
  "prepare_log_registration x env key rid j = update_attempt x env key (log_registration_step (je_fill env) rid) j"

definition log_registered_step :: "register_log_segment_request \<Rightarrow> unit record_step" where
  "log_registered_step request rec =
     (let mine = (\<lambda>s. lu_registration s = Some request) in
      case find mine (ar_logs rec) of
        None \<Rightarrow> Inl J_Conflict
      | Some saved \<Rightarrow>
          if lu_registered saved then Inr (None, ())
          else Inr (Some (rec\<lparr>ar_logs := update_first mine (\<lambda>s. s\<lparr>lu_registered := True\<rparr>) (ar_logs rec)\<rparr>), ()))"

definition record_log_registration :: "'x journal_externals_scheme \<Rightarrow> journal_env \<Rightarrow> register_log_segment_request
    \<Rightarrow> decision \<Rightarrow> attempt_state \<Rightarrow> journal \<Rightarrow> (journal_error + unit) \<times> journal" where
  "record_log_registration x env request decision state j =
     (if \<not> is_ok (validate_log_response request \<lparr>mr_decision = decision_i32 decision, mr_state = state_i32 state\<rparr>)
      then (Inl J_Invalid, j)
      else if decision \<noteq> Accepted then (Inl J_Conflict, j)
      else case rs_authority request of
        None \<Rightarrow> (Inl J_Invalid, j)
      | Some a \<Rightarrow> update_attempt x env (aa_attempt_id a) (log_registered_step request) j)"

subsection \<open>Outputs: \<open>journal/uploads.rs\<close>\<close>

definition part_count_of :: "u64 \<Rightarrow> u64 \<Rightarrow> u64" where
  "part_count_of bytes part_size = (if part_size = 0 then 1 else 1 + saturating_sub bytes 1 div part_size)"

definition new_output :: "create_upload_request \<Rightarrow> output_upload" where
  "new_output request =
     \<lparr>ou_declaration = request, ou_upload_id = [], ou_object_key = [], ou_finalization = None, ou_response = None, ou_parts = []\<rparr>"

definition prepare_output_step :: "u8 list option \<Rightarrow> string \<Rightarrow> u64 \<Rightarrow> string \<Rightarrow> u64 \<Rightarrow> u32 \<Rightarrow> create_upload_request record_step" where
  "prepare_output_step fill name bytes sha256 part_size parts rec =
     (case find (\<lambda>u. cu_name (ou_declaration u) = name) (ar_outputs rec) of
        Some saved \<Rightarrow>
          if cu_size_bytes (ou_declaration saved) = bytes \<and> cu_sha256 (ou_declaration saved) = sha256
             \<and> cu_part_size_bytes (ou_declaration saved) = part_size \<and> cu_part_count (ou_declaration saved) = parts
          then Inr (None, ou_declaration saved) else Inl J_Conflict
      | None \<Rightarrow>
          if ar_completion rec \<noteq> None then Inl J_Conflict
          else and_then (new_uuid fill) (\<lambda>rid.
            let request =
              \<lparr>cu_authority = ar_authority rec, cu_request_id = rid, cu_name = name, cu_kind = kind_i32 Kind_Output,
               cu_size_bytes = bytes, cu_sha256 = sha256, cu_part_count = parts, cu_part_size_bytes = part_size\<rparr>
            in Inr (Some (rec\<lparr>ar_outputs := ar_outputs rec @ [new_output request]\<rparr>), request)))"

definition prepare_output_plan :: "'x journal_externals_scheme \<Rightarrow> journal_env \<Rightarrow> string \<Rightarrow> string \<Rightarrow> u64 \<Rightarrow> string \<Rightarrow> u64
    \<Rightarrow> journal \<Rightarrow> (journal_error + create_upload_request) \<times> journal" where
  "prepare_output_plan x env key name bytes sha256 part_size j =
     (let parts = part_count_of bytes part_size in
      if 2 ^ 32 \<le> unat parts then (Inl J_Invalid, j)
      else update_attempt x env key (prepare_output_step (je_fill env) name bytes sha256 part_size (ucast parts)) j)"

definition prepare_output :: "'x journal_externals_scheme \<Rightarrow> journal_env \<Rightarrow> string \<Rightarrow> string \<Rightarrow> u64 \<Rightarrow> string
    \<Rightarrow> journal \<Rightarrow> (journal_error + create_upload_request) \<times> journal" where
  "prepare_output x env key name bytes sha256 j = prepare_output_plan x env key name bytes sha256 0 j"

definition output_grant_step :: "create_upload_request \<Rightarrow> create_upload_response \<Rightarrow> unit record_step" where
  "output_grant_step request grant rec =
     (let mine = (\<lambda>u. ou_declaration u = request) in
      case find mine (ar_outputs rec) of
        None \<Rightarrow> Inl J_Conflict
      | Some saved \<Rightarrow>
          if ou_upload_id saved \<noteq> [] then
            (if ou_upload_id saved = cr_upload_id grant \<and> ou_object_key saved = cr_object_key grant
             then Inr (None, ()) else Inl J_Conflict)
          else if ar_completion rec \<noteq> None then Inl J_Conflict
          else Inr (Some (rec\<lparr>ar_outputs := update_first mine
            (\<lambda>u. u\<lparr>ou_upload_id := cr_upload_id grant, ou_object_key := cr_object_key grant\<rparr>) (ar_outputs rec)\<rparr>), ()))"

definition record_output_grant :: "'x journal_externals_scheme \<Rightarrow> journal_env \<Rightarrow> create_upload_request
    \<Rightarrow> create_upload_response \<Rightarrow> journal \<Rightarrow> (journal_error + unit) \<times> journal" where
  "record_output_grant x env request grant j =
     (if \<not> is_ok (validate_grant request grant) then (Inl J_Invalid, j)
      else case cu_authority request of
        None \<Rightarrow> (Inl J_Invalid, j)
      | Some a \<Rightarrow> update_attempt x env (aa_attempt_id a) (output_grant_step request grant) j)"

definition output_finalization_step :: "u8 list option \<Rightarrow> string \<Rightarrow> object_version \<Rightarrow> finalize_upload_request record_step" where
  "output_finalization_step fill rid obj rec =
     (let mine = (\<lambda>u. cu_request_id (ou_declaration u) = rid) in
      case find mine (ar_outputs rec) of
        None \<Rightarrow> Inl J_Invalid
      | Some saved \<Rightarrow>
          (case ou_finalization saved of
             Some request \<Rightarrow> if fu_object request = Some obj then Inr (None, request) else Inl J_Conflict
           | None \<Rightarrow>
               if ar_completion rec \<noteq> None then Inl J_Conflict
               else and_then (new_uuid fill) (\<lambda>fresh.
                 let request = \<lparr>fu_authority = cu_authority (ou_declaration saved), fu_request_id = fresh,
                                fu_upload_id = ou_upload_id saved, fu_object = Some obj, fu_parts = []\<rparr>
                 in Inr (Some (rec\<lparr>ar_outputs := update_first mine (\<lambda>u. u\<lparr>ou_finalization := Some request\<rparr>) (ar_outputs rec)\<rparr>),
                         request))))"

definition prepare_output_finalization :: "'x journal_externals_scheme \<Rightarrow> journal_env \<Rightarrow> string \<Rightarrow> string \<Rightarrow> object_version
    \<Rightarrow> journal \<Rightarrow> (journal_error + finalize_upload_request) \<times> journal" where
  "prepare_output_finalization x env key rid obj j =
     update_attempt x env key (output_finalization_step (je_fill env) rid obj) j"

definition output_response_step :: "finalize_upload_request \<Rightarrow> finalize_upload_response \<Rightarrow> unit record_step" where
  "output_response_step request response rec =
     (let mine = (\<lambda>u. ou_finalization u = Some request) in
      case find mine (ar_outputs rec) of
        None \<Rightarrow> Inl J_Conflict
      | Some saved \<Rightarrow>
          if \<not> is_ok (validate_artifact request response) then Inl J_Invalid
          else (case ou_response saved of
             Some old \<Rightarrow> if old = response then Inr (None, ()) else Inl J_Conflict
           | None \<Rightarrow> Inr (Some (rec\<lparr>ar_outputs := update_first mine (\<lambda>u. u\<lparr>ou_response := Some response\<rparr>) (ar_outputs rec)\<rparr>), ())))"

definition record_output_response :: "'x journal_externals_scheme \<Rightarrow> journal_env \<Rightarrow> finalize_upload_request
    \<Rightarrow> finalize_upload_response \<Rightarrow> journal \<Rightarrow> (journal_error + unit) \<times> journal" where
  "record_output_response x env request response j =
     (case fu_authority request of
        None \<Rightarrow> (Inl J_Invalid, j)
      | Some a \<Rightarrow> update_attempt x env (aa_attempt_id a) (output_response_step request response) j)"

subsection \<open>Parts: \<open>journal/uploads/multipart.rs\<close>\<close>

text \<open>The binary search on the sorted part numbers finds the part with that number, or the
  place before the first larger one.\<close>

definition insert_part :: "completed_part \<Rightarrow> completed_part list \<Rightarrow> completed_part list" where
  "insert_part p ps =
     takeWhile (\<lambda>q. cp_number q < cp_number p) ps @ [p] @ dropWhile (\<lambda>q. cp_number q < cp_number p) ps"

definition output_part_step :: "string \<Rightarrow> u32 \<Rightarrow> string \<Rightarrow> grant_upload_part_request record_step" where
  "output_part_step rid number sha256 rec =
     (let mine = (\<lambda>u. cu_request_id (ou_declaration u) = rid) in
      case find mine (ar_outputs rec) of
        None \<Rightarrow> Inl J_Invalid
      | Some saved \<Rightarrow>
          let request = \<lparr>gp_authority = cu_authority (ou_declaration saved), gp_upload_id = ou_upload_id saved,
                         gp_number = number, gp_sha256 = sha256\<rparr> in
          if \<not> is_ok (validate_part_request request) then Inl J_Invalid
          else if cu_part_count (ou_declaration saved) < 2 \<or> cu_part_count (ou_declaration saved) < number then Inl J_Invalid
          else case find (\<lambda>p. cp_number p = number) (ou_parts saved) of
            Some p \<Rightarrow> if cp_sha256 p = sha256 then Inr (None, request) else Inl J_Conflict
          | None \<Rightarrow>
              if ar_completion rec \<noteq> None \<or> ou_finalization saved \<noteq> None then Inl J_Conflict
              else Inr (Some (rec\<lparr>ar_outputs := update_first mine
                (\<lambda>u. u\<lparr>ou_parts := insert_part \<lparr>cp_number = number, cp_etag = [], cp_sha256 = sha256\<rparr> (ou_parts u)\<rparr>)
                (ar_outputs rec)\<rparr>), request))"

definition prepare_output_part :: "'x journal_externals_scheme \<Rightarrow> journal_env \<Rightarrow> string \<Rightarrow> string \<Rightarrow> u32 \<Rightarrow> string
    \<Rightarrow> journal \<Rightarrow> (journal_error + grant_upload_part_request) \<times> journal" where
  "prepare_output_part x env key rid number sha256 j = update_attempt x env key (output_part_step rid number sha256) j"

definition part_etag_step :: "grant_upload_part_request \<Rightarrow> string \<Rightarrow> unit record_step" where
  "part_etag_step request etag rec =
     (let mine = (\<lambda>u. ou_upload_id u = gp_upload_id request \<and> cu_authority (ou_declaration u) = gp_authority request);
          this = (\<lambda>p. cp_number p = gp_number request \<and> cp_sha256 p = gp_sha256 request) in
      case find mine (ar_outputs rec) of
        None \<Rightarrow> Inl J_Conflict
      | Some saved \<Rightarrow>
          (case find this (ou_parts saved) of
             None \<Rightarrow> Inl J_Conflict
           | Some p \<Rightarrow>
               if cp_etag p \<noteq> [] then (if cp_etag p = etag then Inr (None, ()) else Inl J_Conflict)
               else if ar_completion rec \<noteq> None \<or> ou_finalization saved \<noteq> None then Inl J_Conflict
               else Inr (Some (rec\<lparr>ar_outputs := update_first mine
                 (\<lambda>u. u\<lparr>ou_parts := update_first this (\<lambda>p. p\<lparr>cp_etag := etag\<rparr>) (ou_parts u)\<rparr>) (ar_outputs rec)\<rparr>), ())))"

definition record_output_part :: "'x journal_externals_scheme \<Rightarrow> journal_env \<Rightarrow> grant_upload_part_request \<Rightarrow> string
    \<Rightarrow> journal \<Rightarrow> (journal_error + unit) \<times> journal" where
  "record_output_part x env request etag j =
     (if \<not> is_ok (validate_part_request request) then (Inl J_Invalid, j)
      else if \<not> valid_etag etag then (Inl J_Invalid, j)
      else case gp_authority request of
        None \<Rightarrow> (Inl J_Invalid, j)
      | Some a \<Rightarrow> update_attempt x env (aa_attempt_id a) (part_etag_step request etag) j)"

definition multipart_finalization_step :: "u8 list option \<Rightarrow> string \<Rightarrow> finalize_upload_request record_step" where
  "multipart_finalization_step fill rid rec =
     (let mine = (\<lambda>u. cu_request_id (ou_declaration u) = rid) in
      case find mine (ar_outputs rec) of
        None \<Rightarrow> Inl J_Invalid
      | Some saved \<Rightarrow>
          if cu_part_count (ou_declaration saved) < 2 then Inl J_Invalid
          else (case ou_finalization saved of
            Some request \<Rightarrow> Inr (None, request)
          | None \<Rightarrow>
              if ar_completion rec \<noteq> None \<or> length (ou_parts saved) \<noteq> unat (cu_part_count (ou_declaration saved))
              then Inl J_Conflict
              else and_then (new_uuid fill) (\<lambda>fresh.
                let request =
                  \<lparr>fu_authority = cu_authority (ou_declaration saved), fu_request_id = fresh, fu_upload_id = ou_upload_id saved,
                   fu_object = Some \<lparr>ov_key = ou_object_key saved, ov_version_id = [],
                     ov_size_bytes = cu_size_bytes (ou_declaration saved), ov_sha256 = cu_sha256 (ou_declaration saved)\<rparr>,
                   fu_parts = ou_parts saved\<rparr>
                in if \<not> is_ok (validate_finalization request) then Inl J_Invalid
                   else Inr (Some (rec\<lparr>ar_outputs := update_first mine (\<lambda>u. u\<lparr>ou_finalization := Some request\<rparr>) (ar_outputs rec)\<rparr>),
                             request))))"

definition prepare_multipart_finalization :: "'x journal_externals_scheme \<Rightarrow> journal_env \<Rightarrow> string \<Rightarrow> string \<Rightarrow> journal
    \<Rightarrow> (journal_error + finalize_upload_request) \<times> journal" where
  "prepare_multipart_finalization x env key rid j = update_attempt x env key (multipart_finalization_step (je_fill env) rid) j"

end
