(* ===== verification/Journal_Session.thy ===== *)
theory Journal_Session
  imports Journal
begin

text \<open>
  \<open>rust/worker/src/journal/session.rs\<close>: the durable registration of the current incarnation
  of the worker process. The labels of a registration are an association list with distinct
  keys.
\<close>

section \<open>The code\<close>

definition label_ok :: "string \<times> string \<Rightarrow> bool" where
  "label_ok kv =
     (case kv of (key, label) \<Rightarrow>
        \<not> (key = [] \<or> 128 < length key
           \<or> \<not> list_all (\<lambda>(n, b). is_ascii_alphanumeric b \<or> (0 < n \<and> b \<in> set ''._-'')) (enumerate 0 key)
           \<or> label = [] \<or> 256 < length label \<or> list_ex point_is_control (code_points label)))"

definition claims_ok :: "register_worker_request \<Rightarrow> string \<Rightarrow> bool" where
  "claims_ok r worker =
     (case rw_allocatable r of
        None \<Rightarrow> False
      | Some resources \<Rightarrow>
          \<not> (rw_worker_id r \<noteq> worker
             \<or> \<not> canonical_uuid (rw_request_id r)
             \<or> \<not> canonical_uuid (rw_requested_session_id r)
             \<or> rw_protocol_version r \<noteq> protocol_version
             \<or> \<not> (1 \<le> rw_execution_slots r \<and> rw_execution_slots r \<le> 1000)
             \<or> \<not> (1 \<le> wr_cpu_millis resources \<and> wr_cpu_millis resources \<le> 1024000)
             \<or> \<not> (2 ^ 20 \<le> wr_memory_bytes resources \<and> wr_memory_bytes resources \<le> 16777216 * 2 ^ 20)
             \<or> \<not> (2 ^ 20 \<le> wr_scratch_bytes resources \<and> wr_scratch_bytes resources \<le> 1073741824 * 2 ^ 20)
             \<or> wr_memory_bytes resources mod 2 ^ 20 \<noteq> 0
             \<or> wr_scratch_bytes resources mod 2 ^ 20 \<noteq> 0
             \<or> 64 < length (rw_labels r)
             \<or> map_of (rw_labels r) ''os'' \<noteq> Some ''linux''
             \<or> map_of (rw_labels r) ''architecture'' \<notin> set [Some ''amd64'', Some ''arm64'']
             \<or> list_ex (\<lambda>kv. \<not> label_ok kv) (rw_labels r))
          \<and> length (rw_capabilities r) = 5
          \<and> \<not> (length (remdups (rw_capabilities r)) \<noteq> 5
               \<or> \<not> list_all (\<lambda>c. c \<in> set (rw_capabilities r)) [''docker.v1'', ''cpu.hard'', ''memory.hard'', ''pids.hard'']
               \<or> (''scratch.soft'' \<in> set (rw_capabilities r)) = (''scratch.quota'' \<in> set (rw_capabilities r))))"

definition load_session :: "'x journal_externals_scheme \<Rightarrow> read_env \<Rightarrow> journal \<Rightarrow> journal_error + session_record option" where
  "load_session x env j =
     and_then (read_record x env ''.session'' (jn_directory j)) (\<lambda>found.
       case found of
         None \<Rightarrow> Inr None
       | Some bytes \<Rightarrow>
           if max_session < length bytes then Inl J_Corrupt
           else and_then (ok_or J_Corrupt (x_decode_session x bytes)) (\<lambda>rec.
             if \<not> claims_ok (sr_registration rec) (jn_worker_id j)
                \<or> i64_max < sr_generation rec
                \<or> (sr_previous_session_id rec \<noteq> []
                   \<and> (\<not> canonical_uuid (sr_previous_session_id rec)
                      \<or> sr_previous_session_id rec = rw_requested_session_id (sr_registration rec)))
             then Inl J_Corrupt else Inr (Some rec)))"

definition save_session :: "'x journal_externals_scheme \<Rightarrow> write_env \<Rightarrow> session_record \<Rightarrow> journal
    \<Rightarrow> (journal_error + unit) \<times> journal" where
  "save_session x env rec j =
     (if max_session < length (x_encode_session x rec) then (Inl J_Limit, j)
      else case write_record x env ''.session'' (x_encode_session x rec) (jn_directory j) of
        (r, d) \<Rightarrow> (r, j\<lparr>jn_directory := d\<rparr>))"

record session_env =
  se_read :: read_env
  se_write :: write_env
  se_request :: "u8 list option"
  se_session :: "u8 list option"

definition next_session ::
  "session_env \<Rightarrow> string \<Rightarrow> register_worker_request \<Rightarrow> session_record option \<Rightarrow> journal_error + session_record" where
  "next_session env worker claims previous =
     and_then (new_uuid (se_request env)) (\<lambda>request. and_then (new_uuid (se_session env)) (\<lambda>session.
       let registration = claims\<lparr>rw_request_id := request, rw_requested_session_id := session\<rparr> in
       if \<not> claims_ok registration worker then Inl J_Invalid
       else Inr \<lparr>sr_registration = registration, sr_generation = 0,
                 sr_previous_session_id =
                   (case previous of None \<Rightarrow> [] | Some p \<Rightarrow> rw_requested_session_id (sr_registration p))\<rparr>))"

definition begin_incarnation :: "'x journal_externals_scheme \<Rightarrow> session_env \<Rightarrow> register_worker_request \<Rightarrow> journal
    \<Rightarrow> (journal_error + session_record) \<times> journal" where
  "begin_incarnation x env claims j =
     (if jn_incarnation j \<noteq> None then (Inl J_Conflict, j)
      else if rw_request_id claims \<noteq> [] \<or> rw_requested_session_id claims \<noteq> [] then (Inl J_Invalid, j)
      else case and_then (load_session x (se_read env) j) (next_session env (jn_worker_id j) claims) of
        Inl e \<Rightarrow> (Inl e, j)
      | Inr rec \<Rightarrow>
          (case save_session x (se_write env) rec j of
             (Inl e, j') \<Rightarrow> (Inl e, j')
           | (Inr _, j') \<Rightarrow> (Inr rec, j'\<lparr>jn_incarnation := Some (rw_requested_session_id (sr_registration rec))\<rparr>)))"

definition record_registration :: "'x journal_externals_scheme \<Rightarrow> session_env \<Rightarrow> register_worker_response \<Rightarrow> journal
    \<Rightarrow> (journal_error + unit) \<times> journal" where
  "record_registration x env response j =
     (case and_then (ok_or J_Conflict (jn_incarnation j)) (\<lambda>current.
           and_then (load_session x (se_read env) j) (\<lambda>found.
           and_then (ok_or J_Corrupt found) (\<lambda>saved.
           and_then (ok_or J_Invalid (rwr_session response)) (\<lambda>session.
           if rw_requested_session_id (sr_registration saved) \<noteq> current
              \<or> ws_session_id session \<noteq> current
              \<or> ws_worker_id session \<noteq> jn_worker_id j
           then Inl J_Conflict
           else if rwr_protocol_version response \<noteq> protocol_version
              \<or> rwr_session_generation response = 0
              \<or> i64_max < rwr_session_generation response
           then Inl J_Invalid
           else Inr saved)))) of
        Inl e \<Rightarrow> (Inl e, j)
      | Inr saved \<Rightarrow>
          if sr_generation saved \<noteq> 0
          then (if sr_generation saved = rwr_session_generation response then Inr () else Inl J_Conflict, j)
          else save_session x (se_write env) (saved\<lparr>sr_generation := rwr_session_generation response\<rparr>) j)"

end
