(* ===== verification/Journal_History.thy ===== *)
theory Journal_History
  imports Journal_Codec Journal_Uploads Journal_Session Runs "HOL-Library.Sublist"
begin

text \<open>
  Histories of the journal: every operation, with every failure of the disk in it, and
  openings after the process or the machine stopped. The evidence in an attempt record only
  grows along them.
\<close>

section \<open>Evidence only grows\<close>

definition once :: "'a list \<Rightarrow> 'a list \<Rightarrow> bool" where
  "once s t \<longleftrightarrow> s = [] \<or> t = s"

definition once_some :: "'a option \<Rightarrow> 'a option \<Rightarrow> bool" where
  "once_some s t \<longleftrightarrow> s = None \<or> t = s"

definition list_le :: "('a \<Rightarrow> 'a \<Rightarrow> bool) \<Rightarrow> 'a list \<Rightarrow> 'a list \<Rightarrow> bool" where
  "list_le le xs ys \<longleftrightarrow> length xs \<le> length ys \<and> (\<forall>i < length xs. le (xs ! i) (ys ! i))"

definition part_le :: "completed_part \<Rightarrow> completed_part \<Rightarrow> bool" where
  "part_le p q \<longleftrightarrow> cp_number q = cp_number p \<and> cp_sha256 q = cp_sha256 p \<and> once (cp_etag p) (cp_etag q)"

definition output_le :: "output_upload \<Rightarrow> output_upload \<Rightarrow> bool" where
  "output_le u v \<longleftrightarrow>
     ou_declaration v = ou_declaration u \<and> once (ou_upload_id u) (ou_upload_id v)
     \<and> (ou_upload_id u \<noteq> [] \<longrightarrow> ou_object_key v = ou_object_key u)
     \<and> once_some (ou_finalization u) (ou_finalization v) \<and> once_some (ou_response u) (ou_response v)
     \<and> (\<forall>p \<in> set (ou_parts u). \<exists>q \<in> set (ou_parts v). part_le p q)"

definition log_le :: "log_upload \<Rightarrow> log_upload \<Rightarrow> bool" where
  "log_le u v \<longleftrightarrow>
     lu_declaration v = lu_declaration u \<and> lu_stream v = lu_stream u \<and> lu_first_sequence v = lu_first_sequence u
     \<and> lu_last_sequence v = lu_last_sequence u \<and> lu_gaps v = lu_gaps u
     \<and> once (lu_upload_id u) (lu_upload_id v) \<and> (lu_upload_id u \<noteq> [] \<longrightarrow> lu_object_key v = lu_object_key u)
     \<and> once_some (lu_finalization u) (lu_finalization v) \<and> once_some (lu_response u) (lu_response v)
     \<and> once_some (lu_registration u) (lu_registration v) \<and> (lu_registered u \<longrightarrow> lu_registered v)"

text \<open>The completions ever submitted, oldest first, and a reply that is final.\<close>

definition submitted :: "attempt_record \<Rightarrow> complete_attempt_request list" where
  "submitted r = (case ar_rejected_completion r of None \<Rightarrow> [] | Some p \<Rightarrow> [p]) @ (case ar_completion r of None \<Rightarrow> [] | Some p \<Rightarrow> [p])"

definition final_reply :: "attempt_record \<Rightarrow> complete_attempt_response option" where
  "final_reply r = (case ar_completion_response r of
     Some p \<Rightarrow> if cc_decision p = decision_i32 StopRequested then None else Some p | None \<Rightarrow> None)"

definition record_le :: "attempt_record \<Rightarrow> attempt_record \<Rightarrow> bool" where
  "record_le r s \<longleftrightarrow>
     ar_assignment s = ar_assignment r \<and> once (ar_container_id r) (ar_container_id s) \<and> once_some (ar_exit r) (ar_exit s)
     \<and> prefix (ar_phase_reports r) (ar_phase_reports s) \<and> prefix (submitted r) (submitted s)
     \<and> once_some (final_reply r) (final_reply s) \<and> once_some (ar_rejected_response r) (ar_rejected_response s)
     \<and> list_le output_le (ar_outputs r) (ar_outputs s) \<and> list_le log_le (ar_logs r) (ar_logs s)"

lemma once_simps [simp]: "once [] t" "once s s" "once_some None o'" "once_some o' o'"
  by (simp_all add: once_def once_some_def)

lemma once_trans: "once a b \<Longrightarrow> once b c \<Longrightarrow> once a c" "once_some x y \<Longrightarrow> once_some y z \<Longrightarrow> once_some x z"
  by (auto simp: once_def once_some_def)

lemma list_le_refl: "(\<And>a. le a a) \<Longrightarrow> list_le le xs xs"
  by (simp add: list_le_def)

lemma list_le_trans:
  "(\<And>a b c. le a b \<Longrightarrow> le b c \<Longrightarrow> le a c) \<Longrightarrow> list_le le xs ys \<Longrightarrow> list_le le ys zs \<Longrightarrow> list_le le xs zs"
  by (auto simp: list_le_def)

lemma list_le_snoc: "(\<And>a. le a a) \<Longrightarrow> list_le le xs (xs @ ys)"
  by (simp add: list_le_def nth_append)

lemma length_update_first [simp]: "length (update_first p f xs) = length xs"
  by (induction xs) auto

lemma update_first_nth:
  "i < length xs \<Longrightarrow> update_first p f xs ! i = xs ! i \<or> update_first p f xs ! i = f (xs ! i) \<and> find p xs = Some (xs ! i)"
proof (induction xs arbitrary: i)
  case (Cons a xs)
  then show ?case
    by (cases i) auto
qed simp

lemma list_le_update_first:
  assumes "\<And>a. le a a" and "\<And>a. find p xs = Some a \<Longrightarrow> le a (f a)"
  shows "list_le le xs (update_first p f xs)"
  using assms update_first_nth [of _ xs p f] by (fastforce simp: list_le_def)

lemma part_le_refl [simp]: "part_le p p"
  by (simp add: part_le_def)

lemma part_le_trans: "part_le p q \<Longrightarrow> part_le q r \<Longrightarrow> part_le p r"
  by (auto simp: part_le_def dest: once_trans)

lemma parts_cover [simp]: "\<forall>p \<in> set ps. \<exists>q \<in> set ps. part_le p q"
  using part_le_refl by blast

lemma output_le_refl [simp]: "output_le u u"
  by (simp add: output_le_def)

lemma output_le_trans:
  assumes "output_le u v" and "output_le v w"
  shows "output_le u w"
proof -
  have "\<forall>p \<in> set (ou_parts u). \<exists>q \<in> set (ou_parts w). part_le p q"
    using assms part_le_trans unfolding output_le_def by meson
  moreover have "once (ou_upload_id u) (ou_upload_id w)" "once_some (ou_finalization u) (ou_finalization w)"
    "once_some (ou_response u) (ou_response w)" "ou_declaration w = ou_declaration u"
    using assms once_trans unfolding output_le_def by metis+
  moreover have "ou_upload_id u \<noteq> [] \<longrightarrow> ou_object_key w = ou_object_key u"
    using assms by (auto simp: output_le_def once_def)
  ultimately show ?thesis
    by (simp add: output_le_def)
qed

lemma log_le_refl [simp]: "log_le u u"
  by (simp add: log_le_def)

lemma log_le_trans:
  assumes "log_le u v" and "log_le v w"
  shows "log_le u w"
proof -
  have "once (lu_upload_id u) (lu_upload_id w)" "once_some (lu_finalization u) (lu_finalization w)"
    "once_some (lu_response u) (lu_response w)" "once_some (lu_registration u) (lu_registration w)"
    using assms once_trans unfolding log_le_def by metis+
  moreover have "lu_upload_id u \<noteq> [] \<longrightarrow> lu_object_key w = lu_object_key u"
    using assms by (auto simp: log_le_def once_def)
  ultimately show ?thesis
    using assms by (simp add: log_le_def)
qed

lemma outputs_trans: "list_le output_le xs ys \<Longrightarrow> list_le output_le ys zs \<Longrightarrow> list_le output_le xs zs"
  by (erule list_le_trans [rotated], assumption) (rule output_le_trans)

lemma logs_trans: "list_le log_le xs ys \<Longrightarrow> list_le log_le ys zs \<Longrightarrow> list_le log_le xs zs"
  by (erule list_le_trans [rotated], assumption) (rule log_le_trans)

lemma record_le_refl: "record_le r r"
  by (simp add: record_le_def list_le_refl)

lemma record_le_trans:
  assumes "record_le a b" and "record_le b c"
  shows "record_le a c"
proof -
  have "once (ar_container_id a) (ar_container_id c)" "once_some (ar_exit a) (ar_exit c)"
    "once_some (final_reply a) (final_reply c)" "once_some (ar_rejected_response a) (ar_rejected_response c)"
    using assms once_trans unfolding record_le_def by metis+
  moreover have "prefix (ar_phase_reports a) (ar_phase_reports c)" "prefix (submitted a) (submitted c)"
    using assms prefix_order.trans unfolding record_le_def by blast+
  moreover have "list_le output_le (ar_outputs a) (ar_outputs c)" "list_le log_le (ar_logs a) (ar_logs c)"
    using assms outputs_trans logs_trans unfolding record_le_def by blast+
  ultimately show ?thesis
    using assms by (simp add: record_le_def)
qed

definition paired :: "attempt_record \<Rightarrow> bool" where
  "paired r \<longleftrightarrow> (ar_rejected_completion r = None \<longleftrightarrow> ar_rejected_response r = None)"

text \<open>The contract of a record step: what it saves extends what it loaded.\<close>

locale evidence_step =
  fixes step :: "attempt_record \<Rightarrow> journal_error + (attempt_record option \<times> 'r)"
  assumes step_le: "paired rec \<Longrightarrow> step rec = Inr (Some rec', r) \<Longrightarrow> record_le rec rec'"

lemma logs_updated_le:
  assumes "\<And>a. find p (ar_logs rec) = Some a \<Longrightarrow> log_le a (f a)"
  shows "record_le rec (rec\<lparr>ar_logs := update_first p f (ar_logs rec)\<rparr>)"
  using assms
  by (simp add: record_le_def submitted_def final_reply_def list_le_refl list_le_update_first [of log_le])

lemma outputs_updated_le:
  assumes "\<And>a. find p (ar_outputs rec) = Some a \<Longrightarrow> output_le a (f a)"
  shows "record_le rec (rec\<lparr>ar_outputs := update_first p f (ar_outputs rec)\<rparr>)"
  using assms
  by (simp add: record_le_def submitted_def final_reply_def list_le_refl list_le_update_first [of output_le])

lemma outputs_added_le: "record_le rec (rec\<lparr>ar_outputs := ar_outputs rec @ [u]\<rparr>)"
  by (simp add: record_le_def submitted_def final_reply_def list_le_refl list_le_snoc)

lemma logs_added_le: "record_le rec (rec\<lparr>ar_logs := ar_logs rec @ [u]\<rparr>)"
  by (simp add: record_le_def submitted_def final_reply_def list_le_refl list_le_snoc)

lemmas record_le_updates = record_le_def submitted_def final_reply_def list_le_refl

lemma container_le: "ar_container_id rec = [] \<Longrightarrow> record_le rec (rec\<lparr>ar_container_id := c\<rparr>)"
  by (simp add: record_le_updates)

lemma exit_le: "ar_exit rec = None \<Longrightarrow> record_le rec (rec\<lparr>ar_exit := e\<rparr>)"
  by (simp add: record_le_updates)

lemma phase_le: "prefix (ar_phase_reports rec) rs \<Longrightarrow> record_le rec (rec\<lparr>ar_phase_reports := rs\<rparr>)"
  by (simp add: record_le_updates)

lemma completion_le: "ar_completion rec = None \<Longrightarrow> record_le rec (rec\<lparr>ar_completion := c\<rparr>)"
  by (simp add: record_le_updates)

lemma supersede_le:
  "ar_rejected_completion rec = None \<Longrightarrow> ar_completion rec = Some previous \<Longrightarrow> ar_completion_response rec = Some response \<Longrightarrow>
     cc_decision response = decision_i32 StopRequested \<Longrightarrow> ar_rejected_response rec = None \<Longrightarrow>
     record_le rec (rec\<lparr>ar_rejected_completion := Some previous, ar_rejected_response := Some response,
       ar_completion := Some request, ar_completion_response := None\<rparr>)"
  by (simp add: record_le_updates)

lemma response_le: "final_reply rec = None \<Longrightarrow> record_le rec (rec\<lparr>ar_completion_response := c\<rparr>)"
  by (simp add: record_le_updates)

lemma set_insert_part [simp]: "set (insert_part p ps) = insert p (set ps)"
  unfolding insert_part_def using takeWhile_dropWhile_id [of "\<lambda>q. cp_number q < cp_number p" ps] by (metis
      (no_types, lifting) Un_commute Un_insert_left empty_set list.simps(15) set_append sup_bot.left_neutral)

interpretation binding: evidence_step "bind_container_step container" for container
proof
  show "record_le rec rec'" if "paired rec" and "bind_container_step container rec = Inr (Some rec', r)" for rec rec' r
    using that by (auto simp: bind_container_step_def split: if_splits intro!: container_le)
qed

interpretation exiting: evidence_step "record_exit_step code oom" for code oom
proof
  show "record_le rec rec'" if "paired rec" and "record_exit_step code oom rec = Inr (Some rec', r)" for rec rec' r
    using that by (auto simp: record_exit_step_def Let_def split: if_splits option.splits intro!: exit_le)
qed

interpretation phasing: evidence_step "prepare_phase_step fill phase" for fill phase
proof
  show "record_le rec rec'" if "paired rec" and "prepare_phase_step fill phase rec = Inr (Some rec', r)" for rec rec' r
    using that by (auto simp: prepare_phase_step_def Let_def split: if_splits option.splits intro!: phase_le)
qed

interpretation submitting: evidence_step "persist_completion_step x a request" for x a request
proof
  show "record_le rec rec'" if "paired rec" and "persist_completion_step x a request rec = Inr (Some rec', r)" for rec rec' r
    using that by (auto simp: persist_completion_step_def Let_def split: if_splits option.splits intro!: completion_le)
qed

interpretation superseding: evidence_step "supersede_step a request" for a request
proof
  show "record_le rec rec'" if "paired rec" and "supersede_step a request rec = Inr (Some rec', r)" for rec rec' r
    using that by (auto simp: supersede_step_def paired_def split: if_splits option.splits intro!: supersede_le)
qed

interpretation answering: evidence_step "completion_response_step x request response" for x request response
proof
  show "record_le rec rec'" if "paired rec" and "completion_response_step x request response rec = Inr (Some rec', r)" for rec rec' r
    using that by (auto simp: completion_response_step_def final_reply_def split: if_splits option.splits intro!: response_le)
qed

interpretation log_preparing: evidence_step "prepare_log_step fill stream first lst gaps bytes sha256" for fill stream first lst gaps bytes sha256
proof
  show "record_le rec rec'" if "paired rec" and "prepare_log_step fill stream first lst gaps bytes sha256 rec = Inr (Some rec', r)" for rec rec' r
    using that by (auto simp: prepare_log_step_def Let_def split: if_splits option.splits intro!: logs_added_le)
qed

interpretation log_granting: evidence_step "log_grant_step request grant" for request grant
proof
  show "record_le rec rec'" if "paired rec" and "log_grant_step request grant rec = Inr (Some rec', r)" for rec rec' r
    using that by (auto simp: log_grant_step_def Let_def log_le_def split: if_splits option.splits intro!: logs_updated_le)
qed

interpretation log_finalizing: evidence_step "log_finalization_step fill rid obj" for fill rid obj
proof
  show "record_le rec rec'" if "paired rec" and "log_finalization_step fill rid obj rec = Inr (Some rec', r)" for rec rec' r
    using that by (auto simp: log_finalization_step_def Let_def log_le_def split: if_splits option.splits intro!: logs_updated_le)
qed

interpretation log_answering: evidence_step "log_response_step request response" for request response
proof
  show "record_le rec rec'" if "paired rec" and "log_response_step request response rec = Inr (Some rec', r)" for rec rec' r
    using that by (auto simp: log_response_step_def Let_def log_le_def split: if_splits option.splits intro!: logs_updated_le)
qed

interpretation log_preparing_registration: evidence_step "log_registration_step fill rid" for fill rid
proof
  show "record_le rec rec'" if "paired rec" and "log_registration_step fill rid rec = Inr (Some rec', r)" for rec rec' r
    using that by (auto simp: log_registration_step_def Let_def log_le_def split: if_splits option.splits intro!: logs_updated_le)
qed

interpretation log_registering_step: evidence_step "log_registered_step request" for request
proof
  show "record_le rec rec'" if "paired rec" and "log_registered_step request rec = Inr (Some rec', r)" for rec rec' r
    using that by (auto simp: log_registered_step_def Let_def log_le_def split: if_splits option.splits intro!: logs_updated_le)
qed

interpretation output_preparing: evidence_step "prepare_output_step fill name bytes sha256 part_size parts" for fill name bytes sha256 part_size parts
proof
  show "record_le rec rec'" if "paired rec" and "prepare_output_step fill name bytes sha256 part_size parts rec = Inr (Some rec', r)" for rec rec' r
    using that by (auto simp: prepare_output_step_def Let_def split: if_splits option.splits intro!: outputs_added_le)
qed

interpretation output_granting: evidence_step "output_grant_step request grant" for request grant
proof
  show "record_le rec rec'" if "paired rec" and "output_grant_step request grant rec = Inr (Some rec', r)" for rec rec' r
    using that by (auto simp: output_grant_step_def Let_def output_le_def split: if_splits option.splits intro!: outputs_updated_le)
qed

interpretation output_finalizing: evidence_step "output_finalization_step fill rid obj" for fill rid obj
proof
  show "record_le rec rec'" if "paired rec" and "output_finalization_step fill rid obj rec = Inr (Some rec', r)" for rec rec' r
    using that by (auto simp: output_finalization_step_def Let_def output_le_def split: if_splits option.splits intro!: outputs_updated_le)
qed

interpretation output_answering: evidence_step "output_response_step request response" for request response
proof
  show "record_le rec rec'" if "paired rec" and "output_response_step request response rec = Inr (Some rec', r)" for rec rec' r
    using that by (auto simp: output_response_step_def Let_def output_le_def split: if_splits option.splits intro!: outputs_updated_le)
qed

interpretation multipart_finalizing: evidence_step "multipart_finalization_step fill rid" for fill rid
proof
  show "record_le rec rec'" if "paired rec" and "multipart_finalization_step fill rid rec = Inr (Some rec', r)" for rec rec' r
    using that by (auto simp: multipart_finalization_step_def Let_def output_le_def split: if_splits option.splits intro!: outputs_updated_le)
qed

lemma part_added_le:
  "ou_finalization u = None \<Longrightarrow> output_le u (u\<lparr>ou_parts := insert_part p (ou_parts u)\<rparr>)"
  using parts_cover [of "ou_parts u"] by (auto simp: output_le_def)

lemma part_marked_le:
  assumes "find this (ou_parts u) = Some p" and "cp_etag p = []"
  shows "output_le u (u\<lparr>ou_parts := update_first this (\<lambda>p. p\<lparr>cp_etag := etag\<rparr>) (ou_parts u)\<rparr>)"
proof -
  have "list_le part_le (ou_parts u) (update_first this (\<lambda>p. p\<lparr>cp_etag := etag\<rparr>) (ou_parts u))"
    using assms by (intro list_le_update_first) (auto simp: part_le_def)
  then show ?thesis
    by (auto simp: output_le_def list_le_def in_set_conv_nth) (metis length_update_first nth_mem)
qed

interpretation part_preparing: evidence_step "output_part_step rid number sha256" for rid number sha256
proof
  show "record_le rec rec'" if "paired rec" and "output_part_step rid number sha256 rec = Inr (Some rec', r)" for rec rec' r
    using that by (auto simp: output_part_step_def Let_def split: if_splits option.splits intro!: outputs_updated_le part_added_le)
qed

interpretation part_marking: evidence_step "part_etag_step request etag" for request etag
proof
  show "record_le rec rec'" if "paired rec" and "part_etag_step request etag rec = Inr (Some rec', r)" for rec rec' r
    using that by (auto simp: part_etag_step_def Let_def split: if_splits option.splits intro!: outputs_updated_le part_marked_le)
qed

section \<open>The record on disk only grows\<close>

text \<open>Documented behaviour of the codec and of SHA-256.\<close>

definition journal_codec :: "'x journal_externals_scheme \<Rightarrow> bool" where
  "journal_codec x \<longleftrightarrow>
     (\<forall>r. x_decode_record x (x_encode_record x r) = Some r) \<and> (\<forall>b. length (x_sha256 x b) = 32)"

definition holds_record ::
  "'x journal_externals_scheme \<Rightarrow> string \<Rightarrow> attempt_record \<Rightarrow> (string \<Rightarrow> (file_meta \<times> u8 list) option) \<Rightarrow> bool" where
  "holds_record x key r m \<longleftrightarrow>
     (\<exists>meta rec. m (attempt_name key) = Some (meta, encode_frame x (x_encode_record x rec)) \<and> record_le r rec)"

definition evidence_kept :: "'x journal_externals_scheme \<Rightarrow> string \<Rightarrow> attempt_record option \<Rightarrow> journal \<Rightarrow> bool" where
  "evidence_kept x key found j \<longleftrightarrow>
     dir_sound (jn_directory j)
     \<and> (\<forall>r. found = Some r \<longrightarrow> (\<forall>m \<in> dir_futures (dy_dir (jn_directory j)). holds_record x key r m))"

lemma attempt_name_record [simp]: "record_name (attempt_name key)"
proof -
  have "List.last (attempt_name key) = CHR ''t''"
    by (simp add: attempt_name_def)
  then show ?thesis
    by (auto simp: record_name_def)
qed

lemma attempt_name_inject [simp]: "attempt_name a = attempt_name b \<longleftrightarrow> a = b"
  by (simp add: attempt_name_def)

lemma attempt_name_other: "attempt_name key \<noteq> ''.session''" "attempt_name key \<noteq> ''.identity''"
proof -
  have "List.last (attempt_name key) = CHR ''t''"
    by (simp add: attempt_name_def)
  then show "attempt_name key \<noteq> ''.session''" "attempt_name key \<noteq> ''.identity''"
    by auto
qed

lemma encoded_inject:
  assumes "journal_codec x" and "encode_frame x (x_encode_record x r) = encode_frame x (x_encode_record x s)"
  shows "r = s"
  using assms encode_frame_inject [of x] by (metis journal_codec_def option.inject)

lemma load_attempt_Inr:
  assumes "journal_codec x" and "load_attempt x env key j = Inr found"
  shows "\<not> dy_poisoned (jn_directory j)
    \<and> (case found of
         None \<Rightarrow> dir_view (dy_dir (jn_directory j)) (attempt_name key) = None
       | Some rec \<Rightarrow> record_ok x rec (jn_worker_id j) key
           \<and> (\<exists>meta. dir_view (dy_dir (jn_directory j)) (attempt_name key) = Some (meta, encode_frame x (x_encode_record x rec))))"
proof -
  obtain v where r: "read_record x env (attempt_name key) (jn_directory j) = Inr v"
    and v: "(v = None \<and> found = None)
      \<or> (\<exists>rec. v = Some (x_encode_record x rec) \<and> found = Some rec \<and> record_ok x rec (jn_worker_id j) key)"
    using assms(2) by (auto simp: load_attempt_def Record_validate_def split: if_splits option.splits)
  have live: "\<not> dy_poisoned (jn_directory j)"
    using r by (auto simp: read_record_def healthy_def)
  have sha: "\<forall>b. length (x_sha256 x b) = 32"
    using assms(1) by (simp add: journal_codec_def)
  show ?thesis
  proof (cases v)
    case None
    then show ?thesis
      using v live read_record_view [OF r attempt_name_record] by (auto split: option.splits)
  next
    case (Some bytes)
    then obtain meta b where view: "dir_view (dy_dir (jn_directory j)) (attempt_name key) = Some (meta, b)"
      "decode_frame x (take (max_payload + header_len + 1) b) = Inr bytes"
      using read_record_view [OF r attempt_name_record] by (auto split: option.splits)
    then have "b = encode_frame x bytes"
      using decode_taken [OF sha] by blast
    then show ?thesis
      using v Some live view(1) by auto
  qed
qed

lemma record_ok_paired: "record_ok x rec worker key \<Longrightarrow> paired rec"
  by (auto simp: record_ok_def completion_ok_def superseded_ok_def paired_def split: option.splits)

lemma save_cases:
  "save x env key rec j = (r, j') \<Longrightarrow>
     j' = j \<or> (\<exists>d. write_record x env (attempt_name key) (x_encode_record x rec) (jn_directory j) = (r, d)
       \<and> j' = j\<lparr>jn_directory := d\<rparr>)"
  by (auto simp: save_def split: sum.splits if_splits prod.splits)

lemma write_kept:
  assumes "evidence_kept x key found j" and "record_name name"
    and "write_record x env name payload (jn_directory j) = (r, d)"
    and "\<And>rec. found = Some rec \<Longrightarrow> holds_record x key rec (dir_view (dy_dir (jn_directory j))) \<Longrightarrow>
      holds_record x key rec ((dir_view (dy_dir (jn_directory j)))(name \<mapsto> sealed_file x payload))"
  shows "evidence_kept x key found (j\<lparr>jn_directory := d\<rparr>)"
proof -
  let ?v = "dir_view (dy_dir (jn_directory j))"
  have sound: "dir_sound (jn_directory j)"
    using assms(1) by (simp add: evidence_kept_def)
  then have "?v \<in> dir_futures (dy_dir (jn_directory j))"
    by (rule disk.view_future)
  then have "holds_record x key rec ?v" if "found = Some rec" for rec
    using assms(1) that by (simp add: evidence_kept_def)
  then show ?thesis
    using disk.commit_futures [OF sound assms(2,3)] assms(1,4) by (auto simp: evidence_kept_def)
qed

lemma write_elsewhere_kept:
  assumes "evidence_kept x key found j" and "record_name name" and "name \<noteq> attempt_name key"
    and "write_record x env name payload (jn_directory j) = (r, d)"
  shows "evidence_kept x key found (j\<lparr>jn_directory := d\<rparr>)"
  using assms(3) by (intro write_kept [OF assms(1,2,4)]) (auto simp: holds_record_def)

lemma view_holds:
  assumes "evidence_kept x key (Some rec) j" and "\<not> dy_poisoned (jn_directory j)"
  shows "holds_record x key rec (dir_view (dy_dir (jn_directory j)))"
  using assms disk.view_future [of "jn_directory j"] by (auto simp: evidence_kept_def)

lemma same_record:
  assumes "journal_codec x" and "evidence_kept x key (Some r) j" and "load_attempt x env key j = Inr found"
  shows "\<exists>rec. found = Some rec \<and> record_le r rec"
proof -
  obtain meta rec where held: "dir_view (dy_dir (jn_directory j)) (attempt_name key) = Some (meta, encode_frame x (x_encode_record x rec))"
    "record_le r rec"
    using view_holds [OF assms(2)] load_attempt_Inr [OF assms(1,3)] by (auto simp: holds_record_def)
  then show ?thesis
    using load_attempt_Inr [OF assms(1,3)] encoded_inject [OF assms(1)] by (auto split: option.splits)
qed

context evidence_step
begin

lemma update_kept:
  assumes "journal_codec x" and "evidence_kept x key found j"
  shows "evidence_kept x key found (snd (update_attempt x env k step j))"
proof (cases "\<exists>rec rec' q. required x (je_read env) k j = Inr rec \<and> step rec = Inr (Some rec', q)")
  case False
  then have "snd (update_attempt x env k step j) = j"
    by (cases "required x (je_read env) k j"; cases "step (projr (required x (je_read env) k j))")
      (auto simp: update_attempt_def split: option.splits prod.splits)
  then show ?thesis
    using assms(2) by simp
next
  case True
  then obtain rec rec' q where req: "required x (je_read env) k j = Inr rec" and step: "step rec = Inr (Some rec', q)"
    by blast
  have load: "load_attempt x (je_read env) k j = Inr (Some rec)"
    using req by (auto simp: required_def)
  have le: "record_le rec rec'"
    using step_le [OF _ step] load_attempt_Inr [OF assms(1) load] record_ok_paired by auto
  obtain s j' where sv: "save x (je_write env) k rec' j = (s, j')"
    by (cases "save x (je_write env) k rec' j")
  have upd: "snd (update_attempt x env k step j) = j'"
    using req step sv by (simp add: update_attempt_def split: sum.split)
  from save_cases [OF sv] show ?thesis
  proof (elim disjE exE conjE)
    fix d
    assume w: "write_record x (je_write env) (attempt_name k) (x_encode_record x rec') (jn_directory j) = (s, d)"
      and j': "j' = j\<lparr>jn_directory := d\<rparr>"
    have "holds_record x key r0 ((dir_view (dy_dir (jn_directory j)))(attempt_name k \<mapsto> sealed_file x (x_encode_record x rec')))"
      if "found = Some r0" and "holds_record x key r0 (dir_view (dy_dir (jn_directory j)))" for r0
    proof (cases "k = key")
      case True
      then have "record_le r0 rec"
        using same_record [OF assms(1)] assms(2) load that(1) by blast
      then have "record_le r0 rec'"
        using le by (rule record_le_trans)
      then show ?thesis
        by (auto simp: holds_record_def sealed_file_def True)
    next
      case False
      then show ?thesis
        using that(2) by (simp add: holds_record_def)
    qed
    then show ?thesis
      unfolding upd j' by (rule write_kept [OF assms(2) attempt_name_record w])
  qed (use assms(2) upd in simp)
qed

end

section \<open>Histories\<close>

datatype (plugins only: size) journal_event =
  Persist_Assignment journal_env assignment
| Bind_Container journal_env string string
| Record_Exit journal_env string i32 bool
| Prepare_Phase journal_env string attempt_state
| Persist_Completion journal_env complete_attempt_request
| Supersede_Completion journal_env complete_attempt_request
| Completion_Response journal_env complete_attempt_request complete_attempt_response
| Prepare_Log journal_env string log_stream u64 u64 "log_gap list" u64 string
| Log_Grant journal_env create_upload_request create_upload_response
| Log_Finalization journal_env string string object_version
| Log_Response journal_env finalize_upload_request finalize_upload_response
| Prepare_Log_Registration journal_env string string
| Log_Registration journal_env register_log_segment_request decision attempt_state
| Prepare_Output journal_env string string u64 string u64
| Output_Grant journal_env create_upload_request create_upload_response
| Output_Finalization journal_env string string object_version
| Output_Response journal_env finalize_upload_request finalize_upload_response
| Output_Part journal_env string string u32 string
| Part_Etag journal_env grant_upload_part_request string
| Multipart_Finalization journal_env string string
| Begin_Incarnation session_env register_worker_request
| Registration session_env register_worker_response
| Journal_Restart "((string \<Rightarrow> bool) \<times> (string \<Rightarrow> u8 list)) option" journal_open_env string journal_limits

text \<open>An opening that fails leaves no journal, which is one with a poisoned directory here.\<close>

definition journal_reopened :: "'x externals_scheme \<Rightarrow> ((string \<Rightarrow> bool) \<times> (string \<Rightarrow> u8 list)) option
    \<Rightarrow> journal_open_env \<Rightarrow> string \<Rightarrow> journal_limits \<Rightarrow> journal \<Rightarrow> journal" where
  "journal_reopened x loss env worker limits j =
     (case Journal_open x env worker limits (restarted_dir loss (dy_dir (jn_directory j))) of
        (Inr j', _) \<Rightarrow> j'
      | (Inl _, dir) \<Rightarrow> j\<lparr>jn_directory := (jn_directory j)\<lparr>dy_dir := dir, dy_poisoned := True\<rparr>\<rparr>)"

fun journal_step :: "'x journal_externals_scheme \<Rightarrow> journal \<Rightarrow> journal_event \<Rightarrow> journal" where
  "journal_step x j (Persist_Assignment env a) = snd (persist_assignment x env a j)"
| "journal_step x j (Bind_Container env key container) = snd (bind_container x env key container j)"
| "journal_step x j (Record_Exit env key code oom) = snd (record_exit x env key code oom j)"
| "journal_step x j (Prepare_Phase env key phase) = snd (prepare_phase x env key phase j)"
| "journal_step x j (Persist_Completion env request) = snd (persist_completion x env request j)"
| "journal_step x j (Supersede_Completion env request) = snd (supersede_rejected_completion x env request j)"
| "journal_step x j (Completion_Response env request response) = snd (record_completion_response x env request response j)"
| "journal_step x j (Prepare_Log env key stream first lst gaps bytes sha256) =
     snd (prepare_log x env key stream first lst gaps bytes sha256 j)"
| "journal_step x j (Log_Grant env request grant) = snd (record_log_grant x env request grant j)"
| "journal_step x j (Log_Finalization env key rid obj) = snd (prepare_log_finalization x env key rid obj j)"
| "journal_step x j (Log_Response env request response) = snd (record_log_response x env request response j)"
| "journal_step x j (Prepare_Log_Registration env key rid) = snd (prepare_log_registration x env key rid j)"
| "journal_step x j (Log_Registration env request decision state) = snd (record_log_registration x env request decision state j)"
| "journal_step x j (Prepare_Output env key name bytes sha256 part_size) =
     snd (prepare_output_plan x env key name bytes sha256 part_size j)"
| "journal_step x j (Output_Grant env request grant) = snd (record_output_grant x env request grant j)"
| "journal_step x j (Output_Finalization env key rid obj) = snd (prepare_output_finalization x env key rid obj j)"
| "journal_step x j (Output_Response env request response) = snd (record_output_response x env request response j)"
| "journal_step x j (Output_Part env key rid number sha256) = snd (prepare_output_part x env key rid number sha256 j)"
| "journal_step x j (Part_Etag env request etag) = snd (record_output_part x env request etag j)"
| "journal_step x j (Multipart_Finalization env key rid) = snd (prepare_multipart_finalization x env key rid j)"
| "journal_step x j (Begin_Incarnation env claims) = snd (begin_incarnation x env claims j)"
| "journal_step x j (Registration env response) = snd (record_registration x env response j)"
| "journal_step x j (Journal_Restart loss env worker limits) = journal_reopened x loss env worker limits j"

lemma persist_assignment_kept:
  assumes "journal_codec x" and "evidence_kept x key found j" and "persist_assignment x env a j = (r, j')"
  shows "evidence_kept x key found j'"
proof (cases "\<exists>k. load_attempt x (je_read env) k j = Inr None \<and> save x (je_write env) k (fresh_record a) j = (r, j')")
  case False
  then have "j' = j"
    using assms(3) by (auto simp: persist_assignment_def Let_def split: option.splits if_splits sum.splits)
  then show ?thesis
    using assms(2) by simp
next
  case True
  then obtain k where load: "load_attempt x (je_read env) k j = Inr None" and sv: "save x (je_write env) k (fresh_record a) j = (r, j')"
    by blast
  show ?thesis
  proof (cases "k = key \<and> found \<noteq> None")
    case True
    then obtain r0 where "evidence_kept x k (Some r0) j"
      using assms(2) by auto
    from same_record [OF assms(1) this load] show ?thesis by simp
  next
    case False
    from save_cases [OF sv] show ?thesis
    proof (elim disjE exE conjE)
      fix d
      assume w: "write_record x (je_write env) (attempt_name k) (x_encode_record x (fresh_record a)) (jn_directory j) = (r, d)"
        and j': "j' = j\<lparr>jn_directory := d\<rparr>"
      show ?thesis
        unfolding j' using False by (intro write_kept [OF assms(2) attempt_name_record w]) (auto simp: holds_record_def)
    qed (use assms(2) in simp)
  qed
qed

lemma save_session_kept:
  assumes "evidence_kept x key found j"
  shows "evidence_kept x key found (snd (save_session x env rec j))"
proof -
  obtain r d where w: "write_record x env ''.session'' (x_encode_session x rec) (jn_directory j) = (r, d)"
    by (cases "write_record x env ''.session'' (x_encode_session x rec) (jn_directory j)")
  have "record_name ''.session''"
    by (simp add: record_name_def)
  from write_elsewhere_kept [OF assms this attempt_name_other(1) [symmetric] w] show ?thesis
    using assms w by (simp add: save_session_def)
qed

lemma kept_weaken:
  assumes "evidence_kept x key found j" and "dy_dir (jn_directory j') = dy_dir (jn_directory j)"
    and "dy_poisoned (jn_directory j) \<longrightarrow> dy_poisoned (jn_directory j')"
  shows "evidence_kept x key found j'"
  using assms by (auto simp: evidence_kept_def dir_sound_def)

lemma session_kept:
  assumes "evidence_kept x key found j"
  shows "evidence_kept x key found (snd (begin_incarnation x env claims j))"
    and "evidence_kept x key found (snd (record_registration x env response j))"
proof -
  note saved = save_session_kept [OF assms]
  show "evidence_kept x key found (snd (record_registration x env response j))"
    using assms saved by (simp add: record_registration_def split: sum.split)
  show "evidence_kept x key found (snd (begin_incarnation x env claims j))"
  proof (cases "\<exists>rec. and_then (load_session x (se_read env) j) (next_session env (jn_worker_id j) claims) = Inr rec
      \<and> jn_incarnation j = None \<and> rw_request_id claims = [] \<and> rw_requested_session_id claims = []")
    case True
    then obtain rec where rec: "and_then (load_session x (se_read env) j) (next_session env (jn_worker_id j) claims) = Inr rec"
      "jn_incarnation j = None" "rw_request_id claims = []" "rw_requested_session_id claims = []"
      by blast
    obtain r j' where sv: "save_session x (se_write env) rec j = (r, j')"
      by (cases "save_session x (se_write env) rec j")
    have "evidence_kept x key found j'"
      using saved [of "se_write env" rec] sv by simp
    then have "evidence_kept x key found (j'\<lparr>jn_incarnation := i\<rparr>)" for i
      by (rule kept_weaken) simp_all
    then show ?thesis
      using rec sv \<open>evidence_kept x key found j'\<close> by (cases r) (simp_all add: begin_incarnation_def del: and_then_Inr_iff)
  next
    case False
    then have "snd (begin_incarnation x env claims j) = j"
      by (cases "and_then (load_session x (se_read env) j) (next_session env (jn_worker_id j) claims)")
        (auto simp: begin_incarnation_def)
    then show ?thesis
      using assms by simp
  qed
qed

lemma Journal_open_cases:
  assumes "Journal_open x env worker limits dir = (r, dir2)" and "Directory_open (jo_open env) limits dir = (q, dir1)"
  obtains (closed) e where "r = Inl e" "dir2 = dir \<or> dir2 = dir1"
  | (found) d where "q = Inr d" "r = Inr \<lparr>jn_directory = d, jn_worker_id = worker, jn_incarnation = None\<rparr>"
  | (named) d d' w where "q = Inr d" "write_record x (jo_write env) ''.identity'' (as_bytes worker) d = (w, d')"
      "dir2 = dy_dir d'" "\<forall>j. r = Inr j \<longrightarrow> j = \<lparr>jn_directory = d', jn_worker_id = worker, jn_incarnation = None\<rparr>"
proof -
  show thesis
  proof (cases q)
    case (Inl e)
    then show thesis
      using assms closed by (auto simp: Journal_open_def split: if_splits)
  next
    case (Inr d)
    then show thesis
      using assms closed found named
      by (auto simp: Journal_open_def Let_def split: if_splits sum.splits option.splits prod.splits)
  qed
qed

lemma reopened_kept:
  assumes "evidence_kept x key found j"
  shows "evidence_kept x key found (journal_reopened x loss env worker limits j)"
proof -
  let ?dir = "restarted_dir loss (dy_dir (jn_directory j))"
  have intact: "intact (dy_dir (jn_directory j))"
    using assms by (simp add: evidence_kept_def dir_sound_def)
  obtain q dir1 where o: "Directory_open (jo_open env) limits ?dir = (q, dir1)"
    by (cases "Directory_open (jo_open env) limits ?dir")
  have agree: "agrees ?dir dir1"
    and live: "\<And>d. q = Inr d \<Longrightarrow> settled dir1 \<and> d = \<lparr>dy_dir = dir1, dy_limits = limits, dy_poisoned = False\<rparr>"
    using Directory_open_agrees [OF o] by auto
  have "intact dir1" "dir_futures dir1 \<subseteq> dir_futures (dy_dir (jn_directory j))"
    "intact ?dir" "dir_futures ?dir \<subseteq> dir_futures (dy_dir (jn_directory j))"
    using agrees_intact [OF agree] agrees_futures [OF agree] restarted_intact [OF intact] restarted_futures [OF intact]
    by blast+
  then have shut: "evidence_kept x key found j'"
    if "dy_dir (jn_directory j') = ?dir \<and> dy_poisoned (jn_directory j')
      \<or> dy_dir (jn_directory j') = dir1 \<and> (dy_poisoned (jn_directory j') \<or> settled dir1)" for j'
    using that assms by (auto simp: evidence_kept_def dir_sound_def)
  obtain r dir2 where p: "Journal_open x env worker limits ?dir = (r, dir2)"
    by (cases "Journal_open x env worker limits ?dir")
  from p o show ?thesis
  proof (cases rule: Journal_open_cases)
    case (closed e)
    then show ?thesis
      using p by (intro shut) (auto simp: journal_reopened_def)
  next
    case (found d)
    then show ?thesis
      using p live [of d] by (intro shut) (auto simp: journal_reopened_def)
  next
    case (named d d' w)
    have "evidence_kept x key found (j\<lparr>jn_directory := d\<rparr>)"
      using live [OF named(1)] by (intro shut) auto
    from write_elsewhere_kept [OF this record_name_identity attempt_name_other(2) [symmetric]]
    have "evidence_kept x key found (j\<lparr>jn_directory := d'\<rparr>)"
      using named(2) by simp
    moreover have "dy_dir (jn_directory (journal_reopened x loss env worker limits j)) = dy_dir d'"
      "dy_poisoned d' \<longrightarrow> dy_poisoned (jn_directory (journal_reopened x loss env worker limits j))"
      using p named(3,4) by (cases r; auto simp: journal_reopened_def)+
    ultimately show ?thesis
      by (auto intro: kept_weaken)
  qed
qed

lemmas updates_kept = binding.update_kept
  exiting.update_kept
  phasing.update_kept
  submitting.update_kept
  superseding.update_kept
  answering.update_kept
  log_preparing.update_kept
  log_granting.update_kept
  log_finalizing.update_kept
  log_answering.update_kept
  log_preparing_registration.update_kept
  log_registering_step.update_kept
  output_preparing.update_kept
  output_granting.update_kept
  output_finalizing.update_kept
  output_answering.update_kept
  part_preparing.update_kept
  part_marking.update_kept
  multipart_finalizing.update_kept

lemma journal_step_kept:
  assumes "journal_codec x" and "evidence_kept x key found j"
  shows "evidence_kept x key found (journal_step x j e)"
proof (cases e)
  case (Persist_Assignment env a)
  then show ?thesis
    using persist_assignment_kept [OF assms] by (auto simp: prod_eq_iff)
next
  case (Begin_Incarnation env claims)
  then show ?thesis
    using session_kept [OF assms(2)] by simp
next
  case (Registration env response)
  then show ?thesis
    using session_kept [OF assms(2)] by simp
next
  case (Journal_Restart loss env worker limits)
  then show ?thesis
    using reopened_kept [OF assms(2)] by simp
qed (simp_all add: assms(2) updates_kept [OF assms] bind_container_def record_exit_def prepare_phase_def persist_completion_def
  supersede_rejected_completion_def record_completion_response_def prepare_log_def record_log_grant_def
  prepare_log_finalization_def record_log_response_def prepare_log_registration_def record_log_registration_def
  prepare_output_plan_def record_output_grant_def prepare_output_finalization_def record_output_response_def
  prepare_output_part_def record_output_part_def prepare_multipart_finalization_def Let_def
  split: option.split)

interpretation journaling: kept_by_steps "journal_step x" "\<lambda>_. journal_codec x" "evidence_kept x key found" for x key found
  by unfold_locales (rule journal_step_kept)

lemma loaded_kept:
  assumes "journal_codec x" and "dir_sound (jn_directory j)" and "load_attempt x env key j = Inr (Some r)"
  shows "evidence_kept x key (Some r) j"
proof -
  have live: "\<not> dy_poisoned (jn_directory j)"
    and view: "\<exists>meta. dir_view (dy_dir (jn_directory j)) (attempt_name key) = Some (meta, encode_frame x (x_encode_record x r))"
    using load_attempt_Inr [OF assms(1,3)] by auto
  have "dir_futures (dy_dir (jn_directory j)) = {dir_view (dy_dir (jn_directory j))}"
    using disk.live_futures [OF assms(2)] live by simp
  then show ?thesis
    using assms(2) view record_le_refl by (auto simp: evidence_kept_def holds_record_def)
qed

lemma history_sound:
  assumes "journal_codec x" and "intact dir" and "Journal_open x env worker limits dir = (Inr j, dir')"
  shows "dir_sound (jn_directory (foldl (journal_step x) j events))"
proof -
  let ?j = "\<lparr>jn_directory = \<lparr>dy_dir = dir, dy_limits = limits, dy_poisoned = True\<rparr>, jn_worker_id = worker, jn_incarnation = None\<rparr>"
  have "evidence_kept x [] None ?j"
    using assms(2) by (simp add: evidence_kept_def dir_sound_def)
  from reopened_kept [OF this, of None env worker limits] have "evidence_kept x [] None j"
    using assms(3) by (simp add: journal_reopened_def)
  then have "evidence_kept x [] None (foldl (journal_step x) j events)"
    using assms(1) by (intro journaling.run_keeps) simp_all
  then show ?thesis
    by (simp add: evidence_kept_def)
qed

lemma history_le:
  assumes "journal_codec x" and "dir_sound (jn_directory j)" and "load_attempt x env key j = Inr (Some r)"
    and "load_attempt x env' key (foldl (journal_step x) j events) = Inr found"
  shows "\<exists>r'. found = Some r' \<and> record_le r r'"
  using same_record [OF assms(1) journaling.run_keeps [OF loaded_kept [OF assms(1-3)]] assms(4)] assms(1) by simp

text \<open>C2. Durable evidence is never lost or rewritten. In a journal opened on any directory
  whose records are synced, after any history of operations, disk failures, restarts and
  power failures, a record that was once read is found again by every later successful
  read, and only extended: same assignment, container and exit once known, phase reports
  and submitted completions as a prefix, every upload with the same declaration and the
  same answers, and a final reply of the server unchanged.\<close>

theorem evidence_is_kept:
  assumes "journal_codec x" and "intact dir" and "Journal_open x env worker limits dir = (Inr j0, dir')"
    and "load_attempt x renv key (foldl (journal_step x) j0 before) = Inr (Some r)"
    and "load_attempt x renv' key (foldl (journal_step x) j0 (before @ after)) = Inr found"
  shows "\<exists>r'. found = Some r' \<and> record_le r r'"
  using history_le [OF assms(1) history_sound [OF assms(1-3)] assms(4), of renv' after] assms(5) by simp

lemma update_attempt_Inr:
  assumes "update_attempt x env key step j = (Inr q, j')"
  shows "\<exists>rec upd. load_attempt x (je_read env) key j = Inr (Some rec) \<and> step rec = Inr (upd, q)
    \<and> (case upd of None \<Rightarrow> j' = j
       | Some rec' \<Rightarrow> \<exists>d. write_record x (je_write env) (attempt_name key) (x_encode_record x rec') (jn_directory j) = (Inr (), d)
           \<and> j' = j\<lparr>jn_directory := d\<rparr>)"
  using assms
  by (auto simp: update_attempt_def required_def save_def split: sum.splits option.splits prod.splits if_splits)

lemma update_result_kept:
  assumes "journal_codec x" and "dir_sound (jn_directory j)" and "update_attempt x env key step j = (Inr q, j')"
    and "\<And>rec. step rec = Inr (None, q) \<Longrightarrow> P rec" and "\<And>rec rec'. step rec = Inr (Some rec', q) \<Longrightarrow> P rec'"
  shows "\<exists>r. P r \<and> evidence_kept x key (Some r) j'"
proof -
  obtain rec upd where u: "load_attempt x (je_read env) key j = Inr (Some rec)" "step rec = Inr (upd, q)"
    "case upd of None \<Rightarrow> j' = j
       | Some rec' \<Rightarrow> \<exists>d. write_record x (je_write env) (attempt_name key) (x_encode_record x rec') (jn_directory j) = (Inr (), d)
           \<and> j' = j\<lparr>jn_directory := d\<rparr>"
    using update_attempt_Inr [OF assms(3)] by blast
  show ?thesis
  proof (cases upd)
    case None
    then show ?thesis
      using u assms(4) loaded_kept [OF assms(1,2) u(1)] by auto
  next
    case (Some rec')
    then obtain d where w: "write_record x (je_write env) (attempt_name key) (x_encode_record x rec') (jn_directory j) = (Inr (), d)"
      and j': "j' = j\<lparr>jn_directory := d\<rparr>"
      using u(3) by auto
    from disk.commit_Inr [OF assms(2) attempt_name_record w] disk.live_futures [of d]
    have "evidence_kept x key (Some rec') j'"
      using record_le_refl by (auto simp: evidence_kept_def j' holds_record_def sealed_file_def)
    then show ?thesis
      using u(2) Some assms(5) by blast
  qed
qed

lemma find_append_None: "find p xs = None \<Longrightarrow> find p (xs @ ys) = find p ys"
  by (induction xs) (auto split: if_splits)

lemma find_prefix: "find p xs = Some a \<Longrightarrow> prefix xs ys \<Longrightarrow> find p ys = Some a"
proof (induction xs arbitrary: ys)
  case (Cons b xs)
  then show ?case
    by (cases ys) (auto split: if_splits)
qed simp

lemma find_list_le:
  assumes "find p xs = Some a" and "list_le le xs ys" and "\<And>a b. le a b \<Longrightarrow> p b = p a"
  shows "\<exists>b. find p ys = Some b \<and> le a b"
  using assms(1,2)
proof (induction xs arbitrary: ys)
  case (Cons c xs)
  then obtain d zs where ys: "ys = d # zs"
    by (cases ys) (auto simp: list_le_def)
  have all: "\<And>i. i < Suc (length xs) \<Longrightarrow> le ((c # xs) ! i) ((d # zs) ! i)" and "length xs \<le> length zs"
    using Cons.prems(2) by (simp_all add: list_le_def ys)
  then have "le c d" "list_le le xs zs"
    using all [of 0] all [of "Suc _"] by (simp_all add: list_le_def)
  then show ?case
    using Cons assms(3) [of c d] by (auto simp: ys split: if_splits)
qed simp

lemma updates_continue:
  assumes "journal_codec x" and "dir_sound (jn_directory j)" and "update_attempt x env key step j = (Inr q, j')"
    and "\<And>rec. step rec = Inr (None, q) \<Longrightarrow> P rec" and "\<And>rec rec'. step rec = Inr (Some rec', q) \<Longrightarrow> P rec'"
    and "update_attempt x env' key step' (foldl (journal_step x) j' events) = (Inr q', j2)"
  shows "\<exists>r rec upd. P r \<and> record_le r rec \<and> step' rec = Inr (upd, q')"
proof -
  obtain r where r: "P r" "evidence_kept x key (Some r) j'"
    using update_result_kept [OF assms(1-3), of P] assms(4,5) by blast
  then have "evidence_kept x key (Some r) (foldl (journal_step x) j' events)"
    using assms(1) by (intro journaling.run_keeps) simp_all
  moreover obtain rec upd where "load_attempt x (je_read env') key (foldl (journal_step x) j' events) = Inr (Some rec)"
    "step' rec = Inr (upd, q')"
    using update_attempt_Inr [OF assms(6)] by blast
  ultimately show ?thesis
    using same_record [OF assms(1)] r(1) by blast
qed

text \<open>C38. A phase report keeps its event identity. Once a report for a phase has been
  prepared, preparing that phase again returns the very same request, after any further
  operations, restarts and power failures: a retry can not look like a new event to the
  server.\<close>

theorem phase_event_is_stable:
  assumes "journal_codec x" and "intact dir" and "Journal_open x oenv worker limits dir = (Inr j0, dir')"
    and "prepare_phase x env key phase (foldl (journal_step x) j0 before) = (Inr q, j1)"
    and "prepare_phase x env' key phase (foldl (journal_step x) j1 after) = (Inr q', j2)"
  shows "q' = q"
proof -
  let ?p = "\<lambda>r. rp_phase r = state_i32 phase"
  have new: "find ?p (ar_phase_reports rec') = Some q" if "prepare_phase_step fill phase rec = Inr (Some rec', q)" for fill rec rec'
    using that by (auto simp: prepare_phase_step_def Let_def find_append_None split: option.splits if_splits)
  have old: "find ?p (ar_phase_reports rec) = Some q" if "prepare_phase_step fill phase rec = Inr (None, q)" for fill rec
    using that by (auto simp: prepare_phase_step_def Let_def split: option.splits if_splits)
  have "\<exists>r rec upd. find ?p (ar_phase_reports r) = Some q \<and> record_le r rec \<and>
    prepare_phase_step (je_fill env') phase rec = Inr (upd, q')"
    by (rule updates_continue [where P = "\<lambda>r. find ?p (ar_phase_reports r) = Some q",
          OF assms(1) history_sound [OF assms(1-3)] assms(4) [unfolded prepare_phase_def] _ _ assms(5) [unfolded prepare_phase_def]])
      (erule old, erule new)
  then obtain r rec upd where r: "find ?p (ar_phase_reports r) = Some q" "record_le r rec"
    "prepare_phase_step (je_fill env') phase rec = Inr (upd, q')"
    by blast
  have "find ?p (ar_phase_reports rec) = Some q"
    using find_prefix [OF r(1)] r(2) by (simp add: record_le_def)
  then show ?thesis
    using r(3) by (simp add: prepare_phase_step_def)
qed

text \<open>C39. The first observed object version is pinned. Once the finalization of an output
  upload has been prepared for an object version, every later successful preparation for
  the same upload returns the same request for the same version, after any further
  operations, restarts and power failures: a lost reply never selects another version.\<close>

theorem finalization_pins_version:
  assumes "journal_codec x" and "intact dir" and "Journal_open x oenv worker limits dir = (Inr j0, dir')"
    and "prepare_output_finalization x env key rid obj (foldl (journal_step x) j0 before) = (Inr q, j1)"
    and "prepare_output_finalization x env' key rid obj' (foldl (journal_step x) j1 after) = (Inr q', j2)"
  shows "q' = q \<and> obj' = obj"
proof -
  let ?mine = "\<lambda>u. cu_request_id (ou_declaration u) = rid"
  let ?P = "\<lambda>r. \<exists>u. find ?mine (ar_outputs r) = Some u \<and> ou_finalization u = Some q \<and> fu_object q = Some obj"
  have found: "find ?mine (update_first ?mine f us) = map_option f (find ?mine us)"
    if "\<And>u. ou_declaration (f u) = ou_declaration u" for f us
    using that by (induction us) auto
  have new: "?P rec'" if "output_finalization_step fill rid obj rec = Inr (Some rec', q)" for fill rec rec'
    using that by (auto simp: output_finalization_step_def Let_def found split: option.splits if_splits)
  have old: "?P rec" if "output_finalization_step fill rid obj rec = Inr (None, q)" for fill rec
    using that by (auto simp: output_finalization_step_def Let_def split: option.splits if_splits)
  have "\<exists>r rec upd. ?P r \<and> record_le r rec \<and> output_finalization_step (je_fill env') rid obj' rec = Inr (upd, q')"
    by (rule updates_continue [where P = ?P, OF assms(1) history_sound [OF assms(1-3)]
          assms(4) [unfolded prepare_output_finalization_def] _ _ assms(5) [unfolded prepare_output_finalization_def]])
      (erule old, erule new)
  then obtain r rec upd where r: "?P r" "record_le r rec" "output_finalization_step (je_fill env') rid obj' rec = Inr (upd, q')"
    by blast
  obtain u where u: "find ?mine (ar_outputs r) = Some u" "ou_finalization u = Some q" "fu_object q = Some obj"
    using r(1) by blast
  obtain v where "find ?mine (ar_outputs rec) = Some v" "output_le u v"
    using find_list_le [OF u(1), of output_le "ar_outputs rec"] r(2) by (auto simp: record_le_def output_le_def)
  then show ?thesis
    using r(3) u(2,3) by (auto simp: output_finalization_step_def output_le_def once_some_def split: if_splits)
qed

section \<open>Examples\<close>

definition sample_session :: session_record where
  "sample_session =
     \<lparr>sr_registration =
        \<lparr>rw_worker_id = fixture_uuid CHR ''1'', rw_request_id = fixture_uuid CHR ''8'',
         rw_requested_session_id = fixture_uuid CHR ''2'', rw_protocol_version = protocol_version,
         rw_allocatable = Some \<lparr>wr_cpu_millis = 1000, wr_memory_bytes = 2 ^ 30, wr_scratch_bytes = 2 ^ 30\<rparr>,
         rw_execution_slots = 1, rw_labels = [(''os'', ''linux''), (''architecture'', ''amd64'')],
         rw_capabilities = [''docker.v1'', ''cpu.hard'', ''memory.hard'', ''pids.hard'', ''scratch.soft'']\<rparr>,
      sr_generation = 0, sr_previous_session_id = []\<rparr>"

abbreviation sample_x :: journal_externals where
  "sample_x \<equiv> sample_journal_externals sample_session"

definition sample_restart :: journal_event where
  "sample_restart =
     Journal_Restart (Some (\<lambda>_. False, \<lambda>_. [])) quiet_journal_open (fixture_uuid CHR ''1'') JournalLimits_default"

lemma sample_journal_codec: "journal_codec sample_x"
  by (simp add: journal_codec_def sample_journal_externals_def)

lemmas sample_journal_open = sample_opened [of sample_x, OF sample_journal_codec [unfolded journal_codec_def, THEN conjunct2]]

lemma sample_restarted_with:
  assumes "\<forall>b. length (x_sha256 x b) = 32"
  shows "journal_step x (sample_journal x) sample_restart = sample_journal x"
proof -
  have "dy_dir (jn_directory (sample_journal x)) = sample_dir x"
    by (simp add: sample_journal_def)
  then show ?thesis
    unfolding sample_restart_def
    by (simp add: journal_reopened_def sample_power_failure sample_opened [OF assms] del: restarted_dir.simps)
qed

lemmas sample_restarted = sample_restarted_with [of sample_x, OF sample_journal_codec [unfolded journal_codec_def, THEN conjunct2]]

lemma sample_phase_prepared:
  "prepare_phase sample_x quiet_journal_env (fixture_uuid CHR ''4'') Running (sample_journal sample_x)
     = (Inr (sample_phase Running CHR ''b''), sample_journal sample_x)"
proof -
  have "prepare_phase_step fill Running sample_attempt = Inr (None, sample_phase Running CHR ''b'')" for fill
    by (simp add: prepare_phase_step_def sample_attempt_def sample_phase_def)
  then show ?thesis
    using sample_loaded [of sample_session] by (simp add: prepare_phase_def update_attempt_def required_def quiet_journal_env_def)
qed

lemma sample_finalization_prepared:
  "prepare_output_finalization sample_x quiet_journal_env (fixture_uuid CHR ''4'') (fixture_uuid CHR ''9'') (sample_object ''v1'')
      (sample_journal sample_x) = (Inr sample_finalize, sample_journal sample_x)"
proof -
  have "output_finalization_step fill (fixture_uuid CHR ''9'') (sample_object ''v1'') sample_attempt = Inr (None, sample_finalize)" for fill
    by (simp add: output_finalization_step_def sample_attempt_def sample_output_upload_def sample_output_declaration_def)
      (simp add: sample_finalize_def)
  then show ?thesis
    using sample_loaded [of sample_session]
    by (simp add: prepare_output_finalization_def update_attempt_def required_def quiet_journal_env_def)
qed

theorem evidence_is_kept_witness:
  "\<exists>r. load_attempt sample_x quiet_read (fixture_uuid CHR ''4'') (foldl (journal_step sample_x) (sample_journal sample_x) [sample_restart])
      = Inr (Some r) \<and> record_le sample_attempt r"
proof -
  have "load_attempt sample_x quiet_read (fixture_uuid CHR ''4'') (foldl (journal_step sample_x) (sample_journal sample_x) ([] @ [sample_restart]))
      = Inr (Some sample_attempt)"
    by (simp add: sample_restarted sample_loaded)
  from evidence_is_kept [OF sample_journal_codec sample_dir_intact sample_journal_open _ this, of quiet_read sample_attempt] this
  show ?thesis
    by (simp add: sample_loaded)
qed

theorem phase_event_is_stable_witness:
  "\<exists>q. fst (prepare_phase sample_x quiet_journal_env (fixture_uuid CHR ''4'') Running (sample_journal sample_x)) = Inr q
   \<and> fst (prepare_phase sample_x quiet_journal_env (fixture_uuid CHR ''4'') Running
       (foldl (journal_step sample_x) (sample_journal sample_x) [sample_restart])) = Inr q"
proof -
  let ?j = "foldl (journal_step sample_x) (sample_journal sample_x) []"
  have first: "prepare_phase sample_x quiet_journal_env (fixture_uuid CHR ''4'') Running ?j
      = (Inr (sample_phase Running CHR ''b''), sample_journal sample_x)"
    by (simp add: sample_phase_prepared)
  obtain q j2 where again: "prepare_phase sample_x quiet_journal_env (fixture_uuid CHR ''4'') Running
      (foldl (journal_step sample_x) (sample_journal sample_x) [sample_restart]) = (Inr q, j2)"
    by (simp add: sample_restarted sample_phase_prepared)
  have "q = sample_phase Running CHR ''b''"
    by (rule phase_event_is_stable [OF sample_journal_codec sample_dir_intact sample_journal_open first again])
  then show ?thesis
    using again first by simp
qed

theorem finalization_pins_version_witness:
  "\<exists>q. fst (prepare_output_finalization sample_x quiet_journal_env (fixture_uuid CHR ''4'') (fixture_uuid CHR ''9'')
       (sample_object ''v1'') (sample_journal sample_x)) = Inr q
   \<and> fst (prepare_output_finalization sample_x quiet_journal_env (fixture_uuid CHR ''4'') (fixture_uuid CHR ''9'')
       (sample_object ''v1'') (foldl (journal_step sample_x) (sample_journal sample_x) [sample_restart])) = Inr q"
proof -
  let ?prepare = "prepare_output_finalization sample_x quiet_journal_env (fixture_uuid CHR ''4'') (fixture_uuid CHR ''9'') (sample_object ''v1'')"
  have first: "?prepare (foldl (journal_step sample_x) (sample_journal sample_x) []) = (Inr sample_finalize, sample_journal sample_x)"
    by (simp add: sample_finalization_prepared)
  obtain q j2 where again: "?prepare (foldl (journal_step sample_x) (sample_journal sample_x) [sample_restart]) = (Inr q, j2)"
    by (simp add: sample_restarted sample_finalization_prepared)
  have "q = sample_finalize \<and> sample_object ''v1'' = sample_object ''v1''"
    by (rule finalization_pins_version [OF sample_journal_codec sample_dir_intact sample_journal_open first again])
  then show ?thesis
    using again first by simp
qed

end
