(* ===== verification/Object_Transfer.thy ===== *)
theory Object_Transfer
  imports Journal
begin

text \<open>
  \<open>rust/worker/src/transfer.rs\<close>: one PUT of a single-part upload to the storage URL of a
  grant. The HTTP client is the environment: how much of the body it took before it
  answered, and the answer. The bytes of the file are what the successive reads return; a
  header map is an association list with distinct names. The URL and header parsers are
  external functions.
\<close>

section \<open>The code\<close>

datatype transfer_error =
  Transfer_Configuration | Transfer_Grant | Transfer_Expired | Transfer_Integrity | Transfer_Transport
| Transfer_Deadline | Transfer_Status nat | Transfer_Version

record transfer_externals = journal_externals +
  x_url_port :: "string \<Rightarrow> nat option"
  x_header_name :: "string \<Rightarrow> string option" \<comment> \<open>the normalized name\<close>
  x_header_value :: "string \<Rightarrow> bool"

subsection \<open>The destination\<close>

definition header_ok :: "url \<Rightarrow> nat option \<Rightarrow> create_upload_request \<Rightarrow> string \<Rightarrow> string \<Rightarrow> bool" where
  "header_ok u port declaration name text =
     (if name = ''content-length'' then text = decimal (unat (cu_size_bytes declaration))
      else if name = ''x-amz-checksum-sha256'' \<or> name = ''x-amz-content-sha256'' \<or> name = ''content-type'' then True
      else if name = ''host'' then
        (case du_host u of
           None \<Rightarrow> False
         | Some host \<Rightarrow> text = (case port of None \<Rightarrow> host | Some p \<Rightarrow> host @ '':'' @ decimal p))
      else False)"

fun check_headers ::
  "'x transfer_externals_scheme \<Rightarrow> url \<Rightarrow> nat option \<Rightarrow> create_upload_request \<Rightarrow> (string \<times> string) list
     \<Rightarrow> (string \<times> string) list \<Rightarrow> transfer_error + (string \<times> string) list" where
  "check_headers x u port declaration headers [] = Inr headers"
| "check_headers x u port declaration headers ((raw, text) # rest) =
     and_then (ok_or Transfer_Grant (x_header_name x raw)) (\<lambda>name.
       if \<not> x_header_value x text then Inl Transfer_Grant
       else if map_of headers name \<noteq> None then Inl Transfer_Grant
       else if \<not> header_ok u port declaration name text then Inl Transfer_Grant
       else check_headers x u port declaration (headers @ [(name, text)]) rest)"

definition destination ::
  "'x transfer_externals_scheme \<Rightarrow> bool \<Rightarrow> create_upload_request \<Rightarrow> create_upload_response
     \<Rightarrow> transfer_error + url \<times> (string \<times> string) list" where
  "destination x allow_loopback_http declaration grant =
     and_then (ok_or Transfer_Grant (x_parse_url x (cr_upload_url grant))) (\<lambda>u.
       let loopback = is_some_and (\<lambda>host. x_ip_loopback x (trim_brackets host)) (du_host u) in
       if du_username u \<noteq> [] \<or> du_password u \<noteq> None \<or> du_fragment u \<noteq> None
          \<or> CHR 0x5C \<in> set (cr_upload_url grant)
          \<or> list_ex is_ascii_control (cr_upload_url grant)
          \<or> \<not> (du_scheme u = ''https'' \<or> (allow_loopback_http \<and> du_scheme u = ''http'' \<and> loopback))
          \<or> strip_suffix (du_path u) (CHR ''/'' # cr_object_key grant) = None
       then Inl Transfer_Grant
       else and_then (check_headers x u (x_url_port x (cr_upload_url grant)) declaration [] (cr_required_headers grant)) (\<lambda>headers.
         Inr (u, AList.update ''content-length'' (decimal (unat (cu_size_bytes declaration)))
                   (AList.delete ''host'' headers))))"

subsection \<open>The body\<close>

record body_state =
  bs_file :: "u8 list" \<comment> \<open>what the file still gives\<close>
  bs_remaining :: u64
  bs_hashed :: "u8 list"
  bs_done :: bool

definition next_chunk :: "'x externals_scheme \<Rightarrow> string \<Rightarrow> bool \<Rightarrow> body_state \<Rightarrow> unit + (u8 list \<times> body_state) option" where
  "next_chunk x expected read_fails s =
     (if bs_done s then Inr None
      else let n = unat (min (bs_remaining s) (64 * 2 ^ 10)) in
        if read_fails \<or> length (bs_file s) < n then Inl ()
        else let bytes = take n (bs_file s);
                 s' = s\<lparr>bs_file := drop n (bs_file s), bs_hashed := bs_hashed s @ bytes,
                        bs_remaining := bs_remaining s - word_of_nat n\<rparr> in
          if bs_remaining s' = 0 then
            (if bs_file s' \<noteq> [] \<or> hex (x_sha256 x (bs_hashed s')) \<noteq> expected then Inl ()
             else Inr (Some (bytes, s'\<lparr>bs_done := True\<rparr>)))
          else Inr (Some (bytes, s')))"

text \<open>The client asks for the next chunk as often as it likes, and stops at a failed one.\<close>

fun poll_body ::
  "'x externals_scheme \<Rightarrow> string \<Rightarrow> (nat \<Rightarrow> bool) \<Rightarrow> nat \<Rightarrow> u8 list \<Rightarrow> body_state \<Rightarrow> unit + (u8 list \<times> body_state)" where
  "poll_body x expected fails 0 sent s = Inr (sent, s)"
| "poll_body x expected fails (Suc n) sent s =
     (case next_chunk x expected (fails n) s of
        Inl _ \<Rightarrow> Inl ()
      | Inr None \<Rightarrow> Inr (sent, s)
      | Inr (Some (bytes, s')) \<Rightarrow> poll_body x expected fails n (sent @ bytes) s')"

subsection \<open>The request\<close>

record put_reply =
  pr_status :: nat
  pr_versions :: "string option list" \<comment> \<open>the values of \<open>x-amz-version-id\<close>, \<open>None\<close> if not text\<close>

record put_env =
  pe_now :: "nat option" \<comment> \<open>milliseconds since the epoch\<close>
  pe_elapsed :: bool \<comment> \<open>the budget ran out\<close>
  pe_closed :: bool
  pe_rewind_fails :: bool
  pe_metadata :: "(bool \<times> u64) option" \<comment> \<open>a regular file, its length\<close>
  pe_file :: "u8 list"
  pe_read_fails :: "nat \<Rightarrow> bool"
  pe_polled :: nat
  pe_reply :: "bool + put_reply" \<comment> \<open>\<open>Inl\<close>: the request failed, by a timeout or not\<close>

definition put_budget :: "nat option \<Rightarrow> i64 \<Rightarrow> transfer_error + nat" where
  "put_budget now expires =
     and_then (ok_or Transfer_Expired now) (\<lambda>now_ms.
       let until = nat (sint expires mod 2 ^ 128) in
       if until \<le> now_ms then Inl Transfer_Expired else Inr (min (until - now_ms) 30000))"

text \<open>The bytes the storage has received when the call ends, and its result.\<close>

definition put_body :: "'x externals_scheme \<Rightarrow> put_env \<Rightarrow> create_upload_request \<Rightarrow> transfer_error + (u8 list \<times> bool)" where
  "put_body x env declaration =
     (let s = \<lparr>bs_file = pe_file env, bs_remaining = cu_size_bytes declaration, bs_hashed = [], bs_done = False\<rparr> in
      if cu_size_bytes declaration = 0 then
        (case next_chunk x (cu_sha256 declaration) (pe_read_fails env 0) s of
           Inl _ \<Rightarrow> Inl Transfer_Integrity
         | Inr None \<Rightarrow> Inr ([], False)
         | Inr (Some (_, s')) \<Rightarrow> Inr ([], bs_done s'))
      else
        (case poll_body x (cu_sha256 declaration) (pe_read_fails env) (pe_polled env) [] s of
           Inl _ \<Rightarrow> Inl Transfer_Transport
         | Inr (sent, s') \<Rightarrow> Inr (sent, bs_done s')))"

definition put_version :: "put_reply \<Rightarrow> transfer_error + string" where
  "put_version reply =
     (case pr_versions reply of
        [Some v] \<Rightarrow> if valid_version v then Inr v else Inl Transfer_Version
      | _ \<Rightarrow> Inl Transfer_Version)"

definition put_transfer ::
  "'x externals_scheme \<Rightarrow> put_env \<Rightarrow> create_upload_request \<Rightarrow> create_upload_response
     \<Rightarrow> (transfer_error + object_version) \<times> u8 list" where
  "put_transfer x env declaration grant =
     (if pe_closed env then (Inl Transfer_Configuration, [])
      else if pe_rewind_fails env then (Inl Transfer_Integrity, [])
      else case pe_metadata env of
        None \<Rightarrow> (Inl Transfer_Integrity, [])
      | Some (is_file, len) \<Rightarrow>
          if \<not> is_file \<or> len \<noteq> cu_size_bytes declaration then (Inl Transfer_Integrity, [])
          else case put_body x env declaration of
            Inl e \<Rightarrow> (Inl e, [])
          | Inr (sent, verified) \<Rightarrow>
              (case pe_reply env of
                 Inl timeout \<Rightarrow> (Inl (if timeout then Transfer_Deadline else Transfer_Transport), sent)
               | Inr reply \<Rightarrow>
                   (if \<not> (200 \<le> pr_status reply \<and> pr_status reply < 300) then Inl (Transfer_Status (pr_status reply))
                    else if \<not> verified then Inl Transfer_Integrity
                    else and_then (put_version reply) (\<lambda>version.
                      Inr \<lparr>ov_key = cr_object_key grant, ov_version_id = version, ov_size_bytes = cu_size_bytes declaration,
                           ov_sha256 = cu_sha256 declaration\<rparr>), sent)))"

definition put :: "'x transfer_externals_scheme \<Rightarrow> bool \<Rightarrow> put_env \<Rightarrow> create_upload_request \<Rightarrow> create_upload_response
    \<Rightarrow> (transfer_error + object_version) \<times> u8 list" where
  "put x allow_loopback_http env declaration grant =
     (case and_then (map_err (\<lambda>_. Transfer_Configuration) (validate_create declaration)) (\<lambda>_.
           and_then (map_err (\<lambda>_. Transfer_Grant) (validate_grant declaration grant)) (\<lambda>_.
           and_then (destination x allow_loopback_http declaration grant) (\<lambda>_.
           put_budget (pe_now env) (cr_expires_unix_ms grant)))) of
        Inl e \<Rightarrow> (Inl e, [])
      | Inr _ \<Rightarrow>
          (case put_transfer x env declaration grant of
             (r, sent) \<Rightarrow> (if pe_elapsed env then Inl Transfer_Deadline else r, sent)))"

section \<open>What was stored is what was declared\<close>

text \<open>The bytes taken so far, and the rest, are the file.\<close>

definition body_inv :: "'x externals_scheme \<Rightarrow> string \<Rightarrow> u64 \<Rightarrow> u8 list \<Rightarrow> u8 list \<Rightarrow> body_state \<Rightarrow> bool" where
  "body_inv x expected bytes content sent s \<longleftrightarrow>
     bs_hashed s = sent \<and> sent @ bs_file s = content
     \<and> unat (bs_remaining s) + length sent = unat bytes
     \<and> (bs_done s \<longrightarrow> bs_file s = [] \<and> bs_remaining s = 0 \<and> hex (x_sha256 x sent) = expected)"

lemma next_chunk_inv:
  assumes "body_inv x expected bytes content sent s" and "next_chunk x expected fails s = Inr (Some (chunk, s'))"
  shows "body_inv x expected bytes content (sent @ chunk) s'"
proof -
  let ?n = "unat (min (bs_remaining s) (64 * 2 ^ 10))"
  have le: "?n \<le> unat (bs_remaining s)"
    by (simp add: word_le_nat_alt [symmetric])
  then have sub: "unat (bs_remaining s - word_of_nat ?n) = unat (bs_remaining s) - ?n"
    by (simp add: unat_sub word_le_nat_alt)
  have n: "\<not> bs_done s" "?n \<le> length (bs_file s)" "chunk = take ?n (bs_file s)"
    using assms(2) by (auto simp: next_chunk_def Let_def split: if_splits)
  have s': "bs_hashed s' = bs_hashed s @ chunk" "bs_file s' = drop ?n (bs_file s)"
    "bs_remaining s' = bs_remaining s - word_of_nat ?n"
    "bs_done s' \<Longrightarrow> bs_file s' = [] \<and> bs_remaining s' = 0 \<and> hex (x_sha256 x (bs_hashed s')) = expected"
    using assms(2) by (auto simp: next_chunk_def Let_def split: if_splits)
  show ?thesis
    using assms(1) n s' sub le by (auto simp: body_inv_def)
qed

lemma poll_body_inv:
  "body_inv x expected bytes content sent s \<Longrightarrow> poll_body x expected fails n sent s = Inr (out, s')
     \<Longrightarrow> body_inv x expected bytes content out s'"
proof (induction n arbitrary: sent s)
  case (Suc n)
  consider "out = sent" "s' = s"
    | bytes s1 where "next_chunk x expected (fails n) s = Inr (Some (bytes, s1))"
        "poll_body x expected fails n (sent @ bytes) s1 = Inr (out, s')"
    using Suc.prems(2) by (auto split: sum.splits option.splits)
  then show ?case
    by cases (use Suc.prems(1) Suc.IH [OF next_chunk_inv [OF Suc.prems(1)]] in auto)
qed auto

text \<open>C14. A PUT that reports an object version stored exactly the declared object: all the
  bytes the storage received are the file's, their number and SHA-256 digest are the
  declared ones, the key is the granted one, and the storage answered with success within the budget
  with exactly one version header, whose well-formed value is the reported version. A file
  that changed, grew or shrank since it was declared never yields a version.\<close>

theorem put_stores_declared_bytes:
  assumes "put x allow env declaration grant = (Inr version, sent)"
  shows "sent = pe_file env \<and> length sent = unat (cu_size_bytes declaration)
    \<and> hex (x_sha256 x sent) = cu_sha256 declaration
    \<and> ov_key version = cr_object_key grant \<and> ov_size_bytes version = cu_size_bytes declaration
    \<and> ov_sha256 version = cu_sha256 declaration
    \<and> \<not> pe_elapsed env
    \<and> (\<exists>reply. pe_reply env = Inr reply \<and> 200 \<le> pr_status reply \<and> pr_status reply < 300
         \<and> pr_versions reply = [Some (ov_version_id version)])
    \<and> valid_version (ov_version_id version)"
proof -
  let ?s = "\<lparr>bs_file = pe_file env, bs_remaining = cu_size_bytes declaration, bs_hashed = [], bs_done = False\<rparr>"
  have start: "body_inv x (cu_sha256 declaration) (cu_size_bytes declaration) (pe_file env) [] ?s"
    by (simp add: body_inv_def)
  obtain reply where body: "put_body x env declaration = Inr (sent, True)"
    and reply: "pe_reply env = Inr reply" "200 \<le> pr_status reply" "pr_status reply < 300" "\<not> pe_elapsed env"
    and v: "ov_key version = cr_object_key grant" "ov_size_bytes version = cu_size_bytes declaration"
      "ov_sha256 version = cu_sha256 declaration" "put_version reply = Inr (ov_version_id version)"
    using assms by (auto simp: put_def put_transfer_def split: sum.splits prod.splits if_splits option.splits)
  have "\<exists>s'. body_inv x (cu_sha256 declaration) (cu_size_bytes declaration) (pe_file env) sent s' \<and> bs_done s'"
  proof (cases "cu_size_bytes declaration = 0")
    case True
    then obtain chunk s' where c: "next_chunk x (cu_sha256 declaration) (pe_read_fails env 0) ?s = Inr (Some (chunk, s'))"
      "sent = []" "bs_done s'"
      using body by (auto simp: put_body_def Let_def split: sum.splits option.splits)
    then have "chunk = []"
      using True by (auto simp: next_chunk_def Let_def split: if_splits)
    then show ?thesis
      using next_chunk_inv [OF start c(1)] c by auto
  next
    case False
    then obtain s' where s': "poll_body x (cu_sha256 declaration) (pe_read_fails env) (pe_polled env) [] ?s = Inr (sent, s')"
      "bs_done s'"
      using body by (auto simp: put_body_def Let_def split: sum.splits)
    then show ?thesis
      using poll_body_inv [OF start s'(1)] by blast
  qed
  moreover have "pr_versions reply = [Some (ov_version_id version)] \<and> valid_version (ov_version_id version)"
    using v(4) by (auto simp: put_version_def split: list.splits option.splits if_splits)
  ultimately show ?thesis
    using v reply by (auto simp: body_inv_def)
qed

definition sample_put_declaration :: create_upload_request where
  "sample_put_declaration =
     sample_create\<lparr>cu_size_bytes := 3, cu_part_count := 1, cu_part_size_bytes := 0, cu_sha256 := hex (replicate 32 0)\<rparr>"

definition sample_put_grant :: create_upload_response where
  "sample_put_grant =
     \<lparr>cr_upload_id = fixture_uuid CHR ''6'', cr_object_key = sample_key, cr_upload_url = ''u'',
      cr_required_headers = [(''Content-Length'', ''3'')], cr_expires_unix_ms = 1000, cr_parts = [],
      cr_part_size_bytes = 0, cr_part_count = 0\<rparr>"

definition sample_put_env :: put_env where
  "sample_put_env =
     \<lparr>pe_now = Some 10, pe_elapsed = False, pe_closed = False, pe_rewind_fails = False, pe_metadata = Some (True, 3),
      pe_file = [1, 2, 3], pe_read_fails = (\<lambda>_. False), pe_polled = Suc (Suc 0),
      pe_reply = Inr \<lparr>pr_status = 200, pr_versions = [Some ''v1'']\<rparr>\<rparr>"

definition sample_put_externals :: transfer_externals where
  "sample_put_externals =
     \<lparr>x_sha256 = (\<lambda>_. replicate 32 0), x_parse = (\<lambda>_. None), x_print = (\<lambda>_. []),
      x_parse_url = (\<lambda>_. Some \<lparr>du_scheme = ''https'', du_username = [], du_password = None, du_fragment = None,
        du_host = Some ''storage'', du_path = CHR ''/'' # sample_key, du_query_pairs = []\<rparr>),
      x_ip_loopback = (\<lambda>_. False), x_tar = (\<lambda>_. []),
      x_encode_record = (\<lambda>_. []), x_decode_record = (\<lambda>_. None), x_encode_session = (\<lambda>_. []), x_decode_session = (\<lambda>_. None),
      x_url_port = (\<lambda>_. None),
      x_header_name = (\<lambda>name. if name = ''Content-Length'' then Some ''content-length'' else None),
      x_header_value = (\<lambda>_. True)\<rparr>"

theorem put_stores_declared_bytes_witness:
  "put sample_put_externals False sample_put_env sample_put_declaration sample_put_grant
     = (Inr \<lparr>ov_key = sample_key, ov_version_id = ''v1'', ov_size_bytes = 3, ov_sha256 = hex (replicate 32 0)\<rparr>, [1, 2, 3])
   \<and> length (pe_file sample_put_env) = unat (cu_size_bytes sample_put_declaration)"
proof -
  have "valid_part_plan sample_put_declaration"
    by (simp add: valid_part_plan_def sample_put_declaration_def)
  moreover have "valid_upload_name (cu_name sample_put_declaration)"
    by (simp add: valid_upload_name_def sample_put_declaration_def sample_create_def is_ascii_alphanumeric_def
        is_ascii_alphabetic_def less_eq_char_def)
  moreover have "lower_hash (hex (replicate 32 0))"
    by (rule lower_hash_hex) simp
  ultimately have create: "validate_create sample_put_declaration = Inr ()"
    unfolding validate_create_Inr_iff
    by (simp add: sample_put_declaration_def sample_create_def object_limit_def kind_of_def)
  have grant: "validate_grant sample_put_declaration sample_put_grant = Inr ()"
    by (simp add: validate_grant_def sample_put_declaration_def sample_put_grant_def sample_create_def sample_key_scoped
        bounded_capability_def)
  have dec: "decimal 3 = ''3''"
    by (subst decimal.simps) (simp add: hex_digit_def)
  have "\<exists>d. destination sample_put_externals False sample_put_declaration sample_put_grant = Inr d"
    by (simp add: destination_def sample_put_externals_def sample_put_grant_def Let_def strip_suffix_def is_ascii_control_def
        header_ok_def sample_put_declaration_def dec)
  moreover have "put_body sample_put_externals sample_put_env sample_put_declaration = Inr ([1, 2, 3], True)"
  proof -
    have sha: "x_sha256 sample_put_externals = (\<lambda>_. replicate 32 0)"
      by (simp add: sample_put_externals_def)
    have chunk: "next_chunk sample_put_externals (hex (replicate 32 0)) False
        \<lparr>bs_file = [1, 2, 3], bs_remaining = 3, bs_hashed = [], bs_done = False\<rparr>
      = Inr (Some ([1, 2, 3], \<lparr>bs_file = [], bs_remaining = 0, bs_hashed = [1, 2, 3], bs_done = True\<rparr>))"
      unfolding next_chunk_def sha by (simp add: Let_def del: replicate.simps)
    have "next_chunk sample_put_externals e False \<lparr>bs_file = [], bs_remaining = 0, bs_hashed = [1, 2, 3], bs_done = True\<rparr> = Inr None" for e
      by (simp add: next_chunk_def)
    with chunk show ?thesis
      by (simp add: put_body_def Let_def sample_put_env_def sample_put_declaration_def del: replicate.simps)
  qed
  then have "put_transfer sample_put_externals sample_put_env sample_put_declaration sample_put_grant
     = (Inr \<lparr>ov_key = sample_key, ov_version_id = ''v1'', ov_size_bytes = 3, ov_sha256 = hex (replicate 32 0)\<rparr>, [1, 2, 3])"
    by (simp add: put_transfer_def)
      (simp add: put_version_def valid_version_def valid_etag_def sample_put_env_def sample_put_grant_def sample_put_declaration_def)
  moreover have "put_budget (pe_now sample_put_env) (cr_expires_unix_ms sample_put_grant) = Inr 990"
    by (simp add: put_budget_def sample_put_env_def sample_put_grant_def)
  moreover have "\<not> pe_elapsed sample_put_env"
    by (simp add: sample_put_env_def)
  ultimately have run: "put sample_put_externals False sample_put_env sample_put_declaration sample_put_grant
     = (Inr \<lparr>ov_key = sample_key, ov_version_id = ''v1'', ov_size_bytes = 3, ov_sha256 = hex (replicate 32 0)\<rparr>, [1, 2, 3])"
    using create grant by (auto simp: put_def)
  have "pe_file sample_put_env = [1, 2, 3] \<and> 3 = unat (cu_size_bytes sample_put_declaration)"
    using put_stores_declared_bytes [OF run] by simp
  with run show ?thesis
    by simp
qed

end
