(* ===== verification/Outputs.thy ===== *)
theory Outputs
  imports Execution Completion "HOL-Library.Sublist"
begin

text \<open>
  Collection of declared output files: \<open>rust/worker/src/outputs.rs\<close>. The output directory of
  the workspace is a tree as \<open>openat\<close> with \<open>O_NOFOLLOW\<close> sees it; a file comes with what its
  metadata, its bytes and its metadata say when they are read one after the other, because
  leftover processes may still write to it. The components of a declared path are never
  empty, \<open>.\<close> or \<open>..\<close> (\<open>path_in\<close>), so they name entries of the tree.
\<close>

section \<open>The code\<close>

datatype os_error = Os_Loop | Os_NotDirectory | Os_NotFound | Os_Other nat

datatype collection_error =
  Co_Configuration | Co_Missing | Co_Unsafe | Co_TooLarge | Co_Limit | Co_Changed | Co_Io os_error

fun from_io :: "os_error \<Rightarrow> collection_error" where
  "from_io Os_Loop = Co_Unsafe"
| "from_io Os_NotDirectory = Co_Unsafe"
| "from_io Os_NotFound = Co_Missing"
| "from_io (Os_Other n) = Co_Io (Os_Other n)"

record collection_limits =
  cl_max_file_bytes :: u64
  cl_max_total_bytes :: u64

definition CollectionLimits_default :: collection_limits where
  "CollectionLimits_default = \<lparr>cl_max_file_bytes = 64 * 2 ^ 20, cl_max_total_bytes = 8 * 2 ^ 30\<rparr>"

record file_stat =
  st_is_file :: bool
  st_nlink :: u64
  st_len :: u64
  st_times :: "int \<times> int \<times> int \<times> int" \<comment> \<open>seconds and nanoseconds of \<open>mtime\<close> and \<open>ctime\<close>\<close>

text \<open>What one pass over an open file observes: the metadata, the bytes until the end of the
  file or an error, the metadata again, and the outcome of going back to the start.\<close>

record file_pass =
  fp_before :: "os_error + file_stat"
  fp_bytes :: "u8 list"
  fp_fault :: "os_error option"
  fp_after :: "os_error + file_stat"
  fp_rewind :: "os_error + unit"

datatype tree =
  Tree_Directory "(string \<times> tree) list"
| Tree_Link tree \<comment> \<open>a symbolic link, with what following it would reach\<close>
| Tree_Denied os_error
| Tree_File file_pass

datatype opened = Open_Directory "(string \<times> tree) list" | Open_File file_pass

definition open_child :: "opened \<Rightarrow> string \<Rightarrow> bool \<Rightarrow> collection_error + opened" where
  "open_child parent component directory =
     (if CHR 0x00 \<in> set component then Inl Co_Unsafe
      else case parent of
        Open_File _ \<Rightarrow> Inl (from_io Os_NotDirectory)
      | Open_Directory entries \<Rightarrow>
          (case map_of entries component of
             None \<Rightarrow> Inl (from_io Os_NotFound)
           | Some (Tree_Link _) \<Rightarrow> Inl (from_io (if directory then Os_NotDirectory else Os_Loop))
           | Some (Tree_Denied e) \<Rightarrow> Inl (from_io e)
           | Some (Tree_Directory children) \<Rightarrow> Inr (Open_Directory children)
           | Some (Tree_File pass) \<Rightarrow> if directory then Inl (from_io Os_NotDirectory) else Inr (Open_File pass)))"

fun open_components :: "opened \<Rightarrow> string list \<Rightarrow> collection_error + opened" where
  "open_components parent [] = Inr parent"
| "open_components parent (component # rest) =
     and_then (open_child parent component (rest \<noteq> [])) (\<lambda>child. open_components child rest)"

definition open_declared :: "opened \<Rightarrow> string \<Rightarrow> collection_error + opened" where
  "open_declared outputs path = open_components outputs (split_on CHR ''/'' path)"

definition regular :: "file_stat \<Rightarrow> collection_error + unit" where
  "regular m = (if \<not> st_is_file m \<or> st_nlink m \<noteq> 1 then Inl Co_Unsafe else Inr ())"

definition stamp :: "file_stat \<Rightarrow> u64 \<times> int \<times> int \<times> int \<times> int" where
  "stamp m = (st_len m, st_times m)"

text \<open>A directory answers \<open>metadata\<close> too, and is not a regular file.\<close>

definition held_pass :: "opened \<Rightarrow> file_pass" where
  "held_pass f =
     (case f of
        Open_File pass \<Rightarrow> pass
      | Open_Directory _ \<Rightarrow>
          \<lparr>fp_before = Inr \<lparr>st_is_file = False, st_nlink = 2, st_len = 0, st_times = (0, 0, 0, 0)\<rparr>, fp_bytes = [], fp_fault = None,
           fp_after = Inr \<lparr>st_is_file = False, st_nlink = 2, st_len = 0, st_times = (0, 0, 0, 0)\<rparr>, fp_rewind = Inr ()\<rparr>)"

record collected_output =
  co_name :: string
  co_size :: u64
  co_sha256 :: string

text \<open>The loop over the bytes: one more than the observed length is asked for, so that a
  file that grew is noticed before it is read to its end.\<close>

definition read_observed :: "u64 \<Rightarrow> file_pass \<Rightarrow> collection_error + u8 list" where
  "read_observed len pass =
     (let got = take (unat len + 1) (fp_bytes pass) in
      if unat len < length got then Inl Co_Changed
      else case fp_fault pass of
        Some e \<Rightarrow> Inl (from_io e)
      | None \<Rightarrow> Inr got)"

definition collect_file ::
  "'x externals_scheme \<Rightarrow> collection_limits \<Rightarrow> u64 \<Rightarrow> job_output \<Rightarrow> file_pass \<Rightarrow> collection_error + collected_output \<times> u64" where
  "collect_file x limits sofar d pass =
     and_then (map_err from_io (fp_before pass)) (\<lambda>before.
     and_then (regular before) (\<lambda>_.
     if min (jo_max_bytes d) (cl_max_file_bytes limits) < st_len before then Inl Co_TooLarge
     else and_then (ok_or Co_Limit (checked_add sofar (st_len before))) (\<lambda>total'.
     if cl_max_total_bytes limits < total' then Inl Co_Limit
     else and_then (read_observed (st_len before) pass) (\<lambda>bytes.
     and_then (map_err from_io (fp_after pass)) (\<lambda>after.
     and_then (regular after) (\<lambda>_.
     if length bytes \<noteq> unat (st_len before) \<or> stamp before \<noteq> stamp after then Inl Co_Changed
     else and_then (map_err from_io (fp_rewind pass)) (\<lambda>_.
     Inr (\<lparr>co_name = jo_name d, co_size = word_of_nat (length bytes), co_sha256 = hex (x_sha256 x bytes)\<rparr>, total'))))))))"

fun collect_declared ::
  "'x externals_scheme \<Rightarrow> collection_limits \<Rightarrow> opened \<Rightarrow> u64 \<Rightarrow> job_output list
     \<Rightarrow> collection_error + (collected_output \<times> opened) list" where
  "collect_declared x limits outputs sofar [] = Inr []"
| "collect_declared x limits outputs sofar (d # ds) =
     (case open_declared outputs (drop 9 (jo_path d)) of
        Inl e \<Rightarrow>
          if e = Co_Missing \<and> \<not> jo_required d then collect_declared x limits outputs sofar ds else Inl e
      | Inr file \<Rightarrow>
          and_then (collect_file x limits sofar d (held_pass file)) (\<lambda>(c, total').
          and_then (collect_declared x limits outputs total' ds) (\<lambda>cs. Inr ((c, file) # cs))))"

text \<open>The root of the workspace: opened as a directory, owned by this user and writable by
  no other one.\<close>

record workspace_root =
  wr_opened :: "os_error + opened"
  wr_own_uid :: bool
  wr_mode :: u32

definition collect_outputs ::
  "'x externals_scheme \<Rightarrow> workspace_root \<Rightarrow> execution_spec \<Rightarrow> collection_limits
     \<Rightarrow> collection_error + (collected_output \<times> opened) list" where
  "collect_outputs x root execution limits =
     (if cl_max_file_bytes limits = 0 \<or> 64 * 2 ^ 20 < cl_max_file_bytes limits
         \<or> cl_max_total_bytes limits = 0 \<or> 8 * 2 ^ 30 < cl_max_total_bytes limits
      then Inl Co_Configuration
      else and_then (map_err from_io (wr_opened root)) (\<lambda>dir.
        if \<not> wr_own_uid root \<or> and (wr_mode root) 0x12 \<noteq> 0 then Inl Co_Unsafe
        else and_then (open_child dir ''outputs'' True) (\<lambda>outputs.
          collect_declared x limits outputs 0 (js_outputs (jb_spec (es_job execution))))))"

text \<open>The metrics are read from the file that was collected, in a second pass.\<close>

definition read_metrics :: "'x externals_scheme \<Rightarrow> collected_output \<Rightarrow> (os_error + unit) \<Rightarrow> file_pass \<Rightarrow> collection_error + u8 list option" where
  "read_metrics x c rewound pass =
     (if co_name c \<noteq> ''metrics'' then Inl Co_Configuration
      else and_then (map_err from_io (fp_before pass)) (\<lambda>before.
        and_then (regular before) (\<lambda>_.
        if st_len before \<noteq> co_size c then Inl Co_Changed
        else if 64 * 2 ^ 10 < co_size c then Inr None
        else and_then (map_err from_io rewound) (\<lambda>_.
          case (if length (fp_bytes pass) \<le> unat (co_size c) then fp_fault pass else None) of
            Some e \<Rightarrow> Inl (from_io e)
          | None \<Rightarrow>
              let body = take (unat (co_size c) + 1) (fp_bytes pass) in
              and_then (map_err from_io (fp_after pass)) (\<lambda>after.
              and_then (regular after) (\<lambda>_.
              if length body \<noteq> unat (co_size c) \<or> stamp before \<noteq> stamp after \<or> hex (x_sha256 x body) \<noteq> co_sha256 c
              then Inl Co_Changed
              else and_then (map_err from_io (fp_rewind pass)) (\<lambda>_.
              Inr (if valid_metrics x body then Some body else None))))))))"

section \<open>What is collected\<close>

lemma collect_file_Inr:
  assumes "collect_file x limits sofar d pass = Inr (c, t)"
  shows "co_name c = jo_name d"
    and "unat (co_size c) \<le> min (unat (jo_max_bytes d)) (unat (cl_max_file_bytes limits))"
    and "length (fp_bytes pass) = unat (co_size c)" and "co_sha256 c = hex (x_sha256 x (fp_bytes pass))"
    and "\<exists>before after. fp_before pass = Inr before \<and> fp_after pass = Inr after \<and> stamp before = stamp after
      \<and> st_is_file before \<and> st_nlink before = 1 \<and> st_is_file after \<and> st_nlink after = 1"
    and "unat t = unat sofar + unat (co_size c)" and "unat t \<le> unat (cl_max_total_bytes limits)"
proof -
  obtain before after where run: "fp_before pass = Inr before" "fp_after pass = Inr after" "regular before = Inr ()" "regular after = Inr ()"
    "\<not> min (jo_max_bytes d) (cl_max_file_bytes limits) < st_len before" "checked_add sofar (st_len before) = Some t"
    "\<not> cl_max_total_bytes limits < t" "read_observed (st_len before) pass = Inr (fp_bytes pass)"
    "length (fp_bytes pass) = unat (st_len before)" "stamp before = stamp after"
    "c = \<lparr>co_name = jo_name d, co_size = word_of_nat (length (fp_bytes pass)), co_sha256 = hex (x_sha256 x (fp_bytes pass))\<rparr>"
    using assms
    by (auto simp: collect_file_def and_then_def map_err_def ok_or_def read_observed_def Let_def
        split: sum.splits if_splits option.splits)
  have size: "co_size c = st_len before"
    using run(9,11) by simp
  show "co_name c = jo_name d" "co_sha256 c = hex (x_sha256 x (fp_bytes pass))" "length (fp_bytes pass) = unat (co_size c)"
    using run(9,11) by simp_all
  show "unat (co_size c) \<le> min (unat (jo_max_bytes d)) (unat (cl_max_file_bytes limits))"
    using run(5) size by (auto simp: word_le_nat_alt not_less min_def split: if_splits)
  show "\<exists>before after. fp_before pass = Inr before \<and> fp_after pass = Inr after \<and> stamp before = stamp after
      \<and> st_is_file before \<and> st_nlink before = 1 \<and> st_is_file after \<and> st_nlink after = 1"
    using run(1-4,10) by (auto simp: regular_def split: if_splits)
  show "unat t = unat sofar + unat (co_size c)"
    using checked_add_unat run(6) size by simp
  show "unat t \<le> unat (cl_max_total_bytes limits)"
    using run(7) by (simp add: not_less word_le_nat_alt)
qed

text \<open>What it means that a path names a file: every component before the last is the entry of a
  directory, the last one that of a regular entry. A symbolic link is neither, so no path
  through one names anything.\<close>

fun names_file :: "(string \<times> tree) list \<Rightarrow> string list \<Rightarrow> file_pass \<Rightarrow> bool" where
  "names_file entries [] pass \<longleftrightarrow> False"
| "names_file entries [component] pass \<longleftrightarrow> map_of entries component = Some (Tree_File pass)"
| "names_file entries (component # next # rest) pass \<longleftrightarrow>
     (\<exists>children. map_of entries component = Some (Tree_Directory children) \<and> names_file children (next # rest) pass)"

lemma open_child_directory: "open_child (Open_Directory entries) component True = Inr child \<longleftrightarrow>
    CHR 0x00 \<notin> set component \<and> (\<exists>children. map_of entries component = Some (Tree_Directory children) \<and> child = Open_Directory children)"
  by (auto simp: open_child_def split: option.splits tree.splits)

lemma open_child_file:
  "open_child (Open_Directory entries) component False = Inr (Open_File pass) \<Longrightarrow> map_of entries component = Some (Tree_File pass)"
  by (auto simp: open_child_def split: option.splits tree.splits if_splits)

lemma open_components_names:
  "open_components (Open_Directory entries) components = Inr (Open_File pass) \<Longrightarrow> names_file entries components pass"
proof (induction entries components pass rule: names_file.induct)
  case (2 entries component pass)
  then show ?case
    by (cases "open_child (Open_Directory entries) component False") (auto intro: open_child_file)
next
  case (3 entries component next' rest pass)
  then show ?case
    by (cases "open_child (Open_Directory entries) component True") (auto simp: open_child_directory)
qed simp

text \<open>A collected file is the one the declared path names.\<close>

definition collected_from ::
  "'x externals_scheme \<Rightarrow> collection_limits \<Rightarrow> (string \<times> tree) list \<Rightarrow> job_output \<Rightarrow> collected_output \<Rightarrow> opened \<Rightarrow> bool" where
  "collected_from x limits entries d c file \<longleftrightarrow>
     co_name c = jo_name d
     \<and> unat (co_size c) \<le> min (unat (jo_max_bytes d)) (unat (cl_max_file_bytes limits))
     \<and> (\<exists>pass before after. file = Open_File pass \<and> names_file entries (split_on CHR ''/'' (drop 9 (jo_path d))) pass
          \<and> length (fp_bytes pass) = unat (co_size c) \<and> co_sha256 c = hex (x_sha256 x (fp_bytes pass))
          \<and> fp_before pass = Inr before \<and> fp_after pass = Inr after \<and> stamp before = stamp after
          \<and> st_is_file before \<and> st_nlink before = 1 \<and> st_is_file after \<and> st_nlink after = 1)"

lemma collected_fromI:
  assumes "open_declared (Open_Directory entries) (drop 9 (jo_path d)) = Inr file"
    and "collect_file x limits sofar d (held_pass file) = Inr (c, t)"
  shows "collected_from x limits entries d c file"
proof -
  note c = collect_file_Inr [OF assms(2)]
  obtain pass where held: "file = Open_File pass"
    using c(5) by (cases "file") (auto simp: held_pass_def)
  then show ?thesis
    using c open_components_names [OF assms(1) [unfolded open_declared_def held]] by (auto simp: collected_from_def held_pass_def)
qed

lemma collect_declared_ConsE:
  assumes "collect_declared x limits outputs sofar (d # ds) = Inr cs"
  obtains "\<not> jo_required d" "collect_declared x limits outputs sofar ds = Inr cs"
  | held c t cs' where "open_declared outputs (drop 9 (jo_path d)) = Inr held"
    "collect_file x limits sofar d (held_pass held) = Inr (c, t)"
    "collect_declared x limits outputs t ds = Inr cs'" "cs = (c, held) # cs'"
  using assms by (auto simp: and_then_def split: sum.splits if_splits)

lemma collect_declared_sound:
  assumes "collect_declared x limits (Open_Directory entries) sofar ds = Inr cs"
  shows "subseq (map (co_name \<circ> fst) cs) (map jo_name ds)
    \<and> (\<forall>d \<in> set ds. jo_required d \<longrightarrow> jo_name d \<in> set (map (co_name \<circ> fst) cs))
    \<and> (\<forall>(c, file) \<in> set cs. \<exists>d \<in> set ds. collected_from x limits entries d c file)
    \<and> (cs \<noteq> [] \<longrightarrow> unat sofar + (\<Sum>(c, file) \<leftarrow> cs. unat (co_size c)) \<le> unat (cl_max_total_bytes limits))"
  using assms
proof (induction ds arbitrary: sofar cs)
  case (Cons d ds)
  from Cons.prems show ?case
  proof (rule collect_declared_ConsE)
    assume "\<not> jo_required d" "collect_declared x limits (Open_Directory entries) sofar ds = Inr cs"
    then show ?thesis
      using Cons.IH [of sofar cs] by (auto intro: list_emb_Cons)
  next
    fix held c t cs'
    assume run: "open_declared (Open_Directory entries) (drop 9 (jo_path d)) = Inr held" "collect_file x limits sofar d (held_pass held) = Inr (c, t)"
      "collect_declared x limits (Open_Directory entries) t ds = Inr cs'" "cs = (c, held) # cs'"
    note c = collect_file_Inr [OF run(2)]
    have "collected_from x limits entries d c held"
      by (rule collected_fromI [OF run(1,2)])
    moreover have "unat t + (\<Sum>(c, file) \<leftarrow> cs'. unat (co_size c)) \<le> unat (cl_max_total_bytes limits)"
      using Cons.IH [OF run(3)] c(7) by (cases cs') simp_all
    ultimately show ?thesis
      using Cons.IH [OF run(3)] c(1,6) run(4) by auto
  qed
qed simp

text \<open>C13. Collected outputs are the declared files and nothing else. When the collection
  succeeds, the workspace is a directory of this user that no other one may write to, and the
  collected names are a selection of the declared ones in the declared order in which no
  required output is missing. Each output is a regular file that its declared path names below
  the entry \<open>outputs\<close> of the workspace, through directories only and never through a symbolic
  link; it has a single link, its metadata did not change while it was read, it is no larger
  than its declaration and the file limit allow, and its recorded size and digest are those of
  exactly the bytes read. Together they stay within the total limit of 8 GiB, without overflow
  of the sum.\<close>

theorem collected_outputs_are_declared:
  assumes "collect_outputs x root execution limits = Inr cs"
  shows "subseq (map (co_name \<circ> fst) cs) (map jo_name (js_outputs (jb_spec (es_job execution))))
    \<and> (\<forall>d \<in> set (js_outputs (jb_spec (es_job execution))). jo_required d \<longrightarrow> jo_name d \<in> set (map (co_name \<circ> fst) cs))
    \<and> wr_own_uid root \<and> and (wr_mode root) 0x12 = 0
    \<and> (\<exists>above entries. wr_opened root = Inr (Open_Directory above) \<and> map_of above ''outputs'' = Some (Tree_Directory entries)
         \<and> (\<forall>(c, file) \<in> set cs. \<exists>d \<in> set (js_outputs (jb_spec (es_job execution))). collected_from x limits entries d c file))
    \<and> (\<Sum>(c, file) \<leftarrow> cs. unat (co_size c)) \<le> 8 * 2 ^ 30"
proof -
  obtain dir outputs where run: "wr_opened root = Inr dir" "open_child dir ''outputs'' True = Inr outputs"
    "collect_declared x limits outputs 0 (js_outputs (jb_spec (es_job execution))) = Inr cs"
    "\<not> 8 * 2 ^ 30 < cl_max_total_bytes limits" "wr_own_uid root" "and (wr_mode root) 0x12 = 0"
    using assms by (auto simp: collect_outputs_def and_then_def map_err_def split: sum.splits if_splits)
  obtain above entries where dirs: "dir = Open_Directory above" "outputs = Open_Directory entries"
    "map_of above ''outputs'' = Some (Tree_Directory entries)"
  proof (cases dir)
    case (Open_Directory es)
    then show ?thesis
      using run(2) that by (auto simp: open_child_directory)
  qed (use run(2) in \<open>auto simp: open_child_def split: if_splits\<close>)
  note sound = collect_declared_sound [OF run(3) [unfolded dirs(2)]]
  have "unat (cl_max_total_bytes limits) \<le> 8 * 2 ^ 30"
    using run(4) by (simp add: not_less word_le_nat_alt)
  then have "(\<Sum>(c, file) \<leftarrow> cs. unat (co_size c)) \<le> 8 * 2 ^ 30"
    using sound by (cases cs) auto
  then show ?thesis
    using run(1,5,6) dirs(1,3) sound by blast
qed

text \<open>The metrics that are reported are the bytes of the collected output.\<close>

lemma read_metrics_binds:
  assumes "read_metrics x c rewound pass = Inr (Some body)"
  shows "co_name c = ''metrics'' \<and> length body = unat (co_size c) \<and> hex (x_sha256 x body) = co_sha256 c \<and> valid_metrics x body"
  using assms
  by (auto simp: read_metrics_def and_then_def map_err_def Let_def split: sum.splits if_splits option.splits)

section \<open>Examples\<close>

definition sample_pass :: "u8 list \<Rightarrow> file_pass" where
  "sample_pass bytes =
     \<lparr>fp_before = Inr \<lparr>st_is_file = True, st_nlink = 1, st_len = word_of_nat (length bytes), st_times = (1, 0, 1, 0)\<rparr>,
      fp_bytes = bytes, fp_fault = None,
      fp_after = Inr \<lparr>st_is_file = True, st_nlink = 1, st_len = word_of_nat (length bytes), st_times = (1, 0, 1, 0)\<rparr>,
      fp_rewind = Inr ()\<rparr>"

definition sample_root :: workspace_root where
  "sample_root =
     \<lparr>wr_opened = Inr (Open_Directory [(''outputs'',
        Tree_Directory [(''a'', Tree_File (sample_pass [1, 2, 3])), (''b'', Tree_File (sample_pass []))])]),
      wr_own_uid = True, wr_mode = 0x1C0\<rparr>"

lemma sample_collected:
  "collect_outputs sample_externals sample_root \<lparr>es_job = sample_job, es_sha256 = []\<rparr> CollectionLimits_default
     = Inr [(\<lparr>co_name = ''a'', co_size = 3, co_sha256 = hex (replicate 32 0)\<rparr>, Open_File (sample_pass [1, 2, 3])),
            (\<lparr>co_name = ''b'', co_size = 0, co_sha256 = hex (replicate 32 0)\<rparr>, Open_File (sample_pass []))]"
  by (simp add: collect_outputs_def sample_root_def sample_job_def CollectionLimits_default_def open_child_def open_declared_def
      collect_file_def sample_pass_def held_pass_def regular_def stamp_def read_observed_def sample_externals_def checked_add_def
      del: replicate.simps)

theorem collected_outputs_are_declared_witness:
  "\<exists>cs above entries. collect_outputs sample_externals sample_root \<lparr>es_job = sample_job, es_sha256 = []\<rparr> CollectionLimits_default = Inr cs
     \<and> length cs = 2 \<and> subseq (map (co_name \<circ> fst) cs) (map jo_name (js_outputs (jb_spec sample_job)))
     \<and> wr_opened sample_root = Inr (Open_Directory above) \<and> map_of above ''outputs'' = Some (Tree_Directory entries)
     \<and> (\<forall>(c, file) \<in> set cs. \<exists>d. collected_from sample_externals CollectionLimits_default entries d c file)
     \<and> (\<Sum>(c, file) \<leftarrow> cs. unat (co_size c)) \<le> 8 * 2 ^ 30"
  using collected_outputs_are_declared [OF sample_collected] sample_collected by fastforce

end
