(* ===== verification/Tasks.thy ===== *)
theory Tasks
  imports Journal_History Object_Transfer Maintain Outputs
begin

text \<open>
  Asynchronous code as state passing. A task runs until the answers of the environment are
  used up: every \<open>await\<close> takes one answer, and a task without an answer is a future that is
  dropped there, which is also what a crash of the process leaves. So a statement about all
  answers is a statement about every cancellation point. The state is the journal and the
  requests made to the outside so far; a request counts as made once its future is polled.
  Other tasks of the worker use the journal between two awaits of a task: the answer to an
  \<open>await\<close> of the journal carries what they did, any sequence of journal operations.
  \<open>AsyncJournal::apply\<close> of \<open>rust/worker/src/journal/asynchronous.rs\<close> is one such \<open>await\<close>, and
  \<open>SupervisedAuthority::while_live\<close> ends a task where the authority ended.
\<close>

section \<open>Tasks\<close>

datatype call =
  Call_Create create_upload_request
| Call_Put create_upload_request
| Call_Finalize finalize_upload_request
| Call_Register register_log_segment_request
| Call_Complete complete_attempt_request
| Call_Phase report_phase_request
| Call_Container attempt_authority
| Call_Start string

datatype answer =
  Ans_Journal "journal_event list" "nat \<Rightarrow> journal_env"
    \<comment> \<open>what other tasks did to the journal meanwhile, and what happens to the operations of one \<open>apply\<close>\<close>
| Ans_Lost \<comment> \<open>the gate, the lock or the blocking task is gone\<close>
| Ans_Create "client_error + create_upload_response"
| Ans_Put put_env
| Ans_Finalize "client_error + finalize_upload_response"
| Ans_Mutation "client_error + mutation_response"
| Ans_Complete "client_error + complete_attempt_response"
| Ans_Container "runtime_error + string"
| Ans_Started "runtime_error + unit"
| Ans_Inspect "runtime_error + container_status"
| Ans_Cleanup duration "(runtime_error + unit) option" "(runtime_error + container_status) option"
    \<comment> \<open>what is left for a cleanup, and how the stop and the inspection in it end\<close>
| Ans_Collect workspace_root "os_error + unit" file_pass
    \<comment> \<open>the workspace as the collection finds it, and the second pass over the metrics\<close>
| Ans_Timer
| Ans_Live \<comment> \<open>the authority is alive\<close>
| Ans_Stop stop_reason \<comment> \<open>the authority ended\<close>

record world =
  wd_journal :: journal
  wd_answers :: "answer list"
  wd_calls :: "call list"

datatype ('e, 'a) poll = Ready "'e + 'a" | Interrupted stop_reason | Dropped

type_synonym ('e, 'a) task = "world \<Rightarrow> ('e, 'a) poll \<times> world"

definition give :: "'e + 'a \<Rightarrow> ('e, 'a) task" where
  "give r w = (Ready r, w)"

definition on_ready :: "('e, 'a) task \<Rightarrow> ('e + 'a \<Rightarrow> ('f, 'b) task) \<Rightarrow> ('f, 'b) task" where
  "on_ready m f w =
     (case m w of
        (Ready r, w') \<Rightarrow> f r w'
      | (Interrupted s, w') \<Rightarrow> (Interrupted s, w')
      | (Dropped, w') \<Rightarrow> (Dropped, w'))"

definition then_do :: "('e, 'a) task \<Rightarrow> ('a \<Rightarrow> ('e, 'b) task) \<Rightarrow> ('e, 'b) task" where
  "then_do m f = on_ready m (\<lambda>r. case r of Inl e \<Rightarrow> give (Inl e) | Inr a \<Rightarrow> f a)"

definition task_err :: "('e \<Rightarrow> 'f) \<Rightarrow> ('e, 'a) task \<Rightarrow> ('f, 'a) task" where
  "task_err g m = on_ready m (\<lambda>r. give (map_err g r))"

text \<open>One \<open>await\<close>: the answer it needs, or the end of the authority.\<close>

definition await :: "(answer \<Rightarrow> 'r option) \<Rightarrow> ('e, 'r) task" where
  "await want w =
     (case wd_answers w of
        [] \<Rightarrow> (Dropped, w)
      | a # as \<Rightarrow>
          (case a of
             Ans_Stop s \<Rightarrow> (Interrupted s, w\<lparr>wd_answers := as\<rparr>)
           | _ \<Rightarrow> (case want a of None \<Rightarrow> (Dropped, w) | Some r \<Rightarrow> (Ready (Inr r), w\<lparr>wd_answers := as\<rparr>))))"

definition request :: "call \<Rightarrow> (answer \<Rightarrow> 'r option) \<Rightarrow> ('e, 'r) task" where
  "request c want w = await want (w\<lparr>wd_calls := wd_calls w @ [c]\<rparr>)"

fun journal_answer :: "answer \<Rightarrow> (journal_event list \<times> (nat \<Rightarrow> journal_env)) option option" where
  "journal_answer (Ans_Journal others env) = Some (Some (others, env))"
| "journal_answer Ans_Lost = Some None"
| "journal_answer _ = None"

type_synonym 'a journal_op = "(nat \<Rightarrow> journal_env) \<Rightarrow> journal \<Rightarrow> (journal_error + 'a) \<times> journal"

definition journal_apply :: "'x journal_externals_scheme \<Rightarrow> 'a journal_op \<Rightarrow> (journal_error, 'a) task" where
  "journal_apply x operation =
     then_do (await journal_answer) (\<lambda>answer w.
       case answer of
         None \<Rightarrow> (Ready (Inl J_Poisoned), w)
       | Some (others, env) \<Rightarrow>
           (case operation env (foldl (journal_step x) (wd_journal w) others) of (r, j) \<Rightarrow> (Ready r, w\<lparr>wd_journal := j\<rparr>)))"

text \<open>The two checks of \<open>while_live\<close> around the operation it guards.\<close>

fun live_answer :: "answer \<Rightarrow> unit option" where
  "live_answer Ans_Live = Some ()"
| "live_answer _ = None"

definition check_live :: "(stop_reason, unit) task" where
  "check_live = await live_answer"

definition stopped_as_error :: "('e, 'a) task \<Rightarrow> (stop_reason, 'e + 'a) task" where
  "stopped_as_error m w =
     (case m w of
        (Ready r, w') \<Rightarrow> (Ready (Inr r), w')
      | (Interrupted s, w') \<Rightarrow> (Ready (Inl s), w')
      | (Dropped, w') \<Rightarrow> (Dropped, w'))"

definition live_task :: "('e, 'a) task \<Rightarrow> (stop_reason, 'e + 'a) task" where
  "live_task m =
     then_do (stopped_as_error check_live) (\<lambda>_.
     then_do (stopped_as_error m) (\<lambda>r.
     then_do (stopped_as_error check_live) (\<lambda>_. give (Inr r))))"

section \<open>What tasks do to the world\<close>

lemma give_simp [simp]: "give r w = (Ready r, w)"
  by (simp add: give_def)

lemma on_ready_Ready:
  "on_ready m f w = (Ready r, w') \<longleftrightarrow> (\<exists>q w1. m w = (Ready q, w1) \<and> f q w1 = (Ready r, w'))"
  by (auto simp: on_ready_def split: prod.splits poll.splits)

lemma then_do_Inr:
  "then_do m f w = (Ready (Inr b), w') \<longleftrightarrow> (\<exists>a w1. m w = (Ready (Inr a), w1) \<and> f a w1 = (Ready (Inr b), w'))"
  by (auto simp: then_do_def on_ready_def split: prod.splits poll.splits sum.splits)

lemma task_err_Inr: "task_err g m w = (Ready (Inr a), w') \<longleftrightarrow> m w = (Ready (Inr a), w')"
  by (auto simp: task_err_def on_ready_def map_err_def split: prod.splits poll.splits sum.splits)

text \<open>A task only performs operations of the journal, and only adds requests of a kind.\<close>

definition performs :: "'x journal_externals_scheme \<Rightarrow> (call \<Rightarrow> bool) \<Rightarrow> ('e, 'a) task \<Rightarrow> bool" where
  "performs x allowed m \<longleftrightarrow>
     (\<forall>w p w'. m w = (p, w') \<longrightarrow>
        (\<exists>events. wd_journal w' = foldl (journal_step x) (wd_journal w) events)
        \<and> (\<exists>cs. wd_calls w' = wd_calls w @ cs \<and> list_all allowed cs))"

definition is_operation :: "'x journal_externals_scheme \<Rightarrow> 'a journal_op \<Rightarrow> bool" where
  "is_operation x operation \<longleftrightarrow>
     (\<forall>env j. \<exists>events. snd (operation env j) = foldl (journal_step x) j events)"

named_theorems performs_intro

lemma performsI:
  assumes "\<And>w p w'. m w = (p, w') \<Longrightarrow> \<exists>events. wd_journal w' = foldl (journal_step x) (wd_journal w) events"
    and "\<And>w p w'. m w = (p, w') \<Longrightarrow> \<exists>cs. wd_calls w' = wd_calls w @ cs \<and> list_all allowed cs"
  shows "performs x allowed m"
  using assms by (auto simp: performs_def)

lemma performs_stutter:
  assumes "\<And>w p w'. m w = (p, w') \<Longrightarrow> wd_journal w' = wd_journal w \<and> wd_calls w' = wd_calls w"
  shows "performs x allowed m"
proof (rule performsI)
  fix w p w' assume "m w = (p, w')"
  then have "wd_journal w' = foldl (journal_step x) (wd_journal w) []" "wd_calls w' = wd_calls w @ [] \<and> list_all allowed []"
    using assms by simp_all
  then show "\<exists>events. wd_journal w' = foldl (journal_step x) (wd_journal w) events"
    "\<exists>cs. wd_calls w' = wd_calls w @ cs \<and> list_all allowed cs"
    by blast+
qed

lemma performs_give [performs_intro]: "performs x allowed (give r)"
  by (rule performs_stutter) simp

lemma performs_on_ready [performs_intro]:
  assumes "performs x allowed m" and "\<And>r. performs x allowed (f r)"
  shows "performs x allowed (on_ready m f)"
proof -
  have "(\<exists>events. wd_journal w' = foldl (journal_step x) (wd_journal w) events)
      \<and> (\<exists>cs. wd_calls w' = wd_calls w @ cs \<and> list_all allowed cs)" if run: "on_ready m f w = (p, w')" for w p w'
  proof -
    obtain q w1 where m: "m w = (q, w1)"
      by fastforce
    then obtain es cs where first: "wd_journal w1 = foldl (journal_step x) (wd_journal w) es" "wd_calls w1 = wd_calls w @ cs" "list_all allowed cs"
      using assms(1) unfolding performs_def by blast
    show ?thesis
    proof (cases q)
      case (Ready r)
      then have "f r w1 = (p, w')"
        using run m by (simp add: on_ready_def)
      then obtain es' cs' where "wd_journal w' = foldl (journal_step x) (wd_journal w1) es'" "wd_calls w' = wd_calls w1 @ cs'" "list_all allowed cs'"
        using assms(2) [of r] unfolding performs_def by blast
      then have "wd_journal w' = foldl (journal_step x) (wd_journal w) (es @ es')" "wd_calls w' = wd_calls w @ (cs @ cs')"
        "list_all allowed (cs @ cs')"
        using first by simp_all
      then show ?thesis
        by blast
    qed (use run m first in \<open>auto simp: on_ready_def\<close>)
  qed
  then show ?thesis
    by (simp add: performs_def)
qed

lemma performs_then_do [performs_intro]:
  "performs x allowed m \<Longrightarrow> (\<And>a. performs x allowed (f a)) \<Longrightarrow> performs x allowed (then_do m f)"
  unfolding then_do_def by (rule performs_on_ready) (auto intro: performs_give split: sum.split)

lemma performs_task_err [performs_intro]: "performs x allowed m \<Longrightarrow> performs x allowed (task_err g m)"
  unfolding task_err_def by (intro performs_intro)

lemma performs_await [performs_intro]: "performs x allowed (await want)"
  by (rule performs_stutter) (auto simp: await_def split: list.splits answer.splits option.splits)

lemma performs_request [performs_intro]:
  assumes "allowed c"
  shows "performs x allowed (request c want)"
proof (rule performsI)
  fix w :: world and p w' assume run: "request c want w = (p, w')"
  then have "wd_journal w' = wd_journal w" "wd_calls w' = wd_calls w @ [c]"
    by (auto simp: request_def await_def split: list.splits answer.splits option.splits)
  then have "wd_journal w' = foldl (journal_step x) (wd_journal w) []" "wd_calls w' = wd_calls w @ [c] \<and> list_all allowed [c]"
    using assms by simp_all
  then show "\<exists>events. wd_journal w' = foldl (journal_step x) (wd_journal w) events"
    "\<exists>cs. wd_calls w' = wd_calls w @ cs \<and> list_all allowed cs"
    by blast+
qed

lemma performs_stopped_as_error [performs_intro]:
  assumes "performs x allowed m"
  shows "performs x allowed (stopped_as_error m)"
proof -
  have "\<exists>q. m w = (q, w')" if "stopped_as_error m w = (p, w')" for w p w'
    using that by (auto simp: stopped_as_error_def split: prod.splits poll.splits)
  then show ?thesis
    using assms unfolding performs_def by metis
qed

lemma performs_check_live [performs_intro]: "performs x allowed check_live"
  unfolding check_live_def by (rule performs_await)

lemma performs_live [performs_intro]: "performs x allowed m \<Longrightarrow> performs x allowed (live_task m)"
  unfolding live_task_def by (intro performs_intro)

lemma performs_journal_apply [performs_intro]:
  assumes "is_operation x operation"
  shows "performs x allowed (journal_apply x operation)"
  unfolding journal_apply_def
proof (rule performs_then_do [OF performs_await], rule performsI)
  fix a :: "(journal_event list \<times> (nat \<Rightarrow> journal_env)) option" and w :: world and p :: "(journal_error, 'b) poll" and w'
  let ?m = "\<lambda>w. case a of None \<Rightarrow> (Ready (Inl J_Poisoned), w)
    | Some (others, env) \<Rightarrow>
        (case operation env (foldl (journal_step x) (wd_journal w) others) of (r, j) \<Rightarrow> (Ready r, w\<lparr>wd_journal := j\<rparr>))"
  assume run: "?m w = (p, w')"
  then have "wd_calls w' = wd_calls w @ [] \<and> list_all allowed []"
    by (auto split: option.splits prod.splits)
  then show "\<exists>cs. wd_calls w' = wd_calls w @ cs \<and> list_all allowed cs"
    by blast
  show "\<exists>events. wd_journal w' = foldl (journal_step x) (wd_journal w) events"
  proof (cases a)
    case None
    then have "wd_journal w' = foldl (journal_step x) (wd_journal w) []"
      using run by simp
    then show ?thesis
      by blast
  next
    case (Some b)
    obtain others env where b: "b = (others, env)"
      by fastforce
    then have "wd_journal w' = snd (operation env (foldl (journal_step x) (wd_journal w) others))"
      using run Some by (auto split: prod.splits)
    then obtain events where "wd_journal w' = foldl (journal_step x) (foldl (journal_step x) (wd_journal w) others) events"
      using assms unfolding is_operation_def by metis
    then show ?thesis
      by (metis foldl_append)
  qed
qed

lemma is_operation_step:
  assumes "\<And>env j. \<exists>e. snd (operation env j) = journal_step x j e"
  shows "is_operation x operation"
proof -
  have "\<exists>events. snd (operation env j) = foldl (journal_step x) j events" for env j
  proof -
    obtain e where "snd (operation env j) = journal_step x j e"
      using assms by blast
    then have "snd (operation env j) = foldl (journal_step x) j [e]"
      by simp
    then show ?thesis
      by blast
  qed
  then show ?thesis
    by (simp add: is_operation_def)
qed

lemma is_operation_read: "(\<And>env j. snd (operation env j) = j) \<Longrightarrow> is_operation x operation"
  unfolding is_operation_def by (metis foldl_Nil)

lemma journal_apply_Inr:
  assumes "journal_apply x operation w = (Ready (Inr a), w')"
  shows "\<exists>others env. operation env (foldl (journal_step x) (wd_journal w) others) = (Inr a, wd_journal w') \<and> wd_calls w' = wd_calls w"
proof -
  obtain answer w1 where await: "await journal_answer w = ((Ready (Inr answer) :: (journal_error, _) poll), w1)"
    and run: "(case answer of None \<Rightarrow> (Ready (Inl J_Poisoned), w1)
       | Some (others, env) \<Rightarrow>
           (case operation env (foldl (journal_step x) (wd_journal w1) others) of (r, j) \<Rightarrow> (Ready r, w1\<lparr>wd_journal := j\<rparr>)))
         = (Ready (Inr a), w')"
    using assms unfolding journal_apply_def then_do_Inr by blast
  have w1: "wd_journal w1 = wd_journal w \<and> wd_calls w1 = wd_calls w"
    using await by (auto simp: await_def split: list.splits answer.splits option.splits)
  then obtain others env where "answer = Some (others, env)"
    using run by (cases answer) auto
  then show ?thesis
    using run w1 by (intro exI [of _ others] exI [of _ env]) (auto split: prod.splits)
qed

text \<open>When the operation of an \<open>apply\<close> succeeded it ran on a journal that kept what was there before.\<close>

lemma journal_apply_kept:
  assumes "journal_apply x operation w = (Ready (Inr a), w')" and "journal_codec x" and "evidence_kept x key found (wd_journal w)"
  shows "\<exists>env j. operation env j = (Inr a, wd_journal w') \<and> evidence_kept x key found j \<and> wd_calls w' = wd_calls w"
  using journal_apply_Inr [OF assms(1)] journaling.run_keeps [OF assms(3)] assms(2) by blast

lemma journal_apply_sound:
  assumes "journal_apply x operation w = (Ready (Inr a), w')" and "journal_codec x" and "dir_sound (jn_directory (wd_journal w))"
  shows "\<exists>env j. operation env j = (Inr a, wd_journal w') \<and> dir_sound (jn_directory j)"
  using journal_apply_kept [OF assms(1,2), of "[]" None] assms(3) by (auto simp: evidence_kept_def)

end
