(* ===== verification/Delivery.thy ===== *)
theory Delivery
  imports Tasks
begin

text \<open>
  Delivery of journaled evidence: \<open>upload.rs\<close>, \<open>log_delivery.rs\<close> and \<open>completion.rs\<close> of
  \<open>rust/worker/src\<close>, with the asynchronous forwarders of \<open>journal/asynchronous.rs\<close> they use.
  A source is a file that is there or not; its bytes come with the answer to the PUT.
\<close>

section \<open>The code\<close>

subsection \<open>Calls\<close>

definition async_load :: "'x journal_externals_scheme \<Rightarrow> string \<Rightarrow> (journal_error, attempt_record option) task" where
  "async_load x key = journal_apply x (\<lambda>env j. (load_attempt x (je_read (env 0)) key j, j))"

definition async_do :: "'x journal_externals_scheme \<Rightarrow> (journal_env \<Rightarrow> journal \<Rightarrow> (journal_error + 'a) \<times> journal) \<Rightarrow> (journal_error, 'a) task" where
  "async_do x operation = journal_apply x (\<lambda>env. operation (env 0))"

fun create_answer :: "answer \<Rightarrow> (client_error + create_upload_response) option" where
  "create_answer (Ans_Create r) = Some r"
| "create_answer _ = None"

fun put_answer :: "answer \<Rightarrow> put_env option" where
  "put_answer (Ans_Put env) = Some env"
| "put_answer _ = None"

fun finalize_answer :: "answer \<Rightarrow> (client_error + finalize_upload_response) option" where
  "finalize_answer (Ans_Finalize r) = Some r"
| "finalize_answer _ = None"

fun mutation_answer :: "answer \<Rightarrow> (client_error + mutation_response) option" where
  "mutation_answer (Ans_Mutation r) = Some r"
| "mutation_answer _ = None"

fun complete_answer :: "answer \<Rightarrow> (client_error + complete_attempt_response) option" where
  "complete_answer (Ans_Complete r) = Some r"
| "complete_answer _ = None"

text \<open>A call of the control client: the request is checked before anything is sent.\<close>

definition rpc_task :: "client_error + unit \<Rightarrow> call \<Rightarrow> (answer \<Rightarrow> 'r option) \<Rightarrow> ('r \<Rightarrow> client_error + 's) \<Rightarrow> (client_error, 's) task" where
  "rpc_task valid c want decode =
     (case valid of Inl e \<Rightarrow> give (Inl e) | Inr _ \<Rightarrow> then_do (request c want) (\<lambda>r. give (decode r)))"

definition create_task :: "create_upload_request \<Rightarrow> (client_error, create_upload_response) task" where
  "create_task d = rpc_task (validate_create d) (Call_Create d) create_answer (create_upload d)"

definition put_task :: "'x transfer_externals_scheme \<Rightarrow> bool \<Rightarrow> create_upload_request \<Rightarrow> create_upload_response
    \<Rightarrow> (transfer_error, object_version) task" where
  "put_task x allow d grant = then_do (request (Call_Put d) put_answer) (\<lambda>env. give (fst (put x allow env d grant)))"

definition finalize_task :: "finalize_upload_request \<Rightarrow> (client_error, finalize_upload_response) task" where
  "finalize_task q = rpc_task (validate_finalization q) (Call_Finalize q) finalize_answer (finalize_upload q)"

definition register_task :: "register_log_segment_request \<Rightarrow> (client_error, log_status) task" where
  "register_task g = rpc_task (validate_log_request g) (Call_Register g) mutation_answer (register_log_segment g)"

definition complete_task :: "'x externals_scheme \<Rightarrow> complete_attempt_request \<Rightarrow> (client_error, completion_status) task" where
  "complete_task x q = rpc_task (validate_completion_request x q) (Call_Complete q) complete_answer (complete_attempt x q)"

subsection \<open>Outputs: \<open>upload.rs\<close>\<close>

datatype upload_error =
  Up_Journal journal_error | Up_Control client_error | Up_Transfer transfer_error | Up_MissingSource

definition output_finalize_request ::
  "'x transfer_externals_scheme \<Rightarrow> bool \<Rightarrow> string \<Rightarrow> bool \<Rightarrow> output_upload \<Rightarrow> (upload_error, finalize_upload_request) task" where
  "output_finalize_request x allow key source upload =
     (case ou_finalization upload of
        Some q \<Rightarrow> give (Inr q)
      | None \<Rightarrow>
          if \<not> source then give (Inl Up_MissingSource)
          else let d = ou_declaration upload in
            then_do (task_err Up_Control (create_task d)) (\<lambda>grant.
            then_do (task_err Up_Journal (async_do x (\<lambda>env. record_output_grant x env d grant))) (\<lambda>_.
            then_do (task_err Up_Transfer (put_task x allow d grant)) (\<lambda>obj.
            task_err Up_Journal (async_do x (\<lambda>env. prepare_output_finalization x env key (cu_request_id d) obj))))))"

definition deliver_output ::
  "'x transfer_externals_scheme \<Rightarrow> bool \<Rightarrow> string \<Rightarrow> string \<Rightarrow> bool \<Rightarrow> (upload_error, finalize_upload_response) task" where
  "deliver_output x allow key name source =
     then_do (task_err Up_Journal (async_load x key)) (\<lambda>found.
       case found of
         None \<Rightarrow> give (Inl (Up_Journal J_Invalid))
       | Some saved \<Rightarrow>
           (case find (\<lambda>u. cu_name (ou_declaration u) = name) (ar_outputs saved) of
              None \<Rightarrow> give (Inl (Up_Journal J_Invalid))
            | Some upload \<Rightarrow>
                (case ou_response upload of
                   Some response \<Rightarrow> give (Inr response)
                 | None \<Rightarrow>
                     then_do (output_finalize_request x allow key source upload) (\<lambda>q.
                     then_do (task_err Up_Control (finalize_task q)) (\<lambda>response.
                     then_do (task_err Up_Journal (async_do x (\<lambda>env. record_output_response x env q response))) (\<lambda>_.
                     give (Inr response)))))))"

subsection \<open>Logs: \<open>log_delivery.rs\<close>\<close>

datatype log_delivery_error =
  Ld_Journal journal_error | Ld_Control client_error | Ld_Transfer transfer_error | Ld_MissingSource | Ld_Rejected decision

definition log_finalize_request ::
  "'x transfer_externals_scheme \<Rightarrow> bool \<Rightarrow> string \<Rightarrow> bool \<Rightarrow> log_upload \<Rightarrow> (log_delivery_error, finalize_upload_request) task" where
  "log_finalize_request x allow key source log =
     (case lu_finalization log of
        Some q \<Rightarrow> give (Inr q)
      | None \<Rightarrow>
          if \<not> source then give (Inl Ld_MissingSource)
          else let d = lu_declaration log in
            then_do (task_err Ld_Control (create_task d)) (\<lambda>grant.
            then_do (task_err Ld_Journal (async_do x (\<lambda>env. record_log_grant x env d grant))) (\<lambda>_.
            then_do (task_err Ld_Transfer (put_task x allow d grant)) (\<lambda>obj.
            task_err Ld_Journal (async_do x (\<lambda>env. prepare_log_finalization x env key (cu_request_id d) obj))))))"

definition log_registration_request ::
  "'x transfer_externals_scheme \<Rightarrow> bool \<Rightarrow> string \<Rightarrow> bool \<Rightarrow> log_upload \<Rightarrow> (log_delivery_error, register_log_segment_request) task" where
  "log_registration_request x allow key source log =
     (case lu_registration log of
        Some g \<Rightarrow> give (Inr g)
      | None \<Rightarrow>
          then_do
            (if lu_response log \<noteq> None then give (Inr ())
             else then_do (log_finalize_request x allow key source log) (\<lambda>q.
               then_do (task_err Ld_Control (finalize_task q)) (\<lambda>response.
               task_err Ld_Journal (async_do x (\<lambda>env. record_log_response x env q response))))) (\<lambda>_.
          task_err Ld_Journal (async_do x (\<lambda>env. prepare_log_registration x env key (cu_request_id (lu_declaration log))))))"

definition deliver_log ::
  "'x transfer_externals_scheme \<Rightarrow> bool \<Rightarrow> string \<Rightarrow> log_stream \<Rightarrow> u64 \<Rightarrow> bool \<Rightarrow> (log_delivery_error, unit) task" where
  "deliver_log x allow key stream first source =
     then_do (task_err Ld_Journal (async_load x key)) (\<lambda>found.
       case found of
         None \<Rightarrow> give (Inl (Ld_Journal J_Invalid))
       | Some saved \<Rightarrow>
           (case find (\<lambda>s. stream_of (lu_stream s) = Some stream \<and> lu_first_sequence s = first) (ar_logs saved) of
              None \<Rightarrow> give (Inl (Ld_Journal J_Invalid))
            | Some log \<Rightarrow>
                if lu_registered log then give (Inr ())
                else then_do (log_registration_request x allow key source log) (\<lambda>g.
                  then_do (task_err Ld_Control (register_task g)) (\<lambda>status.
                    if lt_decision status \<noteq> Accepted then give (Inl (Ld_Rejected (lt_decision status)))
                    else task_err Ld_Journal (async_do x (\<lambda>env.
                      record_log_registration x env g (lt_decision status) (lt_state status)))))))"

subsection \<open>Completion: \<open>completion.rs\<close>\<close>

datatype delivery_error = De_Journal journal_error | De_Control client_error

definition deliver_pending ::
  "'x transfer_externals_scheme \<Rightarrow> string \<Rightarrow> (delivery_error, complete_attempt_response option) task" where
  "deliver_pending x key =
     then_do (task_err De_Journal (async_load x key)) (\<lambda>found.
       case found of
         None \<Rightarrow> give (Inl (De_Journal J_Invalid))
       | Some saved \<Rightarrow>
           (case ar_completion saved of
              None \<Rightarrow> give (Inr None)
            | Some q \<Rightarrow>
                if is_some_and (\<lambda>reply. cc_decision reply \<noteq> decision_i32 StopRequested) (ar_completion_response saved)
                then give (Inr (ar_completion_response saved))
                else then_do (task_err De_Control (complete_task x q)) (\<lambda>status.
                  let reply = \<lparr>cc_decision = decision_i32 (cs_decision status), cc_state = state_i32 (completion_status.cs_state status),
                               cc_accepted_manifest_json = cs_accepted_manifest_json status\<rparr>
                  in then_do (task_err De_Journal (async_do x (\<lambda>env. record_completion_response x env q reply))) (\<lambda>_.
                     give (Inr (Some reply))))))"

section \<open>Delivering is a sequence of journal operations\<close>

lemma async_load_operation [performs_intro]: "performs x allowed (async_load x key)"
  unfolding async_load_def by (intro performs_intro is_operation_read) simp

lemma async_do_operation: "(\<And>env j. \<exists>e. snd (operation env j) = journal_step x j e) \<Longrightarrow> performs x allowed (async_do x operation)"
  unfolding async_do_def by (intro performs_intro is_operation_step) blast

lemma journal_operations [performs_intro]:
  "performs x allowed (async_do x (\<lambda>env. record_output_grant x env d grant))"
  "performs x allowed (async_do x (\<lambda>env. prepare_output_finalization x env key rid obj))"
  "performs x allowed (async_do x (\<lambda>env. record_output_response x env q response))"
  "performs x allowed (async_do x (\<lambda>env. record_log_grant x env d grant))"
  "performs x allowed (async_do x (\<lambda>env. prepare_log_finalization x env key rid obj))"
  "performs x allowed (async_do x (\<lambda>env. record_log_response x env q response))"
  "performs x allowed (async_do x (\<lambda>env. prepare_log_registration x env key rid))"
  "performs x allowed (async_do x (\<lambda>env. record_log_registration x env g decision state))"
  "performs x allowed (async_do x (\<lambda>env. record_completion_response x env c reply))"
  by (rule async_do_operation,
      metis journal_step.simps(7,9,10,11,12,13,15,16,17))+

lemma rpc_task_performs: "allowed c \<Longrightarrow> performs x allowed (rpc_task valid c want decode)"
  unfolding rpc_task_def by (cases valid) (auto intro!: performs_intro)

lemma call_performs [performs_intro]:
  "allowed (Call_Create d) \<Longrightarrow> performs x allowed (create_task d)"
  "allowed (Call_Put d) \<Longrightarrow> performs x allowed (put_task x' allow d grant)"
  "allowed (Call_Finalize q) \<Longrightarrow> performs x allowed (finalize_task q)"
  "allowed (Call_Register g) \<Longrightarrow> performs x allowed (register_task g)"
  "allowed (Call_Complete c) \<Longrightarrow> performs x allowed (complete_task x' c)"
  unfolding create_task_def put_task_def finalize_task_def register_task_def complete_task_def
  by (auto intro!: rpc_task_performs performs_intro)

lemma performs_kept:
  assumes "performs x allowed m" and "m w = (p, w')" and "journal_codec x" and "evidence_kept x key found (wd_journal w)"
  shows "evidence_kept x key found (wd_journal w')"
proof -
  obtain events where "wd_journal w' = foldl (journal_step x) (wd_journal w) events"
    using assms(1,2) unfolding performs_def by blast
  then show ?thesis
    using journaling.run_keeps [OF assms(4)] assms(3) by simp
qed

lemma performs_calls:
  assumes "performs x allowed m" and "m w = (p, w')" and "c \<in> set (wd_calls w')"
  shows "c \<in> set (wd_calls w) \<or> allowed c"
  using assms unfolding performs_def by (fastforce simp: list_all_iff)

lemma performs_quiet:
  assumes "performs x (\<lambda>_. False) m" and "m w = (p, w')"
  shows "wd_calls w' = wd_calls w"
proof -
  obtain cs where "wd_calls w' = wd_calls w @ cs" "list_all (\<lambda>_. False) cs"
    using assms unfolding performs_def by blast
  then show ?thesis
    by (cases cs) auto
qed

text \<open>A request a first part never makes was made by the part that follows it.\<close>

lemma made_later:
  assumes "then_do m f w = (p, w')" and "performs x (\<lambda>c'. c' \<noteq> c) m"
    and "c \<in> set (wd_calls w')" and "c \<notin> set (wd_calls w)"
  shows "\<exists>a w1. m w = (Ready (Inr a), w1) \<and> f a w1 = (p, w') \<and> c \<notin> set (wd_calls w1)"
proof -
  obtain q w1 where m: "m w = (q, w1)"
    by fastforce
  have "c \<notin> set (wd_calls w1)"
    using performs_calls [OF assms(2) m] assms(4) by blast
  then show ?thesis
    using m assms(1,3) by (cases q) (auto simp: then_do_def on_ready_def split: sum.splits)
qed

section \<open>No second upload after a version was pinned\<close>

lemma check_output_seen:
  assumes "check_output spec a s out = Some s'"
  shows "cu_request_id (ou_declaration out) \<notin> set (sn_requests s)"
    and "insert (cu_request_id (ou_declaration out)) (set (sn_requests s)) \<subseteq> set (sn_requests s')"
  using assms by (auto simp: check_output_def Let_def split: if_splits option.splits)

lemma check_outputs_distinct:
  "check_outputs spec a s outs \<Longrightarrow>
     distinct (map (\<lambda>u. cu_request_id (ou_declaration u)) outs)
     \<and> (\<forall>u \<in> set outs. cu_request_id (ou_declaration u) \<notin> set (sn_requests s))"
proof (induction outs arbitrary: s)
  case (Cons u us)
  then obtain s' where "check_output spec a s u = Some s'" "check_outputs spec a s' us"
    by (auto split: option.splits)
  then show ?case
    using Cons.IH [of s'] check_output_seen [of spec a s u s'] by fastforce
qed simp

lemma loaded_outputs_distinct:
  assumes "load_attempt x env key j = Inr (Some r)"
  shows "distinct (map (\<lambda>u. cu_request_id (ou_declaration u)) (ar_outputs r))"
proof -
  have "outputs_ok x r"
    using assms
    by (auto simp: load_attempt_def Record_validate_def record_ok_def split: if_splits sum.splits option.splits)
  then show ?thesis
    by (auto simp: outputs_ok_def dest!: check_outputs_distinct split: sum.splits)
qed

lemma find_by_key:
  assumes "find p xs = Some u" and "distinct (map key xs)" and "list_le le xs ys"
    and "\<And>a b. le a b \<Longrightarrow> p b = p a \<and> key b = key a"
  shows "\<exists>v. find p ys = Some v \<and> find (\<lambda>v. key v = key u) ys = Some v \<and> le u v"
  using assms(1-3)
proof (induction xs arbitrary: ys)
  case (Cons c xs)
  obtain d zs where ys: "ys = d # zs"
    using Cons.prems(3) by (cases ys) (auto simp: list_le_def)
  have all: "\<And>i. i < Suc (length xs) \<Longrightarrow> le ((c # xs) ! i) ((d # zs) ! i)" and "length xs \<le> length zs"
    using Cons.prems(3) by (simp_all add: list_le_def ys)
  then have le: "le c d" "list_le le xs zs"
    using all [of 0] all [of "Suc _"] by (simp_all add: list_le_def)
  show ?case
  proof (cases "p c")
    case True
    then show ?thesis
      using Cons.prems le(1) assms(4) [OF le(1)] by (simp add: ys)
  next
    case False
    then have u: "find p xs = Some u"
      using Cons.prems(1) by simp
    then have "u \<in> set xs"
      by (metis find_Some_iff nth_mem)
    then have "key d \<noteq> key u"
      using Cons.prems(2) assms(4) [OF le(1)] imageI [of u "set xs" key] by auto
    then show ?thesis
      using Cons.IH [OF u _ le(2)] Cons.prems(2) False assms(4) [OF le(1)] by (simp add: ys)
  qed
qed simp

lemma find_update_first:
  assumes "find p ys = Some v" and "find q ys = Some v" and "p (f v)"
  shows "find p (update_first q f ys) = Some (f v)"
proof -
  have "p v" "q v"
    using assms(1,2) by (auto simp: find_Some_iff)
  then show ?thesis
    using assms by (induction ys) (auto split: if_splits)
qed

lemma update_from_kept:
  assumes "journal_codec x" and "evidence_kept x key (Some r0) j" and "update_attempt x env key step j = (Inr q, j')"
    and "\<And>rec. record_le r0 rec \<Longrightarrow> step rec = Inr (None, q) \<Longrightarrow> P rec"
    and "\<And>rec rec'. record_le r0 rec \<Longrightarrow> step rec = Inr (Some rec', q) \<Longrightarrow> P rec'"
  shows "\<exists>r. P r \<and> evidence_kept x key (Some r) j'"
proof -
  let ?step = "\<lambda>rec. if record_le r0 rec then step rec else Inl J_Invalid"
  have "record_le r0 rec" if "required x (je_read env) key j = Inr rec" for rec
    using that same_record [OF assms(1,2)] by (fastforce simp: required_def split: option.splits)
  then have "and_then (required x (je_read env) key j) ?step = and_then (required x (je_read env) key j) step"
    by (cases "required x (je_read env) key j") simp_all
  then have u: "update_attempt x env key ?step j = (Inr q, j')"
    using assms(3) by (simp add: update_attempt_def)
  have "dir_sound (jn_directory j)"
    using assms(2) by (simp add: evidence_kept_def)
  then show ?thesis
    by (rule update_result_kept [OF assms(1) _ u]) (use assms(4,5) in \<open>auto split: if_splits\<close>)
qed

text \<open>A record in which the upload of an output has the given finalization.\<close>

definition pinned :: "string \<Rightarrow> finalize_upload_request \<Rightarrow> attempt_record \<Rightarrow> bool" where
  "pinned name q r \<longleftrightarrow>
     (\<exists>u. find (\<lambda>u. cu_name (ou_declaration u) = name) (ar_outputs r) = Some u \<and> ou_finalization u = Some q)"

lemma output_finalization_pins:
  assumes "find (\<lambda>u. cu_name (ou_declaration u) = name) (ar_outputs r0) = Some u"
    and "distinct (map (\<lambda>u. cu_request_id (ou_declaration u)) (ar_outputs r0))" and "record_le r0 rec"
  shows "output_finalization_step fill (cu_request_id (ou_declaration u)) obj rec = Inr (None, q) \<Longrightarrow> pinned name q rec"
    and "output_finalization_step fill (cu_request_id (ou_declaration u)) obj rec = Inr (Some rec', q) \<Longrightarrow> pinned name q rec'"
proof -
  have "list_le output_le (ar_outputs r0) (ar_outputs rec)"
    using assms(3) by (simp add: record_le_def)
  from find_by_key [OF assms(1,2) this] obtain v where v:
    "find (\<lambda>u. cu_name (ou_declaration u) = name) (ar_outputs rec) = Some v"
    "find (\<lambda>v. cu_request_id (ou_declaration v) = cu_request_id (ou_declaration u)) (ar_outputs rec) = Some v"
    by (auto simp: output_le_def)
  then have "cu_name (ou_declaration v) = name"
    by (metis (mono_tags, lifting) find_Some_iff)
  with v show "output_finalization_step fill (cu_request_id (ou_declaration u)) obj rec = Inr (None, q) \<Longrightarrow> pinned name q rec"
    "output_finalization_step fill (cu_request_id (ou_declaration u)) obj rec = Inr (Some rec', q) \<Longrightarrow> pinned name q rec'"
    by (auto simp: output_finalization_step_def Let_def pinned_def find_update_first split: option.splits if_splits)
qed

lemma async_load_Inr:
  assumes "task_err g (async_load x key) w = (Ready (Inr found), w')"
  shows "\<exists>env. load_attempt x env key (wd_journal w') = Inr found" "wd_calls w' = wd_calls w"
  using journal_apply_Inr [OF assms [unfolded task_err_Inr async_load_def]] by auto

lemma async_load_kept:
  assumes "task_err g (async_load x key) w = (Ready (Inr found), w')" and "journal_codec x" and "evidence_kept x key' r (wd_journal w)"
  shows "evidence_kept x key' r (wd_journal w')"
  using journal_apply_kept [OF assms(1) [unfolded task_err_Inr async_load_def] assms(2,3)] by auto

lemma async_load_sound:
  assumes "task_err g (async_load x key) w = (Ready (Inr found), w')" and "journal_codec x" and "dir_sound (jn_directory (wd_journal w))"
  shows "dir_sound (jn_directory (wd_journal w'))"
  using async_load_kept [OF assms(1,2), of "[]" None] assms(3) by (simp add: evidence_kept_def)

lemma output_request_pins:
  assumes "journal_codec x" and "evidence_kept x key (Some r0) (wd_journal w)"
    and "find (\<lambda>u. cu_name (ou_declaration u) = name) (ar_outputs r0) = Some u"
    and "distinct (map (\<lambda>u. cu_request_id (ou_declaration u)) (ar_outputs r0))"
    and "output_finalize_request x allow key source u w = (Ready (Inr q), w')"
  shows "\<exists>r. pinned name q r \<and> evidence_kept x key (Some r) (wd_journal w')"
proof (cases "ou_finalization u")
  case (Some q')
  then show ?thesis
    using assms(2,3,5) by (auto simp: output_finalize_request_def pinned_def)
next
  case None
  let ?d = "ou_declaration u"
  obtain grant obj w1 w2 w3 where run:
    "task_err Up_Control (create_task ?d) w = (Ready (Inr grant), w1)"
    "task_err Up_Journal (async_do x (\<lambda>env. record_output_grant x env ?d grant)) w1 = (Ready (Inr ()), w2)"
    "task_err Up_Transfer (put_task x allow ?d grant) w2 = (Ready (Inr obj), w3)"
    "async_do x (\<lambda>env. prepare_output_finalization x env key (cu_request_id ?d) obj) w3 = (Ready (Inr q), w')"
    using assms(5) None by (auto simp: output_finalize_request_def Let_def then_do_Inr task_err_Inr split: if_splits)
  have steps: "performs x (\<lambda>_. True) (task_err Up_Control (create_task ?d))"
    "performs x (\<lambda>_. True) (task_err Up_Journal (async_do x (\<lambda>env. record_output_grant x env ?d grant)))"
    "performs x (\<lambda>_. True) (task_err Up_Transfer (put_task x allow ?d grant))"
    by (intro performs_intro TrueI)+
  have kept: "evidence_kept x key (Some r0) (wd_journal w3)"
    by (rule performs_kept [OF steps(3) run(3) assms(1) performs_kept [OF steps(2) run(2) assms(1)
        performs_kept [OF steps(1) run(1) assms(1,2)]]])
  obtain env j where "evidence_kept x key (Some r0) j"
    "update_attempt x (env 0) key (output_finalization_step (je_fill (env 0)) (cu_request_id ?d) obj) j = (Inr q, wd_journal w')"
    using journal_apply_kept [OF run(4) [unfolded async_do_def] assms(1) kept] by (auto simp: prepare_output_finalization_def)
  then show ?thesis
    by (rule update_from_kept [OF assms(1)]) (erule (1) output_finalization_pins [OF assms(3,4)])+
qed

lemma deliver_output_after_pin:
  assumes "journal_codec x" and "evidence_kept x key (Some r) (wd_journal w)" and "pinned name q r"
    and "deliver_output x allow key name source w = (p, w')" and "c \<in> set (wd_calls w')"
  shows "c \<in> set (wd_calls w) \<or> c = Call_Finalize q"
proof (cases "\<exists>saved w1. task_err Up_Journal (async_load x key) w = (Ready (Inr (Some saved)), w1)")
  case True
  then obtain saved w1 where load: "task_err Up_Journal (async_load x key) w = (Ready (Inr (Some saved)), w1)"
    by blast
  then have le: "record_le r saved"
    using async_load_Inr(1) [OF load] same_record [OF assms(1) async_load_kept [OF load assms(1,2)]] by fastforce
  obtain u where u: "find (\<lambda>u. cu_name (ou_declaration u) = name) (ar_outputs r) = Some u" "ou_finalization u = Some q"
    using assms(3) by (auto simp: pinned_def)
  obtain v where v: "find (\<lambda>u. cu_name (ou_declaration u) = name) (ar_outputs saved) = Some v" "ou_finalization v = Some q"
    using find_list_le [OF u(1), of output_le "ar_outputs saved"] u(2) le
    by (auto simp: record_le_def output_le_def once_some_def)
  let ?rest = "case ou_response v of Some response \<Rightarrow> give (Inr response)
    | None \<Rightarrow> then_do (output_finalize_request x allow key source v) (\<lambda>q.
        then_do (task_err Up_Control (finalize_task q)) (\<lambda>response.
        then_do (task_err Up_Journal (async_do x (\<lambda>env. record_output_response x env q response))) (\<lambda>_. give (Inr response))))"
  have "?rest w1 = (p, w')"
    using assms(4) load v(1) by (simp add: deliver_output_def then_do_def on_ready_def)
  moreover have "performs x (\<lambda>c. c = Call_Finalize q) ?rest"
  proof (cases "ou_response v")
    case None
    have "then_do (output_finalize_request x allow key source v) f = f q" for f :: "_ \<Rightarrow> (upload_error, finalize_upload_response) task"
      using v(2) by (auto simp: output_finalize_request_def then_do_def on_ready_def fun_eq_iff)
    then show ?thesis
      using None by (auto intro!: performs_intro)
  qed (auto intro: performs_intro)
  ultimately show ?thesis
    using performs_calls [of x _ ?rest w1 p w' c] assms(5) async_load_Inr(2) [OF load] by auto
next
  case False
  then have "wd_calls w' = wd_calls w"
  proof -
    have "wd_calls w1 = wd_calls w" if "task_err Up_Journal (async_load x key) w = (s, w1)" for s w1
      using performs_quiet [OF performs_task_err [OF async_load_operation] that] .
    then show ?thesis
      using False assms(4)
      by (auto simp: deliver_output_def then_do_def on_ready_def split: prod.splits poll.splits sum.splits option.splits)
  qed
  then show ?thesis
    using assms(5) by simp
qed

lemma deliver_output_pins:
  assumes "journal_codec x" and "dir_sound (jn_directory (wd_journal w))" and "wd_calls w = []"
    and "deliver_output x allow key name source w = (p, w')" and "Call_Finalize q \<in> set (wd_calls w')"
  shows "\<exists>r. pinned name q r \<and> evidence_kept x key (Some r) (wd_journal w')"
proof -
  let ?c = "Call_Finalize q"
  obtain found w1 where load: "task_err Up_Journal (async_load x key) w = (Ready (Inr found), w1)"
    and rest: "(case found of None \<Rightarrow> give (Inl (Up_Journal J_Invalid))
       | Some saved \<Rightarrow>
           (case find (\<lambda>u. cu_name (ou_declaration u) = name) (ar_outputs saved) of
              None \<Rightarrow> give (Inl (Up_Journal J_Invalid))
            | Some upload \<Rightarrow>
                (case ou_response upload of
                   Some response \<Rightarrow> give (Inr response)
                 | None \<Rightarrow>
                     then_do (output_finalize_request x allow key source upload) (\<lambda>q.
                     then_do (task_err Up_Control (finalize_task q)) (\<lambda>response.
                     then_do (task_err Up_Journal (async_do x (\<lambda>env. record_output_response x env q response))) (\<lambda>_.
                     give (Inr response))))))) w1 = (p, w')"
    and none: "?c \<notin> set (wd_calls w1)"
    using made_later [OF assms(4) [unfolded deliver_output_def] performs_task_err [OF async_load_operation] assms(5)] assms(3) by auto
  obtain saved u where saved: "found = Some saved" "find (\<lambda>u. cu_name (ou_declaration u) = name) (ar_outputs saved) = Some u"
    and run: "then_do (output_finalize_request x allow key source u) (\<lambda>q.
         then_do (task_err Up_Control (finalize_task q)) (\<lambda>response.
         then_do (task_err Up_Journal (async_do x (\<lambda>env. record_output_response x env q response))) (\<lambda>_.
         give (Inr response)))) w1 = (p, w')"
    using rest none assms(5) by (auto split: option.splits)
  have request: "performs x (\<lambda>c'. c' \<noteq> ?c) (output_finalize_request x allow key source u)"
    unfolding output_finalize_request_def Let_def by (auto intro!: performs_intro split: option.split)
  obtain q' w2 where q': "output_finalize_request x allow key source u w1 = (Ready (Inr q'), w2)" "?c \<notin> set (wd_calls w2)"
    and final: "then_do (task_err Up_Control (finalize_task q')) (\<lambda>response.
         then_do (task_err Up_Journal (async_do x (\<lambda>env. record_output_response x env q' response))) (\<lambda>_.
         give (Inr response))) w2 = (p, w')" (is "?final w2 = _")
    using made_later [OF run request assms(5) none] by blast
  have only: "performs x (\<lambda>c'. c' = Call_Finalize q') ?final"
    by (intro performs_intro) simp
  have "q' = q"
    using performs_calls [OF only final assms(5)] q'(2) by simp
  moreover obtain env where "load_attempt x env key (wd_journal w1) = Inr (Some saved)"
    using async_load_Inr(1) [OF load] saved(1) by auto
  then have "evidence_kept x key (Some saved) (wd_journal w1)"
    "distinct (map (\<lambda>u. cu_request_id (ou_declaration u)) (ar_outputs saved))"
    using loaded_kept [OF assms(1)] async_load_sound [OF load assms(1,2)] loaded_outputs_distinct by simp_all
  ultimately obtain r where "pinned name q r" "evidence_kept x key (Some r) (wd_journal w2)"
    using output_request_pins [OF assms(1) _ saved(2) _ q'(1)] by blast
  then show ?thesis
    using performs_kept [OF only final assms(1)] by blast
qed

text \<open>C3. Once the server has been asked to finalize the upload of an output, nothing is
  uploaded for it again: every later delivery of the same output, after any journal
  operations, restarts and power failures, asks for nothing but the very same finalization.
  A lost reply never leads to another PUT, which would create another object version.\<close>

theorem finalize_ends_uploading:
  assumes "journal_codec x" and "intact dir" and "Journal_open x env worker limits dir = (Inr j0, dir')"
    and "wd_journal w0 = foldl (journal_step x) j0 before" and "wd_calls w0 = []"
    and "deliver_output x allow key name source w0 = (p, w1)" and "Call_Finalize q \<in> set (wd_calls w1)"
    and "wd_journal w2 = foldl (journal_step x) (wd_journal w1) after" and "wd_calls w2 = []"
    and "deliver_output x allow' key name source' w2 = (p', w3)"
  shows "set (wd_calls w3) \<subseteq> {Call_Finalize q}"
proof -
  have "dir_sound (jn_directory (wd_journal w0))"
    using history_sound [OF assms(1-3)] assms(4) by simp
  then obtain r where r: "pinned name q r" "evidence_kept x key (Some r) (wd_journal w1)"
    using deliver_output_pins [OF assms(1) _ assms(5-7)] by blast
  then have "evidence_kept x key (Some r) (wd_journal w2)"
    using journaling.run_keeps [OF r(2)] assms(1,8) by simp
  then show ?thesis
    using deliver_output_after_pin [OF assms(1) _ r(1) assms(10)] assms(9) by auto
qed

section \<open>An acknowledged completion stays acknowledged\<close>

lemma loaded_completion_key:
  assumes "load_attempt x env key j = Inr (Some r)" and "ar_completion r = Some q"
  shows "\<exists>a. ca_authority q = Some a \<and> aa_attempt_id a = key"
proof -
  have "record_ok x r (jn_worker_id j) key"
    using assms(1) by (auto simp: load_attempt_def Record_validate_def split: if_splits sum.splits option.splits)
  then show ?thesis
    using assms(2) by (auto simp: record_ok_def completion_ok_def split: option.splits)
qed

lemma recorded_reply_kept:
  assumes "journal_codec x" and "dir_sound (jn_directory j)" and "cc_decision reply \<noteq> decision_i32 StopRequested"
    and "ca_authority q = Some a" and "record_completion_response x env q reply j = (Inr (), j')"
  shows "\<exists>r. final_reply r = Some reply \<and> evidence_kept x (aa_attempt_id a) (Some r) j'"
proof -
  have "update_attempt x env (aa_attempt_id a) (completion_response_step x q reply) j = (Inr (), j')"
    using assms(4,5) by (simp add: record_completion_response_def)
  then show ?thesis
    by (rule update_result_kept [OF assms(1,2)])
      (use assms(3) in \<open>auto simp: completion_response_step_def final_reply_def split: if_splits\<close>)
qed

lemma deliver_pending_reply_kept:
  assumes "journal_codec x" and "dir_sound (jn_directory (wd_journal w))" and "cc_decision reply \<noteq> decision_i32 StopRequested"
    and "deliver_pending x key w = (Ready (Inr (Some reply)), w')"
  shows "\<exists>r. final_reply r = Some reply \<and> evidence_kept x key (Some r) (wd_journal w')"
proof -
  obtain found w1 where load: "task_err De_Journal (async_load x key) w = (Ready (Inr found), w1)"
    and rest: "(case found of
         None \<Rightarrow> give (Inl (De_Journal J_Invalid))
       | Some saved \<Rightarrow>
           (case ar_completion saved of
              None \<Rightarrow> give (Inr None)
            | Some q \<Rightarrow>
                if is_some_and (\<lambda>reply. cc_decision reply \<noteq> decision_i32 StopRequested) (ar_completion_response saved)
                then give (Inr (ar_completion_response saved))
                else then_do (task_err De_Control (complete_task x q)) (\<lambda>status.
                  let reply = \<lparr>cc_decision = decision_i32 (cs_decision status), cc_state = state_i32 (completion_status.cs_state status),
                               cc_accepted_manifest_json = cs_accepted_manifest_json status\<rparr>
                  in then_do (task_err De_Journal (async_do x (\<lambda>env. record_completion_response x env q reply))) (\<lambda>_.
                     give (Inr (Some reply)))))) w1 = (Ready (Inr (Some reply)), w')"
    using assms(4) unfolding deliver_pending_def then_do_Inr by blast
  obtain saved q where saved: "found = Some saved" "ar_completion saved = Some q"
    using rest by (auto simp: give_def split: option.splits)
  obtain env where "load_attempt x env key (wd_journal w1) = Inr (Some saved)"
    using async_load_Inr(1) [OF load] saved(1) by auto
  then have start: "evidence_kept x key (Some saved) (wd_journal w1)" and key: "\<exists>a. ca_authority q = Some a \<and> aa_attempt_id a = key"
    using loaded_kept [OF assms(1)] async_load_sound [OF load assms(1,2)] loaded_completion_key saved(2) by auto
  show ?thesis
  proof (cases "is_some_and (\<lambda>reply. cc_decision reply \<noteq> decision_i32 StopRequested) (ar_completion_response saved)")
    case True
    then have "final_reply saved = Some reply" "w' = w1"
      using rest saved assms(3) by (auto simp: give_def final_reply_def)
    then show ?thesis
      using start by auto
  next
    case False
    then obtain status w2 where sent: "task_err De_Control (complete_task x q) w1 = (Ready (Inr status), w2)"
      and saved: "async_do x (\<lambda>env. record_completion_response x env q reply) w2 = (Ready (Inr ()), w')"
      using rest saved by (auto simp: then_do_Inr task_err_Inr Let_def give_def)
    have "performs x (\<lambda>_. True) (task_err De_Control (complete_task x q))"
      by (intro performs_intro TrueI)
    then have "evidence_kept x key (Some saved) (wd_journal w2)"
      using performs_kept sent assms(1) start by blast
    then have "dir_sound (jn_directory (wd_journal w2))"
      by (simp add: evidence_kept_def)
    then show ?thesis
      using journal_apply_sound [OF saved [unfolded async_do_def] assms(1)] recorded_reply_kept [OF assms(1) _ assms(3)] key by blast
  qed
qed

text \<open>C9. When the delivery of a completion returns a final reply of the server, that reply
  is durable: every later successful read of the attempt, after any journal operations,
  restarts and power failures, finds exactly it, so no caller can discard evidence whose
  acknowledgement a crash could still lose.\<close>

theorem delivered_reply_is_durable:
  assumes "journal_codec x" and "intact dir" and "Journal_open x env worker limits dir = (Inr j0, dir')"
    and "wd_journal w0 = foldl (journal_step x) j0 before"
    and "deliver_pending x key w0 = (Ready (Inr (Some reply)), w1)" and "cc_decision reply \<noteq> decision_i32 StopRequested"
    and "load_attempt x renv key (foldl (journal_step x) (wd_journal w1) after) = Inr found"
  shows "\<exists>rec. found = Some rec \<and> ar_completion_response rec = Some reply"
proof -
  have "dir_sound (jn_directory (wd_journal w0))"
    using history_sound [OF assms(1-3)] assms(4) by simp
  then obtain r where r: "final_reply r = Some reply" "evidence_kept x key (Some r) (wd_journal w1)"
    using deliver_pending_reply_kept [OF assms(1) _ assms(6,5)] by blast
  then have "evidence_kept x key (Some r) (foldl (journal_step x) (wd_journal w1) after)"
    using journaling.run_keeps [OF r(2)] assms(1) by simp
  then obtain rec where "found = Some rec" "record_le r rec"
    using same_record [OF assms(1) _ assms(7)] by blast
  then show ?thesis
    using r(1) by (auto simp: record_le_def once_some_def final_reply_def split: option.splits if_splits)
qed

section \<open>Examples\<close>

definition sample_delivery_externals :: "attempt_record \<Rightarrow> transfer_externals" where
  "sample_delivery_externals attempt =
     \<lparr>x_sha256 = (\<lambda>_. replicate 32 0), x_parse = (\<lambda>b. if b = [1] then Some sample_job_json else None), x_print = (\<lambda>_. []),
      x_parse_url = (\<lambda>_. None), x_ip_loopback = (\<lambda>_. False), x_tar = (\<lambda>_. []),
      x_encode_record = sample_encode attempt, x_decode_record = sample_decode attempt,
      x_encode_session = sample_encode sample_session, x_decode_session = sample_decode sample_session,
      x_url_port = (\<lambda>_. None), x_header_name = (\<lambda>_. None), x_header_value = (\<lambda>_. True)\<rparr>"

lemma sample_delivery_codec: "journal_codec (sample_delivery_externals attempt)"
  by (simp add: journal_codec_def sample_delivery_externals_def)

lemmas sample_delivery_sha = sample_delivery_codec [unfolded journal_codec_def, THEN conjunct2]

abbreviation sample_delivery_journal :: "attempt_record \<Rightarrow> journal" where
  "sample_delivery_journal attempt \<equiv> sample_journal (sample_delivery_externals attempt)"

lemma sample_delivery_loaded:
  assumes "Record_validate (sample_delivery_externals attempt) attempt (fixture_uuid CHR ''1'') (fixture_uuid CHR ''4'') = Inr ()"
  shows "load_attempt (sample_delivery_externals attempt) quiet_read (fixture_uuid CHR ''4'') (sample_delivery_journal attempt)
    = Inr (Some attempt)"
  using sample_loaded_record [OF sample_delivery_sha _ _ assms]
  by (simp add: sample_delivery_externals_def sample_decode_def sample_encode_def)

lemma sample_delivery_load:
  assumes "load_attempt x quiet_read key (wd_journal w) = Inr (Some attempt)"
    and "wd_answers w = Ans_Journal [] (\<lambda>_. quiet_journal_env) # rest"
  shows "task_err g (async_load x key) w = (Ready (Inr (Some attempt)), w\<lparr>wd_answers := rest\<rparr>)"
  using assms by (simp add: task_err_def on_ready_def async_load_def journal_apply_def then_do_def await_def quiet_journal_env_def)

lemma sample_finalize_dropped:
  assumes "wd_answers w = []"
  shows "task_err g (finalize_task sample_finalize) w = (Dropped, w\<lparr>wd_calls := wd_calls w @ [Call_Finalize sample_finalize]\<rparr>)"
  using assms by (simp add: task_err_def on_ready_def finalize_task_def rpc_task_def sample_finalize_valid then_do_def request_def await_def)

lemma sample_delivery_run:
  assumes "load_attempt x quiet_read key (wd_journal w) = Inr (Some sample_attempt)"
    and "wd_answers w = [Ans_Journal [] (\<lambda>_. quiet_journal_env)]"
  shows "deliver_output x allow key ''a'' source w
    = (Dropped, w\<lparr>wd_answers := [], wd_calls := wd_calls w @ [Call_Finalize sample_finalize]\<rparr>)"
proof -
  have "find (\<lambda>u. cu_name (ou_declaration u) = ''a'') (ar_outputs sample_attempt) = Some sample_output_upload"
    "ou_response sample_output_upload = None" "ou_finalization sample_output_upload = Some sample_finalize"
    by (simp_all add: sample_attempt_def sample_output_upload_def sample_output_declaration_def)
  then show ?thesis
    by (simp add: deliver_output_def then_do_def [of "task_err _ (async_load _ _)"] on_ready_def sample_delivery_load [OF assms]
        output_finalize_request_def) (simp add: then_do_def on_ready_def sample_finalize_dropped)
qed

theorem finalize_ends_uploading_witness:
  "\<exists>p w1 p' w3. deliver_output (sample_delivery_externals sample_attempt) False (fixture_uuid CHR ''4'') ''a'' True
       \<lparr>wd_journal = sample_delivery_journal sample_attempt, wd_answers = [Ans_Journal [] (\<lambda>_. quiet_journal_env)], wd_calls = []\<rparr>
     = (p, w1)
   \<and> wd_calls w1 = [Call_Finalize sample_finalize]
   \<and> deliver_output (sample_delivery_externals sample_attempt) False (fixture_uuid CHR ''4'') ''a'' True
       \<lparr>wd_journal = journal_step (sample_delivery_externals sample_attempt) (wd_journal w1) sample_restart,
        wd_answers = [Ans_Journal [] (\<lambda>_. quiet_journal_env)], wd_calls = []\<rparr>
     = (p', w3)
   \<and> wd_calls w3 = [Call_Finalize sample_finalize] \<and> set (wd_calls w3) \<subseteq> {Call_Finalize sample_finalize}"
proof -
  let ?x = "sample_delivery_externals sample_attempt" and ?j = "sample_delivery_journal sample_attempt"
  let ?w = "\<lparr>wd_journal = ?j, wd_answers = [Ans_Journal [] (\<lambda>_. quiet_journal_env)], wd_calls = []\<rparr>"
  let ?w1 = "\<lparr>wd_journal = ?j, wd_answers = [], wd_calls = [Call_Finalize sample_finalize]\<rparr>"
  have "Record_validate ?x sample_attempt (fixture_uuid CHR ''1'') (fixture_uuid CHR ''4'') = Inr ()"
    by (rule sample_attempt_ok) (simp_all add: sample_delivery_externals_def)
  then have run: "deliver_output ?x False (fixture_uuid CHR ''4'') ''a'' True ?w = (Dropped, ?w1)"
    using sample_delivery_run [of ?x _ ?w] sample_delivery_loaded by simp
  have reopened: "journal_step ?x ?j sample_restart = ?j"
    by (rule sample_restarted_with) (rule sample_delivery_sha)
  have "set (wd_calls ?w1) \<subseteq> {Call_Finalize sample_finalize}"
    by (rule finalize_ends_uploading [where before = "[]" and after = "[sample_restart]" and ?w0.0 = ?w and ?w2.0 = ?w,
          OF sample_delivery_codec sample_dir_intact sample_opened [OF sample_delivery_sha] _ _ run _ _ _ run])
      (simp_all add: reopened)
  then show ?thesis
    using run reopened by simp
qed

definition sample_reply :: complete_attempt_response where
  "sample_reply = \<lparr>cc_decision = decision_i32 Fenced, cc_state = state_i32 Running, cc_accepted_manifest_json = []\<rparr>"

definition sample_completed :: attempt_record where
  "sample_completed = sample_attempt\<lparr>ar_completion := Some sample_completion, ar_completion_response := Some sample_reply\<rparr>"

lemma sample_completed_ok:
  "Record_validate (sample_delivery_externals r) sample_completed (fixture_uuid CHR ''1'') (fixture_uuid CHR ''4'') = Inr ()"
proof -
  let ?x = "sample_delivery_externals r"
  have "record_ok ?x sample_attempt (fixture_uuid CHR ''1'') (fixture_uuid CHR ''4'')"
    using sample_attempt_ok [of ?x] by (simp add: Record_validate_def sample_delivery_externals_def split: if_splits)
  moreover have "check_phases sample_completed a n m es ps = check_phases sample_attempt a n m es ps" for a n m es ps
    by (induction sample_attempt a n m es ps rule: check_phases.induct) (simp_all add: sample_completed_def exit_code_of_def)
  moreover have "completion_ok ?x sample_completed"
  proof -
    have "ca_payload_sha256 sample_completion = hex (replicate 32 0)"
      by (simp only: sample_completion_def complete_attempt_request.simps)
    moreover have "completion_digest ?x sample_completion = Inr (hex (replicate 32 0))"
      by (rule sample_digest_with) (simp add: sample_delivery_externals_def)
    ultimately have "validate_completion_request ?x sample_completion = Inr ()"
      using lower_hash_hex [of "replicate 32 0"] by (simp only: validate_completion_request_def and_then_simps) simp
    moreover have "is_ok (validate_completion_response ?x sample_completion sample_reply)"
      by (simp add: validate_completion_response_def sample_reply_def sample_completion_def reason_of_def decision_of_def state_of_def is_active_def)
    ultimately show ?thesis
      by (simp add: completion_ok_def superseded_ok_def sample_completed_def sample_attempt_def)
        (simp add: sample_completion_def sample_assignment_def exit_code_of_def last_phase_def sample_phase_def)
  qed
  moreover have "ar_assignment sample_completed = ar_assignment sample_attempt" "ar_outputs sample_completed = ar_outputs sample_attempt"
    "ar_logs sample_completed = ar_logs sample_attempt" "ar_phase_reports sample_completed = ar_phase_reports sample_attempt"
    "ar_container_id sample_completed = ar_container_id sample_attempt" "ar_exit sample_completed = ar_exit sample_attempt"
    by (simp_all add: sample_completed_def)
  ultimately show ?thesis
    unfolding Record_validate_def record_ok_def outputs_ok_def logs_ok_def last_phase_def
    by (simp only: split: option.splits) simp
qed

theorem delivered_reply_is_durable_witness:
  "deliver_pending (sample_delivery_externals sample_completed) (fixture_uuid CHR ''4'')
       \<lparr>wd_journal = sample_delivery_journal sample_completed, wd_answers = [Ans_Journal [] (\<lambda>_. quiet_journal_env)], wd_calls = []\<rparr>
     = (Ready (Inr (Some sample_reply)), \<lparr>wd_journal = sample_delivery_journal sample_completed, wd_answers = [], wd_calls = []\<rparr>)
   \<and> (\<exists>rec. load_attempt (sample_delivery_externals sample_completed) quiet_read (fixture_uuid CHR ''4'')
          (journal_step (sample_delivery_externals sample_completed) (sample_delivery_journal sample_completed) sample_restart)
        = Inr (Some rec) \<and> ar_completion_response rec = Some sample_reply)"
proof -
  let ?x = "sample_delivery_externals sample_completed" and ?j = "sample_delivery_journal sample_completed"
  let ?w = "\<lparr>wd_journal = ?j, wd_answers = [Ans_Journal [] (\<lambda>_. quiet_journal_env)], wd_calls = []\<rparr>"
  have load: "load_attempt ?x quiet_read (fixture_uuid CHR ''4'') ?j = Inr (Some sample_completed)"
    by (rule sample_delivery_loaded) (rule sample_completed_ok)
  then have run: "deliver_pending ?x (fixture_uuid CHR ''4'') ?w = (Ready (Inr (Some sample_reply)), ?w\<lparr>wd_answers := []\<rparr>)"
    by (simp add: deliver_pending_def then_do_def on_ready_def sample_delivery_load)
      (simp add: sample_completed_def sample_reply_def)
  have again: "load_attempt ?x quiet_read (fixture_uuid CHR ''4'') (foldl (journal_step ?x) (wd_journal (?w\<lparr>wd_answers := []\<rparr>)) [sample_restart])
      = Inr (Some sample_completed)"
    using load by (simp add: sample_restarted_with [OF sample_delivery_sha])
  have "\<exists>rec. Some sample_completed = Some rec \<and> ar_completion_response rec = Some sample_reply"
    by (rule delivered_reply_is_durable [where before = "[]", OF sample_delivery_codec sample_dir_intact
          sample_opened [OF sample_delivery_sha] _ run _ again]) (simp_all add: sample_reply_def)
  then show ?thesis
    using run again by simp
qed

end
