(* ===== verification/Journal_Scenario.thy ===== *)
theory Journal_Scenario
  imports Journal_History
begin

text \<open>
  A journal for the examples of the components that use it: one attempt and the session of
  the worker, with a codec that numbers the records of a table. Every operation below runs
  on the model of the files, writes included.
\<close>

section \<open>A codec for a table of records\<close>

definition table_encode :: "'a::countable list \<Rightarrow> 'a \<Rightarrow> u8 list" where
  "table_encode rs r =
     (case find (\<lambda>i. rs ! i = r) [0..<length rs] of
        Some i \<Rightarrow> replicate i 0
      | None \<Rightarrow> replicate (length rs + to_nat r) 0)"

definition table_decode :: "'a::countable list \<Rightarrow> u8 list \<Rightarrow> 'a option" where
  "table_decode rs bytes = Some (if length bytes < length rs then rs ! length bytes else from_nat (length bytes - length rs))"

lemma table_codec [simp]: "table_decode rs (table_encode rs r) = Some r"
  by (auto simp: table_encode_def table_decode_def find_Some_iff split: option.split)

lemma table_encode_nth:
  assumes "distinct rs" and "i < length rs"
  shows "table_encode rs (rs ! i) = replicate i 0"
proof -
  have "find (\<lambda>j. rs ! j = rs ! i) [0..<length rs] = Some i"
    unfolding find_Some_iff using assms by (intro exI [of _ i]) (auto simp: nth_eq_iff_index_eq)
  then show ?thesis
    by (simp add: table_encode_def)
qed

section \<open>The journal\<close>

definition scene_entries :: "'x externals_scheme \<Rightarrow> u8 list option \<Rightarrow> u8 list \<Rightarrow> entries" where
  "scene_entries x session attempt =
     [(''.lock'', \<lparr>jf_meta = private_file, jf_bytes = [], jf_synced = True\<rparr>),
      (''.identity'', sample_file x (as_bytes (fixture_uuid CHR ''1''))),
      (attempt_name (fixture_uuid CHR ''4''), sample_file x attempt)]
     @ (case session of None \<Rightarrow> [] | Some s \<Rightarrow> [(''.session'', sample_file x s)])"

definition scene_directory :: "'x externals_scheme \<Rightarrow> u8 list option \<Rightarrow> u8 list \<Rightarrow> directory" where
  "scene_directory x session attempt =
     \<lparr>dy_dir = \<lparr>jd_entries = scene_entries x session attempt, jd_durable = scene_entries x session attempt\<rparr>,
      dy_limits = JournalLimits_default, dy_poisoned = False\<rparr>"

definition scene :: "'x externals_scheme \<Rightarrow> u8 list option \<Rightarrow> u8 list \<Rightarrow> string option \<Rightarrow> journal" where
  "scene x session attempt incarnation =
     \<lparr>jn_directory = scene_directory x session attempt, jn_worker_id = fixture_uuid CHR ''1'', jn_incarnation = incarnation\<rparr>"

lemma scene_start: "sample_journal x = scene x None [] None"
  by (simp add: sample_journal_def scene_def scene_directory_def scene_entries_def sample_dir_def sample_entries_def)

lemma scene_map_of:
  "map_of (scene_entries x session attempt) (attempt_name (fixture_uuid CHR ''4'')) = Some (sample_file x attempt)"
  "map_of (scene_entries x session attempt) ''.session'' = map_option (sample_file x) session"
  "map_of (scene_entries x session attempt) ''.pending'' = None"
  by (simp_all add: scene_entries_def split: option.split)

lemma scene_update:
  "AList.update (attempt_name (fixture_uuid CHR ''4'')) (sample_file x attempt') (scene_entries x session attempt)
     = scene_entries x session attempt'"
  "AList.update ''.session'' (sample_file x s) (scene_entries x session attempt) = scene_entries x (Some s) attempt"
  by (simp_all add: scene_entries_def split: option.split)

lemma scene_read:
  assumes "\<forall>b. length (x_sha256 x b) = 32" and "length p \<le> 100"
  shows "map_of (scene_entries x session attempt) name = Some (sample_file x p)
    \<Longrightarrow> read_record x quiet_read name (scene_directory x session attempt) = Inr (Some p)"
  using sample_file_read [OF assms(1), of p] assms(2)
  by (simp add: read_record_def quiet_read_def scene_directory_def max_payload_def) (simp add: sample_file_def)

lemma scene_file_len:
  assumes "\<forall>b. length (x_sha256 x b) = 32"
  shows "file_len (sample_file x p) = word_of_nat (48 + length p)"
  using assms by (simp add: file_len_def sample_file_def encode_frame_def journal_magic_def as_bytes_def)

lemma scene_lengths:
  assumes "n \<le> 100"
  shows "unat (word_of_nat (48 + n) :: u64) = 48 + n" and "\<not> word_of_nat (max_payload + header_len) < (word_of_nat (48 + n) :: u64)"
    and "\<not> word_of_nat (max_session + header_len) < (word_of_nat (48 + n) :: u64)"
    and "\<not> jl_max_bytes JournalLimits_default < (word_of_nat (48 + n) :: u64)"
proof -
  show len: "unat (word_of_nat (48 + n) :: u64) = 48 + n"
    using assms by (simp add: unat_of_nat del: of_nat_add)
  show "\<not> word_of_nat (max_payload + header_len) < (word_of_nat (48 + n) :: u64)"
    "\<not> word_of_nat (max_session + header_len) < (word_of_nat (48 + n) :: u64)"
    "\<not> jl_max_bytes JournalLimits_default < (word_of_nat (48 + n) :: u64)"
    unfolding word_less_nat_alt len using assms
    by (simp_all add: max_payload_def max_session_def header_len_def JournalLimits_default_def)
qed

lemma scene_inventory:
  assumes "\<forall>b. length (x_sha256 x b) = 32" and "length attempt \<le> 100" and "\<forall>s. session = Some s \<longrightarrow> length s \<le> 100"
  shows "inventory (scene_directory x session attempt) quiet_listing
    = Inr [(fixture_uuid CHR ''4'', word_of_nat (48 + length attempt))]"
proof -
  have "\<not> jl_max_attempts JournalLimits_default < 1"
    by (simp add: JournalLimits_default_def)
  moreover have "metadata_safe (jf_meta (sample_file x p)) False = Inr ()" for p
    by (simp add: sample_file_def)
  moreover have "checked_add 0 w = Some w" for w :: u64
    using unsigned_less [of w] by (simp add: checked_add_def)
  ultimately show ?thesis
    using assms(2,3) scene_lengths
    by (cases session) (simp_all add: inventory_def scene_directory_def scene_entries_def quiet_listing_def io_fails_def
        scene_file_len [OF assms(1)] Let_def del: of_nat_add)
qed

lemma scene_write:
  assumes "\<forall>b. length (x_sha256 x b) = 32" and "length attempt \<le> 100" and "\<forall>s. session = Some s \<longrightarrow> length s \<le> 100"
    and "length p \<le> 100"
  shows "write_record x quiet_write ''.session'' p (scene_directory x session attempt) = (Inr (), scene_directory x (Some p) attempt)"
    and "write_record x quiet_write (attempt_name (fixture_uuid CHR ''4'')) p (scene_directory x session attempt)
      = (Inr (), scene_directory x session p)"
proof -
  have same: "AList.delete ''.pending'' (AList.update ''.pending'' f (scene_entries x session attempt)) = scene_entries x session attempt" for f
    by (simp add: scene_entries_def split: option.split)
  have replaced: "replace x None name p (dy_dir (scene_directory x session attempt))
      = (Inr (), \<lparr>jd_entries = AList.update name (sample_file x p) (scene_entries x session attempt),
                  jd_durable = AList.update name (sample_file x p) (scene_entries x session attempt)\<rparr>)" for name
    using scene_map_of(3) by (simp add: replace_def Let_def scene_directory_def put_file_def remove_name_def same sync_directory_def)
      (simp add: sample_file_def)
  show "write_record x quiet_write ''.session'' p (scene_directory x session attempt) = (Inr (), scene_directory x (Some p) attempt)"
    using scene_inventory [OF assms(1-3)] assms(4) replaced
    by (simp add: write_record_def quiet_write_def over_limits_def strip_suffix_def max_payload_def scene_update)
      (simp add: scene_directory_def)
  show "write_record x quiet_write (attempt_name (fixture_uuid CHR ''4'')) p (scene_directory x session attempt)
      = (Inr (), scene_directory x session p)"
  proof -
    have "(word_of_nat (length p + header_len) :: u64) = word_of_nat (48 + length p)"
      by (simp add: header_len_def)
    then have "\<not> over_limits JournalLimits_default [(fixture_uuid CHR ''4'', word_of_nat (48 + length attempt))]
        (attempt_name (fixture_uuid CHR ''4'')) p"
      using scene_lengths(4) [OF assms(4)] by (simp add: over_limits_def Let_def del: of_nat_add)
    then show ?thesis
      using scene_inventory [OF assms(1-3)] assms(4) replaced
      by (simp add: write_record_def quiet_write_def max_payload_def scene_update del: of_nat_add)
        (simp add: scene_directory_def)
  qed
qed

section \<open>Operations of the journal\<close>

text \<open>A record whose encoding the scene holds.\<close>

definition scene_record :: "'x journal_externals_scheme \<Rightarrow> attempt_record \<Rightarrow> bool" where
  "scene_record x rec \<longleftrightarrow>
     journal_codec x \<and> length (x_encode_record x rec) \<le> 100
     \<and> Record_validate x rec (fixture_uuid CHR ''1'') (fixture_uuid CHR ''4'') = Inr ()"

lemma scene_load:
  assumes "scene_record x rec"
  shows "load_attempt x quiet_read (fixture_uuid CHR ''4'') (scene x session (x_encode_record x rec) incarnation) = Inr (Some rec)"
proof -
  have "\<forall>b. length (x_sha256 x b) = 32" "x_decode_record x (x_encode_record x rec) = Some rec" "length (x_encode_record x rec) \<le> 100"
    using assms by (simp_all add: scene_record_def journal_codec_def)
  moreover from this have "read_record x quiet_read (attempt_name (fixture_uuid CHR ''4''))
      (scene_directory x session (x_encode_record x rec)) = Inr (Some (x_encode_record x rec))"
    by (intro scene_read scene_map_of(1))
  ultimately show ?thesis
    using assms by (simp add: load_attempt_def scene_def scene_record_def)
qed

lemma scene_save:
  assumes "scene_record x rec" and "length attempt \<le> 100" and "\<forall>s. session = Some s \<longrightarrow> length s \<le> 100"
  shows "save x quiet_write (fixture_uuid CHR ''4'') rec (scene x session attempt incarnation)
    = (Inr (), scene x session (x_encode_record x rec) incarnation)"
proof -
  have size: "\<forall>b. length (x_sha256 x b) = 32" "length (x_encode_record x rec) \<le> 100"
    using assms(1) by (simp_all add: scene_record_def journal_codec_def)
  show ?thesis
    using scene_write(2) [OF size(1) assms(2,3) size(2)] assms(1) size(2)
    by (simp add: save_def scene_def scene_record_def max_payload_def)
qed

lemma scene_update_attempt:
  assumes "scene_record x rec" and "scene_record x rec'" and "\<forall>s. session = Some s \<longrightarrow> length s \<le> 100"
    and "step rec = Inr (Some rec', q)"
  shows "update_attempt x quiet_journal_env (fixture_uuid CHR ''4'') step (scene x session (x_encode_record x rec) incarnation)
    = (Inr q, scene x session (x_encode_record x rec') incarnation)"
  using scene_load [OF assms(1)] scene_save [OF assms(2) _ assms(3)] assms(1,4)
  by (simp add: update_attempt_def required_def quiet_journal_env_def scene_record_def)

text \<open>The session of the worker: begun, then registered.\<close>

definition scene_claims :: register_worker_request where
  "scene_claims =
     \<lparr>rw_worker_id = fixture_uuid CHR ''1'', rw_request_id = [], rw_requested_session_id = [],
      rw_protocol_version = protocol_version,
      rw_allocatable = Some \<lparr>wr_cpu_millis = 1000, wr_memory_bytes = 2 ^ 30, wr_scratch_bytes = 2 ^ 30\<rparr>,
      rw_execution_slots = 1, rw_labels = [(''os'', ''linux''), (''architecture'', ''amd64'')],
      rw_capabilities = [''docker.v1'', ''cpu.hard'', ''memory.hard'', ''pids.hard'', ''scratch.soft'']\<rparr>"

definition scene_uuid :: "u8 \<Rightarrow> string" where
  "scene_uuid b = (case new_uuid (Some (replicate 16 b)) of Inr u \<Rightarrow> u | Inl _ \<Rightarrow> [])"

lemma scene_uuid: "new_uuid (Some (replicate 16 b)) = Inr (scene_uuid b)" "canonical_uuid (scene_uuid b)"
proof -
  show new: "new_uuid (Some (replicate 16 b)) = Inr (scene_uuid b)"
    using new_uuid_Some [of "replicate 16 b"] by (auto simp: scene_uuid_def)
  show "canonical_uuid (scene_uuid b)"
    using new_uuid_canonical [OF _ new] by simp
qed

definition scene_session :: "u64 \<Rightarrow> session_record" where
  "scene_session generation =
     \<lparr>sr_registration = scene_claims\<lparr>rw_request_id := scene_uuid 1, rw_requested_session_id := scene_uuid 2\<rparr>,
      sr_generation = generation, sr_previous_session_id = []\<rparr>"

definition scene_worker_session :: worker_session where
  "scene_worker_session = \<lparr>ws_worker_id = fixture_uuid CHR ''1'', ws_session_id = scene_uuid 2\<rparr>"

definition scene_session_env :: session_env where
  "scene_session_env =
     \<lparr>se_read = quiet_read, se_write = quiet_write, se_request = Some (replicate 16 1), se_session = Some (replicate 16 2)\<rparr>"

definition scene_begin :: journal_event where
  "scene_begin = Begin_Incarnation scene_session_env scene_claims"

definition scene_register :: journal_event where
  "scene_register = Registration scene_session_env
     \<lparr>rwr_session = Some scene_worker_session, rwr_session_generation = 1, rwr_protocol_version = protocol_version,
      rwr_cleanup_required = False\<rparr>"

text \<open>What the examples ask of the session codec.\<close>

definition scene_session_codec :: "'x journal_externals_scheme \<Rightarrow> bool" where
  "scene_session_codec x \<longleftrightarrow>
     (\<forall>b. length (x_sha256 x b) = 32) \<and> (\<forall>r. x_decode_session x (x_encode_session x r) = Some r)
     \<and> length (x_encode_session x (scene_session 0)) \<le> 100 \<and> length (x_encode_session x (scene_session 1)) \<le> 100"

lemma scene_claims_ok: "claims_ok (sr_registration (scene_session g)) (fixture_uuid CHR ''1'')"
  by (simp add: claims_ok_def scene_session_def scene_claims_def scene_uuid(2) label_ok_def code_points_def point_is_control_def
      is_ascii_alphanumeric_def is_ascii_alphabetic_def less_eq_char_def)

lemma scene_load_session:
  assumes "scene_session_codec x" and "g = 0 \<or> g = 1"
  shows "load_session x quiet_read (scene x (Some (x_encode_session x (scene_session g))) attempt incarnation) = Inr (Some (scene_session g))"
proof -
  let ?p = "x_encode_session x (scene_session g)"
  have size: "\<forall>b. length (x_sha256 x b) = 32" "length ?p \<le> 100" "x_decode_session x ?p = Some (scene_session g)"
    using assms by (auto simp: scene_session_codec_def)
  have "read_record x quiet_read ''.session'' (scene_directory x (Some ?p) attempt) = Inr (Some ?p)"
    by (rule scene_read [OF size(1,2)]) (simp add: scene_map_of)
  moreover have "\<not> i64_max < g"
    using assms(2) by (auto simp: i64_max_def)
  ultimately show ?thesis
    using size scene_claims_ok [of g]
    by (simp add: load_session_def scene_def max_session_def) (simp add: scene_session_def)
qed

lemma scene_save_session:
  assumes "scene_session_codec x" and "length attempt \<le> 100" and "\<forall>s. session = Some s \<longrightarrow> length s \<le> 100" and "g = 0 \<or> g = 1"
  shows "save_session x quiet_write (scene_session g) (scene x session attempt incarnation)
    = (Inr (), scene x (Some (x_encode_session x (scene_session g))) attempt incarnation)"
proof -
  have size: "\<forall>b. length (x_sha256 x b) = 32" "length (x_encode_session x (scene_session g)) \<le> 100"
    using assms(1,4) by (auto simp: scene_session_codec_def)
  show ?thesis
    using scene_write(1) [OF size(1) assms(2,3) size(2)] size(2) by (simp add: save_session_def scene_def max_session_def)
qed

lemma scene_begun:
  assumes "scene_session_codec x" and "length attempt \<le> 100"
  shows "journal_step x (scene x None attempt None) scene_begin
    = scene x (Some (x_encode_session x (scene_session 0))) attempt (Some (scene_uuid 2))"
proof -
  have "load_session x quiet_read (scene x None attempt None) = Inr None"
    by (simp add: load_session_def read_record_def quiet_read_def scene_def scene_directory_def scene_map_of)
  moreover have "next_session scene_session_env (fixture_uuid CHR ''1'') scene_claims None = Inr (scene_session 0)"
    using scene_claims_ok [of 0] by (simp add: next_session_def scene_session_env_def scene_uuid(1) scene_session_def Let_def)
  moreover have "jn_worker_id (scene x None attempt None) = fixture_uuid CHR ''1''" "jn_incarnation (scene x None attempt None) = None"
    by (simp_all add: scene_def)
  moreover have "se_read scene_session_env = quiet_read" "se_write scene_session_env = quiet_write"
    by (simp_all add: scene_session_env_def)
  moreover have "rw_request_id scene_claims = []" "rw_requested_session_id scene_claims = []"
    "rw_requested_session_id (sr_registration (scene_session 0)) = scene_uuid 2"
    by (simp_all add: scene_claims_def scene_session_def)
  ultimately show ?thesis
    using scene_save_session [OF assms, of None 0 None] by (simp add: scene_begin_def begin_incarnation_def) (simp add: scene_def)
qed

lemma scene_registered:
  assumes "scene_session_codec x" and "length attempt \<le> 100"
  shows "journal_step x (scene x (Some (x_encode_session x (scene_session 0))) attempt (Some (scene_uuid 2))) scene_register
    = scene x (Some (x_encode_session x (scene_session 1))) attempt (Some (scene_uuid 2))"
proof -
  let ?j = "scene x (Some (x_encode_session x (scene_session 0))) attempt (Some (scene_uuid 2))"
  have "jn_worker_id ?j = fixture_uuid CHR ''1''" "jn_incarnation ?j = Some (scene_uuid 2)"
    by (simp_all add: scene_def)
  moreover have "sr_generation (scene_session 0) = 0" "(scene_session 0)\<lparr>sr_generation := 1\<rparr> = scene_session 1"
    "rw_requested_session_id (sr_registration (scene_session 0)) = scene_uuid 2"
    by (simp_all add: scene_session_def)
  moreover have "save_session x quiet_write (scene_session 1) ?j
      = (Inr (), scene x (Some (x_encode_session x (scene_session 1))) attempt (Some (scene_uuid 2)))"
    using assms by (intro scene_save_session) (auto simp: scene_session_codec_def)
  ultimately show ?thesis
    using scene_load_session [OF assms(1), of 0 attempt "Some (scene_uuid 2)"]
    by (simp add: scene_register_def record_registration_def scene_session_env_def scene_worker_session_def i64_max_def)
qed

end
