(* ===== verification/Launch.thy ===== *)
theory Launch
  imports Delivery Journal_Scenario
begin

text \<open>
  Durable container launch: \<open>rust/worker/src/launch.rs\<close>, with \<open>prepare_launch\<close>,
  \<open>claim_assignment\<close> and \<open>current_session\<close> of \<open>journal/asynchronous.rs\<close>. A runtime handle is
  the identity of its container. The code under \<open>while_live\<close> is a \<open>live_task\<close>: the end of the
  authority is an answer, and every \<open>await\<close> of it may get that answer.
\<close>

section \<open>The code\<close>

subsection \<open>Claims: \<open>journal/asynchronous.rs\<close>\<close>

definition current_session ::
  "'x journal_externals_scheme \<Rightarrow> read_env \<Rightarrow> assignment \<Rightarrow> worker_session \<Rightarrow> journal \<Rightarrow> journal_error + unit" where
  "current_session x env assignment session j =
     and_then (ok_or J_Invalid (as_authority assignment)) (\<lambda>identity.
     and_then (load_session x env j) (\<lambda>found.
     and_then (ok_or J_Identity found) (\<lambda>saved.
     if jn_incarnation j \<noteq> Some (ws_session_id session)
        \<or> jn_worker_id j \<noteq> ws_worker_id session
        \<or> sr_generation saved = 0
        \<or> rw_requested_session_id (sr_registration saved) \<noteq> ws_session_id session
        \<or> aa_worker_id identity \<noteq> ws_worker_id session
        \<or> aa_session_id identity \<noteq> ws_session_id session
     then Inl J_Identity else Inr ())))"

text \<open>Evidence of a launch or a completion in a record.\<close>

definition was_launched :: "attempt_record \<Rightarrow> bool" where
  "was_launched saved \<longleftrightarrow>
     ar_phase_reports saved \<noteq> [] \<or> ar_container_id saved \<noteq> [] \<or> ar_exit saved \<noteq> None \<or> ar_completion saved \<noteq> None
     \<or> ar_outputs saved \<noteq> [] \<or> ar_logs saved \<noteq> []"

definition launch_operation ::
  "'x journal_externals_scheme \<Rightarrow> assignment \<Rightarrow> worker_session \<Rightarrow> report_phase_request journal_op" where
  "launch_operation x assignment session env j =
     (case as_authority assignment of
        None \<Rightarrow> (Inl J_Invalid, j)
      | Some identity \<Rightarrow>
          (case current_session x (je_read (env 0)) assignment session j of
             Inl e \<Rightarrow> (Inl e, j)
           | Inr _ \<Rightarrow>
               (case load_attempt x (je_read (env 1)) (aa_attempt_id identity) j of
                  Inl e \<Rightarrow> (Inl e, j)
                | Inr found \<Rightarrow>
                    (case persist_assignment x (env 2) assignment j of
                       (Inl e, j') \<Rightarrow> (Inl e, j')
                     | (Inr _, j') \<Rightarrow>
                         if is_some_and was_launched found then (Inl J_Conflict, j')
                         else prepare_phase x (env 3) (aa_attempt_id identity) Starting j'))))"

definition prepare_launch ::
  "'x journal_externals_scheme \<Rightarrow> assignment \<Rightarrow> worker_session \<Rightarrow> (journal_error, report_phase_request) task" where
  "prepare_launch x assignment session = journal_apply x (launch_operation x assignment session)"

definition claim_operation :: "'x journal_externals_scheme \<Rightarrow> assignment \<Rightarrow> worker_session \<Rightarrow> unit journal_op" where
  "claim_operation x assignment session env j =
     (case and_then (current_session x (je_read (env 0)) assignment session j) (\<lambda>_.
             and_then (ok_or J_Invalid (as_authority assignment)) (\<lambda>identity.
             and_then (load_attempt x (je_read (env 1)) (aa_attempt_id identity) j) (\<lambda>found.
             if found \<noteq> None then Inl J_Conflict else Inr ()))) of
        Inl e \<Rightarrow> (Inl e, j)
      | Inr _ \<Rightarrow> persist_assignment x (env 2) assignment j)"

definition claim_assignment :: "'x journal_externals_scheme \<Rightarrow> assignment \<Rightarrow> worker_session \<Rightarrow> (journal_error, unit) task" where
  "claim_assignment x assignment session = journal_apply x (claim_operation x assignment session)"

subsection \<open>Calls\<close>

datatype launch_cause =
  Lc_Identity | Lc_Journal journal_error | Lc_Control client_error | Lc_Runtime runtime_error | Lc_Authority stop_reason
| Lc_UnexpectedPhase

datatype cleanup_evidence = Ev_NotCreated | Ev_Stopped | Ev_Uncertain

record launch_error =
  le_cause :: launch_cause
  le_cleanup :: cleanup_evidence

fun container_answer :: "answer \<Rightarrow> (runtime_error + string) option" where
  "container_answer (Ans_Container r) = Some r"
| "container_answer _ = None"

fun started_answer :: "answer \<Rightarrow> (runtime_error + unit) option" where
  "started_answer (Ans_Started r) = Some r"
| "started_answer _ = None"

fun inspect_answer :: "answer \<Rightarrow> (runtime_error + container_status) option" where
  "inspect_answer (Ans_Inspect r) = Some r"
| "inspect_answer _ = None"

fun timer_answer :: "answer \<Rightarrow> unit option" where
  "timer_answer Ans_Timer = Some ()"
| "timer_answer _ = None"

fun cleanup_answer :: "answer \<Rightarrow> (duration \<times> (runtime_error + unit) option \<times> (runtime_error + container_status) option) option" where
  "cleanup_answer (Ans_Cleanup left halted inspected) = Some (left, halted, inspected)"
| "cleanup_answer _ = None"

definition phase_task :: "report_phase_request \<Rightarrow> (client_error, phase_status) task" where
  "phase_task q = rpc_task (validate_phase_request q) (Call_Phase q) mutation_answer (report_phase q)"

definition container_task :: "attempt_authority \<Rightarrow> (runtime_error, string) task" where
  "container_task identity = then_do (request (Call_Container identity) container_answer) give"

definition start_task :: "string \<Rightarrow> (runtime_error, unit) task" where
  "start_task container = then_do (request (Call_Start container) started_answer) give"

definition inspect_task :: "(runtime_error, container_status) task" where
  "inspect_task = then_do (await inspect_answer) give"

definition sleep_task :: "('e, unit) task" where
  "sleep_task = await timer_answer"

text \<open>\<open>authority.while_live(\<dots>).await??\<close>, and \<open>authority.window()?\<close>.\<close>

definition guarded :: "('e \<Rightarrow> launch_cause) \<Rightarrow> ('e, 'a) task \<Rightarrow> (launch_cause, 'a) task" where
  "guarded cause m = then_do (task_err Lc_Authority (live_task m)) (\<lambda>r. give (map_err cause r))"

definition window_task :: "(launch_cause, unit) task" where
  "window_task = task_err Lc_Authority (then_do (stopped_as_error check_live) give)"

subsection \<open>The launch\<close>

definition terminate_for_cause ::
  "launch_cause \<Rightarrow> u64 \<Rightarrow> duration \<Rightarrow> (runtime_error + unit) option \<Rightarrow> (runtime_error + container_status) option \<Rightarrow> bool" where
  "terminate_for_cause cause grace_seconds left halted inspected =
     (if cause = Lc_Authority (Rejected StopRequested)
      then terminate_requested (ucast grace_seconds) left halted inspected
      else terminate inspected)"

text \<open>The loop that reports \<open>STARTING\<close>. A round takes at least one answer, so a number of
  rounds above the number of answers is enough (\<open>report_starting_enough\<close>).\<close>

fun report_starting :: "nat \<Rightarrow> report_phase_request \<Rightarrow> (launch_cause, unit) task" where
  "report_starting 0 q = (\<lambda>w. (Dropped, w))"
| "report_starting (Suc n) q =
     then_do (task_err Lc_Authority (live_task (phase_task q))) (\<lambda>r.
       case r of
         Inr status \<Rightarrow>
           give (if pt_decision status = Accepted \<and> pt_state status = Starting then Inr ()
                 else if pt_decision status \<in> set [Fenced, StopRequested, AlreadyTerminal]
                 then Inl (Lc_Authority (Rejected (pt_decision status)))
                 else Inl Lc_UnexpectedPhase)
       | Inl e \<Rightarrow>
           if retryable e
           then then_do (task_err Lc_Authority (live_task sleep_task)) (\<lambda>(_ :: unit + unit). report_starting n q)
           else give (Inl (Lc_Control e)))"

text \<open>The errors of \<open>start\<close> after which the container is inspected all the same.\<close>

fun start_uncertain :: "runtime_error \<Rightarrow> bool" where
  "start_uncertain Rt_Transport = True"
| "start_uncertain Rt_Deadline = True"
| "start_uncertain Rt_Terminal = True"
| "start_uncertain (Rt_Daemon code) = (code = 304 \<or> code = 409 \<or> (500 \<le> code \<and> code \<le> 599))"
| "start_uncertain _ = False"

definition launched_ok :: "container_status \<Rightarrow> bool" where
  "launched_ok status \<longleftrightarrow> (cs_running status \<and> cs_state status = Cs_Running) \<or> exit_guard status"

text \<open>The body: an error comes with the two variables the cleanup reads, the handle and
  whether a creation was attempted.\<close>

record launch_input =
  li_assignment :: assignment
  li_grace_seconds :: u64
  li_session :: worker_session
  li_workspace_name :: "string option"
  li_identity :: attempt_authority \<comment> \<open>of the supervised authority\<close>

definition failing :: "string option \<Rightarrow> bool \<Rightarrow> (launch_cause, 'a) task \<Rightarrow> (launch_cause \<times> string option \<times> bool, 'a) task" where
  "failing handle attempted = task_err (\<lambda>cause. (cause, handle, attempted))"

definition start_container ::
  "'x journal_externals_scheme \<Rightarrow> attempt_authority \<Rightarrow> string \<Rightarrow> (launch_cause, string) task" where
  "start_container x identity container =
     then_do (guarded Lc_Journal (async_do x (\<lambda>env. bind_container x env (aa_attempt_id identity) container))) (\<lambda>_.
     then_do window_task (\<lambda>_.
     then_do (task_err Lc_Authority (live_task (start_task container))) (\<lambda>started.
       case started of
         Inl e \<Rightarrow>
           if \<not> start_uncertain e then give (Inl (Lc_Runtime e))
           else then_do (guarded Lc_Runtime inspect_task) (\<lambda>status.
             give (if launched_ok status then Inr container else Inl (Lc_Runtime Rt_Terminal)))
       | Inr _ \<Rightarrow>
           then_do (guarded Lc_Runtime inspect_task) (\<lambda>status.
             give (if launched_ok status then Inr container else Inl (Lc_Runtime Rt_Terminal))))))"

definition launch_body ::
  "'x journal_externals_scheme \<Rightarrow> launch_input \<Rightarrow> (launch_cause \<times> string option \<times> bool, string) task" where
  "launch_body x input =
     (case as_authority (li_assignment input) of
        None \<Rightarrow> give (Inl (Lc_Identity, None, False))
      | Some identity \<Rightarrow>
          if identity \<noteq> li_identity input
             \<or> aa_worker_id identity \<noteq> ws_worker_id (li_session input)
             \<or> aa_session_id identity \<noteq> ws_session_id (li_session input)
             \<or> li_workspace_name input \<noteq> Some (aa_attempt_id identity)
          then give (Inl (Lc_Identity, None, False))
          else
            then_do (failing None False (guarded Lc_Journal (prepare_launch x (li_assignment input) (li_session input)))) (\<lambda>starting.
            then_do (failing None False (\<lambda>w. report_starting (Suc (length (wd_answers w))) starting w)) (\<lambda>_.
            then_do (failing None False window_task) (\<lambda>_.
            then_do (failing None True (guarded Lc_Runtime (container_task identity))) (\<lambda>container.
            failing (Some container) True (start_container x identity container))))))"

definition launch_cleanup :: "u64 \<Rightarrow> launch_cause \<times> string option \<times> bool \<Rightarrow> (launch_error, string) task" where
  "launch_cleanup grace_seconds failure =
     (case failure of
        (cause, Some container, attempted) \<Rightarrow>
          then_do (await cleanup_answer) (\<lambda>(left, halted, inspected).
            give (Inl \<lparr>le_cause = cause,
              le_cleanup = (if terminate_for_cause cause grace_seconds left halted inspected then Ev_Stopped else Ev_Uncertain)\<rparr>))
      | (cause, None, attempted) \<Rightarrow>
          give (Inl \<lparr>le_cause = cause, le_cleanup = (if attempted then Ev_Uncertain else Ev_NotCreated)\<rparr>))"

definition launch_inner :: "'x journal_externals_scheme \<Rightarrow> launch_input \<Rightarrow> (launch_error, string) task" where
  "launch_inner x input =
     on_ready (launch_body x input) (\<lambda>r. case r of Inr container \<Rightarrow> give (Inr container) | Inl failure \<Rightarrow> launch_cleanup (li_grace_seconds input) failure)"

section \<open>A launch is a sequence of journal operations\<close>

lemma launch_operation_steps: "is_operation x (launch_operation x assignment session)"
proof -
  have "\<exists>events. snd (launch_operation x assignment session env j) = foldl (journal_step x) j events" for env j
  proof -
    have none: "\<exists>events. j = foldl (journal_step x) j events"
      by (rule exI [of _ "[]"]) simp
    obtain r j' where persist: "persist_assignment x (env 2) assignment j = (r, j')"
      by fastforce
    then have one: "j' = foldl (journal_step x) j [Persist_Assignment (env 2) assignment]"
      by simp
    have two: "snd (prepare_phase x (env 3) key Starting j')
        = foldl (journal_step x) j [Persist_Assignment (env 2) assignment, Prepare_Phase (env 3) key Starting]" for key
      using persist by simp
    show ?thesis
      using none one two persist unfolding launch_operation_def
      by (auto split: option.split sum.split simp del: foldl.simps)
  qed
  then show ?thesis
    by (simp add: is_operation_def)
qed

lemma claim_operation_steps: "is_operation x (claim_operation x assignment session)"
proof -
  have "\<exists>events. snd (claim_operation x assignment session env j) = foldl (journal_step x) j events" for env j
  proof -
    have "j = foldl (journal_step x) j []"
      "snd (persist_assignment x (env 2) assignment j) = foldl (journal_step x) j [Persist_Assignment (env 2) assignment]"
      by simp_all
    then show ?thesis
      unfolding claim_operation_def by (auto split: sum.split simp del: foldl.simps)
  qed
  then show ?thesis
    by (simp add: is_operation_def)
qed

lemma launch_journal_operations [performs_intro]:
  "performs x allowed (prepare_launch x assignment session)"
  "performs x allowed (claim_assignment x assignment session)"
  "performs x allowed (async_do x (\<lambda>env. bind_container x env key container))"
  unfolding prepare_launch_def claim_assignment_def
  by (rule performs_journal_apply, rule launch_operation_steps)
    (rule performs_journal_apply, rule claim_operation_steps,
      rule async_do_operation, metis journal_step.simps(2))

lemma launch_calls [performs_intro]:
  "allowed (Call_Phase q) \<Longrightarrow> performs x allowed (phase_task q)"
  "allowed (Call_Container i) \<Longrightarrow> performs x allowed (container_task i)"
  "allowed (Call_Start c) \<Longrightarrow> performs x allowed (start_task c)"
  "performs x allowed inspect_task" "performs x allowed sleep_task" "performs x allowed window_task"
  "performs x allowed m \<Longrightarrow> performs x allowed (guarded cause m)"
  "performs x allowed m' \<Longrightarrow> performs x allowed (failing handle attempted m')"
  unfolding phase_task_def container_task_def start_task_def inspect_task_def sleep_task_def window_task_def guarded_def failing_def
  by (auto intro!: rpc_task_performs performs_intro)

lemma report_starting_performs [performs_intro]:
  "allowed (Call_Phase q) \<Longrightarrow> performs x allowed (report_starting n q)"
proof (induction n)
  case 0
  show ?case
    by (rule performs_stutter) simp
next
  case (Suc n)
  show ?case
    unfolding report_starting.simps by (auto intro!: performs_intro Suc split: sum.split)
qed

lemma report_loop_performs [performs_intro]:
  assumes "allowed (Call_Phase q)"
  shows "performs x allowed (\<lambda>w. report_starting (Suc (length (wd_answers w))) q w)"
  using report_starting_performs [where allowed = allowed and q = q, OF assms] unfolding performs_def by blast

lemma start_container_performs [performs_intro]:
  "allowed (Call_Start container) \<Longrightarrow> performs x allowed (start_container x identity container)"
  unfolding start_container_def by (auto intro!: performs_intro split: sum.split)

lemma launch_cleanup_performs [performs_intro]: "performs x allowed (launch_cleanup grace failure)"
  unfolding launch_cleanup_def by (auto intro!: performs_intro split: prod.split option.split)

section \<open>At most one launch\<close>

lemma live_task_Inr:
  assumes "live_task m w = (Ready (Inr r), w')"
  shows "\<exists>wa wb. m wa = (Ready r, wb) \<and> wd_journal wa = wd_journal w \<and> wd_calls wa = wd_calls w
    \<and> wd_journal w' = wd_journal wb \<and> wd_calls w' = wd_calls wb"
proof -
  have same: "wd_journal v' = wd_journal v \<and> wd_calls v' = wd_calls v" if "stopped_as_error check_live v = (p, v')" for v p v'
    using that by (auto simp: stopped_as_error_def check_live_def await_def split: list.splits answer.splits option.splits)
  obtain u wa s wb u' where "stopped_as_error check_live w = (Ready (Inr u), wa)" "stopped_as_error m wa = (Ready (Inr r), wb)"
    "stopped_as_error check_live wb = (Ready (Inr u'), w')"
    using assms unfolding live_task_def then_do_Inr by auto
  moreover from this(2) have "m wa = (Ready r, wb)"
    by (auto simp: stopped_as_error_def split: prod.splits poll.splits)
  ultimately show ?thesis
    using same by metis
qed

lemma guarded_Inr:
  assumes "guarded cause m w = (Ready (Inr a), w')"
  shows "\<exists>wa wb. m wa = (Ready (Inr a), wb) \<and> wd_journal wa = wd_journal w \<and> wd_calls wa = wd_calls w
    \<and> wd_journal w' = wd_journal wb \<and> wd_calls w' = wd_calls wb"
proof -
  obtain r where "live_task m w = (Ready (Inr r), w')" "map_err cause r = Inr a"
    using assms by (auto simp: guarded_def then_do_Inr task_err_Inr)
  then show ?thesis
    using live_task_Inr [of m w r w'] by (cases r) (auto simp: map_err_def)
qed

lemma then_do_quiet:
  assumes "then_do m f w = (p, w')" and "performs x (\<lambda>_. False) m"
  shows "(\<exists>a w1. m w = (Ready (Inr a), w1) \<and> f a w1 = (p, w') \<and> wd_calls w1 = wd_calls w) \<or> wd_calls w' = wd_calls w"
proof -
  obtain q w1 where m: "m w = (q, w1)"
    by fastforce
  have "wd_calls w1 = wd_calls w"
    by (rule performs_quiet [OF assms(2) m])
  then show ?thesis
    using m assms(1) by (cases q) (auto simp: then_do_def on_ready_def split: sum.splits)
qed

lemma failing_Inr: "failing handle attempted m w = (Ready (Inr a), w') \<longleftrightarrow> m w = (Ready (Inr a), w')"
  by (simp add: failing_def task_err_Inr)

text \<open>Evidence that the attempt was launched, once and for all.\<close>

definition launch_kept :: "'x journal_externals_scheme \<Rightarrow> string \<Rightarrow> journal \<Rightarrow> bool" where
  "launch_kept x key j \<longleftrightarrow> (\<exists>r. ar_phase_reports r \<noteq> [] \<and> evidence_kept x key (Some r) j)"

lemma launch_kept_run:
  "journal_codec x \<Longrightarrow> launch_kept x key j \<Longrightarrow> launch_kept x key (foldl (journal_step x) j events)"
  unfolding launch_kept_def using journaling.run_keeps by blast

lemma prepared_phase_kept:
  assumes "journal_codec x" and "dir_sound (jn_directory j)" and "prepare_phase x env key phase j = (Inr q, j')"
  shows "launch_kept x key j'"
proof -
  have "\<exists>r. ar_phase_reports r \<noteq> [] \<and> evidence_kept x key (Some r) j'"
    by (rule update_result_kept [OF assms(1,2) assms(3) [unfolded prepare_phase_def]])
      (auto simp: prepare_phase_step_def Let_def and_then_def split: option.splits if_splits sum.splits)
  then show ?thesis
    by (simp add: launch_kept_def)
qed

lemma launch_operation_kept:
  assumes "journal_codec x" and "dir_sound (jn_directory j)" and "launch_operation x assignment session env j = (Inr q, j')"
    and "as_authority assignment = Some identity"
  shows "launch_kept x (aa_attempt_id identity) j'"
proof -
  obtain j1 where persist: "persist_assignment x (env 2) assignment j = (Inr (), j1)"
    and phase: "prepare_phase x (env 3) (aa_attempt_id identity) Starting j1 = (Inr q, j')"
    using assms(3,4) by (auto simp: launch_operation_def split: sum.splits prod.splits if_splits)
  have "j1 = foldl (journal_step x) j [Persist_Assignment (env 2) assignment]"
    using persist by simp
  then have "dir_sound (jn_directory j1)"
    using journaling.run_keeps [of x "[]" None j "[Persist_Assignment (env 2) assignment]"] assms(1,2)
    by (simp add: evidence_kept_def)
  then show ?thesis
    by (rule prepared_phase_kept [OF assms(1) _ phase])
qed

lemma launch_operation_refused:
  assumes "journal_codec x" and "launch_kept x (aa_attempt_id identity) j" and "as_authority assignment = Some identity"
  shows "launch_operation x assignment session env j \<noteq> (Inr q, j')"
proof
  assume "launch_operation x assignment session env j = (Inr q, j')"
  then obtain found where load: "load_attempt x (je_read (env 1)) (aa_attempt_id identity) j = Inr found"
    and fresh: "\<not> is_some_and was_launched found"
    using assms(3) by (auto simp: launch_operation_def split: sum.splits prod.splits if_splits)
  obtain r where r: "ar_phase_reports r \<noteq> []" "evidence_kept x (aa_attempt_id identity) (Some r) j"
    using assms(2) by (auto simp: launch_kept_def)
  obtain rec where "found = Some rec" "record_le r rec"
    using same_record [OF assms(1) r(2) load] by blast
  then show False
    using fresh r(1) by (auto simp: record_le_def was_launched_def)
qed

text \<open>A launch that asked for anything holds the durable claim of its attempt.\<close>

lemma launch_body_claims:
  assumes "journal_codec x" and "dir_sound (jn_directory (wd_journal w))" and "launch_body x input w = (p, w')"
    and "wd_calls w' \<noteq> wd_calls w"
  shows "\<exists>identity. as_authority (li_assignment input) = Some identity \<and> launch_kept x (aa_attempt_id identity) (wd_journal w')"
proof -
  obtain identity where identity: "as_authority (li_assignment input) = Some identity"
    using assms(3,4) by (auto simp: launch_body_def split: option.splits)
  let ?prepare = "failing None False (guarded Lc_Journal (prepare_launch x (li_assignment input) (li_session input)))"
  let ?rest = "\<lambda>starting.
      then_do (failing None False (\<lambda>w. report_starting (Suc (length (wd_answers w))) starting w)) (\<lambda>_.
      then_do (failing None False window_task) (\<lambda>_.
      then_do (failing None True (guarded Lc_Runtime (container_task identity))) (\<lambda>container.
      failing (Some container) True (start_container x identity container))))"
  have run: "then_do ?prepare ?rest w = (p, w')"
    using assms(3,4) identity by (auto simp: launch_body_def split: if_splits)
  have quiet: "performs x (\<lambda>_. False) ?prepare"
    by (intro performs_intro)
  obtain starting w1 where prepared: "?prepare w = (Ready (Inr starting), w1)" and rest: "?rest starting w1 = (p, w')"
    using then_do_quiet [OF run quiet] assms(4) by blast
  obtain wa wb where wa: "prepare_launch x (li_assignment input) (li_session input) wa = (Ready (Inr starting), wb)"
    "wd_journal wa = wd_journal w" "wd_journal w1 = wd_journal wb"
    using guarded_Inr [OF prepared [unfolded failing_Inr]] by blast
  then obtain env j where "launch_operation x (li_assignment input) (li_session input) env j = (Inr starting, wd_journal w1)"
    "dir_sound (jn_directory j)"
    using journal_apply_sound [OF wa(1) [unfolded prepare_launch_def] assms(1)] assms(2) by auto
  then have "launch_kept x (aa_attempt_id identity) (wd_journal w1)"
    using launch_operation_kept [OF assms(1)] identity by blast
  moreover have "performs x (\<lambda>_. True) (?rest starting)"
    by (intro performs_intro TrueI)
  then obtain events where "wd_journal w' = foldl (journal_step x) (wd_journal w1) events"
    using rest unfolding performs_def by blast
  ultimately show ?thesis
    using identity launch_kept_run [OF assms(1)] by simp
qed

lemma launch_body_refused:
  assumes "journal_codec x" and "as_authority (li_assignment input) = Some identity"
    and "launch_kept x (aa_attempt_id identity) (wd_journal w)" and "launch_body x input w = (p, w')"
  shows "wd_calls w' = wd_calls w \<and> (\<forall>failure. p = Ready (Inl failure) \<longrightarrow> snd failure = (None, False)) \<and> (\<forall>c. p \<noteq> Ready (Inr c))"
proof -
  let ?prepare = "guarded Lc_Journal (prepare_launch x (li_assignment input) (li_session input))"
  obtain q w1 where run: "?prepare w = (q, w1)"
    by fastforce
  have "q \<noteq> Ready (Inr a)" for a
  proof
    assume "q = Ready (Inr a)"
    then obtain wa wb where wa: "prepare_launch x (li_assignment input) (li_session input) wa = (Ready (Inr a), wb)"
      "wd_journal wa = wd_journal w"
      using guarded_Inr [of Lc_Journal _ w a w1] run by blast
    then obtain others env where "launch_operation x (li_assignment input) (li_session input) env
        (foldl (journal_step x) (wd_journal w) others) = (Inr a, wd_journal wb)"
      using journal_apply_Inr [OF wa(1) [unfolded prepare_launch_def]] by auto
    then show False
      using launch_operation_refused [OF assms(1) launch_kept_run [OF assms(1,3)] assms(2)] by blast
  qed
  moreover have quiet: "performs x (\<lambda>_. False) ?prepare"
    by (intro performs_intro)
  moreover have "wd_calls w1 = wd_calls w"
    by (rule performs_quiet [OF quiet run])
  ultimately show ?thesis
    using assms(2,4) run
    by (cases q) (auto simp: launch_body_def then_do_def failing_def task_err_def on_ready_def map_err_def split: if_splits sum.splits)
qed

lemma launch_inner_body:
  assumes "launch_inner x input w = (p, w')"
  shows "\<exists>q v m. launch_body x input w = (q, v) \<and> performs x (\<lambda>_. False) m \<and> m v = (p, w')"
proof -
  obtain q v where body: "launch_body x input w = (q, v)"
    by fastforce
  show ?thesis
  proof (cases "\<exists>failure. q = Ready (Inl failure)")
    case True
    then obtain failure where "launch_cleanup (li_grace_seconds input) failure v = (p, w')"
      using assms body by (auto simp: launch_inner_def on_ready_def)
    then show ?thesis
      using body launch_cleanup_performs by blast
  next
    case False
    then have "w' = v"
      using assms body by (cases q) (auto simp: launch_inner_def on_ready_def split: sum.splits)
    moreover have "performs x (\<lambda>_. False) (\<lambda>w. (p, w))"
      by (rule performs_stutter) simp
    ultimately show ?thesis
      using body by blast
  qed
qed

text \<open>C1. An attempt is launched at most once. Once a launch of an attempt has asked the server or
  the runtime for anything, however it went on, no later launch of the same attempt ever
  asks for anything again: it reports no phase, creates no container and starts none, after
  any journal operations of any tasks, restarts and power failures in between. It ends with
  an error that says that it created nothing.\<close>

theorem launches_at_most_once:
  assumes "journal_codec x" and "intact dir" and "Journal_open x env worker limits dir = (Inr j0, dir')"
    and "wd_journal w0 = foldl (journal_step x) j0 before" and "wd_calls w0 = []"
    and "launch_inner x input w0 = (p, w1)" and "wd_calls w1 \<noteq> []"
    and "wd_journal w2 = foldl (journal_step x) (wd_journal w1) after" and "wd_calls w2 = []"
    and "launch_inner x input' w2 = (p', w3)"
    and "map_option aa_attempt_id (as_authority (li_assignment input')) = map_option aa_attempt_id (as_authority (li_assignment input))"
  shows "wd_calls w3 = [] \<and> (\<forall>r. p' = Ready r \<longrightarrow> (\<exists>cause. r = Inl \<lparr>le_cause = cause, le_cleanup = Ev_NotCreated\<rparr>))"
proof -
  obtain q v m where body: "launch_body x input w0 = (q, v)" and m: "performs x (\<lambda>_. False) m" "m v = (p, w1)"
    using launch_inner_body [OF assms(6)] by blast
  have "wd_calls w1 = wd_calls v"
    by (rule performs_quiet [OF m])
  moreover obtain events where "wd_journal w1 = foldl (journal_step x) (wd_journal v) events"
    using m unfolding performs_def by blast
  moreover have "dir_sound (jn_directory (wd_journal w0))"
    using history_sound [OF assms(1-3)] assms(4) by simp
  ultimately obtain identity where identity: "as_authority (li_assignment input) = Some identity"
    "launch_kept x (aa_attempt_id identity) (wd_journal w1)"
    using launch_body_claims [OF assms(1) _ body] assms(5,7) launch_kept_run [OF assms(1)] by metis
  then obtain identity' where identity': "as_authority (li_assignment input') = Some identity'"
    "launch_kept x (aa_attempt_id identity') (wd_journal w2)"
    using assms(8,11) launch_kept_run [OF assms(1) identity(2)] by auto
  obtain q' v' where body': "launch_body x input' w2 = (q', v')"
    by fastforce
  have "wd_calls v' = [] \<and> (\<forall>failure. q' = Ready (Inl failure) \<longrightarrow> snd failure = (None, False)) \<and> (\<forall>c. q' \<noteq> Ready (Inr c))"
    using launch_body_refused [OF assms(1) identity' body'] unfolding assms(9) by blast
  then show ?thesis
    using assms(10) body'
    by (cases q') (auto simp: launch_inner_def on_ready_def launch_cleanup_def split: sum.splits prod.splits)
qed

section \<open>The rounds of the report\<close>

text \<open>No task makes answers up, so a loop in which every round takes one ends.\<close>

definition takes_answers :: "('e, 'a) task \<Rightarrow> bool" where
  "takes_answers m \<longleftrightarrow> (\<forall>w p w'. m w = (p, w') \<longrightarrow> length (wd_answers w') \<le> length (wd_answers w))"

lemma takes_await: "takes_answers (await want)"
  by (auto simp: takes_answers_def await_def split: list.splits answer.splits option.splits)

lemma takes_on_ready:
  assumes "takes_answers m" and "\<And>r. takes_answers (f r)"
  shows "takes_answers (on_ready m f)"
proof -
  have "length (wd_answers w') \<le> length (wd_answers w)" if "on_ready m f w = (p, w')" for w p w'
  proof -
    obtain q w1 where m: "m w = (q, w1)"
      by fastforce
    then have "length (wd_answers w1) \<le> length (wd_answers w)"
      using assms(1) by (simp add: takes_answers_def)
    then show ?thesis
      using that m assms(2) by (cases q) (fastforce simp: on_ready_def takes_answers_def)+
  qed
  then show ?thesis
    by (simp add: takes_answers_def)
qed

lemma takes_request: "takes_answers (request c want)"
  by (auto simp: takes_answers_def request_def await_def split: list.splits answer.splits option.splits)

lemma takes_give: "takes_answers (give r)"
  by (simp add: takes_answers_def)

lemma takes_round: "takes_answers (phase_task q)" "takes_answers sleep_task"
proof -
  show "takes_answers (phase_task q)"
  proof (cases "validate_phase_request q")
    case (Inr u)
    then show ?thesis
      unfolding phase_task_def rpc_task_def then_do_def
      by (auto intro!: takes_on_ready takes_request takes_give split: sum.split)
  qed (simp add: phase_task_def rpc_task_def takes_give)
  show "takes_answers sleep_task"
    unfolding sleep_task_def by (rule takes_await)
qed

lemma live_task_takes_one:
  assumes "live_task m w = (Ready (Inr r), w')" and "takes_answers m"
  shows "length (wd_answers w') < length (wd_answers w)"
proof -
  have check: "length (wd_answers v') < length (wd_answers v)" if "stopped_as_error check_live v = (Ready (Inr u), v')" for v u v'
    using that by (auto simp: stopped_as_error_def check_live_def await_def split: list.splits answer.splits option.splits)
  obtain u wa wb u' where run: "stopped_as_error check_live w = (Ready (Inr u), wa)" "stopped_as_error m wa = (Ready (Inr r), wb)"
    "stopped_as_error check_live wb = (Ready (Inr u'), w')"
    using assms(1) unfolding live_task_def then_do_Inr by auto
  from run(2) have "m wa = (Ready r, wb)"
    by (auto simp: stopped_as_error_def split: prod.splits poll.splits)
  then have "length (wd_answers wb) \<le> length (wd_answers wa)"
    using assms(2) by (simp add: takes_answers_def)
  then show ?thesis
    using check [OF run(1)] check [OF run(3)] by simp
qed

lemma then_do_cong:
  "(\<And>a w1. m w = (Ready (Inr a), w1) \<Longrightarrow> f a w1 = g a w1) \<Longrightarrow> then_do m f w = then_do m g w"
  by (auto simp: then_do_def on_ready_def split: prod.split poll.split sum.split)

lemma report_starting_enough:
  assumes "length (wd_answers w) < n" and "n \<le> m"
  shows "report_starting m q w = report_starting n q w"
  using assms
proof (induction n arbitrary: m w)
  case (Suc n)
  then obtain k where m: "m = Suc k" "n \<le> k"
    by (cases m) auto
  have again: "then_do (task_err Lc_Authority (live_task sleep_task)) (\<lambda>(_ :: unit + unit). report_starting k q) v
      = then_do (task_err Lc_Authority (live_task sleep_task)) (\<lambda>(_ :: unit + unit). report_starting n q) v"
    if "length (wd_answers v) \<le> n" for v
  proof (rule then_do_cong)
    fix r :: "unit + unit" and v'
    assume "task_err Lc_Authority (live_task sleep_task) v = (Ready (Inr r), v')"
    then have "length (wd_answers v') < n"
      using live_task_takes_one [OF _ takes_round(2)] that unfolding task_err_Inr by fastforce
    then show "report_starting k q v' = report_starting n q v'"
      using Suc.IH m(2) by blast
  qed
  show ?case
    unfolding m(1) report_starting.simps
  proof (rule then_do_cong)
    fix r v
    assume "task_err Lc_Authority (live_task (phase_task q)) w = (Ready (Inr r), v)"
    then have "length (wd_answers v) \<le> n"
      using live_task_takes_one [OF _ takes_round(1)] Suc.prems(1) unfolding task_err_Inr by fastforce
    then show "(case r of
         Inr status \<Rightarrow>
           give (if pt_decision status = Accepted \<and> pt_state status = Starting then Inr ()
                 else if pt_decision status \<in> set [Fenced, StopRequested, AlreadyTerminal]
                 then Inl (Lc_Authority (Rejected (pt_decision status)))
                 else Inl Lc_UnexpectedPhase)
       | Inl e \<Rightarrow>
           if retryable e
           then then_do (task_err Lc_Authority (live_task sleep_task)) (\<lambda>(_ :: unit + unit). report_starting k q)
           else give (Inl (Lc_Control e))) v =
      (case r of
         Inr status \<Rightarrow>
           give (if pt_decision status = Accepted \<and> pt_state status = Starting then Inr ()
                 else if pt_decision status \<in> set [Fenced, StopRequested, AlreadyTerminal]
                 then Inl (Lc_Authority (Rejected (pt_decision status)))
                 else Inl Lc_UnexpectedPhase)
       | Inl e \<Rightarrow>
           if retryable e
           then then_do (task_err Lc_Authority (live_task sleep_task)) (\<lambda>(_ :: unit + unit). report_starting n q)
           else give (Inl (Lc_Control e))) v"
      using again by (cases r) auto
  qed
qed simp

section \<open>A launch gets through\<close>

lemma task_err_run: "m w = (Ready (Inr a), w1) \<Longrightarrow> task_err g m w = (Ready (Inr a), w1)"
  by (simp add: task_err_def on_ready_def)

lemma then_do_apply:
  "then_do m f w =
     (case m w of
        (Ready r, w') \<Rightarrow> (case r of Inr a \<Rightarrow> f a w' | Inl e \<Rightarrow> (Ready (Inl e), w'))
      | (Interrupted s, w') \<Rightarrow> (Interrupted s, w')
      | (Dropped, w') \<Rightarrow> (Dropped, w'))"
  by (simp add: then_do_def on_ready_def split: prod.split poll.split sum.split)

lemmas run_simps = then_do_apply prod.case poll.case sum.case

lemma live_run:
  assumes "wd_answers w = Ans_Live # as" and "m (w\<lparr>wd_answers := as\<rparr>) = (Ready r, w1)" and "wd_answers w1 = Ans_Live # as1"
  shows "live_task m w = (Ready (Inr r), w1\<lparr>wd_answers := as1\<rparr>)"
  using assms by (simp add: live_task_def then_do_def on_ready_def stopped_as_error_def check_live_def await_def)

lemma guarded_run:
  assumes "wd_answers w = Ans_Live # as" and "m (w\<lparr>wd_answers := as\<rparr>) = (Ready (Inr a), w1)" and "wd_answers w1 = Ans_Live # as1"
  shows "guarded cause m w = (Ready (Inr a), w1\<lparr>wd_answers := as1\<rparr>)"
  using live_run [of w as m "Inr a" w1 as1] assms by (simp add: guarded_def then_do_def on_ready_def task_err_def)

lemma window_run: "wd_answers w = Ans_Live # as \<Longrightarrow> window_task w = (Ready (Inr ()), w\<lparr>wd_answers := as\<rparr>)"
  by (simp add: window_task_def task_err_def on_ready_def then_do_def stopped_as_error_def check_live_def await_def)

lemma journal_apply_run:
  assumes "wd_answers w = Ans_Journal others env # as" and "operation env (foldl (journal_step x) (wd_journal w) others) = (Inr a, j)"
  shows "journal_apply x operation w = (Ready (Inr a), w\<lparr>wd_answers := as, wd_journal := j\<rparr>)"
  using assms by (simp add: journal_apply_def then_do_def on_ready_def await_def)

text \<open>The answers of a round of the report that fails with a transient error, and of one that succeeds.\<close>

definition failed_round :: "client_error \<Rightarrow> answer list" where
  "failed_round e = [Ans_Live, Ans_Mutation (Inl e), Ans_Live, Ans_Live, Ans_Timer, Ans_Live]"

lemma phase_run:
  assumes "validate_phase_request q = Inr ()" and "wd_answers w = Ans_Live # Ans_Mutation r # Ans_Live # as"
  shows "live_task (phase_task q) w = (Ready (Inr (report_phase q r)), w\<lparr>wd_answers := as, wd_calls := wd_calls w @ [Call_Phase q]\<rparr>)"
  using assms by (simp add: live_run phase_task_def rpc_task_def then_do_def on_ready_def request_def await_def)

lemma report_starting_run:
  assumes "validate_phase_request q = Inr ()" and "\<forall>e \<in> set errors. retryable e" and "report_phase q (Inr m) = Inr status"
    and "pt_decision status = Accepted" and "pt_state status = Starting" and "length errors < n"
    and "wd_answers w = concat (map failed_round errors) @ [Ans_Live, Ans_Mutation (Inr m), Ans_Live] @ as"
  shows "report_starting n q w
    = (Ready (Inr ()), w\<lparr>wd_answers := as, wd_calls := wd_calls w @ replicate (Suc (length errors)) (Call_Phase q)\<rparr>)"
  using assms(2,6,7)
proof (induction errors arbitrary: n w)
  case Nil
  then obtain k where "n = Suc k"
    by (cases n) auto
  then show ?case
    using Nil.prems(3) phase_run [OF assms(1), of w "Inr m" as] assms(3-5)
    by (simp add: run_simps task_err_run)
next
  case (Cons e errors)
  then obtain k where n: "n = Suc k" "length errors < k"
    by (cases n) auto
  have failed: "report_phase q (Inl e) = Inl e"
    using assms(1) by (simp add: report_phase_def)
  let ?rest = "concat (map failed_round errors) @ [Ans_Live, Ans_Mutation (Inr m), Ans_Live] @ as"
  let ?w = "w\<lparr>wd_answers := ?rest, wd_calls := wd_calls w @ [Call_Phase q]\<rparr>"
  have "live_task (phase_task q) w = (Ready (Inr (Inl e)),
      w\<lparr>wd_answers := Ans_Live # Ans_Timer # Ans_Live # ?rest, wd_calls := wd_calls w @ [Call_Phase q]\<rparr>)"
    using phase_run [OF assms(1), of w "Inl e" "Ans_Live # Ans_Timer # Ans_Live # ?rest"] failed Cons.prems(3)
    by (simp add: failed_round_def [of e])
  moreover have "live_task sleep_task (w\<lparr>wd_answers := Ans_Live # Ans_Timer # Ans_Live # ?rest, wd_calls := wd_calls w @ [Call_Phase q]\<rparr>)
      = (Ready (Inr (Inr () :: unit + unit)), ?w)"
    by (simp add: live_run sleep_task_def await_def)
  ultimately have "report_starting n q w = report_starting k q ?w"
    using Cons.prems(1) by (simp add: n(1) run_simps task_err_run)
  also have "\<dots> = (Ready (Inr ()), ?w\<lparr>wd_answers := as, wd_calls := wd_calls ?w @ replicate (Suc (length errors)) (Call_Phase q)\<rparr>)"
    using Cons.IH [of k ?w] Cons.prems(1) n(2) by simp
  finally show ?case
    by simp
qed

lemma start_container_run:
  assumes "wd_answers w = [Ans_Live, Ans_Journal others env, Ans_Live, Ans_Live, Ans_Live, Ans_Started started, Ans_Live,
      Ans_Live, Ans_Inspect (Inr status), Ans_Live] @ as"
    and "bind_container x (env 0) (aa_attempt_id identity) c (foldl (journal_step x) (wd_journal w) others) = (Inr (), j)"
    and "\<forall>e. started = Inl e \<longrightarrow> start_uncertain e" and "launched_ok status"
  shows "start_container x identity c w = (Ready (Inr c), w\<lparr>wd_answers := as, wd_journal := j, wd_calls := wd_calls w @ [Call_Start c]\<rparr>)"
proof -
  let ?w1 = "w\<lparr>wd_answers := [Ans_Live, Ans_Live, Ans_Started started, Ans_Live, Ans_Live, Ans_Inspect (Inr status), Ans_Live] @ as, wd_journal := j\<rparr>"
  let ?w2 = "?w1\<lparr>wd_answers := [Ans_Live, Ans_Started started, Ans_Live, Ans_Live, Ans_Inspect (Inr status), Ans_Live] @ as\<rparr>"
  let ?w3 = "?w1\<lparr>wd_answers := [Ans_Live, Ans_Inspect (Inr status), Ans_Live] @ as, wd_calls := wd_calls w @ [Call_Start c]\<rparr>"
  have bound: "guarded Lc_Journal (async_do x (\<lambda>env. bind_container x env (aa_attempt_id identity) c)) w = (Ready (Inr ()), ?w1)"
    using assms(1,2) by (simp add: guarded_run async_do_def journal_apply_run)
  have window: "window_task ?w1 = (Ready (Inr ()), ?w2)"
    by (simp add: window_run)
  have start: "live_task (start_task c) ?w2 = (Ready (Inr started), ?w3)"
    by (simp add: live_run start_task_def then_do_def on_ready_def request_def await_def)
  have inspect: "guarded Lc_Runtime inspect_task ?w3 = (Ready (Inr status), ?w3\<lparr>wd_answers := as\<rparr>)"
    by (simp add: guarded_run inspect_task_def then_do_def on_ready_def await_def)
  have "start_container x identity c w
      = (case started of
           Inl e \<Rightarrow>
             if \<not> start_uncertain e then give (Inl (Lc_Runtime e))
             else then_do (guarded Lc_Runtime inspect_task) (\<lambda>status.
               give (if launched_ok status then Inr c else Inl (Lc_Runtime Rt_Terminal)))
         | Inr _ \<Rightarrow>
             then_do (guarded Lc_Runtime inspect_task) (\<lambda>status.
               give (if launched_ok status then Inr c else Inl (Lc_Runtime Rt_Terminal)))) ?w3"
    unfolding start_container_def by (simp only: run_simps bound window task_err_run [of "live_task (start_task c)", OF start])
  then show ?thesis
    using assms(3,4) inspect by (cases started) (simp_all add: run_simps)
qed

lemma failing_apply:
  "failing handle attempted m w =
     (case m w of
        (Ready r, w') \<Rightarrow> (Ready (map_err (\<lambda>cause. (cause, handle, attempted)) r), w')
      | (Interrupted s, w') \<Rightarrow> (Interrupted s, w')
      | (Dropped, w') \<Rightarrow> (Dropped, w'))"
  by (simp add: failing_def task_err_def on_ready_def split: prod.split poll.split)

text \<open>The inputs of a launch that belong together.\<close>

definition launch_fits :: "launch_input \<Rightarrow> attempt_authority \<Rightarrow> bool" where
  "launch_fits input identity \<longleftrightarrow>
     as_authority (li_assignment input) = Some identity \<and> li_identity input = identity
     \<and> aa_worker_id identity = ws_worker_id (li_session input) \<and> aa_session_id identity = ws_session_id (li_session input)
     \<and> li_workspace_name input = Some (aa_attempt_id identity)"

lemma launch_body_run:
  assumes "launch_fits input identity"
    and "launch_operation x (li_assignment input) (li_session input) env (foldl (journal_step x) j others) = (Inr q, j1)"
    and "validate_phase_request q = Inr ()" and "\<forall>e \<in> set errors. retryable e"
    and "report_phase q (Inr m) = Inr \<lparr>pt_decision = Accepted, pt_state = Starting\<rparr>"
    and "bind_container x (env' 0) (aa_attempt_id identity) c (foldl (journal_step x) j1 others') = (Inr (), j2)"
    and "\<forall>e. started = Inl e \<longrightarrow> start_uncertain e" and "launched_ok status"
  shows "launch_body x input
      \<lparr>wd_journal = j,
       wd_answers = [Ans_Live, Ans_Journal others env, Ans_Live] @ concat (map failed_round errors)
         @ [Ans_Live, Ans_Mutation (Inr m), Ans_Live, Ans_Live, Ans_Live, Ans_Container (Inr c), Ans_Live, Ans_Live, Ans_Journal others' env', Ans_Live,
            Ans_Live, Ans_Live, Ans_Started started, Ans_Live, Ans_Live, Ans_Inspect (Inr status), Ans_Live],
       wd_calls = []\<rparr>
    = (Ready (Inr c),
       \<lparr>wd_journal = j2, wd_answers = [],
        wd_calls = replicate (Suc (length errors)) (Call_Phase q) @ [Call_Container identity, Call_Start c]\<rparr>)"
proof -
  let ?start = "[Ans_Live, Ans_Journal others' env', Ans_Live, Ans_Live, Ans_Live, Ans_Started started, Ans_Live, Ans_Live, Ans_Inspect (Inr status), Ans_Live]"
  let ?create = "[Ans_Live, Ans_Live, Ans_Container (Inr c), Ans_Live] @ ?start"
  let ?report = "concat (map failed_round errors) @ [Ans_Live, Ans_Mutation (Inr m), Ans_Live] @ ?create"
  let ?w = "\<lparr>wd_journal = j, wd_answers = [Ans_Live, Ans_Journal others env, Ans_Live] @ ?report, wd_calls = []\<rparr>"
  let ?w1 = "\<lparr>wd_journal = j1, wd_answers = ?report, wd_calls = []\<rparr>"
  let ?phases = "replicate (Suc (length errors)) (Call_Phase q)"
  let ?w2 = "\<lparr>wd_journal = j1, wd_answers = ?create, wd_calls = ?phases\<rparr>"
  let ?w3 = "?w2\<lparr>wd_answers := [Ans_Live, Ans_Container (Inr c), Ans_Live] @ ?start\<rparr>"
  let ?w4 = "?w2\<lparr>wd_answers := ?start, wd_calls := ?phases @ [Call_Container identity]\<rparr>"
  have prepare: "guarded Lc_Journal (prepare_launch x (li_assignment input) (li_session input)) ?w = (Ready (Inr q), ?w1)"
    using assms(2) by (simp add: guarded_run prepare_launch_def journal_apply_run)
  have report: "report_starting (Suc (length (wd_answers ?w1))) q ?w1 = (Ready (Inr ()), ?w2)"
  proof -
    have "length errors < Suc (length ?report)"
      by (induction errors) (simp_all add: failed_round_def)
    then show ?thesis
      using report_starting_run [OF assms(3,4,5) _ _ _, of "Suc (length ?report)" ?w1 ?create] by simp
  qed
  have window: "window_task ?w2 = (Ready (Inr ()), ?w3)"
    by (simp add: window_run)
  have create: "guarded Lc_Runtime (container_task identity) ?w3 = (Ready (Inr c), ?w4)"
    by (simp add: guarded_run container_task_def then_do_def on_ready_def request_def await_def)
  have start: "start_container x identity c ?w4 = (Ready (Inr c),
      ?w4\<lparr>wd_answers := [], wd_journal := j2, wd_calls := wd_calls ?w4 @ [Call_Start c]\<rparr>)"
    using start_container_run [of ?w4 others' env' started status "[]"] assms(6-8) by simp
  have "launch_body x input ?w = failing (Some c) True (start_container x identity c) ?w4"
    using assms(1) unfolding launch_body_def launch_fits_def
    by (simp only: option.case simp_thms if_False run_simps failing_apply map_err_def prepare report window create)
  then show ?thesis
    by (simp only: failing_apply start run_simps map_err_def) simp
qed

section \<open>Examples\<close>

definition launch_identity :: attempt_authority where
  "launch_identity = fixture_authority\<lparr>aa_session_id := scene_uuid 2\<rparr>"

definition launch_assignment :: assignment where
  "launch_assignment = sample_assignment\<lparr>as_authority := Some launch_identity\<rparr>"

definition launch_starting :: report_phase_request where
  "launch_starting =
     \<lparr>rp_authority = Some launch_identity, rp_event_id = scene_uuid 7, rp_phase = state_i32 Starting, rp_container_id = [],
      rp_exit_code = None\<rparr>"

text \<open>The records of the example: assigned, \<open>STARTING\<close>, and with its container.\<close>

definition launch_record :: "nat \<Rightarrow> attempt_record" where
  "launch_record n = (fresh_record launch_assignment)
     \<lparr>ar_phase_reports := (if n = 0 then [] else [launch_starting]), ar_container_id := (if n = 2 then fixture_hash CHR ''c'' else [])\<rparr>"

definition launch_externals :: journal_externals where
  "launch_externals =
     \<lparr>x_sha256 = (\<lambda>_. replicate 32 0), x_parse = (\<lambda>b. if b = [1] then Some sample_job_json else None), x_print = (\<lambda>_. []),
      x_parse_url = (\<lambda>_. None), x_ip_loopback = (\<lambda>_. False), x_tar = (\<lambda>_. []),
      x_encode_record = table_encode (map launch_record [0, 1, 2]), x_decode_record = table_decode (map launch_record [0, 1, 2]),
      x_encode_session = table_encode [scene_session 0, scene_session 1],
      x_decode_session = table_decode [scene_session 0, scene_session 1]\<rparr>"

lemma launch_codec: "journal_codec launch_externals"
  by (simp add: journal_codec_def launch_externals_def)

lemmas launch_sha = launch_codec [unfolded journal_codec_def, THEN conjunct2]

lemma launch_records_distinct: "distinct (map launch_record [0, 1, 2])"
  by (simp add: launch_record_def fresh_record_def fixture_hash_def)

lemma launch_encodes: "n < 3 \<Longrightarrow> x_encode_record launch_externals (launch_record n) = replicate n 0"
  using table_encode_nth [OF launch_records_distinct, of n]
  by (auto simp: launch_externals_def less_Suc_eq eval_nat_numeral)

lemma launch_session_codec: "scene_session_codec launch_externals"
proof -
  have "distinct [scene_session 0, scene_session 1]"
    by (simp add: scene_session_def)
  from table_encode_nth [OF this, of 0] table_encode_nth [OF this, of 1] show ?thesis
    by (simp add: scene_session_codec_def launch_externals_def)
qed

lemma launch_record_valid:
  assumes "n < 3"
  shows "scene_record launch_externals (launch_record n)"
proof -
  let ?x = launch_externals
  have "x_parse ?x [1] = Some sample_job_json" "x_sha256 ?x [1] = replicate 32 0"
    by (simp_all add: launch_externals_def)
  then have "from_assignment ?x sample_assignment = Inr \<lparr>es_job = sample_job, es_sha256 = hex (replicate 32 0)\<rparr>"
    by (rule sample_from_assignment)
  moreover have "from_assignment ?x (ar_assignment (launch_record n)) = from_assignment ?x sample_assignment"
  proof -
    let ?a = "ar_assignment (launch_record n)"
    have "as_canonical_job_spec_json ?a = as_canonical_job_spec_json sample_assignment" "as_spec_sha256 ?a = as_spec_sha256 sample_assignment"
      "as_inputs ?a = as_inputs sample_assignment" "as_resources ?a = as_resources sample_assignment"
      "as_image_digest ?a = as_image_digest sample_assignment" "as_argv ?a = as_argv sample_assignment"
      by (simp_all add: launch_record_def fresh_record_def launch_assignment_def)
    then show ?thesis
      unfolding from_assignment_def by (simp only:)
  qed
  moreover have "check_phases (launch_record n) launch_identity 0 0 [] (ar_phase_reports (launch_record n))"
    by (simp add: launch_record_def launch_starting_def validate_phase_request_def state_of_def scene_uuid(2) launch_identity_def
        fixture_authority_def i64_max_def)
  moreover have "ar_authority (launch_record n) = Some launch_identity"
    by (simp add: launch_record_def fresh_record_def launch_assignment_def)
  moreover have "completion_ok ?x (launch_record n)" "outputs_ok ?x (launch_record n)" "logs_ok (launch_record n)"
    by (simp_all add: completion_ok_def superseded_ok_def outputs_ok_def logs_ok_def launch_record_def fresh_record_def)
  ultimately have "record_ok ?x (launch_record n) (fixture_uuid CHR ''1'') (fixture_uuid CHR ''4'')"
    by (simp add: record_ok_def)
      (simp add: launch_identity_def fixture_authority_def scene_uuid(2) i64_max_def launch_record_def fresh_record_def)
  then show ?thesis
    using launch_codec launch_encodes [OF assms] assms by (simp add: scene_record_def Record_validate_def)
qed

abbreviation launch_scene :: "nat \<Rightarrow> journal" where
  "launch_scene n \<equiv> scene launch_externals (Some (x_encode_session launch_externals (scene_session 1)))
     (x_encode_record launch_externals (launch_record n)) (Some (scene_uuid 2))"

definition launch_sample :: launch_input where
  "launch_sample =
     \<lparr>li_assignment = launch_assignment, li_grace_seconds = 5, li_session = scene_worker_session,
      li_workspace_name = Some (fixture_uuid CHR ''4''), li_identity = launch_identity\<rparr>"

lemma launch_history:
  "foldl (journal_step launch_externals) (sample_journal launch_externals) [scene_begin, scene_register] = launch_scene 0"
proof -
  have "sample_journal launch_externals = scene launch_externals None (x_encode_record launch_externals (launch_record 0)) None"
    by (simp add: scene_start launch_encodes)
  then show ?thesis
    using scene_begun [OF launch_session_codec, of "[]"] scene_registered [OF launch_session_codec, of "[]"]
    by (simp add: launch_encodes)
qed

lemma launch_attempt_key: "as_authority launch_assignment = Some launch_identity" "aa_attempt_id launch_identity = fixture_uuid CHR ''4''"
  "aa_worker_id launch_identity = fixture_uuid CHR ''1''" "aa_session_id launch_identity = scene_uuid 2"
  by (simp_all add: launch_assignment_def launch_identity_def fixture_authority_def)

lemma launch_prepared:
  "launch_operation launch_externals launch_assignment scene_worker_session (\<lambda>_. quiet_journal_env) (launch_scene 0)
     = (Inr launch_starting, launch_scene 1)"
proof -
  let ?x = launch_externals and ?j = "launch_scene 0"
  have quiet: "je_read quiet_journal_env = quiet_read" "je_write quiet_journal_env = quiet_write"
    "je_fill quiet_journal_env = Some (replicate 16 7)"
    by (simp_all add: quiet_journal_env_def)
  have "jn_worker_id ?j = fixture_uuid CHR ''1''" "jn_incarnation ?j = Some (scene_uuid 2)"
    by (simp_all add: scene_def)
  moreover have "rw_requested_session_id (sr_registration (scene_session 1)) = scene_uuid 2" "sr_generation (scene_session 1) = 1"
    by (simp_all add: scene_session_def)
  ultimately have session: "current_session ?x quiet_read launch_assignment scene_worker_session ?j = Inr ()"
    using scene_load_session [OF launch_session_codec]
    by (simp add: current_session_def launch_attempt_key) (simp add: scene_worker_session_def)
  have load: "load_attempt ?x quiet_read (fixture_uuid CHR ''4'') ?j = Inr (Some (launch_record 0))"
    by (rule scene_load [OF launch_record_valid]) simp
  have fresh: "fresh_record launch_assignment = launch_record 0"
    by (simp add: launch_record_def fresh_record_def)
  have "Record_validate ?x (launch_record 0) (fixture_uuid CHR ''1'') (fixture_uuid CHR ''4'') = Inr ()"
    using launch_record_valid [of 0] by (simp add: scene_record_def)
  then have persist: "persist_assignment ?x quiet_journal_env launch_assignment ?j = (Inr (), ?j)"
    using load by (simp add: persist_assignment_def launch_attempt_key fresh quiet Let_def scene_def)
  have step: "prepare_phase_step fill Starting (launch_record 0) = Inr (Some (launch_record 1), launch_starting)"
    if "new_uuid fill = Inr (scene_uuid 7)" for fill
    using launch_attempt_key(1) that
    by (simp add: prepare_phase_step_def Let_def launch_record_def fresh_record_def launch_starting_def exit_code_of_def)
  have "\<forall>s. Some (x_encode_session ?x (scene_session 1)) = Some s \<longrightarrow> length s \<le> 100"
    using launch_session_codec by (simp add: scene_session_codec_def)
  then have "prepare_phase ?x quiet_journal_env (fixture_uuid CHR ''4'') Starting ?j = (Inr launch_starting, launch_scene 1)"
    using scene_update_attempt [where step = "prepare_phase_step (Some (replicate 16 7)) Starting" and q = launch_starting,
        OF launch_record_valid [of 0] launch_record_valid [of 1]] step [OF scene_uuid(1)]
    by (simp add: prepare_phase_def quiet)
  then show ?thesis
    using session load persist
    by (simp add: launch_operation_def launch_attempt_key quiet was_launched_def) (simp add: launch_record_def fresh_record_def)
qed

text \<open>One transient failure, a lost reply to the start, and a running container.\<close>

definition launch_world :: "journal \<Rightarrow> world" where
  "launch_world j =
     \<lparr>wd_journal = j,
      wd_answers = [Ans_Live, Ans_Journal [] (\<lambda>_. quiet_journal_env), Ans_Live] @ concat (map failed_round [C_Deadline])
        @ [Ans_Live, Ans_Mutation (Inr \<lparr>mr_decision = decision_i32 Accepted, mr_state = state_i32 Starting\<rparr>), Ans_Live, Ans_Live,
           Ans_Live, Ans_Container (Inr (fixture_hash CHR ''c'')), Ans_Live, Ans_Live, Ans_Journal [] (\<lambda>_. quiet_journal_env), Ans_Live,
           Ans_Live, Ans_Live, Ans_Started (Inl Rt_Transport), Ans_Live, Ans_Live,
           Ans_Inspect (Inr \<lparr>cs_running = True, cs_exit_code = None, cs_oom_killed = False, cs_state = Cs_Running\<rparr>), Ans_Live],
      wd_calls = []\<rparr>"

definition launched_world :: world where
  "launched_world =
     \<lparr>wd_journal = launch_scene 2, wd_answers = [],
      wd_calls = [Call_Phase launch_starting, Call_Phase launch_starting, Call_Container launch_identity, Call_Start (fixture_hash CHR ''c'')]\<rparr>"

lemma launch_starting_valid: "validate_phase_request launch_starting = Inr ()"
  by (simp add: launch_starting_def validate_phase_request_def state_of_def scene_uuid(2) launch_identity_def fixture_authority_def i64_max_def)

lemma launch_bound:
  "bind_container launch_externals quiet_journal_env (fixture_uuid CHR ''4'') (fixture_hash CHR ''c'') (launch_scene 1) = (Inr (), launch_scene 2)"
proof -
  have "bind_container_step (fixture_hash CHR ''c'') (launch_record 1) = Inr (Some (launch_record 2), ())"
    by (simp add: bind_container_step_def launch_record_def fresh_record_def)
  moreover have "\<forall>s. Some (x_encode_session launch_externals (scene_session 1)) = Some s \<longrightarrow> length s \<le> 100"
    using launch_session_codec by (simp add: scene_session_codec_def)
  ultimately show ?thesis
    using scene_update_attempt [where step = "bind_container_step (fixture_hash CHR ''c'')" and q = "()",
        OF launch_record_valid [of 1] launch_record_valid [of 2]]
    by (simp add: bind_container_def)
qed

lemma launch_body_sample: "launch_body launch_externals launch_sample (launch_world (launch_scene 0))
    = (Ready (Inr (fixture_hash CHR ''c'')), launched_world)"
proof -
  have "launch_fits launch_sample launch_identity"
    by (simp add: launch_fits_def launch_sample_def launch_attempt_key scene_worker_session_def)
  moreover have "report_phase launch_starting (Inr \<lparr>mr_decision = decision_i32 Accepted, mr_state = state_i32 Starting\<rparr>)
      = Inr \<lparr>pt_decision = Accepted, pt_state = Starting\<rparr>"
    by (simp add: report_phase_def launch_starting_valid)
      (simp add: validate_phase_response_def decision_of_def state_of_def is_active_def launch_starting_def)
  moreover have "launched_ok \<lparr>cs_running = True, cs_exit_code = None, cs_oom_killed = False, cs_state = Cs_Running\<rparr>"
    by (simp add: launched_ok_def)
  moreover have "launch_operation launch_externals (li_assignment launch_sample) (li_session launch_sample) (\<lambda>_. quiet_journal_env)
      (foldl (journal_step launch_externals) (launch_scene 0) []) = (Inr launch_starting, launch_scene 1)"
    using launch_prepared by (simp add: launch_sample_def)
  moreover have "bind_container launch_externals quiet_journal_env (aa_attempt_id launch_identity) (fixture_hash CHR ''c'')
      (foldl (journal_step launch_externals) (launch_scene 1) []) = (Inr (), launch_scene 2)"
    using launch_bound launch_attempt_key(2) by simp
  ultimately show ?thesis
    unfolding launch_world_def launched_world_def
    using launch_body_run [where errors = "[C_Deadline]" and env = "\<lambda>_. quiet_journal_env" and env' = "\<lambda>_. quiet_journal_env"
        and x = launch_externals and input = launch_sample and identity = launch_identity and q = launch_starting
        and others = "[]" and others' = "[]" and started = "Inl Rt_Transport" and c = "fixture_hash CHR ''c''"
        and j = "launch_scene 0" and ?j1.0 = "launch_scene 1" and ?j2.0 = "launch_scene 2"
        and m = "\<lparr>mr_decision = decision_i32 Accepted, mr_state = state_i32 Starting\<rparr>"
        and status = "\<lparr>cs_running = True, cs_exit_code = None, cs_oom_killed = False, cs_state = Cs_Running\<rparr>"]
      launch_starting_valid by simp
qed

lemma launch_run: "launch_inner launch_externals launch_sample (launch_world (launch_scene 0))
    = (Ready (Inr (fixture_hash CHR ''c'')), launched_world)"
  by (simp add: launch_inner_def on_ready_def launch_body_sample)

lemma launch_world_start: "wd_journal (launch_world (launch_scene 0))
    = foldl (journal_step launch_externals) (sample_journal launch_externals) [scene_begin, scene_register]"
  "wd_calls (launch_world j) = []" "wd_journal (launch_world j) = j"
  unfolding launch_history by (simp_all add: launch_world_def)

theorem launches_at_most_once_witness:
  "launch_inner launch_externals launch_sample (launch_world (launch_scene 0)) = (Ready (Inr (fixture_hash CHR ''c'')), launched_world)
   \<and> length (wd_calls launched_world) = 4
   \<and> wd_calls (snd (launch_inner launch_externals launch_sample (launch_world (wd_journal launched_world)))) = []"
proof -
  obtain p' w3 where again: "launch_inner launch_externals launch_sample (launch_world (wd_journal launched_world)) = (p', w3)"
    by fastforce
  have "wd_calls w3 = [] \<and> (\<forall>r. p' = Ready r \<longrightarrow> (\<exists>cause. r = Inl \<lparr>le_cause = cause, le_cleanup = Ev_NotCreated\<rparr>))"
    by (rule launches_at_most_once [where after = "[]", OF launch_codec sample_dir_intact sample_opened [OF launch_sha]
          launch_world_start(1,2) launch_run _ _ launch_world_start(2) again])
      (simp_all add: launched_world_def launch_world_start(3))
  then show ?thesis
    using launch_run again by (simp add: launched_world_def)
qed

end
