(* ===== verification/Launch_Calls.thy ===== *)
theory Launch_Calls
  imports Launch
begin

text \<open>
  What a launch asks the server and the runtime for, in which order, and what it leaves in
  the journal before it asks: the requests of \<open>launch_inner\<close> of \<open>rust/worker/src/launch.rs\<close>.
\<close>

section \<open>What a launch asks for\<close>

definition asks :: "call list list \<Rightarrow> ('e, 'a) task \<Rightarrow> bool" where
  "asks css m \<longleftrightarrow> (\<forall>w p w'. m w = (p, w') \<longrightarrow> (\<exists>cs \<in> set css. wd_calls w' = wd_calls w @ cs))"

lemma asks_quiet: "performs x (\<lambda>_. False) m \<Longrightarrow> asks [[]] m"
  unfolding asks_def using performs_quiet by (metis append_Nil2 list.set_intros(1))

lemma asks_once_then:
  assumes "asks [[], [c]] m" and "\<And>a. asks [[]] (f a)"
  shows "asks [[], [c]] (on_ready m f)"
proof -
  have "wd_calls w' = wd_calls w \<or> wd_calls w' = wd_calls w @ [c]" if run: "on_ready m f w = (p, w')" for w p w'
  proof -
    obtain q w1 where m: "m w = (q, w1)"
      by fastforce
    then have "wd_calls w1 = wd_calls w \<or> wd_calls w1 = wd_calls w @ [c]"
      using assms(1) by (simp add: asks_def)
    then show ?thesis
      using run m assms(2) by (cases q) (auto simp: on_ready_def asks_def)
  qed
  then show ?thesis
    by (simp add: asks_def)
qed

lemma asks_then_once:
  assumes "asks [[]] m" and "\<And>a. asks [[], [c]] (f a)"
  shows "asks [[], [c]] (on_ready m f)"
proof -
  have "wd_calls w' = wd_calls w \<or> wd_calls w' = wd_calls w @ [c]" if run: "on_ready m f w = (p, w')" for w p w'
  proof -
    obtain q w1 where m: "m w = (q, w1)"
      by fastforce
    then have "wd_calls w1 = wd_calls w"
      using assms(1) by (simp add: asks_def)
    then show ?thesis
      using run m assms(2) by (cases q) (fastforce simp: on_ready_def asks_def)+
  qed
  then show ?thesis
    by (simp add: asks_def)
qed

lemma asks_weaken: "asks [[]] m \<Longrightarrow> asks [[], [c]] m"
  by (auto simp: asks_def)

lemma asks_give: "asks [[]] (give r)"
  by (simp add: asks_def)

lemma asks_stopped: "asks css m \<Longrightarrow> asks css (stopped_as_error m)"
  unfolding asks_def stopped_as_error_def by (fastforce split: prod.splits poll.splits)

lemma asks_check: "asks [[]] (then_do (stopped_as_error check_live) (\<lambda>_. give r))"
  by (rule asks_quiet) (intro performs_intro)

lemma asks_live:
  assumes "asks [[], [c]] m"
  shows "asks [[], [c]] (live_task m)"
proof -
  have "asks [[], [c]] (then_do (stopped_as_error m) (\<lambda>r. then_do (stopped_as_error check_live) (\<lambda>_. give (Inr r))))"
    unfolding then_do_def [of "stopped_as_error m"]
    by (intro asks_once_then asks_stopped assms) (simp add: asks_give asks_check split: sum.split)
  moreover have "asks [[]] (stopped_as_error check_live)"
    by (rule asks_quiet) (intro performs_intro)
  ultimately show ?thesis
    unfolding live_task_def then_do_def [of "stopped_as_error check_live" "\<lambda>_. then_do (stopped_as_error m) _"]
    by (intro asks_then_once) (simp_all add: asks_weaken asks_give split: sum.split)
qed

lemma asks_request: "asks [[], [c]] (then_do (request c want) give)"
  unfolding then_do_def
proof (rule asks_once_then)
  show "asks [[], [c]] (request c want)"
    by (auto simp: asks_def request_def await_def split: list.splits answer.splits option.splits)
qed (simp add: asks_give split: sum.split)

lemma asks_guarded: "asks [[], [c]] m \<Longrightarrow> asks [[], [c]] (guarded cause m)"
  unfolding guarded_def then_do_def task_err_def
  by (intro asks_once_then asks_live) (auto intro: asks_give split: sum.split)

lemma asks_failing: "asks css m \<Longrightarrow> asks css (failing handle attempted m)"
  unfolding asks_def failing_def task_err_def on_ready_def by (fastforce split: prod.splits poll.splits)

lemma start_container_asks: "asks [[], [Call_Start container]] (start_container x identity container)"
proof -
  have inspect: "asks [[]] (then_do (guarded Lc_Runtime inspect_task) (\<lambda>status. give (f status)))" for f
    by (rule asks_quiet) (intro performs_intro)
  have start: "asks [[], [Call_Start container]] (task_err Lc_Authority (live_task (start_task container)))"
    unfolding task_err_def start_task_def by (intro asks_once_then asks_live asks_request asks_give)
  have "asks [[], [Call_Start container]] (then_do (task_err Lc_Authority (live_task (start_task container))) (\<lambda>started.
       case started of
         Inl e \<Rightarrow>
           if \<not> start_uncertain e then give (Inl (Lc_Runtime e))
           else then_do (guarded Lc_Runtime inspect_task) (\<lambda>status.
             give (if launched_ok status then Inr container else Inl (Lc_Runtime Rt_Terminal)))
       | Inr _ \<Rightarrow>
           then_do (guarded Lc_Runtime inspect_task) (\<lambda>status.
             give (if launched_ok status then Inr container else Inl (Lc_Runtime Rt_Terminal)))))" (is "asks _ ?start")
    unfolding then_do_def [of "task_err _ _"] by (intro asks_once_then start) (simp add: inspect asks_give split: sum.split)
  moreover have "asks [[]] window_task"
    "asks [[]] (guarded Lc_Journal (async_do x (\<lambda>env. bind_container x env (aa_attempt_id identity) container)))"
    by (rule asks_quiet [of x], intro performs_intro)+
  ultimately show ?thesis
    unfolding start_container_def
    by (simp add: then_do_def [of window_task] then_do_def [of "guarded Lc_Journal _"] asks_then_once asks_weaken asks_give split: sum.split)
qed

lemma then_do_cases:
  assumes "then_do m f w = (p, w')"
  obtains a w1 where "m w = (Ready (Inr a), w1)" "f a w1 = (p, w')"
  | q where "m w = (q, w')" "\<And>b. p \<noteq> Ready (Inr b)" "\<And>e. p = Ready (Inl e) \<Longrightarrow> q = Ready (Inl e)" "\<And>a. q \<noteq> Ready (Inr a)"
proof -
  obtain q w1 where "m w = (q, w1)"
    by fastforce
  then show thesis
    using assms that by (cases q) (auto simp: then_do_def on_ready_def split: sum.splits)
qed

lemma failing_Inl: "failing handle attempted m w = (Ready (Inl e), w') \<Longrightarrow> snd e = (handle, attempted)"
  by (auto simp: failing_def task_err_def on_ready_def map_err_def split: prod.splits poll.splits sum.splits)

lemma request_made: "then_do (request c want) give w = (Ready r, w') \<Longrightarrow> wd_calls w' = wd_calls w @ [c]"
  by (auto simp: then_do_def on_ready_def request_def await_def split: prod.splits poll.splits sum.splits list.splits answer.splits option.splits)

lemma performs_replicate:
  assumes "performs x (\<lambda>c'. c' = c) m" and "m w = (p, w')"
  shows "\<exists>n. wd_calls w' = wd_calls w @ replicate n c"
proof -
  obtain cs where "wd_calls w' = wd_calls w @ cs" "list_all (\<lambda>c'. c' = c) cs"
    using assms unfolding performs_def by blast
  moreover from this(2) have "cs = replicate (length cs) c"
    by (intro replicate_eqI) (auto simp: list_all_iff)
  ultimately show ?thesis
    by metis
qed

lemma guarded_request_made:
  assumes "guarded cause (then_do (request c want) give) w = (Ready (Inr a), w')"
  shows "wd_calls w' = wd_calls w @ [c]"
  using guarded_Inr [OF assms] request_made by metis

lemma start_container_Inr:
  assumes "start_container x identity container w = (Ready (Inr c), w')"
  shows "c = container \<and> wd_calls w' = wd_calls w @ [Call_Start container]"
proof -
  have quiet: "performs x (\<lambda>_. False) (guarded Lc_Journal (async_do x (\<lambda>env. bind_container x env (aa_attempt_id identity) container)))"
    "performs x (\<lambda>_. False) window_task" "performs x (\<lambda>_. False) (guarded Lc_Runtime inspect_task)"
    by (intro performs_intro)+
  obtain u wa wb wc r where run: "guarded Lc_Journal (async_do x (\<lambda>env. bind_container x env (aa_attempt_id identity) container)) w = (Ready (Inr u), wa)"
    "window_task wa = (Ready (Inr ()), wb)" "live_task (start_task container) wb = (Ready (Inr r), wc)"
    "(case r of
         Inl e \<Rightarrow>
           if \<not> start_uncertain e then give (Inl (Lc_Runtime e))
           else then_do (guarded Lc_Runtime inspect_task) (\<lambda>status.
             give (if launched_ok status then Inr container else Inl (Lc_Runtime Rt_Terminal)))
       | Inr _ \<Rightarrow>
           then_do (guarded Lc_Runtime inspect_task) (\<lambda>status.
             give (if launched_ok status then Inr container else Inl (Lc_Runtime Rt_Terminal)))) wc = (Ready (Inr c), w')"
    using assms unfolding start_container_def then_do_Inr task_err_Inr by auto
  then obtain status where inspected: "guarded Lc_Runtime inspect_task wc = (Ready (Inr status), w')" and "c = container"
    by (auto simp: then_do_Inr split: sum.splits if_splits)
  moreover have "wd_calls wa = wd_calls w" "wd_calls wb = wd_calls wa" "wd_calls w' = wd_calls wc"
    by (rule performs_quiet [OF quiet(1) run(1)], rule performs_quiet [OF quiet(2) run(2)],
        rule performs_quiet [OF quiet(3) inspected])
  moreover have "wd_calls wc = wd_calls wb @ [Call_Start container]"
    using live_task_Inr [OF run(3)] request_made unfolding start_task_def by metis
  ultimately show ?thesis
    by simp
qed

lemma create_and_start_asks:
  assumes "then_do (failing None True (guarded Lc_Runtime (container_task identity))) (\<lambda>container.
      failing (Some container) True (start_container x identity container)) w = (p, w')"
  shows "\<exists>cs. wd_calls w' = wd_calls w @ cs
    \<and> (cs = [] \<or> cs = [Call_Container identity] \<or> (\<exists>c. cs = [Call_Container identity, Call_Start c]))
    \<and> (\<forall>e. p = Ready (Inl e) \<longrightarrow> snd (snd e)) \<and> (\<forall>c. p = Ready (Inr c) \<longrightarrow> cs = [Call_Container identity, Call_Start c])"
  using assms
proof (cases rule: then_do_cases)
  case (1 container w1)
  have created: "wd_calls w1 = wd_calls w @ [Call_Container identity]"
    using guarded_request_made 1(1) unfolding failing_Inr container_task_def by metis
  have "asks [[], [Call_Start container]] (failing (Some container) True (start_container x identity container))"
    by (intro asks_failing start_container_asks)
  then have started: "wd_calls w' = wd_calls w1 \<or> wd_calls w' = wd_calls w1 @ [Call_Start container]"
    using 1(2) by (simp add: asks_def)
  have "c = container \<and> wd_calls w' = wd_calls w1 @ [Call_Start container]" if "p = Ready (Inr c)" for c
    using start_container_Inr 1(2) that by (metis failing_Inr)
  moreover have "snd (snd e)" if "p = Ready (Inl e)" for e
    using failing_Inl 1(2) that by (metis snd_conv)
  ultimately show ?thesis
    using created started by auto
next
  case (2 q)
  have "asks [[], [Call_Container identity]] (failing None True (guarded Lc_Runtime (container_task identity)))"
    unfolding container_task_def by (intro asks_failing asks_guarded asks_request)
  then have "wd_calls w' = wd_calls w \<or> wd_calls w' = wd_calls w @ [Call_Container identity]"
    using 2(1) by (simp add: asks_def)
  moreover have "snd (snd e)" if "p = Ready (Inl e)" for e
    using failing_Inl 2(1,3) that by (metis snd_conv)
  ultimately show ?thesis
    using 2(2) by auto
qed

lemma launch_body_asks:
  assumes "launch_body x input w = (p, w')" and "wd_calls w = []"
  shows "\<exists>n q cs. wd_calls w' = replicate n (Call_Phase q) @ cs
    \<and> (cs = [] \<or> (\<exists>identity. as_authority (li_assignment input) = Some identity
        \<and> (cs = [Call_Container identity] \<or> (\<exists>c. cs = [Call_Container identity, Call_Start c]))))
    \<and> (\<forall>e. p = Ready (Inl e) \<longrightarrow> \<not> snd (snd e) \<longrightarrow> cs = [])
    \<and> (\<forall>c. p = Ready (Inr c) \<longrightarrow> (\<exists>identity. cs = [Call_Container identity, Call_Start c]))" (is "?asks (wd_calls w')")
proof -
  have failed: "?asks calls" if "calls = replicate n (Call_Phase q)" "\<And>c. p \<noteq> Ready (Inr c)" for calls n q
    using that by (intro exI [of _ n] exI [of _ q] exI [of _ "[]"]) auto
  show ?thesis
  proof (cases "\<exists>c h a. (p, w') = (Ready (Inl (c, h, a)), w)")
    case True
    then show ?thesis
      using failed [of _ 0] assms(2) by auto
  next
    case False
    then obtain identity where identity: "as_authority (li_assignment input) = Some identity"
      and run: "then_do (failing None False (guarded Lc_Journal (prepare_launch x (li_assignment input) (li_session input)))) (\<lambda>starting.
        then_do (failing None False (\<lambda>w. report_starting (Suc (length (wd_answers w))) starting w)) (\<lambda>_.
        then_do (failing None False window_task) (\<lambda>_.
        then_do (failing None True (guarded Lc_Runtime (container_task identity))) (\<lambda>container.
        failing (Some container) True (start_container x identity container))))) w = (p, w')"
      using assms(1) by (auto simp: launch_body_def split: option.splits if_splits)
    have quiet: "performs x (\<lambda>_. False) (failing None False (guarded Lc_Journal (prepare_launch x (li_assignment input) (li_session input))))"
      "performs x (\<lambda>_. False) (failing None False window_task)"
      by (intro performs_intro)+
    have reports: "performs x (\<lambda>c. c = Call_Phase starting)
        (failing None False (\<lambda>w. report_starting (Suc (length (wd_answers w))) starting w))" for starting
      by (intro performs_intro) simp
    from run show ?thesis
    proof (cases rule: then_do_cases)
      case (1 starting w1)
      then have none: "wd_calls w1 = []"
        using performs_quiet [OF quiet(1)] assms(2) by simp
      from 1(2) show ?thesis
      proof (cases rule: then_do_cases)
        case reported: (1 u w2)
        then obtain n where n: "wd_calls w2 = replicate n (Call_Phase starting)"
          using performs_replicate [OF reports reported(1)] none by auto
        from reported(2) show ?thesis
        proof (cases rule: then_do_cases)
          case (1 u' w3)
          then have "wd_calls w3 = replicate n (Call_Phase starting)"
            using performs_quiet [OF quiet(2)] n by simp
          then show ?thesis
            using create_and_start_asks [OF 1(2)] identity by (intro exI [of _ n] exI [of _ starting]) auto
        next
          case (2 q)
          then show ?thesis
            using performs_quiet [OF quiet(2) 2(1)] n failed by simp
        qed
      next
        case (2 q)
        show ?thesis
          using performs_replicate [OF reports 2(1)] none failed 2(2) by auto
      qed
    next
      case (2 q)
      then show ?thesis
        using performs_quiet [OF quiet(1) 2(1)] assms(2) failed [of _ 0] by simp
    qed
  qed
qed

lemma await_Inl: "await want w \<noteq> (Ready (Inl e), w')"
  by (auto simp: await_def split: list.splits answer.splits option.splits)

text \<open>C20. The outcome of a launch tells the truth about the runtime. A launch that reports that
  nothing was created never asked for a container; a launch that returns a container asked
  for exactly one, after its last phase report, and started that very container exactly once,
  as its last request.\<close>

theorem launch_outcome_is_true:
  assumes "launch_inner x input w0 = (Ready r, w1)" and "wd_calls w0 = []"
  shows "case r of
      Inl e \<Rightarrow> le_cleanup e = Ev_NotCreated \<longrightarrow> (\<forall>i c. Call_Container i \<notin> set (wd_calls w1) \<and> Call_Start c \<notin> set (wd_calls w1))
    | Inr c \<Rightarrow> \<exists>n q identity. wd_calls w1 = replicate n (Call_Phase q) @ [Call_Container identity, Call_Start c]"
proof -
  obtain p v where body: "launch_body x input w0 = (p, v)"
    by fastforce
  note shape = launch_body_asks [OF body assms(2)]
  show ?thesis
  proof (cases r)
    case (Inr c)
    then have "p = Ready (Inr c)" "w1 = v"
      using assms(1) body
      by (auto simp: launch_inner_def on_ready_def launch_cleanup_def then_do_def split: poll.splits sum.splits prod.splits option.splits)
    then show ?thesis
      using shape Inr by fastforce
  next
    case (Inl e)
    then obtain failure where failure: "p = Ready (Inl failure)" "launch_cleanup (li_grace_seconds input) failure v = (Ready (Inl e), w1)"
      using assms(1) body by (auto simp: launch_inner_def on_ready_def split: poll.splits sum.splits)
    have "wd_calls w1 = wd_calls v"
      by (rule performs_quiet [OF launch_cleanup_performs [of x] failure(2)])
    moreover have "\<not> snd (snd failure)" if "le_cleanup e = Ev_NotCreated"
      using failure(2) that await_Inl [of cleanup_answer v e w1]
      by (auto simp: launch_cleanup_def then_do_def on_ready_def split: prod.splits option.splits poll.splits sum.splits if_splits)
    ultimately show ?thesis
      using shape Inl failure(1) by fastforce
  qed
qed

section \<open>The container is durable before it starts\<close>

lemma performs_sound:
  assumes "performs x allowed m" and "m w = (p, w')" and "journal_codec x" and "dir_sound (jn_directory (wd_journal w))"
  shows "dir_sound (jn_directory (wd_journal w'))"
  using performs_kept [OF assms(1-3), of "[]" None] assms(4) by (simp add: evidence_kept_def)

lemma bound_container_kept:
  assumes "journal_codec x" and "dir_sound (jn_directory j)" and "bind_container x env key container j = (Inr u, j')"
  shows "\<exists>r. ar_container_id r = container \<and> container \<noteq> [] \<and> evidence_kept x key (Some r) j'"
proof -
  have u: "lower_hash container" "update_attempt x env key (bind_container_step container) j = (Inr u, j')"
    using assms(3) by (auto simp: bind_container_def split: if_splits)
  have "\<exists>r. ar_container_id r = container \<and> evidence_kept x key (Some r) j'"
    by (rule update_result_kept [OF assms(1,2) u(2)]) (auto simp: bind_container_step_def split: if_splits)
  moreover have "container \<noteq> []"
    using u(1) by (auto simp: lower_hash_def)
  ultimately show ?thesis
    by blast
qed

lemma start_container_bound:
  assumes "journal_codec x" and "dir_sound (jn_directory (wd_journal w))" and "start_container x identity container w = (p, w')"
    and "Call_Start c \<in> set (wd_calls w')" and "Call_Start c \<notin> set (wd_calls w)"
  shows "\<exists>r. ar_container_id r = c \<and> c \<noteq> [] \<and> evidence_kept x (aa_attempt_id identity) (Some r) (wd_journal w')"
proof -
  let ?bind = "guarded Lc_Journal (async_do x (\<lambda>env. bind_container x env (aa_attempt_id identity) container))"
  have whole: "performs x (\<lambda>c'. c' = Call_Start container) (start_container x identity container)"
    by (intro performs_intro) simp
  have "c = container"
    using performs_calls [OF whole assms(3,4)] assms(5) by simp
  have other: "performs x (\<lambda>c'. c' \<noteq> Call_Start c) ?bind"
    by (intro performs_intro)
  obtain u w1 where bound: "?bind w = (Ready (Inr u), w1)"
    and rest: "then_do window_task (\<lambda>_.
     then_do (task_err Lc_Authority (live_task (start_task container))) (\<lambda>started.
       case started of
         Inl e \<Rightarrow>
           if \<not> start_uncertain e then give (Inl (Lc_Runtime e))
           else then_do (guarded Lc_Runtime inspect_task) (\<lambda>status.
             give (if launched_ok status then Inr container else Inl (Lc_Runtime Rt_Terminal)))
       | Inr _ \<Rightarrow>
           then_do (guarded Lc_Runtime inspect_task) (\<lambda>status.
             give (if launched_ok status then Inr container else Inl (Lc_Runtime Rt_Terminal))))) w1 = (p, w')" (is "?rest w1 = _")
    using made_later [OF assms(3) [unfolded start_container_def] other assms(4,5)] by blast
  obtain wa wb where wa: "async_do x (\<lambda>env. bind_container x env (aa_attempt_id identity) container) wa = (Ready (Inr u), wb)"
    "wd_journal wa = wd_journal w" "wd_journal w1 = wd_journal wb"
    using guarded_Inr [OF bound] by blast
  then obtain env j where "bind_container x (env 0) (aa_attempt_id identity) container j = (Inr u, wd_journal w1)" "dir_sound (jn_directory j)"
    using journal_apply_sound [OF wa(1) [unfolded async_do_def] assms(1)] assms(2) by auto
  then obtain r where r: "ar_container_id r = container" "container \<noteq> []"
    "evidence_kept x (aa_attempt_id identity) (Some r) (wd_journal w1)"
    using bound_container_kept [OF assms(1)] by blast
  have after: "performs x (\<lambda>_. True) ?rest"
    by (auto intro!: performs_intro split: sum.split)
  have "evidence_kept x (aa_attempt_id identity) (Some r) (wd_journal w')"
    by (rule performs_kept [OF after rest assms(1) r(3)])
  then show ?thesis
    using r(1,2) \<open>c = container\<close> by blast
qed

lemma failing_run: "failing handle attempted m w = (p, w') \<Longrightarrow> \<exists>q. m w = (q, w')"
  by (auto simp: failing_def task_err_def on_ready_def split: prod.splits poll.splits)

lemma launch_body_bound:
  assumes "journal_codec x" and "dir_sound (jn_directory (wd_journal w))" and "launch_body x input w = (p, w')"
    and "Call_Start c \<in> set (wd_calls w')" and "Call_Start c \<notin> set (wd_calls w)"
  shows "\<exists>identity r. as_authority (li_assignment input) = Some identity \<and> ar_container_id r = c \<and> c \<noteq> []
    \<and> evidence_kept x (aa_attempt_id identity) (Some r) (wd_journal w')"
proof -
  obtain identity where identity: "as_authority (li_assignment input) = Some identity"
    and run: "then_do (failing None False (guarded Lc_Journal (prepare_launch x (li_assignment input) (li_session input)))) (\<lambda>starting.
        then_do (failing None False (\<lambda>w. report_starting (Suc (length (wd_answers w))) starting w)) (\<lambda>_.
        then_do (failing None False window_task) (\<lambda>_.
        then_do (failing None True (guarded Lc_Runtime (container_task identity))) (\<lambda>container.
        failing (Some container) True (start_container x identity container))))) w = (p, w')"
    using assms(3-5) by (auto simp: launch_body_def split: option.splits if_splits)
  have other: "performs x (\<lambda>c'. c' \<noteq> Call_Start c) (failing None False (guarded Lc_Journal (prepare_launch x (li_assignment input) (li_session input))))"
    "performs x (\<lambda>c'. c' \<noteq> Call_Start c) (failing None False (\<lambda>w. report_starting (Suc (length (wd_answers w))) starting w))"
    "performs x (\<lambda>c'. c' \<noteq> Call_Start c) (failing None False window_task)"
    "performs x (\<lambda>c'. c' \<noteq> Call_Start c) (failing None True (guarded Lc_Runtime (container_task identity)))" for starting
    by (intro performs_intro call.distinct)+
  from made_later [OF run other(1) assms(4,5)] obtain starting w1 where 1:
    "failing None False (guarded Lc_Journal (prepare_launch x (li_assignment input) (li_session input))) w = (Ready (Inr starting), w1)"
    "then_do (failing None False (\<lambda>w. report_starting (Suc (length (wd_answers w))) starting w)) (\<lambda>_.
        then_do (failing None False window_task) (\<lambda>_.
        then_do (failing None True (guarded Lc_Runtime (container_task identity))) (\<lambda>container.
        failing (Some container) True (start_container x identity container)))) w1 = (p, w')" "Call_Start c \<notin> set (wd_calls w1)"
    by blast
  from made_later [OF 1(2) other(2) assms(4) 1(3)] obtain u w2 where 2:
    "failing None False (\<lambda>w. report_starting (Suc (length (wd_answers w))) starting w) w1 = (Ready (Inr u), w2)"
    "then_do (failing None False window_task) (\<lambda>_.
        then_do (failing None True (guarded Lc_Runtime (container_task identity))) (\<lambda>container.
        failing (Some container) True (start_container x identity container))) w2 = (p, w')" "Call_Start c \<notin> set (wd_calls w2)"
    by blast
  from made_later [OF 2(2) other(3) assms(4) 2(3)] obtain u' w3 where 3:
    "failing None False window_task w2 = (Ready (Inr u'), w3)"
    "then_do (failing None True (guarded Lc_Runtime (container_task identity))) (\<lambda>container.
        failing (Some container) True (start_container x identity container)) w3 = (p, w')" "Call_Start c \<notin> set (wd_calls w3)"
    by blast
  from made_later [OF 3(2) other(4) assms(4) 3(3)] obtain container w4 where 4:
    "failing None True (guarded Lc_Runtime (container_task identity)) w3 = (Ready (Inr container), w4)"
    "failing (Some container) True (start_container x identity container) w4 = (p, w')" "Call_Start c \<notin> set (wd_calls w4)"
    by blast
  obtain q where "start_container x identity container w4 = (q, w')"
    using failing_run [OF 4(2)] by blast
  moreover have "dir_sound (jn_directory (wd_journal w4))"
    by (rule performs_sound [OF other(4) 4(1) assms(1) performs_sound [OF other(3) 3(1) assms(1)
          performs_sound [OF other(2) 2(1) assms(1) performs_sound [OF other(1) 1(1) assms(1,2)]]]])
  ultimately show ?thesis
    using start_container_bound [OF assms(1) _ _ assms(4) 4(3)] identity by blast
qed

text \<open>C6. The identity of a container is durable before the container starts. Once a launch has
  asked the runtime to start a container, every later successful read of the attempt, after
  any journal operations, restarts and power failures, finds exactly that container, so a
  worker that crashed at any point finds what it may have started.\<close>

theorem start_follows_binding:
  assumes "journal_codec x" and "intact dir" and "Journal_open x env worker limits dir = (Inr j0, dir')"
    and "wd_journal w0 = foldl (journal_step x) j0 before" and "wd_calls w0 = []"
    and "launch_inner x input w0 = (p, w1)" and "Call_Start c \<in> set (wd_calls w1)"
    and "map_option aa_attempt_id (as_authority (li_assignment input)) = Some key"
    and "load_attempt x renv key (foldl (journal_step x) (wd_journal w1) after) = Inr found"
  shows "\<exists>rec. found = Some rec \<and> ar_container_id rec = c"
proof -
  have sound: "dir_sound (jn_directory (wd_journal w0))"
    using history_sound [OF assms(1-3)] assms(4) by simp
  obtain q v m where body: "launch_body x input w0 = (q, v)" and m: "performs x (\<lambda>_. False) m" "m v = (p, w1)"
    using launch_inner_body [OF assms(6)] by blast
  have made: "Call_Start c \<in> set (wd_calls v)" "Call_Start c \<notin> set (wd_calls w0)"
    using performs_quiet [OF m] assms(5,7) by simp_all
  obtain identity r where r: "as_authority (li_assignment input) = Some identity" "ar_container_id r = c" "c \<noteq> []"
    "evidence_kept x (aa_attempt_id identity) (Some r) (wd_journal v)"
    using launch_body_bound [OF assms(1) sound body made] by blast
  have "evidence_kept x key (Some r) (foldl (journal_step x) (wd_journal w1) after)"
    using journaling.run_keeps [OF performs_kept [OF m assms(1) r(4)]] assms(1,8) r(1) by simp
  then obtain rec where "found = Some rec" "record_le r rec"
    using same_record [OF assms(1) _ assms(9)] by blast
  then show ?thesis
    using r(2,3) by (auto simp: record_le_def once_def)
qed

text \<open>C19. A launch gets through transient failures of the phase report and an uncertain start.
  Assumed to succeed are: the journal operation that opens the attempt and hands out the
  phase request (\<open>launch_operation\<close>), the binding of the container in the journal
  (\<open>bind_container\<close>), both on the journal as any steps of other tasks left it, and the
  creation of the container; the server accepts \<open>Starting\<close> in the end, and the authority is
  live at every check. Then any number of retryable failures of the report before that
  acceptance, and a lost or ambiguous reply to the start, do not stop the launch: when the
  inspection shows that the container runs or has exited, the launch returns the container,
  after exactly one creation and one start and one report for each failure and the
  acceptance.\<close>

theorem launch_survives_failures:
  assumes "launch_fits input identity"
    and "launch_operation x (li_assignment input) (li_session input) env (foldl (journal_step x) j others) = (Inr q, j1)"
    and "validate_phase_request q = Inr ()" and "\<forall>e \<in> set errors. retryable e"
    and "report_phase q (Inr m) = Inr \<lparr>pt_decision = Accepted, pt_state = Starting\<rparr>"
    and "bind_container x (env' 0) (aa_attempt_id identity) c (foldl (journal_step x) j1 others') = (Inr (), j2)"
    and "\<forall>e. started = Inl e \<longrightarrow> start_uncertain e" and "launched_ok status"
  shows "launch_inner x input
      \<lparr>wd_journal = j,
       wd_answers = [Ans_Live, Ans_Journal others env, Ans_Live] @ concat (map failed_round errors)
         @ [Ans_Live, Ans_Mutation (Inr m), Ans_Live, Ans_Live, Ans_Live, Ans_Container (Inr c), Ans_Live, Ans_Live, Ans_Journal others' env', Ans_Live,
            Ans_Live, Ans_Live, Ans_Started started, Ans_Live, Ans_Live, Ans_Inspect (Inr status), Ans_Live],
       wd_calls = []\<rparr>
    = (Ready (Inr c),
       \<lparr>wd_journal = j2, wd_answers = [],
        wd_calls = replicate (Suc (length errors)) (Call_Phase q) @ [Call_Container identity, Call_Start c]\<rparr>)"
  unfolding launch_inner_def on_ready_def by (simp only: launch_body_run [where env' = env', OF assms] run_simps give_simp)

section \<open>Examples\<close>

theorem launch_outcome_is_true_witness:
  "launch_inner launch_externals launch_sample (launch_world (launch_scene 0)) = (Ready (Inr (fixture_hash CHR ''c'')), launched_world)
   \<and> (\<exists>n q identity. wd_calls launched_world = replicate n (Call_Phase q) @ [Call_Container identity, Call_Start (fixture_hash CHR ''c'')])"
  using launch_outcome_is_true [OF launch_run launch_world_start(2)] launch_run by simp

theorem start_follows_binding_witness:
  "Call_Start (fixture_hash CHR ''c'') \<in> set (wd_calls launched_world)
   \<and> (\<exists>rec. load_attempt launch_externals quiet_read (fixture_uuid CHR ''4'') (wd_journal launched_world) = Inr (Some rec)
        \<and> ar_container_id rec = fixture_hash CHR ''c'')"
proof -
  have load: "load_attempt launch_externals quiet_read (fixture_uuid CHR ''4'')
      (foldl (journal_step launch_externals) (wd_journal launched_world) []) = Inr (Some (launch_record 2))"
    using scene_load [OF launch_record_valid [of 2]] by (simp add: launched_world_def)
  have "\<exists>rec. Some (launch_record 2) = Some rec \<and> ar_container_id rec = fixture_hash CHR ''c''"
    by (rule start_follows_binding [OF launch_codec sample_dir_intact sample_opened [OF launch_sha]
          launch_world_start(1,2) launch_run _ _ load])
      (simp_all add: launched_world_def launch_sample_def launch_attempt_key)
  then show ?thesis
    using load by (simp add: launched_world_def)
qed

theorem launch_survives_failures_witness:
  "fst (launch_inner launch_externals launch_sample
      \<lparr>wd_journal = launch_scene 0,
       wd_answers = [Ans_Live, Ans_Journal [] (\<lambda>_. quiet_journal_env), Ans_Live] @ concat (map failed_round [C_Deadline, C_Connection])
         @ [Ans_Live, Ans_Mutation (Inr \<lparr>mr_decision = decision_i32 Accepted, mr_state = state_i32 Starting\<rparr>), Ans_Live, Ans_Live, Ans_Live,
            Ans_Container (Inr (fixture_hash CHR ''c'')), Ans_Live, Ans_Live, Ans_Journal [] (\<lambda>_. quiet_journal_env), Ans_Live,
            Ans_Live, Ans_Live, Ans_Started (Inl (Rt_Daemon 304)), Ans_Live, Ans_Live,
            Ans_Inspect (Inr \<lparr>cs_running = True, cs_exit_code = None, cs_oom_killed = False, cs_state = Cs_Running\<rparr>), Ans_Live],
       wd_calls = []\<rparr>) = Ready (Inr (fixture_hash CHR ''c''))"
proof -
  have "launch_fits launch_sample launch_identity"
    by (simp add: launch_fits_def launch_sample_def launch_attempt_key scene_worker_session_def)
  moreover have "report_phase launch_starting (Inr \<lparr>mr_decision = decision_i32 Accepted, mr_state = state_i32 Starting\<rparr>)
      = Inr \<lparr>pt_decision = Accepted, pt_state = Starting\<rparr>"
    by (simp add: report_phase_def launch_starting_valid)
      (simp add: validate_phase_response_def decision_of_def state_of_def is_active_def launch_starting_def)
  moreover have "launched_ok \<lparr>cs_running = True, cs_exit_code = None, cs_oom_killed = False, cs_state = Cs_Running\<rparr>"
    by (simp add: launched_ok_def)
  moreover have "launch_operation launch_externals (li_assignment launch_sample) (li_session launch_sample) (\<lambda>_. quiet_journal_env)
      (foldl (journal_step launch_externals) (launch_scene 0) []) = (Inr launch_starting, launch_scene 1)"
    using launch_prepared by (simp add: launch_sample_def)
  moreover have "bind_container launch_externals ((\<lambda>_ :: nat. quiet_journal_env) 0) (aa_attempt_id launch_identity) (fixture_hash CHR ''c'')
      (foldl (journal_step launch_externals) (launch_scene 1) []) = (Inr (), launch_scene 2)"
    using launch_bound launch_attempt_key(2) by simp
  ultimately show ?thesis
    using launch_survives_failures [of launch_sample launch_identity launch_externals "\<lambda>_. quiet_journal_env" "launch_scene 0" "[]"
        launch_starting "launch_scene 1" "[C_Deadline, C_Connection]" "\<lparr>mr_decision = decision_i32 Accepted, mr_state = state_i32 Starting\<rparr>"
        "\<lambda>_. quiet_journal_env" "fixture_hash CHR ''c''" "[]" "launch_scene 2" "Inl (Rt_Daemon 304)"
        "\<lparr>cs_running = True, cs_exit_code = None, cs_oom_killed = False, cs_state = Cs_Running\<rparr>"] launch_starting_valid
    by simp
qed

end
