(* ===== verification/Finalization.thy ===== *)
theory Finalization
  imports Log_Summary Launch_Calls
begin

text \<open>
  Sealing the completion of an attempt: \<open>rust/worker/src/finalization.rs\<close>, with
  \<open>while_finalizing\<close> of \<open>launch/run.rs\<close>. Each function loads the record, refuses what
  contradicts it, and otherwise persists one request before it returns it. The random bytes of
  \<open>new_uuid\<close> and the outcomes of \<open>try_clone\<close> are arguments; the blocking collection of the
  outputs is one \<open>await\<close> whose answer is the workspace it found.
\<close>

section \<open>The code\<close>

datatype finalization_error =
  Fe_Identity | Fe_StopUnconfirmed | Fe_Authority stop_reason | Fe_Journal journal_error | Fe_Collection collection_error
| Fe_Upload upload_error | Fe_Payload client_error | Fe_Log

definition MAX_DELIVERY_ATTEMPTS :: nat where
  "MAX_DELIVERY_ATTEMPTS = 3"

subsection \<open>Sealing a request\<close>

definition default_completion :: complete_attempt_request where
  "default_completion =
     \<lparr>ca_authority = None, ca_completion_id = [], ca_payload_sha256 = [], ca_exit_code = None, ca_reason = 0, ca_stopped = False,
      ca_outputs = [], ca_logs_complete = False, ca_gaps = [], ca_metrics_json = []\<rparr>"

text \<open>The end all of them share: a new identifier, the digest, and the journal.\<close>

definition seal ::
  "'x journal_externals_scheme \<Rightarrow> u8 list option
     \<Rightarrow> (journal_env \<Rightarrow> complete_attempt_request \<Rightarrow> journal \<Rightarrow> (journal_error + unit) \<times> journal)
     \<Rightarrow> complete_attempt_request \<Rightarrow> (finalization_error, complete_attempt_request) task" where
  "seal x fill persist draft =
     (case new_uuid fill of
        Inl e \<Rightarrow> give (Inl (Fe_Journal e))
      | Inr completion_id \<Rightarrow>
          let req = draft\<lparr>ca_completion_id := completion_id\<rparr> in
          (case completion_digest x req of
             Inl e \<Rightarrow> give (Inl (Fe_Payload e))
           | Inr digest \<Rightarrow>
               let sealed = req\<lparr>ca_payload_sha256 := digest\<rparr> in
               then_do (task_err Fe_Journal (async_do x (\<lambda>env. persist env sealed))) (\<lambda>_. give (Inr sealed))))"

definition load_owned ::
  "'x journal_externals_scheme \<Rightarrow> attempt_authority \<Rightarrow> (finalization_error, attempt_record) task" where
  "load_owned x identity =
     then_do (task_err Fe_Journal (async_load x (aa_attempt_id identity))) (\<lambda>found.
       case found of
         None \<Rightarrow> give (Inl Fe_Identity)
       | Some saved \<Rightarrow> give (if ar_authority saved \<noteq> Some identity then Inl Fe_Identity else Inr saved))"

text \<open>A completion that was saved before is returned when it says the same.\<close>

definition saved_completion ::
  "failure_reason \<Rightarrow> complete_attempt_request \<Rightarrow> finalization_error + complete_attempt_request" where
  "saved_completion reason req =
     (if ca_reason req = reason_i32 reason \<and> ca_stopped req then Inr req else Inl Fe_Identity)"

definition prepare_unlaunched_failure ::
  "'x journal_externals_scheme \<Rightarrow> u8 list option \<Rightarrow> attempt_authority \<Rightarrow> failure_reason
     \<Rightarrow> (finalization_error, complete_attempt_request) task" where
  "prepare_unlaunched_failure x fill identity reason =
     then_do (load_owned x identity) (\<lambda>saved.
       if ar_container_id saved \<noteq> [] \<or> ar_exit saved \<noteq> None then give (Inl Fe_StopUnconfirmed)
       else case ar_completion saved of
         Some req \<Rightarrow> give (saved_completion reason req)
       | None \<Rightarrow>
           seal x fill (persist_completion x) (default_completion
             \<lparr>ca_authority := Some identity, ca_reason := reason_i32 reason, ca_stopped := True\<rparr>))"

definition prepare_unlaunched_transfer_failure ::
  "'x journal_externals_scheme \<Rightarrow> u8 list option \<Rightarrow> attempt_authority \<Rightarrow> (finalization_error, complete_attempt_request) task" where
  "prepare_unlaunched_transfer_failure x fill identity = prepare_unlaunched_failure x fill identity TransferFailed"

definition prepare_unlaunched_runtime_failure ::
  "'x journal_externals_scheme \<Rightarrow> u8 list option \<Rightarrow> attempt_authority \<Rightarrow> (finalization_error, complete_attempt_request) task" where
  "prepare_unlaunched_runtime_failure x fill identity = prepare_unlaunched_failure x fill identity failure_reason.RuntimeUnavailable"

definition prepare_removed_launch_failure ::
  "'x journal_externals_scheme \<Rightarrow> u8 list option \<Rightarrow> attempt_authority \<Rightarrow> (finalization_error, complete_attempt_request) task" where
  "prepare_removed_launch_failure x fill identity =
     then_do (load_owned x identity) (\<lambda>saved.
       if ar_container_id saved = [] \<or> ar_exit saved \<noteq> None \<or> last_phase saved \<noteq> Some (state_i32 Starting)
       then give (Inl Fe_StopUnconfirmed)
       else case ar_completion saved of
         Some req \<Rightarrow> give (saved_completion failure_reason.RuntimeUnavailable req)
       | None \<Rightarrow>
           seal x fill (persist_completion x) (default_completion
             \<lparr>ca_authority := Some identity, ca_reason := reason_i32 failure_reason.RuntimeUnavailable, ca_stopped := True\<rparr>))"

definition prepare_cancelled_completion ::
  "'x journal_externals_scheme \<Rightarrow> u8 list option \<Rightarrow> attempt_authority \<Rightarrow> cleanup_evidence
     \<Rightarrow> (finalization_error, complete_attempt_request) task" where
  "prepare_cancelled_completion x fill identity cleanup =
     then_do (load_owned x identity) (\<lambda>saved.
       let draft = default_completion
         \<lparr>ca_authority := Some identity, ca_exit_code := exit_code_of saved, ca_reason := reason_i32 UserCancelled, ca_stopped := True\<rparr>
       in
       if \<not> (cleanup = Ev_Stopped \<and> ar_container_id saved \<noteq> [] \<or> cleanup = Ev_NotCreated \<and> ar_container_id saved = [])
       then give (Inl Fe_StopUnconfirmed)
       else case ar_completion saved of
         Some req \<Rightarrow>
           if is_ok (saved_completion UserCancelled req) then give (Inr req)
           else if is_some_and (\<lambda>response. cc_decision response = decision_i32 StopRequested) (ar_completion_response saved)
           then seal x fill (supersede_rejected_completion x) draft
           else give (Inl Fe_Identity)
       | None \<Rightarrow> seal x fill (persist_completion x) draft)"

subsection \<open>The outputs of an observed exit\<close>

text \<open>What a failed upload means for the job, and whether to try again.\<close>

fun transfer_retryable :: "transfer_error \<Rightarrow> bool" where
  "transfer_retryable Transfer_Transport = True"
| "transfer_retryable Transfer_Deadline = True"
| "transfer_retryable Transfer_Expired = True"
| "transfer_retryable (Transfer_Status code) = (code = 408 \<or> code = 429 \<or> (500 \<le> code \<and> code \<le> 599))"
| "transfer_retryable _ = False"

fun upload_failure :: "upload_error \<Rightarrow> (failure_reason \<times> bool) option" where
  "upload_failure (Up_Control e) = (if retryable e then Some (TransferFailed, True) else None)"
| "upload_failure (Up_Transfer e) =
     (if e = Transfer_Integrity then Some (OutputInvalid, False)
      else if e = Transfer_Configuration \<or> e = Transfer_Grant then None
      else Some (TransferFailed, transfer_retryable e))"
| "upload_failure _ = None"

text \<open>One round of delivering an output: the reply, or a failure of the job with whether
  another round may help.\<close>

definition upload_round ::
  "'x transfer_externals_scheme \<Rightarrow> bool \<Rightarrow> string \<Rightarrow> string \<Rightarrow> os_error option
     \<Rightarrow> (finalization_error, (failure_reason \<times> bool) + finalize_upload_response) task" where
  "upload_round x allow key name clone =
     (case clone of
        Some e \<Rightarrow> give (Inl (Fe_Collection (Co_Io e)))
      | None \<Rightarrow>
          on_ready (deliver_output x allow key name True) (\<lambda>r.
            case r of
              Inr reply \<Rightarrow> give (Inr (Inr reply))
            | Inl e \<Rightarrow>
                if (case e of Up_Control c \<Rightarrow> upload_stop_requested c | _ \<Rightarrow> False)
                then give (Inl (Fe_Authority (Rejected StopRequested)))
                else case upload_failure e of
                  None \<Rightarrow> give (Inl (Fe_Upload e))
                | Some failed \<Rightarrow> give (Inr (Inl failed))))"

text \<open>The rounds of one output, with the number of rounds that may follow.\<close>

fun upload_rounds ::
  "'x transfer_externals_scheme \<Rightarrow> bool \<Rightarrow> string \<Rightarrow> string \<Rightarrow> (nat \<Rightarrow> os_error option) \<Rightarrow> nat
     \<Rightarrow> (finalization_error, failure_reason + finalize_upload_response) task" where
  "upload_rounds x allow key name clones 0 =
     then_do (upload_round x allow key name (clones 0)) (\<lambda>v.
       case v of Inr reply \<Rightarrow> give (Inr (Inr reply)) | Inl (reason, again) \<Rightarrow> give (Inr (Inl reason)))"
| "upload_rounds x allow key name clones (Suc further) =
     then_do (upload_round x allow key name (clones (Suc further))) (\<lambda>v.
       case v of
         Inr reply \<Rightarrow> give (Inr (Inr reply))
       | Inl (reason, again) \<Rightarrow>
           if again then then_do sleep_task (\<lambda>_. upload_rounds x allow key name clones further)
           else give (Inr (Inl reason)))"

text \<open>The loop over the collected outputs, with the variables it updates.\<close>

record delivery_state =
  dv_failure :: failure_reason
  dv_metrics :: "u8 list option"
  dv_references :: "output_reference list"
  dv_metrics_json :: "u8 list"

definition delivered :: "string \<Rightarrow> finalize_upload_response \<Rightarrow> delivery_state \<Rightarrow> delivery_state" where
  "delivered name reply s =
     (let s' = s\<lparr>dv_references := dv_references s @ [\<lparr>or_name = name, or_artifact_id = fr_artifact_id reply\<rparr>]\<rparr> in
      if name = ''metrics'' then
        (case dv_metrics s of
           None \<Rightarrow> s
         | Some source \<Rightarrow> s'\<lparr>dv_metrics := None, dv_metrics_json := source\<rparr>)
      else s')"

fun deliver_outputs ::
  "'x transfer_externals_scheme \<Rightarrow> bool \<Rightarrow> string \<Rightarrow> (string \<Rightarrow> nat \<Rightarrow> os_error option) \<Rightarrow> collected_output list \<Rightarrow> delivery_state
     \<Rightarrow> (finalization_error, delivery_state) task" where
  "deliver_outputs x allow key clones [] s = give (Inr s)"
| "deliver_outputs x allow key clones (c # cs) s =
     then_do (task_err Fe_Journal (async_do x (\<lambda>env. prepare_output x env key (co_name c) (co_size c) (co_sha256 c)))) (\<lambda>_.
     then_do (upload_rounds x allow key (co_name c) (clones (co_name c)) (MAX_DELIVERY_ATTEMPTS - 1)) (\<lambda>r.
       case r of
         Inl reason \<Rightarrow> give (Inr (if dv_failure s \<noteq> OutputInvalid then s\<lparr>dv_failure := reason\<rparr> else s))
       | Inr reply \<Rightarrow> deliver_outputs x allow key clones cs (delivered (co_name c) reply s)))"

text \<open>The blocking task: the outputs and, when there is an output of that name, its metrics.\<close>

definition collect_all ::
  "'x externals_scheme \<Rightarrow> execution_spec \<Rightarrow> workspace_root \<Rightarrow> os_error + unit \<Rightarrow> file_pass
     \<Rightarrow> collection_error + collected_output list \<times> u8 list option" where
  "collect_all x execution root rewound pass =
     and_then (collect_outputs x root execution CollectionLimits_default) (\<lambda>outputs.
       let outputs = map fst outputs in
       case find (\<lambda>c. co_name c = ''metrics'') outputs of
         None \<Rightarrow> Inr (outputs, None)
       | Some c \<Rightarrow> and_then (read_metrics x c rewound pass) (\<lambda>metrics. Inr (outputs, metrics)))"

fun collect_answer :: "answer \<Rightarrow> (workspace_root \<times> (os_error + unit) \<times> file_pass) option option" where
  "collect_answer (Ans_Collect root rewound pass) = Some (Some (root, rewound, pass))"
| "collect_answer Ans_Lost = Some None"
| "collect_answer _ = None"

definition collected_state :: "(collected_output list \<times> u8 list option) option \<Rightarrow> collected_output list \<times> delivery_state" where
  "collected_state collected =
     (case collected of
        None \<Rightarrow> ([], \<lparr>dv_failure = OutputInvalid, dv_metrics = None, dv_references = [], dv_metrics_json = []\<rparr>)
      | Some (outputs, metrics) \<Rightarrow>
          (outputs,
           \<lparr>dv_failure = (if (\<exists>c \<in> set outputs. co_name c = ''metrics'') \<and> metrics = None then OutputInvalid else Reason_Unspecified),
            dv_metrics = metrics, dv_references = [], dv_metrics_json = []\<rparr>))"

definition collect_task ::
  "'x externals_scheme \<Rightarrow> execution_spec \<Rightarrow> (finalization_error, collected_output list \<times> delivery_state) task" where
  "collect_task x execution =
     then_do (await collect_answer) (\<lambda>answer.
       give (case answer of
         None \<Rightarrow> Inl (Fe_Collection Co_Unsafe)
       | Some (root, rewound, pass) \<Rightarrow>
           (case collect_all x execution root rewound pass of
              Inr r \<Rightarrow> Inr (collected_state (Some r))
            | Inl e \<Rightarrow> if e = Co_Configuration then Inl (Fe_Collection Co_Configuration) else Inr (collected_state None))))"

definition completion_reason :: "exit_evidence \<Rightarrow> failure_reason \<Rightarrow> failure_reason" where
  "completion_reason exit failure =
     (if ee_oom_killed exit then Oom else if ee_exit_code exit \<noteq> 0 then ApplicationExit else failure)"

record finalizing_attempt =
  fz_identity :: attempt_authority
  fz_exit :: exit_evidence
  fz_owns_workspace :: bool

record finalize_env =
  fn_fill :: "u8 list option"
  fn_clones :: "string \<Rightarrow> nat \<Rightarrow> os_error option"

definition completion_draft :: "finalizing_attempt \<Rightarrow> log_summary \<Rightarrow> delivery_state \<Rightarrow> complete_attempt_request" where
  "completion_draft attempt logs s = default_completion
     \<lparr>ca_authority := Some (fz_identity attempt), ca_exit_code := Some (ee_exit_code (fz_exit attempt)),
      ca_reason := reason_i32 (completion_reason (fz_exit attempt) (dv_failure s)), ca_stopped := True,
      ca_outputs := dv_references s, ca_logs_complete := sm_complete logs, ca_gaps := sm_gaps logs,
      ca_metrics_json := dv_metrics_json s\<rparr>"

definition completion_body ::
  "'x transfer_externals_scheme \<Rightarrow> bool \<Rightarrow> finalize_env \<Rightarrow> finalizing_attempt \<Rightarrow> log_summary
     \<Rightarrow> (finalization_error, complete_attempt_request) task" where
  "completion_body x allow env attempt logs =
     (let key = aa_attempt_id (fz_identity attempt) in
      then_do (task_err Fe_Journal (async_load x key)) (\<lambda>found.
        case found of
          None \<Rightarrow> give (Inl (Fe_Journal J_Invalid))
        | Some saved \<Rightarrow>
            if ar_authority saved \<noteq> Some (fz_identity attempt) \<or> ar_exit saved \<noteq> Some (fz_exit attempt) then give (Inl Fe_Identity)
            else case ar_completion saved of
              Some req \<Rightarrow> give (Inr req)
            | None \<Rightarrow>
                (case from_assignment x (ar_assignment saved) of
                   Inl e \<Rightarrow> give (Inl Fe_Identity)
                 | Inr execution \<Rightarrow>
                     then_do (collect_task x execution) (\<lambda>(outputs, s).
                     then_do (deliver_outputs x allow key (fn_clones env) outputs s) (\<lambda>s'.
                     seal x (fn_fill env) (persist_completion x) (completion_draft attempt logs s'))))))"

text \<open>\<open>while_finalizing\<close>: the deadline of the phase is looked at before and after the
  operation, and while it waits it ends where the authority or the deadline ends, which is the
  answer \<open>Ans_Stop\<close> to the \<open>await\<close> it is in.\<close>

definition deadline_check :: "('e, unit) task" where
  "deadline_check = await live_answer"

definition while_finalizing :: "('e, 'a) task \<Rightarrow> (stop_reason, 'e + 'a) task" where
  "while_finalizing m =
     live_task (then_do deadline_check (\<lambda>_. on_ready m (\<lambda>r. then_do deadline_check (\<lambda>_. give r))))"

definition prepare_completion ::
  "'x transfer_externals_scheme \<Rightarrow> bool \<Rightarrow> finalize_env \<Rightarrow> finalizing_attempt \<Rightarrow> log_summary
     \<Rightarrow> (finalization_error, complete_attempt_request) task" where
  "prepare_completion x allow env attempt logs =
     (if \<not> fz_owns_workspace attempt then give (Inl Fe_Identity)
      else then_do (task_err Fe_Authority (while_finalizing (completion_body x allow env attempt logs))) give)"

section \<open>A sealed completion is durable\<close>

text \<open>A completion of the attempt that every later reading of the record will find.\<close>

definition sealed_in :: "'x journal_externals_scheme \<Rightarrow> attempt_authority \<Rightarrow> complete_attempt_request \<Rightarrow> journal \<Rightarrow> bool" where
  "sealed_in x identity q j \<longleftrightarrow>
     ca_authority q = Some identity \<and> completion_digest x q = Inr (ca_payload_sha256 q)
     \<and> (\<exists>r. q \<in> set (submitted r) \<and> evidence_kept x (aa_attempt_id identity) (Some r) j)"

lemma validated_digest:
  "is_ok (validate_completion_request x q) \<Longrightarrow> completion_digest x q = Inr (ca_payload_sha256 q)"
  by (auto simp: validate_completion_request_def and_then_def is_ok_def split: if_splits sum.splits)

lemma persisted_sealed:
  assumes "journal_codec x" and "dir_sound (jn_directory j)" and "ca_authority q = Some identity"
  shows "persist_completion x env q j = (Inr (), j') \<Longrightarrow> sealed_in x identity q j'"
    and "supersede_rejected_completion x env q j = (Inr (), j') \<Longrightarrow> sealed_in x identity q j'"
proof -
  assume run: "persist_completion x env q j = (Inr (), j')"
  then have "update_attempt x env (aa_attempt_id identity) (persist_completion_step x identity q) j = (Inr (), j')"
    and "is_ok (validate_completion_request x q)"
    using assms(3) by (auto simp: persist_completion_def split: if_splits)
  then show "sealed_in x identity q j'"
    unfolding sealed_in_def using assms(3) validated_digest
    by (intro conjI update_result_kept [OF assms(1,2)])
      (auto simp: persist_completion_step_def Let_def submitted_def split: if_splits option.splits)
next
  assume run: "supersede_rejected_completion x env q j = (Inr (), j')"
  then have "update_attempt x env (aa_attempt_id identity) (supersede_step identity q) j = (Inr (), j')"
    and "is_ok (validate_completion_request x q)"
    using assms(3) by (auto simp: supersede_rejected_completion_def split: if_splits)
  then show "sealed_in x identity q j'"
    unfolding sealed_in_def using assms(3) validated_digest
    by (intro conjI update_result_kept [OF assms(1,2)])
      (auto simp: supersede_step_def submitted_def and_then_def ok_or_def split: if_splits option.splits sum.splits)
qed

lemma seal_Inr:
  assumes "seal x fill persist draft w = (Ready (Inr q), w')"
  shows "async_do x (\<lambda>env. persist env q) w = (Ready (Inr ()), w')"
    and "\<exists>id digest. q = draft\<lparr>ca_completion_id := id, ca_payload_sha256 := digest\<rparr>"
  using assms by (auto simp: seal_def Let_def then_do_Inr task_err_Inr split: sum.splits)

lemma seal_sealed:
  assumes "journal_codec x" and "dir_sound (jn_directory (wd_journal w))" and "ca_authority draft = Some identity"
    and "seal x fill persist draft w = (Ready (Inr q), w')"
    and "persist = persist_completion x \<or> persist = supersede_rejected_completion x"
  shows "sealed_in x identity q (wd_journal w')"
proof -
  obtain env j where "persist (env (0::nat)) q j = (Inr (), wd_journal w')" "dir_sound (jn_directory j)"
    using journal_apply_sound [OF seal_Inr(1) [OF assms(4), unfolded async_do_def] assms(1,2)] by blast
  moreover have "ca_authority q = Some identity"
    using seal_Inr(2) [OF assms(4)] assms(3) by auto
  ultimately show ?thesis
    using persisted_sealed [OF assms(1)] assms(5) by blast
qed

lemma seal_dests:
  assumes "journal_codec x" and "dir_sound (jn_directory (wd_journal w))"
  shows "seal x fill (persist_completion x) draft w = (Ready (Inr q), w') \<Longrightarrow> sealed_in x (the (ca_authority draft)) q (wd_journal w') \<or> ca_authority draft = None"
    and "seal x fill (supersede_rejected_completion x) draft w = (Ready (Inr q), w') \<Longrightarrow>
      sealed_in x (the (ca_authority draft)) q (wd_journal w') \<or> ca_authority draft = None"
  using seal_sealed [OF assms] by auto

lemma loaded_sealed:
  assumes "journal_codec x" and "dir_sound (jn_directory j)" and "load_attempt x env (aa_attempt_id identity) j = Inr (Some saved)"
    and "ar_completion saved = Some q" and "ar_authority saved = Some identity"
  shows "sealed_in x identity q j"
proof -
  have "completion_ok x saved"
    using assms(3) by (auto simp: load_attempt_def Record_validate_def record_ok_def split: if_splits sum.splits option.splits)
  then have "ca_authority q = Some identity" "is_ok (validate_completion_request x q)"
    using assms(4,5) by (auto simp: completion_ok_def)
  moreover have "q \<in> set (submitted saved)"
    using assms(4) by (simp add: submitted_def)
  ultimately show ?thesis
    unfolding sealed_in_def using loaded_kept [OF assms(1-3)] validated_digest by blast
qed

lemma load_owned_Inr:
  assumes "load_owned x identity w = (Ready (Inr saved), w')"
  shows "task_err Fe_Journal (async_load x (aa_attempt_id identity)) w = (Ready (Inr (Some saved)), w')"
    and "ar_authority saved = Some identity"
  using assms by (auto simp: load_owned_def then_do_Inr give_def split: option.splits if_splits)

lemma owned_sealed:
  assumes "journal_codec x" and "dir_sound (jn_directory (wd_journal w))"
    and "then_do (load_owned x identity) f w = (Ready (Inr q), w')"
    and "\<And>saved w1. f saved w1 = (Ready (Inr q), w') \<Longrightarrow> dir_sound (jn_directory (wd_journal w1)) \<Longrightarrow>
       (ar_completion saved = Some q \<and> w' = w1) \<or> sealed_in x identity q (wd_journal w')"
  shows "sealed_in x identity q (wd_journal w')"
proof -
  obtain saved w1 where load: "load_owned x identity w = (Ready (Inr saved), w1)" and rest: "f saved w1 = (Ready (Inr q), w')"
    using assms(3) unfolding then_do_Inr by blast
  note l = load_owned_Inr [OF load]
  have sound: "dir_sound (jn_directory (wd_journal w1))"
    by (rule async_load_sound [OF l(1) assms(1,2)])
  obtain env where "load_attempt x env (aa_attempt_id identity) (wd_journal w1) = Inr (Some saved)"
    using async_load_Inr(1) [OF l(1)] by blast
  then show ?thesis
    using assms(4) [OF rest sound] loaded_sealed [OF assms(1) sound _ _ l(2)] by blast
qed

lemma saved_completion_Inr: "saved_completion reason q' = Inr q \<longleftrightarrow> q' = q \<and> ca_reason q = reason_i32 reason \<and> ca_stopped q"
  by (auto simp: saved_completion_def)

lemma unlaunched_sealed:
  assumes "journal_codec x" and "dir_sound (jn_directory (wd_journal w))"
    and "prepare_unlaunched_failure x fill identity reason w = (Ready (Inr q), w')"
  shows "sealed_in x identity q (wd_journal w')"
  using assms(1,2,3) [unfolded prepare_unlaunched_failure_def]
  by (rule owned_sealed)
    (auto simp: saved_completion_Inr split: if_splits option.splits dest: seal_dests [OF assms(1)])

lemma removed_sealed:
  assumes "journal_codec x" and "dir_sound (jn_directory (wd_journal w))"
    and "prepare_removed_launch_failure x fill identity w = (Ready (Inr q), w')"
  shows "sealed_in x identity q (wd_journal w')"
  using assms(1,2,3) [unfolded prepare_removed_launch_failure_def]
  by (rule owned_sealed)
    (auto simp: saved_completion_Inr split: if_splits option.splits dest: seal_dests [OF assms(1)])

lemma cancelled_sealed:
  assumes "journal_codec x" and "dir_sound (jn_directory (wd_journal w))"
    and "prepare_cancelled_completion x fill identity cleanup w = (Ready (Inr q), w')"
  shows "sealed_in x identity q (wd_journal w')"
  using assms(1,2,3) [unfolded prepare_cancelled_completion_def Let_def]
  by (rule owned_sealed)
    (auto split: if_splits option.splits dest: seal_dests [OF assms(1)])

lemma await_Inr:
  assumes "await want w = (Ready (Inr a), w')"
  shows "\<exists>b. wd_answers w = b # wd_answers w' \<and> want b = Some a \<and> wd_journal w' = wd_journal w \<and> wd_calls w' = wd_calls w"
  using assms by (auto simp: await_def split: list.splits answer.splits option.splits)

lemma while_finalizing_Inr:
  assumes "while_finalizing m w = (Ready (Inr r), w')"
  shows "\<exists>wa wb. m wa = (Ready r, wb) \<and> wd_journal wa = wd_journal w \<and> wd_journal w' = wd_journal wb
    \<and> (\<exists>pre. wd_answers w = pre @ wd_answers wa)"
proof -
  have live_check: "wd_journal v' = wd_journal v \<and> (\<exists>pre. wd_answers v = pre @ wd_answers v')"
    if "stopped_as_error check_live v = (p, v')" for v p v'
    using that by (auto simp: stopped_as_error_def check_live_def await_def split: list.splits answer.splits option.splits)
  have check: "wd_journal v' = wd_journal v \<and> (\<exists>pre. wd_answers v = pre @ wd_answers v')"
    if "deadline_check v = (p :: ('a, unit) poll, v')" for v p v'
    using that by (auto simp: deadline_check_def await_def split: list.splits answer.splits option.splits)
  obtain v1 v2 a b where live: "stopped_as_error check_live w = (Ready (Inr a), v1)"
    "stopped_as_error (then_do deadline_check (\<lambda>_. on_ready m (\<lambda>r. then_do deadline_check (\<lambda>_. give r)))) v1 = (Ready (Inr r), v2)"
    "stopped_as_error check_live v2 = (Ready (Inr b), w')"
    using assms unfolding while_finalizing_def live_task_def then_do_Inr by auto
  then have inner: "then_do deadline_check (\<lambda>_. on_ready m (\<lambda>r. then_do deadline_check (\<lambda>_. give r))) v1 = (Ready r, v2)"
    by (auto simp: stopped_as_error_def split: prod.splits poll.splits)
  then obtain wa wb where "deadline_check v1 = (Ready (Inr ()) :: ('a, unit) poll, wa)" "m wa = (Ready r, wb)"
    "deadline_check wb = (Ready (Inr ()) :: ('a, unit) poll, v2)"
    by (auto simp: then_do_def on_ready_def deadline_check_def await_def split: prod.splits poll.splits sum.splits list.splits answer.splits option.splits)
  then show ?thesis
    using check live_check [OF live(1)] live_check [OF live(3)] by (metis append_assoc)
qed

lemma deliver_output_performs [performs_intro]: "performs x (\<lambda>_. True) (deliver_output x allow key name source)"
  unfolding deliver_output_def output_finalize_request_def Let_def by (auto intro!: performs_intro split: option.split)

lemma prepare_output_performs [performs_intro]:
  "performs x allowed (async_do x (\<lambda>env. prepare_output x env key name bytes sha256))"
  unfolding prepare_output_def by (rule async_do_operation) (metis journal_step.simps(14))

lemma upload_round_performs [performs_intro]: "performs x (\<lambda>_. True) (upload_round x allow key name clone)"
  unfolding upload_round_def by (auto intro!: performs_intro split: option.split sum.split upload_error.split)

lemma upload_rounds_performs [performs_intro]: "performs x (\<lambda>_. True) (upload_rounds x allow key name clones further)"
  by (induction further) (auto intro!: performs_intro simp: sleep_task_def split: sum.split prod.split)

lemma deliver_outputs_performs [performs_intro]: "performs x (\<lambda>_. True) (deliver_outputs x allow key clones cs s)"
  by (induction cs arbitrary: s) (auto intro!: performs_intro split: sum.split)

lemma collect_task_performs [performs_intro]: "performs x (\<lambda>_. True) (collect_task x' execution)"
  unfolding collect_task_def by (intro performs_intro)

text \<open>How a completion came about: it was there, or the outputs were collected and delivered
  and then it was sealed.\<close>

lemma completion_body_Inr:
  assumes "completion_body x allow env attempt logs w = (Ready (Inr q), w')"
  defines "key \<equiv> aa_attempt_id (fz_identity attempt)"
  obtains (saved) saved w1 where "task_err Fe_Journal (async_load x key) w = (Ready (Inr (Some saved)), w1)"
    "ar_authority saved = Some (fz_identity attempt)" "ar_exit saved = Some (fz_exit attempt)" "ar_completion saved = Some q" "w' = w1"
  | (fresh) saved execution outputs s s' w1 w2 w3 where
    "task_err Fe_Journal (async_load x key) w = (Ready (Inr (Some saved)), w1)"
    "ar_authority saved = Some (fz_identity attempt)" "ar_exit saved = Some (fz_exit attempt)"
    "from_assignment x (ar_assignment saved) = Inr execution" "collect_task x execution w1 = (Ready (Inr (outputs, s)), w2)"
    "deliver_outputs x allow key (fn_clones env) outputs s w2 = (Ready (Inr s'), w3)"
    "seal x (fn_fill env) (persist_completion x) (completion_draft attempt logs s') w3 = (Ready (Inr q), w')"
proof -
  obtain found w1 where load: "task_err Fe_Journal (async_load x key) w = (Ready (Inr found), w1)"
    and rest: "(case found of
          None \<Rightarrow> give (Inl (Fe_Journal J_Invalid))
        | Some saved \<Rightarrow>
            if ar_authority saved \<noteq> Some (fz_identity attempt) \<or> ar_exit saved \<noteq> Some (fz_exit attempt) then give (Inl Fe_Identity)
            else case ar_completion saved of
              Some req \<Rightarrow> give (Inr req)
            | None \<Rightarrow>
                (case from_assignment x (ar_assignment saved) of
                   Inl e \<Rightarrow> give (Inl Fe_Identity)
                 | Inr execution \<Rightarrow>
                     then_do (collect_task x execution) (\<lambda>(outputs, s).
                     then_do (deliver_outputs x allow key (fn_clones env) outputs s) (\<lambda>s'.
                     seal x (fn_fill env) (persist_completion x) (completion_draft attempt logs s'))))) w1 = (Ready (Inr q), w')"
    using assms(1) unfolding completion_body_def Let_def then_do_Inr key_def by blast
  obtain saved where found: "found = Some saved" "ar_authority saved = Some (fz_identity attempt)" "ar_exit saved = Some (fz_exit attempt)"
    using rest by (auto split: option.splits if_splits)
  show ?thesis
  proof (cases "ar_completion saved")
    case (Some c)
    then show ?thesis
      using rest found load that(1) by auto
  next
    case None
    then obtain execution where execution: "from_assignment x (ar_assignment saved) = Inr execution"
      using rest found by (auto split: sum.splits)
    then show ?thesis
      using rest found load None that(2) [OF _ found(2,3) execution] by (auto simp: then_do_Inr)
  qed
qed

lemma completion_sealed:
  assumes "journal_codec x" and "dir_sound (jn_directory (wd_journal w))"
    and "prepare_completion x allow env attempt logs w = (Ready (Inr q), w')"
  shows "sealed_in x (fz_identity attempt) q (wd_journal w')"
proof -
  have "while_finalizing (completion_body x allow env attempt logs) w = (Ready (Inr (Inr q)), w')"
    using assms(3) by (auto simp: prepare_completion_def then_do_Inr task_err_Inr give_def split: if_splits)
  then obtain wa wb where run: "completion_body x allow env attempt logs wa = (Ready (Inr q), wb)"
    and same: "wd_journal wa = wd_journal w" "wd_journal w' = wd_journal wb"
    using while_finalizing_Inr by blast
  from run have "sealed_in x (fz_identity attempt) q (wd_journal wb)"
  proof (cases rule: completion_body_Inr)
    case (saved saved w1)
    then show ?thesis
      using loaded_sealed [OF assms(1) async_load_sound [OF saved(1) assms(1)]] async_load_Inr(1) [OF saved(1)] same(1) assms(2) by auto
  next
    case (fresh saved execution outputs s s' w1 w2 w3)
    have "dir_sound (jn_directory (wd_journal w1))"
      using async_load_sound [OF fresh(1) assms(1)] same(1) assms(2) by simp
    then have "dir_sound (jn_directory (wd_journal w3))"
      using performs_sound [OF collect_task_performs fresh(5) assms(1)] performs_sound [OF deliver_outputs_performs fresh(6) assms(1)] by blast
    then show ?thesis
      using seal_dests(1) [OF assms(1) _ fresh(7)] by (auto simp: completion_draft_def)
  qed
  then show ?thesis
    using same(2) by simp
qed

text \<open>A completion the worker goes on to report is durable before it is returned. Whatever
  ended the attempt, a failure before or during the launch, a cancellation or an observed exit,
  the request that is returned carries the identity of the attempt and the digest of its own
  content, and every later successful read of the attempt, after any journal operations, restarts
  and power failures, finds it as the current or the superseded completion: a report that is sent
  is one the journal replays.\<close>

theorem sealed_completion_is_durable:
  assumes "journal_codec x" and "intact dir" and "Journal_open x env worker limits dir = (Inr j0, dir')"
    and "wd_journal w0 = foldl (journal_step x) j0 before"
    and "prepare_unlaunched_failure x fill identity reason w0 = (Ready (Inr q), w1)
      \<or> prepare_removed_launch_failure x fill identity w0 = (Ready (Inr q), w1)
      \<or> prepare_cancelled_completion x fill identity cleanup w0 = (Ready (Inr q), w1)
      \<or> prepare_completion x allow fenv attempt logs w0 = (Ready (Inr q), w1) \<and> fz_identity attempt = identity"
    and "load_attempt x renv (aa_attempt_id identity) (foldl (journal_step x) (wd_journal w1) after) = Inr found"
  shows "ca_authority q = Some identity \<and> completion_digest x q = Inr (ca_payload_sha256 q)
    \<and> (\<exists>rec. found = Some rec \<and> (ar_completion rec = Some q \<or> ar_rejected_completion rec = Some q))"
proof -
  have sound: "dir_sound (jn_directory (wd_journal w0))"
    using history_sound [OF assms(1-3)] assms(4) by simp
  have "sealed_in x identity q (wd_journal w1)"
    using assms(5) unlaunched_sealed [OF assms(1) sound] removed_sealed [OF assms(1) sound] cancelled_sealed [OF assms(1) sound]
      completion_sealed [OF assms(1) sound]
    by auto
  then obtain r where r: "q \<in> set (submitted r)" "evidence_kept x (aa_attempt_id identity) (Some r) (wd_journal w1)"
    and q: "ca_authority q = Some identity" "completion_digest x q = Inr (ca_payload_sha256 q)"
    by (auto simp: sealed_in_def)
  have "evidence_kept x (aa_attempt_id identity) (Some r) (foldl (journal_step x) (wd_journal w1) after)"
    using journaling.run_keeps [OF r(2)] assms(1) by simp
  then obtain rec where rec: "found = Some rec" "record_le r rec"
    using same_record [OF assms(1) _ assms(6)] by blast
  then have "q \<in> set (submitted rec)"
    using r(1) set_mono_prefix [of "submitted r" "submitted rec"] by (auto simp: record_le_def)
  then show ?thesis
    using q rec(1) by (auto simp: submitted_def split: option.splits)
qed

section \<open>Examples\<close>

text \<open>A container that was created and never started, and the completion sealed for it.\<close>

definition sealed_request :: complete_attempt_request where
  "sealed_request =
     \<lparr>ca_authority = Some launch_identity, ca_completion_id = scene_uuid 9, ca_payload_sha256 = hex (replicate 32 0),
      ca_exit_code = None, ca_reason = reason_i32 failure_reason.RuntimeUnavailable, ca_stopped = True, ca_outputs = [],
      ca_logs_complete = False, ca_gaps = [], ca_metrics_json = []\<rparr>"

definition sealed_record :: attempt_record where
  "sealed_record = (launch_record 2)\<lparr>ar_completion := Some sealed_request\<rparr>"

definition sealing_externals :: transfer_externals where
  "sealing_externals = sample_put_externals
     \<lparr>x_parse := x_parse launch_externals,
      x_encode_record := table_encode [launch_record 2, sealed_record], x_decode_record := table_decode [launch_record 2, sealed_record],
      x_encode_session := x_encode_session launch_externals, x_decode_session := x_decode_session launch_externals\<rparr>"

lemma sealing_codec: "journal_codec sealing_externals"
  by (simp add: journal_codec_def sealing_externals_def launch_externals_def sample_put_externals_def)

lemma sealing_encodes: "x_encode_record sealing_externals (launch_record 2) = []" "x_encode_record sealing_externals sealed_record = [0]"
proof -
  have "distinct [launch_record 2, sealed_record]"
    by (simp add: sealed_record_def launch_record_def fresh_record_def)
  from table_encode_nth [OF this, of 0] table_encode_nth [OF this, of 1]
  show "x_encode_record sealing_externals (launch_record 2) = []" "x_encode_record sealing_externals sealed_record = [0]"
    by (simp_all add: sealing_externals_def)
qed

lemma sealed_request_digest:
  "completion_digest sealing_externals (sealed_request\<lparr>ca_payload_sha256 := h\<rparr>) = Inr (hex (replicate 32 0))"
proof -
  let ?q = "sealed_request\<lparr>ca_payload_sha256 := h\<rparr>"
  have "completion_scalars_ok launch_identity ?q"
    by (simp add: completion_scalars_ok_def sealed_request_def launch_identity_def fixture_authority_def scene_uuid(2) i64_max_def)
  moreover have "completion_reason_ok failure_reason.RuntimeUnavailable ?q"
    by (simp add: completion_reason_ok_def sealed_request_def)
  ultimately have "\<exists>p. completion_payload_of sealing_externals ?q = Inr p"
    by (simp add: completion_payload_of_def sealed_request_def reason_of_def)
  then show ?thesis
    by (auto simp: completion_digest_def sealing_externals_def launch_externals_def sample_put_externals_def)
qed

lemma sealed_request_valid: "validate_completion_request sealing_externals sealed_request = Inr ()"
proof -
  have "ca_payload_sha256 sealed_request = hex (replicate 32 0)"
    by (simp only: sealed_request_def complete_attempt_request.simps)
  moreover have "sealed_request\<lparr>ca_payload_sha256 := hex (replicate 32 0)\<rparr> = sealed_request"
    by (simp only: sealed_request_def complete_attempt_request.simps)
  with sealed_request_digest [of "hex (replicate 32 0)"]
  have "completion_digest sealing_externals sealed_request = Inr (hex (replicate 32 0))"
    by (simp only:)
  ultimately show ?thesis
    using lower_hash_hex [of "replicate 32 0"] by (simp only: validate_completion_request_def and_then_simps) simp
qed

lemma sealing_completion: "completion_ok sealing_externals (launch_record 2)" "completion_ok sealing_externals sealed_record"
  using sealed_request_valid
  by (simp_all add: completion_ok_def superseded_ok_def sealed_record_def launch_record_def fresh_record_def)
    (simp_all add: sealed_request_def launch_assignment_def)

lemma sealing_records: "scene_record sealing_externals (launch_record 2)" "scene_record sealing_externals sealed_record"
proof -
  let ?x = sealing_externals
  have old: "record_ok launch_externals (launch_record 2) (fixture_uuid CHR ''1'') (fixture_uuid CHR ''4'')"
    using launch_record_valid [of 2] by (simp add: scene_record_def Record_validate_def split: if_splits)
  have from_assignment: "from_assignment ?x = from_assignment launch_externals"
  proof -
    have "x_sha256 ?x = x_sha256 launch_externals" "x_parse ?x = x_parse launch_externals"
      by (simp_all add: sealing_externals_def launch_externals_def sample_put_externals_def)
    then show ?thesis
      unfolding fun_eq_iff from_assignment_def check_shape_def by (simp only: simp_thms)
  qed
  have phases: "check_phases sealed_record a n m es ps = check_phases (launch_record 2) a n m es ps" for a n m es ps
    by (induction "launch_record 2" a n m es ps rule: check_phases.induct) (simp_all add: sealed_record_def exit_code_of_def)
  have same: "ar_assignment sealed_record = ar_assignment (launch_record 2)" "ar_outputs sealed_record = []"
    "ar_logs sealed_record = []" "ar_phase_reports sealed_record = ar_phase_reports (launch_record 2)"
    "ar_container_id sealed_record = ar_container_id (launch_record 2)" "ar_exit sealed_record = ar_exit (launch_record 2)"
    "ar_outputs (launch_record 2) = []" "ar_logs (launch_record 2) = []"
    by (simp_all add: sealed_record_def launch_record_def fresh_record_def)
  have "Record_validate ?x (launch_record 2) (fixture_uuid CHR ''1'') (fixture_uuid CHR ''4'') = Inr ()"
    "Record_validate ?x sealed_record (fixture_uuid CHR ''1'') (fixture_uuid CHR ''4'') = Inr ()"
    using old from_assignment phases same sealing_completion
    unfolding Record_validate_def record_ok_def outputs_ok_def logs_ok_def last_phase_def
    by (simp_all only: split: option.splits) simp_all
  then show "scene_record ?x (launch_record 2)" "scene_record ?x sealed_record"
    by (simp_all add: scene_record_def sealing_codec sealing_encodes)
qed

abbreviation sealing_journal :: "attempt_record \<Rightarrow> journal" where
  "sealing_journal r \<equiv> scene sealing_externals None (x_encode_record sealing_externals r) None"

lemma sealing_run:
  "prepare_removed_launch_failure sealing_externals (Some (replicate 16 9)) launch_identity
     \<lparr>wd_journal = sealing_journal (launch_record 2), wd_answers = replicate 2 (Ans_Journal [] (\<lambda>_. quiet_journal_env)), wd_calls = []\<rparr>
   = (Ready (Inr sealed_request), \<lparr>wd_journal = sealing_journal sealed_record, wd_answers = [], wd_calls = []\<rparr>)"
proof -
  have load: "load_attempt sealing_externals (je_read quiet_journal_env) (fixture_uuid CHR ''4'') (sealing_journal (launch_record 2)) = Inr (Some (launch_record 2))"
    using scene_load [OF sealing_records(1)] by (simp add: quiet_journal_env_def)
  have r: "ar_authority (launch_record 2) = Some launch_identity" "ar_container_id (launch_record 2) \<noteq> []" "ar_exit (launch_record 2) = None"
    "last_phase (launch_record 2) = Some (state_i32 Starting)" "ar_completion (launch_record 2) = None"
    by (simp_all add: launch_record_def fresh_record_def launch_assignment_def last_phase_def launch_starting_def fixture_hash_def)
  have q: "ca_authority sealed_request = Some launch_identity" "ca_exit_code sealed_request = None"
    by (simp_all add: sealed_request_def)
  have step: "persist_completion_step sealing_externals launch_identity sealed_request (launch_record 2) = Inr (Some sealed_record, ())"
    using r q sealing_completion(2) by (simp add: persist_completion_step_def Let_def exit_code_of_def sealed_record_def)
  have persist: "persist_completion sealing_externals quiet_journal_env sealed_request (sealing_journal (launch_record 2)) = (Inr (), sealing_journal sealed_record)"
    using scene_update_attempt [where step = "persist_completion_step sealing_externals launch_identity sealed_request"
        and session = None and incarnation = None and q = "()", OF sealing_records _ step] sealed_request_valid q(1)
    by (simp add: persist_completion_def launch_attempt_key)
  let ?w = "\<lambda>r n. \<lparr>wd_journal = sealing_journal r, wd_answers = replicate n (Ans_Journal [] (\<lambda>_. quiet_journal_env)), wd_calls = []\<rparr>"
  have "load_owned sealing_externals launch_identity (?w (launch_record 2) 2) = (Ready (Inr (launch_record 2)), ?w (launch_record 2) 1)"
    using load r(1) unfolding load_owned_def run_simps task_err_def on_ready_def async_load_def
    by (simp add: launch_attempt_key journal_apply_run [where others = "[]" and env = "\<lambda>_. quiet_journal_env"] eval_nat_numeral)
  moreover have "seal sealing_externals (Some (replicate 16 9)) (persist_completion sealing_externals)
      (default_completion\<lparr>ca_authority := Some launch_identity, ca_reason := reason_i32 failure_reason.RuntimeUnavailable, ca_stopped := True\<rparr>)
      (?w (launch_record 2) 1) = (Ready (Inr sealed_request), ?w sealed_record 0)"
  proof -
    have "default_completion\<lparr>ca_authority := Some launch_identity, ca_reason := reason_i32 failure_reason.RuntimeUnavailable, ca_stopped := True,
        ca_completion_id := scene_uuid 9\<rparr> = sealed_request\<lparr>ca_payload_sha256 := []\<rparr>"
      by (simp add: sealed_request_def default_completion_def)
    moreover have "sealed_request\<lparr>ca_payload_sha256 := [], ca_payload_sha256 := hex (replicate 32 0)\<rparr> = sealed_request"
      by (simp only: sealed_request_def complete_attempt_request.simps)
    moreover have "async_do sealing_externals (\<lambda>env. persist_completion sealing_externals env sealed_request) (?w (launch_record 2) 1)
        = (Ready (Inr ()), ?w sealed_record 0)"
      using persist by (simp add: async_do_def journal_apply_run [where others = "[]" and env = "\<lambda>_. quiet_journal_env"])
    ultimately show ?thesis
      by (simp only: seal_def scene_uuid(1) sum.case Let_def sealed_request_digest run_simps task_err_def on_ready_def give_simp map_err_simps)
  qed
  ultimately show ?thesis
    using r by (simp add: prepare_removed_launch_failure_def then_do_apply)
qed

theorem sealed_completion_is_durable_witness:
  "completion_digest sealing_externals sealed_request = Inr (ca_payload_sha256 sealed_request)
   \<and> ar_completion sealed_record = Some sealed_request"
proof -
  have start: "sealing_journal (launch_record 2) = foldl (journal_step sealing_externals) (sample_journal sealing_externals) []"
    by (simp add: scene_start sealing_encodes)
  have sha: "\<forall>b. length (x_sha256 sealing_externals b) = 32"
    using sealing_codec by (simp add: journal_codec_def)
  have load: "load_attempt sealing_externals quiet_read (aa_attempt_id launch_identity)
      (foldl (journal_step sealing_externals) (sealing_journal sealed_record) []) = Inr (Some sealed_record)"
    using scene_load [OF sealing_records(2)] by (simp add: launch_attempt_key)
  have "ar_rejected_completion sealed_record = None"
    by (simp add: sealed_record_def launch_record_def fresh_record_def)
  moreover have "completion_digest sealing_externals sealed_request = Inr (ca_payload_sha256 sealed_request)
      \<and> (\<exists>rec. Some sealed_record = Some rec \<and> (ar_completion rec = Some sealed_request \<or> ar_rejected_completion rec = Some sealed_request))"
  proof -
    let ?w0 = "\<lparr>wd_journal = sealing_journal (launch_record 2), wd_answers = replicate 2 (Ans_Journal [] (\<lambda>_. quiet_journal_env)), wd_calls = []\<rparr>"
    let ?w1 = "\<lparr>wd_journal = sealing_journal sealed_record, wd_answers = [], wd_calls = []\<rparr>"
    have "wd_journal ?w0 = foldl (journal_step sealing_externals) (sample_journal sealing_externals) []"
      and "load_attempt sealing_externals quiet_read (aa_attempt_id launch_identity)
        (foldl (journal_step sealing_externals) (wd_journal ?w1) []) = Inr (Some sealed_record)"
      using start load by (simp_all only: world.simps)
    from sealed_completion_is_durable [OF sealing_codec sample_dir_intact sample_opened [OF sha] this(1) disjI2 [OF disjI1 [OF sealing_run]] this(2)]
    show ?thesis
      by (rule conjunct2)
  qed
  ultimately show ?thesis
    by simp
qed

end
