(* ===== verification/Spec2Isabelle.thy ===== *)
theory Spec2Isabelle
  imports Maintain Log_Summary Control_Calls Completion Execution Datasets Work Dataset_Cache Project_Ids Journal_History Launch_Calls Finalization
begin

text \<open>
  \<^bold>\<open>Dispatch: the worker's durable execution of leased jobs.\<close>

  Dispatch runs batch jobs. A server leases each attempt of a job to a worker for a limited
  time; the worker (\<open>rust/worker/src\<close>) runs the attempt in a container, keeps its authority
  alive by renewing the lease, captures logs, uploads outputs and logs to object storage, and
  reports the result. Everything it may have done is in a journal on disk first, so that a
  crash at any point leads to the same requests again and never to other ones. This
  development models the worker's code and proves what makes it correct.

  \<^bold>\<open>How the code is modelled.\<close> Integers keep their width (\<open>u64\<close> is a 64-bit word, \<open>i32\<close> an
  integer with its range checked), a \<open>Result\<close> is a sum with the error on the left, and the
  fields of a struct become a record with a common prefix. Clocks, random bytes, replies of
  the server, the container runtime and failures of single system calls are arguments, so a
  theorem about all arguments is one about every environment. SHA-256, the JSON and protobuf
  codecs, URL parsing and HTTP header syntax are the fields of \<open>externals\<close> and its
  extensions (\<open>Json\<close>, \<open>Datasets\<close>, \<open>Journal\<close>, \<open>Object_Transfer\<close>); what is assumed of them is
  named where it is used (\<open>journal_codec\<close>: decoding inverts encoding and digests have 32
  bytes). A part with state has a step function, its histories are folds over lists of events,
  and the locale \<open>kept_by_steps\<close> of \<open>Runs\<close>, interpreted once per invariant, carries an
  invariant along them. Asynchronous code is a \<open>task\<close> (\<open>Tasks\<close>): it ends where the answers of
  the environment end, so every cancellation and crash point is covered, and what other tasks
  did to the journal arrives with the answer to each \<open>await\<close> of it.

  \<^bold>\<open>Theories, in the order of use.\<close>

  \<^item> \<open>Rust_Prelude\<close>, \<open>Runs\<close>, \<open>Assoc_Lists\<close>, \<open>Json\<close>: the standard library the sources use,
    histories, maps as association lists, and the boundary to the JSON parser.
  \<^item> \<open>Protocol\<close> (\<open>worker.proto\<close>), \<open>Identity\<close> (UUIDs, digests, authorities, object keys).
  \<^item> \<open>Lease\<close> (\<open>lease.rs\<close>), \<open>Renew\<close> (\<open>control/renew.rs\<close>), \<open>Supervisor\<close> (\<open>supervisor.rs\<close>),
    \<open>Maintain\<close> (\<open>control/renew/maintain.rs\<close>): a window of authority ends before the lease does,
    a batch of renewals is bound to its request, an authority that lapsed or was stopped is
    never resurrected, a refresh is answered only by a batch sent after it, and however the
    renewal task ends its authorities end with it.
  \<^item> \<open>Log_Format\<close> (\<open>log_format.rs\<close>, with the server's decoder \<open>internal/logformat\<close>),
    \<open>Log_Capture\<close>, \<open>Log_Spool\<close>, \<open>Log_Assembler\<close>, \<open>Log_Summary\<close>: from captured chunks to sealed
    segments on disk. Every chunk that entered the capture queue is one of those offered, under
    its number, and the loss is counted; segments decode to what was written, every record of a
    queued segment is an ingested chunk, the spool is bounded and keeps what
    it stored, ranges follow each other without a hole, and every number is delivered or
    reported as lost. The locale \<open>segment_store\<close> is what the assembler needs of the spool.
  \<^item> \<open>Control_Calls\<close>, \<open>Completion\<close> (\<open>control/*.rs\<close>): each call checks its request before it is
    sent and its reply before it is used (locale \<open>checked_rpc\<close>); a completion digest binds the
    evidence, and a success is acknowledged only by an exact reply.
  \<^item> \<open>Execution\<close> (\<open>execution.rs\<close>), \<open>Work\<close> (\<open>control/work.rs\<close>): the specification is the leased
    one, outputs are confined and apart, work comes only with bounded authority, and listing
    ends whatever the server answers.
  \<^item> \<open>Datasets\<close>, \<open>Dataset_Cache\<close> (\<open>dataset_*.rs\<close>): download, staging and cache of inputs; a
    staged tree is the entries of the downloaded archive and the files of the manifest, and a
    job reads exactly the dataset it was assigned.
  \<^item> \<open>Durable_Store\<close> is the contract of a store that survives the process (locale
    \<open>durable_store\<close>); \<open>Journal_Files\<close> (\<open>journal/files.rs\<close>) provides it with write, sync, rename
    and directory sync, each of which may fail, and a power failure that loses what was not
    synced. \<open>Project_Ids\<close> (\<open>journal/project_ids.rs\<close>) builds on it.
  \<^item> \<open>Journal_Record\<close>, \<open>Journal\<close>, \<open>Journal_Uploads\<close>, \<open>Journal_Session\<close> (\<open>journal.rs\<close>,
    \<open>journal/logs.rs\<close>, \<open>journal/uploads.rs\<close>, \<open>journal/uploads/multipart.rs\<close>, \<open>journal/session.rs\<close>):
    the attempt records, their validation and every operation on them. \<open>Journal_History\<close> proves
    that evidence only grows (locale \<open>evidence_step\<close>, interpreted for each operation) along all
    histories with disk failures, restarts and power failures. \<open>Journal_Codec\<close> and
    \<open>Journal_Scenario\<close> hold a concrete codec and journal for the examples.
  \<^item> \<open>Object_Transfer\<close> (\<open>transfer.rs\<close>), \<open>Outputs\<close> (\<open>outputs.rs\<close>): a PUT that reports a version
    stored the declared bytes and takes the version from the one header of a successful reply;
    collected outputs are the declared files, found from the workspace's own output directory
    without following links.
  \<^item> \<open>Tasks\<close> (\<open>journal/asynchronous.rs\<close>, \<open>while_live\<close>), \<open>Delivery\<close> (\<open>upload.rs\<close>,
    \<open>log_delivery.rs\<close>, \<open>completion.rs\<close>), \<open>Launch\<close> and \<open>Launch_Calls\<close> (\<open>launch.rs\<close>): once a
    finalization was asked for nothing is uploaded again, a final reply is durable before it is
    returned, an attempt is launched at most once, its container is durable before it starts,
    and a launch that fails says truthfully whether it asked for a container.
  \<^item> \<open>Finalization\<close> (\<open>finalization.rs\<close>): the end of an attempt, from collected outputs to the
    completion request; a request that is returned to be reported is durable
    (\<open>sealed_completion_is_durable\<close>).

  \<^bold>\<open>Bounds.\<close> Loops over data are structural or have a termination proof. The loop that reports
  \<open>STARTING\<close> runs for a number of rounds: one more than the answers that are left is enough
  (\<open>report_starting_enough\<close>), since each round takes one. The supervisor's loops take the list of
  their rounds and are \<open>None\<close> when it ends before they return.

  \<^bold>\<open>Not modelled.\<close> The rest of \<open>launch/run.rs\<close>, \<open>log_live.rs\<close> and \<open>log_publish.rs\<close> select over
  several futures at once (the observation of the container, the capture, the publisher and the
  reports); a \<open>task\<close> here runs one of them at a time. \<open>publish_finished_logs\<close> of
  \<open>finalization.rs\<close> is left out: its loop is \<open>deliver_log\<close> for each queued segment, then
  \<open>summarize\<close>, both modelled, over a capture that \<open>log_live.rs\<close> or the container runtime hands
  it. The Docker client (\<open>runtime.rs\<close>, \<open>runtime/*.rs\<close>), the quota calls
  (\<open>project_quota.rs\<close>, \<open>agent/quota.rs\<close>) and the main loop
  (\<open>agent.rs\<close>, \<open>agent/acquisition.rs\<close>, \<open>agent/workspace.rs\<close>, \<open>main.rs\<close>) are mostly calls of the
  operating system, of Docker or of tokio. The server and the command line client
  (\<open>internal\<close>, \<open>cmd\<close>, \<open>migrations\<close>) are a separate program whose state is in PostgreSQL;
  its log decoder is the one part modelled here. \<open>Display\<close> and \<open>Debug\<close> texts, the
  construction of HTTP and gRPC clients and generated protobuf code are left out.
\<close>

section \<open>Where the journal is stricter than the code around it expects\<close>

text \<open>C40. After a rejected completion was superseded by a cancellation, an exit that had not been
  observed before can not be recorded any more: the record with the exit would contradict the
  exit code the rejected request claimed, and \<open>record_exit\<close> fails and leaves the journal as it is.\<close>

theorem exit_after_supersede_refused:
  assumes "load_attempt x (je_read env) key j = Inr (Some rec)" and "ar_rejected_completion rec = Some previous"
    and "ca_exit_code previous = None"
  shows "\<exists>e. record_exit x env key code oom j = (Inl e, j)"
proof -
  have "superseded_ok x rec"
    using assms(1)
    by (auto simp: load_attempt_def Record_validate_def Journal_Record.record_ok_def completion_ok_def split: if_splits sum.splits option.splits)
  then have "ar_exit rec = None"
    using assms(2,3) by (auto simp: superseded_ok_def exit_code_of_def split: option.splits)
  moreover have "Record_validate x (rec\<lparr>ar_exit := Some e\<rparr>) worker key' = Inl J_Invalid" for e worker key'
  proof -
    have "\<not> superseded_ok x (rec\<lparr>ar_exit := Some e\<rparr>)"
      using assms(2,3) by (auto simp: superseded_ok_def exit_code_of_def split: option.splits)
    then show ?thesis
      by (simp add: Record_validate_def Journal_Record.record_ok_def completion_ok_def split: option.split)
  qed
  ultimately show ?thesis
    using assms(1)
    by (simp add: record_exit_def update_attempt_def required_def record_exit_step_def Let_def save_def)
qed

text \<open>A full list of log segments refuses the next one, and the caller that publishes the logs of
  a finished attempt passes this error on.\<close>

lemma full_log_list_refuses:
  assumes "1024 \<le> length (ar_logs rec)"
    and "\<forall>s \<in> set (ar_logs rec). lu_stream s = stream_i32 stream \<longrightarrow> lu_first_sequence s \<noteq> first"
  shows "prepare_log_step fill stream first lst gaps bytes sha256 rec = Inl J_Invalid"
proof -
  have "find (\<lambda>s. lu_stream s = stream_i32 stream \<and> lu_first_sequence s = first) (ar_logs rec) = None"
    using assms(2) by (auto simp: find_None_iff)
  then show ?thesis
    using assms(1) by (simp add: prepare_log_step_def Let_def)
qed

section \<open>Examples\<close>

definition superseding :: "char \<Rightarrow> failure_reason \<Rightarrow> complete_attempt_request" where
  "superseding c reason =
     \<lparr>ca_authority = Some launch_identity, ca_completion_id = fixture_uuid c, ca_payload_sha256 = hex (replicate 32 0),
      ca_exit_code = None, ca_reason = reason_i32 reason, ca_stopped = True, ca_outputs = [], ca_logs_complete = False,
      ca_gaps = [], ca_metrics_json = []\<rparr>"

definition superseded_record :: attempt_record where
  "superseded_record = (launch_record 2)
     \<lparr>ar_completion := Some (superseding CHR ''6'' UserCancelled), ar_rejected_completion := Some (superseding CHR ''5'' failure_reason.RuntimeUnavailable),
      ar_rejected_response := Some \<lparr>cc_decision = decision_i32 StopRequested, cc_state = state_i32 Starting, cc_accepted_manifest_json = []\<rparr>\<rparr>"

definition superseded_externals :: journal_externals where
  "superseded_externals = launch_externals
     \<lparr>x_encode_record := table_encode [superseded_record], x_decode_record := table_decode [superseded_record]\<rparr>"

lemma superseding_valid:
  assumes "reason = failure_reason.RuntimeUnavailable \<or> reason = UserCancelled" and "c = CHR ''5'' \<or> c = CHR ''6''"
  shows "validate_completion_request superseded_externals (superseding c reason) = Inr ()"
proof -
  have "completion_scalars_ok launch_identity (superseding c reason)"
    using assms(2) by (auto simp: completion_scalars_ok_def superseding_def launch_identity_def fixture_authority_def scene_uuid(2) i64_max_def)
  moreover have "completion_reason_ok reason (superseding c reason)"
    using assms(1) by (auto simp: completion_reason_ok_def superseding_def)
  ultimately have "\<exists>p. completion_payload_of superseded_externals (superseding c reason) = Inr p"
    by (simp add: completion_payload_of_def superseding_def)
  then have "completion_digest superseded_externals (superseding c reason) = Inr (hex (replicate 32 0))"
    by (auto simp: completion_digest_def superseded_externals_def launch_externals_def)
  moreover have "ca_payload_sha256 (superseding c reason) = hex (replicate 32 0)"
    by (simp only: superseding_def complete_attempt_request.simps)
  ultimately show ?thesis
    using lower_hash_hex [of "replicate 32 0"] by (simp only: validate_completion_request_def and_then_simps) simp
qed

lemma superseded_loaded:
  "load_attempt superseded_externals quiet_read (fixture_uuid CHR ''4'') (sample_journal superseded_externals) = Inr (Some superseded_record)"
proof (rule sample_loaded_record)
  let ?x = superseded_externals
  show "\<forall>b. length (x_sha256 ?x b) = 32" "x_decode_record ?x [] = Some superseded_record" "x_encode_record ?x superseded_record = []"
    using table_encode_nth [of "[superseded_record]" 0]
    by (simp_all add: superseded_externals_def launch_externals_def table_decode_def)
  have "Journal_Record.record_ok launch_externals (launch_record 2) (fixture_uuid CHR ''1'') (fixture_uuid CHR ''4'')"
    using launch_record_valid [of 2] by (simp add: scene_record_def Record_validate_def split: if_splits)
  moreover have "check_phases superseded_record a n m es ps = check_phases (launch_record 2) a n m es ps" for a n m es ps
    by (induction "launch_record 2" a n m es ps rule: check_phases.induct) (simp_all add: superseded_record_def exit_code_of_def)
  moreover have "from_assignment ?x = from_assignment launch_externals"
  proof -
    have "x_sha256 ?x = x_sha256 launch_externals" "x_parse ?x = x_parse launch_externals"
      by (simp_all add: superseded_externals_def)
    then show ?thesis
      unfolding fun_eq_iff from_assignment_def check_shape_def by (simp only: simp_thms)
  qed
  moreover have "ar_assignment superseded_record = ar_assignment (launch_record 2)" "ar_outputs superseded_record = []"
    "ar_logs superseded_record = []" "ar_phase_reports superseded_record = ar_phase_reports (launch_record 2)"
    "ar_container_id superseded_record = ar_container_id (launch_record 2)" "ar_exit superseded_record = ar_exit (launch_record 2)"
    by (simp_all add: superseded_record_def launch_record_def fresh_record_def)
  moreover have "completion_ok ?x superseded_record"
    using superseding_valid
    by (simp add: completion_ok_def superseded_ok_def superseded_record_def validate_completion_response_def decision_of_def state_of_def
        is_active_def)
      (simp add: superseding_def launch_record_def fresh_record_def launch_assignment_def exit_code_of_def fixture_uuid_def reason_of_def)
  ultimately show "Record_validate ?x superseded_record (fixture_uuid CHR ''1'') (fixture_uuid CHR ''4'') = Inr ()"
    unfolding Record_validate_def Journal_Record.record_ok_def outputs_ok_def logs_ok_def last_phase_def
    by (simp only: split: option.splits) simp
qed

theorem exit_after_supersede_refused_witness:
  "\<exists>e. record_exit superseded_externals quiet_journal_env (fixture_uuid CHR ''4'') 0 False (sample_journal superseded_externals)
     = (Inl e, sample_journal superseded_externals)"
proof (rule exit_after_supersede_refused [where previous = "superseding CHR ''5'' failure_reason.RuntimeUnavailable"])
  show "load_attempt superseded_externals (je_read quiet_journal_env) (fixture_uuid CHR ''4'') (sample_journal superseded_externals)
      = Inr (Some superseded_record)"
    using superseded_loaded by (simp add: quiet_journal_env_def)
qed (simp_all add: superseded_record_def superseding_def)

end
